(* ===== verification/Prelude.thy ===== *)
theory Prelude
  imports Main "HOL-Library.Word" "HOL-Library.Signed_Division" "HOL-Library.Char_ord"
    "HOL-Library.List_Lexorder"
begin

text \<open>
  What every component of the development shares: results of \<open>std::expected\<close>, the
  three-way comparison, \<open>std::map\<close> with a comparison object, the checked operations of the
  128-bit integer \<open>Wide\<close>, and \<open>std::to_string\<close>.
\<close>

unbundle bit_operations_syntax

named_theorems result_simps \<open>rewrite rules that take a result apart\<close>

section \<open>Results\<close>

text \<open>
  \<open>std::expected<T, E>\<close> is \<open>'e + 'a\<close>, the error on the left. The code's
  \<open>if (!x) return std::unexpected(x.error());\<close> followed by a use of \<open>*x\<close> is
  \<open>bind_ok x (\<lambda>v. ...)\<close>.
\<close>

definition bind_ok :: "'e + 'a \<Rightarrow> ('a \<Rightarrow> 'e + 'b) \<Rightarrow> 'e + 'b" where
  "bind_ok m f = (case m of Inl e \<Rightarrow> Inl e | Inr x \<Rightarrow> f x)"

lemma bind_ok_simps [simp]:
  "bind_ok (Inl e) f = Inl e"
  "bind_ok (Inr x) f = f x"
  by (simp_all add: bind_ok_def)

lemma bind_ok_cong [fundef_cong]:
  assumes "m = m'" and "\<And>x. m' = Inr x \<Longrightarrow> f x = g x"
  shows "bind_ok m f = bind_ok m' g"
  using assms by (auto simp: bind_ok_def split: sum.split)

lemma bind_ok_eq_Inr [simp]: "bind_ok m f = Inr y \<longleftrightarrow> (\<exists>x. m = Inr x \<and> f x = Inr y)"
  by (auto simp: bind_ok_def split: sum.split)

lemma bind_ok_eq_Inl:
  "bind_ok m f = Inl e \<longleftrightarrow> m = Inl e \<or> (\<exists>x. m = Inr x \<and> f x = Inl e)"
  by (auto simp: bind_ok_def split: sum.split)

lemma if_eq_Inr [simp]:
  "(if b then Inl e else x) = Inr y \<longleftrightarrow> \<not> b \<and> x = Inr y"
  "(if b then x else Inl e) = Inr y \<longleftrightarrow> b \<and> x = Inr y"
  by auto

definition is_ok :: "'e + 'a \<Rightarrow> bool" where
  "is_ok m \<longleftrightarrow> (case m of Inl _ \<Rightarrow> False | Inr _ \<Rightarrow> True)"

lemma is_ok_simps [simp]: "is_ok (Inr x)" "\<not> is_ok (Inl e)"
  by (simp_all add: is_ok_def)

lemma is_ok_iff: "is_ok m \<longleftrightarrow> (\<exists>x. m = Inr x)"
  by (cases m) auto

section \<open>Three-way comparison\<close>

text \<open>\<open>std::strong_ordering\<close>, and \<open><=>\<close> on an ordered type.\<close>

datatype ordering = Ord_Less | Ord_Equal | Ord_Greater

definition three_way :: "'a::linorder \<Rightarrow> 'a \<Rightarrow> ordering" where
  "three_way x y = (if x < y then Ord_Less else if x = y then Ord_Equal else Ord_Greater)"

text \<open>\<open>if (order != 0) return order;\<close> followed by the next criterion.\<close>

definition then_by :: "ordering \<Rightarrow> ordering \<Rightarrow> ordering" where
  "then_by a b = (if a = Ord_Equal then b else a)"

fun reversed :: "ordering \<Rightarrow> ordering" where
  "reversed Ord_Less = Ord_Greater"
| "reversed Ord_Equal = Ord_Equal"
| "reversed Ord_Greater = Ord_Less"

lemma three_way_simps [simp]:
  "three_way x y = Ord_Less \<longleftrightarrow> x < y"
  "three_way x y = Ord_Equal \<longleftrightarrow> x = y"
  "three_way x y = Ord_Greater \<longleftrightarrow> y < x"
  "three_way x x = Ord_Equal"
  by (auto simp: three_way_def)

lemma then_by_simps [simp]:
  "then_by a b = Ord_Equal \<longleftrightarrow> a = Ord_Equal \<and> b = Ord_Equal"
  "then_by Ord_Equal b = b"
  "then_by Ord_Less b = Ord_Less"
  "then_by Ord_Greater b = Ord_Greater"
  by (auto simp: then_by_def)

lemma then_by_eq_Less:
  "then_by a b = Ord_Less \<longleftrightarrow> a = Ord_Less \<or> a = Ord_Equal \<and> b = Ord_Less"
  by (auto simp: then_by_def)

lemma reversed_three_way [simp]: "reversed (three_way x y) = three_way y x"
  by (auto simp: three_way_def)

lemma reversed_then_by [simp]: "reversed (then_by a b) = then_by (reversed a) (reversed b)"
  by (cases a) auto

lemma reversed_eq [simp]:
  "reversed a = Ord_Equal \<longleftrightarrow> a = Ord_Equal"
  "reversed a = Ord_Less \<longleftrightarrow> a = Ord_Greater"
  "reversed a = Ord_Greater \<longleftrightarrow> a = Ord_Less"
  by (cases a; simp)+

text \<open>
  The contract of a comparison used as the order of a container: a strict weak order. Terms
  that compare equal need not be identical, so equality is not part of it.
\<close>

locale comparison =
  fixes cmp :: "'k \<Rightarrow> 'k \<Rightarrow> ordering"
  assumes cmp_refl: "cmp x x = Ord_Equal"
    and cmp_sym: "cmp y x = reversed (cmp x y)"
    and cmp_less_trans: "cmp x y = Ord_Less \<Longrightarrow> cmp y z = Ord_Less \<Longrightarrow> cmp x z = Ord_Less"
    and cmp_equal_left: "cmp x y = Ord_Equal \<Longrightarrow> cmp x z = cmp y z"
begin

lemma cmp_equal_right: "cmp x y = Ord_Equal \<Longrightarrow> cmp z x = cmp z y"
  using cmp_equal_left cmp_sym by metis

lemma cmp_equal_trans: "cmp x y = Ord_Equal \<Longrightarrow> cmp y z = Ord_Equal \<Longrightarrow> cmp x z = Ord_Equal"
  using cmp_equal_left by metis

lemma less_irrefl: "cmp x x \<noteq> Ord_Less"
  by (simp add: cmp_refl)

lemma less_asym: "cmp x y = Ord_Less \<Longrightarrow> cmp y x \<noteq> Ord_Less"
  using cmp_sym [of y x] by auto

lemma neither_less_iff: "cmp x y \<noteq> Ord_Less \<and> cmp y x \<noteq> Ord_Less \<longleftrightarrow> cmp x y = Ord_Equal"
  using cmp_sym [of y x] by (cases "cmp x y") auto

end

section \<open>Ordered maps\<close>

text \<open>
  \<open>std::map<K, V, Compare>\<close>: the entries in the order of the comparison object. Two keys
  are the same key when neither is less than the other; a key already stored is kept.
\<close>

type_synonym ('k, 'v) omap = "('k \<times> 'v) list"

fun omap_find :: "('k \<Rightarrow> 'k \<Rightarrow> bool) \<Rightarrow> 'k \<Rightarrow> ('k, 'v) omap \<Rightarrow> 'v option" where
  "omap_find lt k [] = None"
| "omap_find lt k ((a, v) # m) =
     (if lt k a then None else if lt a k then omap_find lt k m else Some v)"

text \<open>\<open>m[k] = v\<close>\<close>

fun omap_put :: "('k \<Rightarrow> 'k \<Rightarrow> bool) \<Rightarrow> 'k \<Rightarrow> 'v \<Rightarrow> ('k, 'v) omap \<Rightarrow> ('k, 'v) omap" where
  "omap_put lt k v [] = [(k, v)]"
| "omap_put lt k v ((a, b) # m) =
     (if lt k a then (k, v) # (a, b) # m
      else if lt a k then (a, b) # omap_put lt k v m
      else (a, v) # m)"

text \<open>\<open>m.emplace(k, v)\<close>: nothing happens where the key is there.\<close>

definition omap_emplace :: "('k \<Rightarrow> 'k \<Rightarrow> bool) \<Rightarrow> 'k \<Rightarrow> 'v \<Rightarrow> ('k, 'v) omap \<Rightarrow> ('k, 'v) omap" where
  "omap_emplace lt k v m =
     (case omap_find lt k m of None \<Rightarrow> omap_put lt k v m | Some _ \<Rightarrow> m)"

fun omap_erase :: "('k \<Rightarrow> 'k \<Rightarrow> bool) \<Rightarrow> 'k \<Rightarrow> ('k, 'v) omap \<Rightarrow> ('k, 'v) omap" where
  "omap_erase lt k [] = []"
| "omap_erase lt k ((a, b) # m) =
     (if lt k a then (a, b) # m
      else if lt a k then (a, b) # omap_erase lt k m
      else m)"

lemma set_omap_put: "set (omap_put lt k v m) \<subseteq> set m \<union> {k} \<times> {v} \<union> fst ` set m \<times> {v}"
  by (induction lt k v m rule: omap_put.induct) (auto split: if_splits)

lemma set_omap_erase: "set (omap_erase lt k m) \<subseteq> set m"
  by (induction lt k m rule: omap_erase.induct) auto

lemma omap_find_Some:
  "omap_find lt k m = Some v \<Longrightarrow> \<exists>a. (a, v) \<in> set m \<and> \<not> lt k a \<and> \<not> lt a k"
  by (induction lt k m rule: omap_find.induct) (auto split: if_splits)

lemma keys_omap_put: "fst ` set (omap_put lt k v m) \<subseteq> insert k (fst ` set m)"
  by (induction lt k v m rule: omap_put.induct) (auto split: if_splits)

text \<open>
  A sum over the entries, and what storing and erasing do to it. Only the entry found may
  change, and its key stands for the same value as the key asked for.
\<close>

definition omap_sum :: "('k \<Rightarrow> 'v \<Rightarrow> int) \<Rightarrow> ('k, 'v) omap \<Rightarrow> int" where
  "omap_sum f m = (\<Sum>(k, v) \<leftarrow> m. f k v)"

lemma omap_sum_simps [simp]:
  "omap_sum f [] = 0"
  "omap_sum f ((k, v) # m) = f k v + omap_sum f m"
  by (simp_all add: omap_sum_def)

lemma omap_sum_append [simp]: "omap_sum f (m @ n) = omap_sum f m + omap_sum f n"
  by (simp add: omap_sum_def)

lemma omap_sum_put:
  assumes "\<And>a w. a \<in> fst ` set m \<Longrightarrow> \<not> lt k a \<Longrightarrow> \<not> lt a k \<Longrightarrow> f a w = f k w"
  shows "omap_sum f (omap_put lt k v m) =
     omap_sum f m + f k v - (case omap_find lt k m of None \<Rightarrow> 0 | Some w \<Rightarrow> f k w)"
  using assms by (induction lt k v m rule: omap_put.induct) (auto split: option.split)

lemma omap_sum_erase:
  assumes "\<And>a w. a \<in> fst ` set m \<Longrightarrow> \<not> lt k a \<Longrightarrow> \<not> lt a k \<Longrightarrow> f a w = f k w"
  shows "omap_sum f (omap_erase lt k m) =
     omap_sum f m - (case omap_find lt k m of None \<Rightarrow> 0 | Some w \<Rightarrow> f k w)"
  using assms by (induction lt k m rule: omap_erase.induct) (auto split: option.split)

lemma omap_sum_cong:
  "(\<And>k v. (k, v) \<in> set m \<Longrightarrow> f k v = g k v) \<Longrightarrow> omap_sum f m = omap_sum g m"
  by (induction m) auto

text \<open>What a strict weak order of the keys gives a map: it stays sorted, and it is a map.\<close>

context comparison
begin

abbreviation cless :: "'k \<Rightarrow> 'k \<Rightarrow> bool" where
  "cless x y \<equiv> cmp x y = Ord_Less"

definition ordered :: "('k, 'v) omap \<Rightarrow> bool" where
  "ordered m \<longleftrightarrow> sorted_wrt cless (map fst m)"

lemma ordered_Nil: "ordered []"
  by (simp add: ordered_def)

lemma ordered_put: "ordered m \<Longrightarrow> ordered (omap_put cless k v m)"
proof (induction cless k v m rule: omap_put.induct)
  case (1 k v)
  then show ?case by (simp add: ordered_def)
next
  case (2 k v a b m)
  show ?case
  proof (cases "cless k a")
    case True
    with 2 show ?thesis by (auto simp: ordered_def intro: cmp_less_trans)
  next
    case not_less: False
    show ?thesis
    proof (cases "cless a k")
      case True
      have "fst ` set (omap_put cless k v m) \<subseteq> insert k (fst ` set m)"
        by (rule keys_omap_put)
      moreover have "\<forall>x \<in> fst ` set m. cless a x" using 2 by (simp add: ordered_def)
      ultimately have "\<forall>x \<in> fst ` set (omap_put cless k v m). cless a x"
        using True by blast
      with True 2 not_less show ?thesis by (simp add: ordered_def)
    next
      case False
      with 2 not_less show ?thesis by (auto simp: ordered_def)
    qed
  qed
qed

lemma ordered_erase: "ordered m \<Longrightarrow> ordered (omap_erase cless k m)"
proof (induction cless k m rule: omap_erase.induct)
  case (2 k a b m)
  then show ?case
    using set_omap_erase [of cless k m] by (fastforce simp: ordered_def)
qed (simp add: ordered_def)

lemma find_put:
  assumes "ordered m"
  shows "omap_find cless k' (omap_put cless k v m) =
    (if cmp k' k = Ord_Equal then Some v else omap_find cless k' m)"
  using assms
proof (induction cless k v m rule: omap_put.induct)
  case (1 k v)
  then show ?case using neither_less_iff [of k' k] less_asym by auto
next
  case (2 k v a b m)
  have m: "ordered m" using 2 by (simp add: ordered_def)
  have eq: "cmp k a = Ord_Equal" if "\<not> cless k a" and "\<not> cless a k"
    using that neither_less_iff by blast
  consider "cless k a" | "\<not> cless k a" "cless a k" | "cmp k a = Ord_Equal"
    using eq by blast
  then show ?case
  proof cases
    case 1
    then show ?thesis
      using neither_less_iff [of k' k] neither_less_iff [of k k'] cmp_equal_left [of k' k a]
        cmp_less_trans [of k' k a] less_asym [of k' k] cmp_sym [of k' k]
      by (auto simp: cmp_refl)
  next
    case 2
    have "cmp k' k = Ord_Equal \<Longrightarrow> cless a k'"
      using 2 cmp_equal_right by metis
    then show ?thesis using 2 "2.hyps" m less_asym by auto
  next
    case 3
    then show ?thesis
      using less_asym cmp_equal_right [of k a k'] neither_less_iff [of k' a] cmp_refl cmp_sym [of k a]
      by auto
  qed
qed

lemma find_erase:
  assumes "ordered m"
  shows "omap_find cless k' (omap_erase cless k m) =
    (if cmp k' k = Ord_Equal then None else omap_find cless k' m)"
  using assms
proof (induction cless k m rule: omap_erase.induct)
  case (1 k)
  then show ?case by simp
next
  case (2 k a b m)
  have m: "ordered m" and above: "\<And>x. x \<in> fst ` set m \<Longrightarrow> cless a x"
    using 2 by (auto simp: ordered_def)
  have missing: "omap_find cless k' m = None" if "cmp k' a = Ord_Equal \<or> cless k' a"
  proof (cases m)
    case Nil
    then show ?thesis by simp
  next
    case (Cons e n)
    then have "cless a (fst e)" using above by simp
    then have "cless k' (fst e)"
      using that cmp_less_trans cmp_equal_left by metis
    then show ?thesis using Cons by (cases e) simp
  qed
  consider "cless k a" | "\<not> cless k a" "cless a k" | "cmp k a = Ord_Equal"
    using neither_less_iff by blast
  then show ?case
  proof cases
    case 1
    then have "cmp k' k = Ord_Equal \<Longrightarrow> cless k' a"
      using cmp_equal_left [of k' k a] by simp
    with 1 show ?thesis by simp
  next
    case 2
    have "cmp k' k = Ord_Equal \<Longrightarrow> cless a k'"
      using 2 cmp_equal_right by metis
    then show ?thesis using 2 "2.hyps" m less_asym by auto
  next
    case 3
    then have same: "cmp k' k = cmp k' a" by (rule cmp_equal_right)
    have "\<not> cless k a" "\<not> cless a k" using 3 cmp_sym [of k a] by auto
    then have "omap_erase cless k ((a, b) # m) = m" by simp
    then show ?thesis
      using same missing neither_less_iff [of k' a] by auto
  qed
qed

end

interpretation nat_order: comparison "three_way :: nat \<Rightarrow> nat \<Rightarrow> ordering"
  by unfold_locales auto

section \<open>The 128-bit integer\<close>

text \<open>
  \<open>Wide\<close> is \<open>__int128\<close>. Its values are the integers for which \<open>in_wide\<close> holds;
  \<open>__builtin_add_overflow\<close> and \<open>__builtin_mul_overflow\<close> compute the exact result and
  report where it is not one of them.
\<close>

type_synonym wide = int
type_synonym u64 = "64 word"
type_synonym u128 = "128 word"

definition in_wide :: "int \<Rightarrow> bool" where
  "in_wide x \<longleftrightarrow> - (2 ^ 127) \<le> x \<and> x < 2 ^ 127"

definition wide_add :: "wide \<Rightarrow> wide \<Rightarrow> wide option" where
  "wide_add a b = (if in_wide (a + b) then Some (a + b) else None)"

definition wide_sub :: "wide \<Rightarrow> wide \<Rightarrow> wide option" where
  "wide_sub a b = (if in_wide (a - b) then Some (a - b) else None)"

definition wide_mul :: "wide \<Rightarrow> wide \<Rightarrow> wide option" where
  "wide_mul a b = (if in_wide (a * b) then Some (a * b) else None)"

text \<open>\<open>-x\<close>, written without a check: undefined for the least value.\<close>

definition wide_neg :: "wide \<Rightarrow> wide option" where
  "wide_neg a = (if in_wide (- a) then Some (- a) else None)"

lemma wide_Some [simp]:
  "wide_add a b = Some c \<longleftrightarrow> in_wide c \<and> c = a + b"
  "wide_sub a b = Some c \<longleftrightarrow> in_wide c \<and> c = a - b"
  "wide_mul a b = Some c \<longleftrightarrow> in_wide c \<and> c = a * b"
  "wide_neg a = Some c \<longleftrightarrow> in_wide c \<and> c = - a"
  by (auto simp: wide_add_def wide_sub_def wide_mul_def wide_neg_def)

lemma in_wide_small: "- (2 ^ 126) \<le> x \<Longrightarrow> x \<le> 2 ^ 126 \<Longrightarrow> in_wide x"
  by (simp add: in_wide_def)

section \<open>Decimal text\<close>

text \<open>\<open>std::to_string\<close> of an unsigned value.\<close>

definition digit_char :: "nat \<Rightarrow> char" where
  "digit_char n = char_of (48 + n)"

fun string_of_nat :: "nat \<Rightarrow> string" where
  "string_of_nat n =
     (if n < 10 then [digit_char n] else string_of_nat (n div 10) @ [digit_char (n mod 10)])"

declare string_of_nat.simps [simp del]

definition is_digit :: "char \<Rightarrow> bool" where
  "is_digit c \<longleftrightarrow> (of_char c :: nat) \<in> {48..57}"

lemma is_digit_digit_char: "n < 10 \<Longrightarrow> is_digit (digit_char n)"
  by (simp add: is_digit_def digit_char_def)

lemma digit_char_inj: "m < 10 \<Longrightarrow> n < 10 \<Longrightarrow> digit_char m = digit_char n \<longleftrightarrow> m = n"
proof -
  assume "m < 10" "n < 10"
  then have "(of_char (digit_char m) :: nat) = 48 + m" "(of_char (digit_char n) :: nat) = 48 + n"
    by (simp_all add: digit_char_def)
  then show ?thesis by (metis add_left_cancel)
qed

lemma string_of_nat_digits: "list_all is_digit (string_of_nat n)"
proof (induction n rule: string_of_nat.induct)
  case (1 n)
  then show ?case
    by (subst string_of_nat.simps) (simp add: is_digit_digit_char)
qed

lemma string_of_nat_nonempty: "string_of_nat n \<noteq> []"
  by (subst string_of_nat.simps) simp

lemma string_of_nat_inj: "string_of_nat m = string_of_nat n \<longleftrightarrow> m = n"
proof (induction m arbitrary: n rule: string_of_nat.induct)
  case (1 m)
  show ?case
  proof
    assume eq: "string_of_nat m = string_of_nat n"
    show "m = n"
    proof (cases "m < 10")
      case True
      then have "length (string_of_nat n) = 1"
        using eq by (simp add: string_of_nat.simps [of m] flip: eq)
      then have "n < 10"
        by (cases "n < 10") (simp_all add: string_of_nat.simps [of n] string_of_nat_nonempty)
      with True eq show ?thesis
        by (simp add: string_of_nat.simps [of m] string_of_nat.simps [of n] digit_char_inj)
    next
      case False
      then have "length (string_of_nat n) \<noteq> 1"
        using eq by (simp add: string_of_nat.simps [of m] string_of_nat_nonempty flip: eq)
      then have n: "\<not> n < 10"
        by (cases "n < 10") (simp_all add: string_of_nat.simps [of n])
      then have "string_of_nat (m div 10) = string_of_nat (n div 10)" and "m mod 10 = n mod 10"
        using False eq
        by (auto simp add: string_of_nat.simps [of m] string_of_nat.simps [of n] digit_char_inj)
      with "1.IH" [OF False] have "m div 10 = n div 10" by blast
      with \<open>m mod 10 = n mod 10\<close> show ?thesis by (metis div_mult_mod_eq)
    qed
  qed simp
qed

text \<open>Text that begins with digits is split where the digits end.\<close>

lemma takeWhile_digits:
  assumes "list_all is_digit ds" and "list_all is_digit es"
    and "ds @ x = es @ y" and "x = [] \<or> \<not> is_digit (hd x)" and "y = [] \<or> \<not> is_digit (hd y)"
  shows "ds = es \<and> x = y"
proof -
  have "takeWhile is_digit (zs @ z) = zs"
    if "list_all is_digit zs" "z = [] \<or> \<not> is_digit (hd z)" for zs z
    using that by (induction zs) (cases z; auto)+
  with assms show ?thesis by (metis append_same_eq same_append_eq)
qed

end
