(* ===== verification/Source_Text.thy ===== *)
theory Source_Text
  imports Prelude
begin

text \<open>
  Positions in text (compiler/source/include/cppl/source/location.hpp,
  compiler/source/src/location.cpp) and diagnostics (compiler/diagnostics). A text is a
  \<open>string\<close>, a byte a \<open>char\<close>; an offset is a \<open>nat\<close>, a line or a column a 32-bit word.
\<close>

type_synonym u32 = "32 word"

section \<open>Spans\<close>

record byte_span =
  span_offset :: nat
  span_length :: nat

definition span_end :: "byte_span \<Rightarrow> nat" where
  "span_end s = span_offset s + span_length s"

definition holds_byte :: "byte_span \<Rightarrow> nat \<Rightarrow> bool" where
  "holds_byte s i \<longleftrightarrow> span_offset s \<le> i \<and> i < span_end s"

abbreviation span_from :: "nat \<Rightarrow> nat \<Rightarrow> byte_span" where
  "span_from a b \<equiv> \<lparr>span_offset = a, span_length = b - a\<rparr>"

text \<open>\<open>text.substr(offset, length)\<close>\<close>

definition substr :: "string \<Rightarrow> nat \<Rightarrow> nat \<Rightarrow> string" where
  "substr xs i n = take n (drop i xs)"

definition spelling :: "string \<Rightarrow> byte_span \<Rightarrow> string" where
  "spelling xs s = substr xs (span_offset s) (span_length s)"

lemma span_end_simps [simp]:
  "span_end \<lparr>span_offset = a, span_length = n\<rparr> = a + n"
  by (simp add: span_end_def)

lemma span_from_holds [simp]: "holds_byte (span_from a b) i \<longleftrightarrow> a \<le> i \<and> i < b"
  by (auto simp: holds_byte_def span_end_def)

lemma length_substr [simp]: "length (substr xs i n) = min n (length xs - i)"
  by (simp add: substr_def)

lemma length_spelling: "span_end s \<le> length xs \<Longrightarrow> length (spelling xs s) = span_length s"
  by (simp add: spelling_def span_end_def)

lemma nth_substr: "k < n \<Longrightarrow> i + k < length xs \<Longrightarrow> substr xs i n ! k = xs ! (i + k)"
  by (simp add: substr_def)

section \<open>Lines and columns\<close>

text \<open>
  The column, from zero, of a byte (\<open>column_of\<close> of compiler/erasure/src/erase.cpp): how many
  bytes stand between it and the last newline before it.
\<close>

definition column_of :: "string \<Rightarrow> nat \<Rightarrow> nat" where
  "column_of xs i = length (takeWhile (\<lambda>c. c \<noteq> CHR 0x0A) (rev (take i xs)))"

definition newlines_between :: "string \<Rightarrow> nat \<Rightarrow> nat \<Rightarrow> nat" where
  "newlines_between xs i j = length (filter (\<lambda>c. c = CHR 0x0A) (substr xs i (j - i)))"

lemma column_of_0 [simp]: "column_of xs 0 = 0"
  by (simp add: column_of_def)

lemma column_of_Suc:
  "i < length xs \<Longrightarrow> column_of xs (Suc i) = (if xs ! i = CHR 0x0A then 0 else Suc (column_of xs i))"
  by (simp add: column_of_def take_Suc_conv_app_nth)

lemma column_of_le: "column_of xs i \<le> i"
  using length_takeWhile_le [of "\<lambda>c. c \<noteq> CHR 0x0A" "rev (take i xs)"] by (simp add: column_of_def)

lemma newlines_between_refl [simp]: "newlines_between xs i i = 0"
  by (simp add: newlines_between_def substr_def)

lemma newlines_between_Suc:
  "i \<le> j \<Longrightarrow> j < length xs \<Longrightarrow>
     newlines_between xs i (Suc j) = newlines_between xs i j + (if xs ! j = CHR 0x0A then 1 else 0)"
  by (simp add: newlines_between_def substr_def Suc_diff_le take_Suc_conv_app_nth)

text \<open>Stepping over bytes that are not newlines.\<close>

lemma no_newline_steps:
  assumes "i \<le> j" and "j \<le> length xs" and "\<forall>k. i \<le> k \<longrightarrow> k < j \<longrightarrow> xs ! k \<noteq> CHR 0x0A"
  shows "column_of xs j = column_of xs i + (j - i)"
    and "a \<le> i \<Longrightarrow> newlines_between xs a j = newlines_between xs a i"
  using assms by (induction j rule: dec_induct) (simp_all add: column_of_Suc newlines_between_Suc Suc_diff_le)

section \<open>Locations\<close>

record source_location =
  loc_file :: string
  loc_line :: u32
  loc_column :: u32

definition no_location :: source_location where
  "no_location = \<lparr>loc_file = '''', loc_line = 0, loc_column = 0\<rparr>"

definition is_valid :: "source_location \<Rightarrow> bool" where
  "is_valid l \<longleftrightarrow> loc_file l \<noteq> [] \<and> loc_line l \<noteq> 0"

definition describe_location :: "source_location \<Rightarrow> string" where
  "describe_location l =
     (if \<not> is_valid l then ''<unknown location>''
      else loc_file l @ '':'' @ string_of_nat (unat (loc_line l)) @
           (if loc_column l \<noteq> 0 then '':'' @ string_of_nat (unat (loc_column l)) else []))"

section \<open>Diagnostics\<close>

datatype severity = NoteSeverity | WarningSeverity | ErrorSeverity

datatype category =
    CpplSyntax | CppSemantic | Elaboration | UnsupportedSemantics | ProofFailure | KernelRejection
  | VerificationInterface | Policy | Style | PartialCorrectness | Internal

fun describe_category :: "category \<Rightarrow> string" where
  "describe_category CpplSyntax = ''cppl-syntax''"
| "describe_category CppSemantic = ''cpp-semantic''"
| "describe_category Elaboration = ''elaboration''"
| "describe_category UnsupportedSemantics = ''unsupported-semantics''"
| "describe_category ProofFailure = ''proof-failure''"
| "describe_category KernelRejection = ''kernel-rejection''"
| "describe_category VerificationInterface = ''verification-interface''"
| "describe_category Policy = ''policy''"
| "describe_category Style = ''style''"
| "describe_category PartialCorrectness = ''partial-correctness''"
| "describe_category Internal = ''internal''"

fun describe_severity :: "severity \<Rightarrow> string" where
  "describe_severity NoteSeverity = ''note''"
| "describe_severity WarningSeverity = ''warning''"
| "describe_severity ErrorSeverity = ''error''"

record diag_note =
  note_message :: string
  note_location :: source_location

record diagnostic =
  diag_severity :: severity
  diag_category :: category
  diag_message :: string
  diag_location :: source_location
  diag_notes :: "diag_note list"

record engine =
  engine_diagnostics :: "diagnostic list"
  engine_errors :: nat

definition empty_engine :: engine where
  "empty_engine = \<lparr>engine_diagnostics = [], engine_errors = 0\<rparr>"

definition report :: "diagnostic \<Rightarrow> engine \<Rightarrow> engine" where
  "report d e =
     \<lparr>engine_diagnostics = engine_diagnostics e @ [d],
      engine_errors = (if diag_severity d = ErrorSeverity then Suc (engine_errors e) else engine_errors e)\<rparr>"

definition has_errors :: "engine \<Rightarrow> bool" where
  "has_errors e \<longleftrightarrow> engine_errors e \<noteq> 0"

definition located :: "source_location \<Rightarrow> string" where
  "located l = (if is_valid l then describe_location l @ '': '' else [])"

definition render_diagnostic :: "diagnostic \<Rightarrow> string" where
  "render_diagnostic d =
     located (diag_location d) @ describe_severity (diag_severity d) @ '' ['' @
     describe_category (diag_category d) @ '']: '' @ diag_message d @
     concat (map (\<lambda>n. CHR 0x0A # ''  '' @ located (note_location n) @ ''note: '' @ note_message n) (diag_notes d))"

text \<open>The engine counts the errors among what it was given.\<close>

definition counted :: "engine \<Rightarrow> bool" where
  "counted e \<longleftrightarrow> engine_errors e = length (filter (\<lambda>d. diag_severity d = ErrorSeverity) (engine_diagnostics e))"

lemma counted_empty: "counted empty_engine"
  by (simp add: counted_def empty_engine_def)

lemma counted_report: "counted e \<Longrightarrow> counted (report d e)"
  by (simp add: counted_def report_def)

lemma has_errors_iff: "counted e \<Longrightarrow> has_errors e \<longleftrightarrow> (\<exists>d \<in> set (engine_diagnostics e). diag_severity d = ErrorSeverity)"
  by (auto simp: counted_def has_errors_def filter_empty_conv)

end
