(* ===== verification/Representation.thy ===== *)
theory Representation
  imports Source_Text
begin

text \<open>
  How a C++ declaration is represented (compiler/source/include/cppl/source/representation.hpp,
  storage.hpp, projection.hpp): the kinds of standard types, the operations of the modelled
  sequences, parameter binding and the shape of analysis projections.
\<close>

datatype representation_kind =
  NoRepresentation | ScopedEnum | PointerKind | RecordKind | ArrayKind | PairKind | TupleKind | StdArray | VariantKind |
  OptionalKind | ExpectedKind | VectorKind | StringKind | SpanKind

definition is_sequence :: "representation_kind \<Rightarrow> bool" where
  "is_sequence k \<longleftrightarrow> k = VectorKind \<or> k = StringKind \<or> k = SpanKind"

datatype library_operation =
  Construct | CopySequence | MoveSequence | ViewOf | DataOf | PushBack | PopBack | ClearSequence | Reserve | AppendText |
  AssignSequence | MoveAssign

fun describe_operation :: "library_operation \<Rightarrow> string" where
  "describe_operation Construct = ''construct''"
| "describe_operation CopySequence = ''copy''"
| "describe_operation MoveSequence = ''move''"
| "describe_operation ViewOf = ''span''"
| "describe_operation DataOf = ''data''"
| "describe_operation PushBack = ''push_back''"
| "describe_operation PopBack = ''pop_back''"
| "describe_operation ClearSequence = ''clear''"
| "describe_operation Reserve = ''reserve''"
| "describe_operation AppendText = ''append''"
| "describe_operation AssignSequence = ''operator=''"
| "describe_operation MoveAssign = ''operator=(&&)''"

definition describe_model :: "representation_kind \<Rightarrow> string" where
  "describe_model k =
     (case k of
        StdArray \<Rightarrow> ''std::array''
      | VectorKind \<Rightarrow> ''std::vector''
      | StringKind \<Rightarrow> ''std::basic_string<char>''
      | SpanKind \<Rightarrow> ''std::span''
      | _ \<Rightarrow> '''')"

record library_call =
  lc_container :: representation_kind
  lc_operation :: library_operation

record component =
  cp_name :: string
  cp_declaration :: source_location
  cp_accessible :: bool

datatype parameter_passing = PassValue | ConstReference | MutableReference | RvalueReference

definition aliases_storage :: "parameter_passing \<Rightarrow> bool" where
  "aliases_storage p \<longleftrightarrow> p \<noteq> PassValue"

definition may_write :: "parameter_passing \<Rightarrow> bool" where
  "may_write p \<longleftrightarrow> p = MutableReference \<or> p = RvalueReference"

datatype projection_kind =
  ExpressionShape | EqualityShape | UniversalShape | ImplicationShape | ConjunctionShape | DisjunctionShape |
  EquivalenceShape | ReadableShape | WritableShape | CapabilitiesShape

datatype projection_shape = Shape (shape_kind: projection_kind) (shape_children: "projection_shape list")

lemma writes_alias: "may_write p \<Longrightarrow> aliases_storage p"
  by (cases p) (simp_all add: may_write_def aliases_storage_def)

lemma operations_have_names: "describe_operation a = describe_operation b \<longleftrightarrow> a = b"
  by (cases a; cases b) simp_all

lemma sequences_are_modelled: "is_sequence k \<or> k = StdArray \<longleftrightarrow> describe_model k \<noteq> []"
  by (cases k) (simp_all add: is_sequence_def describe_model_def)

end
