(* ===== verification/Digest.thy ===== *)
theory Digest
  imports Source_Text
begin

unbundle bit_operations_syntax

text \<open>
  SHA-256 as the compiler computes it (compiler/source/include/cppl/source/digest.hpp,
  compiler/source/src/digest.cpp): a hasher that is fed bytes in pieces, through a buffer of one
  block.
\<close>

section \<open>The compression function\<close>

type_synonym octet = "8 word"

definition kRoundConstants :: "u32 list" where
  "kRoundConstants =
     [0x428a2f98, 0x71374491, 0xb5c0fbcf, 0xe9b5dba5, 0x3956c25b, 0x59f111f1, 0x923f82a4, 0xab1c5ed5] @
     [0xd807aa98, 0x12835b01, 0x243185be, 0x550c7dc3, 0x72be5d74, 0x80deb1fe, 0x9bdc06a7, 0xc19bf174] @
     [0xe49b69c1, 0xefbe4786, 0x0fc19dc6, 0x240ca1cc, 0x2de92c6f, 0x4a7484aa, 0x5cb0a9dc, 0x76f988da] @
     [0x983e5152, 0xa831c66d, 0xb00327c8, 0xbf597fc7, 0xc6e00bf3, 0xd5a79147, 0x06ca6351, 0x14292967] @
     [0x27b70a85, 0x2e1b2138, 0x4d2c6dfc, 0x53380d13, 0x650a7354, 0x766a0abb, 0x81c2c92e, 0x92722c85] @
     [0xa2bfe8a1, 0xa81a664b, 0xc24b8b70, 0xc76c51a3, 0xd192e819, 0xd6990624, 0xf40e3585, 0x106aa070] @
     [0x19a4c116, 0x1e376c08, 0x2748774c, 0x34b0bcb5, 0x391c0cb3, 0x4ed8aa4a, 0x5b9cca4f, 0x682e6ff3] @
     [0x748f82ee, 0x78a5636f, 0x84c87814, 0x8cc70208, 0x90befffa, 0xa4506ceb, 0xbef9a3f7, 0xc67178f2]"

definition rotate_right :: "u32 \<Rightarrow> nat \<Rightarrow> u32" where
  "rotate_right x n = drop_bit n x OR push_bit (32 - n) x"

definition word_at :: "octet list \<Rightarrow> nat \<Rightarrow> u32" where
  "word_at block i =
     push_bit 24 (ucast (block ! (i * 4))) OR push_bit 16 (ucast (block ! (i * 4 + 1))) OR
     push_bit 8 (ucast (block ! (i * 4 + 2))) OR ucast (block ! (i * 4 + 3))"

text \<open>One word of the schedule, after those there are.\<close>

definition schedule_word :: "u32 list \<Rightarrow> u32 list" where
  "schedule_word w =
     (let i = length w;
          s0 = rotate_right (w ! (i - 15)) 7 XOR rotate_right (w ! (i - 15)) 18 XOR drop_bit 3 (w ! (i - 15));
          s1 = rotate_right (w ! (i - 2)) 17 XOR rotate_right (w ! (i - 2)) 19 XOR drop_bit 10 (w ! (i - 2))
      in w @ [w ! (i - 16) + s0 + w ! (i - 7) + s1])"

definition schedule :: "octet list \<Rightarrow> u32 list" where
  "schedule block = foldl (\<lambda>w _. schedule_word w) (map (word_at block) [0..<16]) [16..<64]"

text \<open>The words \<open>a\<close> to \<open>h\<close>.\<close>

type_synonym working = "u32 \<times> u32 \<times> u32 \<times> u32 \<times> u32 \<times> u32 \<times> u32 \<times> u32"

fun compression_round :: "working \<Rightarrow> u32 \<times> u32 \<Rightarrow> working" where
  "compression_round (a, b, c, d, e, f, g, h) (k, w) =
     (let S1 = rotate_right e 6 XOR rotate_right e 11 XOR rotate_right e 25;
          choice = (e AND f) XOR (NOT e AND g);
          temp1 = h + S1 + choice + k + w;
          S0 = rotate_right a 2 XOR rotate_right a 13 XOR rotate_right a 22;
          majority = (a AND b) XOR (a AND c) XOR (b AND c);
          temp2 = S0 + majority
      in (temp1 + temp2, a, b, c, d + temp1, e, f, g))"

fun words_of :: "working \<Rightarrow> u32 list" where
  "words_of (a, b, c, d, e, f, g, h) = [a, b, c, d, e, f, g, h]"

definition compress :: "u32 list \<Rightarrow> octet list \<Rightarrow> u32 list" where
  "compress st block =
     map2 (+) st (words_of (foldl compression_round
       (st ! 0, st ! 1, st ! 2, st ! 3, st ! 4, st ! 5, st ! 6, st ! 7)
       (zip kRoundConstants (schedule block))))"

section \<open>The hasher\<close>

record hasher =
  hash_state :: "u32 list"
  hash_buffer :: "octet list"
  buffered :: nat
  total_bits :: u64
  hash_finished :: bool

definition initial_state :: "u32 list" where
  "initial_state =
     [0x6a09e667, 0xbb67ae85, 0x3c6ef372, 0xa54ff53a, 0x510e527f, 0x9b05688c, 0x1f83d9ab, 0x5be0cd19]"

definition new_hasher :: hasher where
  "new_hasher = \<lparr>hash_state = initial_state, hash_buffer = replicate 64 0, buffered = 0, total_bits = 0, hash_finished = False\<rparr>"

text \<open>One round of \<open>update\<close>: as much as the buffer takes, and a compression when it is full.\<close>

definition fill :: "octet list \<Rightarrow> hasher \<Rightarrow> hasher" where
  "fill bytes h =
     h\<lparr>hash_buffer := take (buffered h) (hash_buffer h) @ bytes @ drop (buffered h + length bytes) (hash_buffer h),
       buffered := buffered h + length bytes\<rparr>"

definition flush :: "hasher \<Rightarrow> hasher" where
  "flush h =
     (if buffered h = 64
      then h\<lparr>hash_state := compress (hash_state h) (hash_buffer h), buffered := 0\<rparr> else h)"

text \<open>
  The loop of \<open>update\<close>. The buffer is never full between two calls; a state with more than a
  block in it, where the code's loop would not end, does not arise.
\<close>

function update_from :: "octet list \<Rightarrow> hasher \<Rightarrow> hasher" where
  "update_from bytes h =
     (if bytes = [] \<or> 64 \<le> buffered h then h
      else let taken = min (length bytes) (64 - buffered h)
           in update_from (drop taken bytes) (flush (fill (take taken bytes) h)))"
  by pat_completeness auto
termination
  by (relation "measure (\<lambda>(bytes, h). length bytes)") auto

declare update_from.simps [simp del]

definition update :: "octet list \<Rightarrow> hasher \<Rightarrow> hasher" where
  "update bytes h = update_from bytes (h\<lparr>total_bits := total_bits h + of_nat (length bytes) * 8\<rparr>)"

definition octets :: "string \<Rightarrow> octet list" where
  "octets text = map of_char text"

definition octets64 :: "u64 \<Rightarrow> octet list" where
  "octets64 x = map (\<lambda>i. ucast (drop_bit (56 - i * 8) x)) [0..<8]"

definition update_text :: "string \<Rightarrow> hasher \<Rightarrow> hasher" where
  "update_text text h = update (octets text) h"

definition update_u64 :: "u64 \<Rightarrow> hasher \<Rightarrow> hasher" where
  "update_u64 x h = update (octets64 x) h"

definition update_field :: "string \<Rightarrow> hasher \<Rightarrow> hasher" where
  "update_field text h = update (octets text) (update_u64 (of_nat (length text)) h)"

definition update_u8 :: "octet \<Rightarrow> hasher \<Rightarrow> hasher" where
  "update_u8 x h = update [x] h"

section \<open>Finishing\<close>

lemma buffered_flush_fill [simp]:
  "buffered (flush (fill bytes h)) = (if buffered h + length bytes = 64 then 0 else buffered h + length bytes)"
  by (simp add: flush_def fill_def)

lemma buffered_update_u8: "buffered h < 64 \<Longrightarrow> buffered (update_u8 x h) = (if buffered h = 63 then 0 else Suc (buffered h))"
  by (simp add: update_u8_def update_def update_from.simps)

text \<open>The loop that pads with zeros up to the length.\<close>

function pad_zeros :: "hasher \<Rightarrow> hasher" where
  "pad_zeros h = (if buffered h = 56 \<or> 64 \<le> buffered h then h else pad_zeros (update_u8 0 h))"
  by pat_completeness auto
termination
proof (relation "measure (\<lambda>h. (120 - buffered h) mod 64)")
  fix h :: hasher
  assume "\<not> (buffered h = 56 \<or> 64 \<le> buffered h)"
  then have b: "buffered h < 64" "buffered h \<noteq> 56" by auto
  show "(update_u8 0 h, h) \<in> measure (\<lambda>h. (120 - buffered h) mod 64)"
  proof (cases "buffered h < 56")
    case True
    then have "(120 - buffered h) mod 64 = 56 - buffered h" "(120 - Suc (buffered h)) mod 64 = 55 - buffered h"
      by (simp_all add: mod_if)
    then show ?thesis using True b by (simp add: buffered_update_u8)
  next
    case False
    then show ?thesis using b by (auto simp: buffered_update_u8)
  qed
qed simp

declare pad_zeros.simps [simp del]

definition close_hasher :: "hasher \<Rightarrow> hasher" where
  "close_hasher h =
     (if hash_finished h then h
      else let length_bits = total_bits h;
               h = pad_zeros (update_u8 0x80 h);
               buffer = take (buffered h) (hash_buffer h) @ octets64 length_bits @ drop (buffered h + 8) (hash_buffer h)
           in h\<lparr>hash_buffer := buffer, hash_state := compress (hash_state h) buffer, buffered := 0, hash_finished := True\<rparr>)"

text \<open>A digest is 32 bytes.\<close>

type_synonym digest = "octet list"

definition octets32 :: "u32 \<Rightarrow> octet list" where
  "octets32 x = [ucast (drop_bit 24 x), ucast (drop_bit 16 x), ucast (drop_bit 8 x), ucast x]"

definition finish_hash :: "hasher \<Rightarrow> digest \<times> hasher" where
  "finish_hash h = (let h = close_hasher h in (concat (map octets32 (hash_state h)), h))"

definition kHexDigits :: string where
  "kHexDigits = ''0123456789abcdef''"

definition to_hex :: "digest \<Rightarrow> string" where
  "to_hex d = concat (map (\<lambda>b. [kHexDigits ! unat (drop_bit 4 b), kHexDigits ! unat (b AND 0x0f)]) d)"

definition to_short_hex :: "nat \<Rightarrow> digest \<Rightarrow> string" where
  "to_short_hex n d = (let hex = to_hex d in if n < length hex then take n hex else hex)"

definition hash_bytes :: "string \<Rightarrow> digest" where
  "hash_bytes text = fst (finish_hash (update_text text new_hasher))"

end
