(* ===== verification/Interface_Fields.thy ===== *)
theory Interface_Fields
  imports Digest
begin

text \<open>
  The fields of a verification interface, one token each (compiler/artifact/src/interface.cpp):
  texts with every byte outside printable ASCII, spaces and percent signs escaped, digests in
  hex, decimal numbers. Each value has one spelling.
\<close>

abbreviation line_feed :: char where "line_feed \<equiv> CHR 0x0A"
abbreviation tick :: char where "tick \<equiv> CHR 0x27"

definition kUpperHex :: string where "kUpperHex = ''0123456789ABCDEF''"
definition kLowerHex :: string where "kLowerHex = ''0123456789abcdef''"

section \<open>Texts\<close>

definition plain :: "char \<Rightarrow> bool" where
  "plain c \<longleftrightarrow> (0x21 :: nat) \<le> of_char c \<and> (of_char c :: nat) \<le> 0x7E \<and> c \<noteq> CHR ''%''"

definition escaped :: "char \<Rightarrow> string" where
  "escaped c = [CHR ''%'', kUpperHex ! (of_char c div 16), kUpperHex ! (of_char c mod 16)]"

definition encode :: "string \<Rightarrow> string" where
  "encode text = concat (map (\<lambda>c. if plain c then [c] else escaped c) text)"

definition digit_value :: "char \<Rightarrow> string \<Rightarrow> nat option" where
  "digit_value c digits =
     (let i = length (takeWhile (\<lambda>d. d \<noteq> c) digits) in if i < length digits then Some i else None)"

fun decode_from :: "string \<Rightarrow> string option" where
  "decode_from [] = Some []"
| "decode_from (c # cs) =
     (if c \<noteq> CHR ''%''
      then (if plain c then map_option ((#) c) (decode_from cs) else None)
      else case cs of
        h # l # rest \<Rightarrow>
          (case (digit_value h kUpperHex, digit_value l kUpperHex) of
             (Some high, Some low) \<Rightarrow>
               let v = char_of (high * 16 + low)
               in if plain v then None else map_option ((#) v) (decode_from rest)
           | _ \<Rightarrow> None)
      | _ \<Rightarrow> None)"

definition decode :: "string \<Rightarrow> string option" where
  "decode token = (if token = [] then None else decode_from token)"

section \<open>Digests and numbers\<close>

fun hex_octets :: "string \<Rightarrow> octet list option" where
  "hex_octets [] = Some []"
| "hex_octets [c] = None"
| "hex_octets (h # l # rest) =
     (case (digit_value h kLowerHex, digit_value l kLowerHex) of
        (Some high, Some low) \<Rightarrow> map_option ((#) (of_nat (high * 16 + low))) (hex_octets rest)
      | _ \<Rightarrow> None)"

definition parse_digest :: "string \<Rightarrow> digest option" where
  "parse_digest token = (if length token \<noteq> 64 then None else hex_octets token)"

fun decimal_value :: "string \<Rightarrow> nat \<Rightarrow> nat option" where
  "decimal_value [] n = Some n"
| "decimal_value (c # cs) n =
     (case digit_value c (take 10 kLowerHex) of None \<Rightarrow> None | Some d \<Rightarrow> decimal_value cs (n * 10 + d))"

text \<open>Ten digits at most, so the 64-bit value never wraps.\<close>

definition parse_number :: "string \<Rightarrow> nat \<Rightarrow> u32 option" where
  "parse_number token least =
     (if token = [] \<or> 10 < length token \<or> (1 < length token \<and> hd token = CHR ''0'') then None
      else case decimal_value token 0 of
        None \<Rightarrow> None
      | Some n \<Rightarrow> if 2 ^ 32 - 1 < n \<or> n < least then None else Some (of_nat n))"

definition number_text :: "u32 \<Rightarrow> string" where
  "number_text n = string_of_nat (unat n)"

section \<open>Texts round trip\<close>

lemma nibbles: "(of_char c :: nat) div 16 < 16"
  by (rule less_mult_imp_div_less) simp

lemma digit_value_nth:
  assumes "distinct ds" and "i < length ds"
  shows "digit_value (ds ! i) ds = Some i"
proof -
  have "takeWhile (\<lambda>d. d \<noteq> ds ! i) ds = take i ds"
    using assms by (intro takeWhile_eq_take_P_nth) (auto simp: nth_eq_iff_index_eq)
  then show ?thesis using assms by (simp add: digit_value_def)
qed

lemma digit_value_Some: "digit_value c ds = Some i \<Longrightarrow> i < length ds \<and> ds ! i = c"
proof -
  assume "digit_value c ds = Some i"
  then have i: "i = length (takeWhile (\<lambda>d. d \<noteq> c) ds)" "i < length ds" by (auto simp: digit_value_def Let_def split: if_splits)
  then show ?thesis using nth_length_takeWhile [of "\<lambda>d. d \<noteq> c" ds] by blast
qed

lemma upper_hex: "distinct kUpperHex" "length kUpperHex = 16"
  and lower_hex: "distinct kLowerHex" "length kLowerHex = 16"
  by (simp_all add: kUpperHex_def kLowerHex_def)

lemma plain_hex: "i < 16 \<Longrightarrow> plain (kUpperHex ! i)"
proof -
  have "list_all plain kUpperHex" by code_simp
  then show "i < 16 \<Longrightarrow> plain (kUpperHex ! i)" using upper_hex(2) by (simp add: list_all_length)
qed

lemma char_nibbles: "char_of ((of_char c :: nat) div 16 * 16 + of_char c mod 16) = c"
  by (simp add: div_mult_mod_eq)

lemma decode_from_encode: "decode_from (encode xs @ tail) = map_option ((@) xs) (decode_from tail)"
proof (induction xs)
  case Nil
  show ?case by (simp add: encode_def option.map_ident)
next
  case (Cons c cs)
  have e: "encode (c # cs) = (if plain c then [c] else escaped c) @ encode cs" by (simp add: encode_def)
  show ?case
  proof (cases "plain c")
    case True
    then have "c \<noteq> CHR ''%''" by (simp add: plain_def)
    then show ?thesis using True Cons by (simp add: e option.map_comp comp_def)
  next
    case False
    have "of_char c div 16 < (16 :: nat)" using nibbles [of c] by simp
    then show ?thesis
      using False Cons digit_value_nth [OF upper_hex(1)] upper_hex(2) char_nibbles [of c]
      by (simp add: e escaped_def Let_def option.map_comp comp_def)
  qed
qed

lemma encode_Nil [simp]: "encode xs = [] \<longleftrightarrow> xs = []"
  by (cases "xs") (auto simp: encode_def escaped_def)

lemma decode_encode: "xs \<noteq> [] \<Longrightarrow> decode (encode xs) = Some xs"
  using decode_from_encode [of "xs" "[]"] by (simp add: decode_def)

lemma decode_from_Some: "decode_from token = Some xs \<Longrightarrow> encode xs = token"
proof (induction "token" arbitrary: "xs" rule: decode_from.induct)
  case 1
  then show ?case by (simp add: encode_def)
next
  case (2 c cs)
  show ?case
  proof (cases "c = CHR ''%''")
    case False
    then obtain rest where r: "plain c" "decode_from cs = Some rest" "xs = c # rest"
      using "2.prems" by (auto split: if_splits)
    then have "encode rest = cs" using "2.IH"(1) False by blast
    then show ?thesis using r by (simp add: encode_def)
  next
    case True
    then obtain h l rest where cs: "cs = h # l # rest" using "2.prems" by (auto split: list.splits)
    then obtain high low where d: "digit_value h kUpperHex = Some high" "digit_value l kUpperHex = Some low"
      using "2.prems" True by (auto split: option.splits)
    then obtain ys where y: "\<not> plain (char_of (high * 16 + low))" "decode_from rest = Some ys"
        "xs = char_of (high * 16 + low) # ys"
      using "2.prems" True cs by (auto simp: Let_def split: if_splits)
    have n: "high < 16" "kUpperHex ! high = h" "low < 16" "kUpperHex ! low = l"
      using d [THEN digit_value_Some] upper_hex by auto
    have "(of_char (char_of (high * 16 + low)) :: nat) = high * 16 + low" using n by simp
    then have "escaped (char_of (high * 16 + low)) = [c, h, l]" using n True by (simp add: escaped_def)
    moreover have "encode ys = rest" using "2.IH"(2) True cs d y by simp
    ultimately show ?thesis using y cs by (simp add: encode_def)
  qed
qed

lemma decode_iff: "decode token = Some xs \<longleftrightarrow> token = encode xs \<and> xs \<noteq> []"
proof
  assume d: "decode token = Some xs"
  then have "token = encode xs" "token \<noteq> []" using decode_from_Some by (auto simp: decode_def split: if_splits)
  then show "token = encode xs \<and> xs \<noteq> []" by auto
qed (use decode_encode in blast)

text \<open>An encoded text is visible ASCII.\<close>

definition visible :: "char \<Rightarrow> bool" where
  "visible c \<longleftrightarrow> (0x21 :: nat) \<le> of_char c \<and> (of_char c :: nat) \<le> 0x7E"

lemma plain_visible: "plain c \<Longrightarrow> visible c"
  by (simp add: plain_def visible_def)

lemma encode_visible: "list_all visible (encode xs)"
proof (induction "xs")
  case (Cons c cs)
  have n: "of_char c div 16 < (16 :: nat)" "of_char c mod 16 < (16 :: nat)" using nibbles [of c] by simp_all
  have "list_all visible (escaped c)"
    using plain_visible [OF plain_hex [OF n(1)]] plain_visible [OF plain_hex [OF n(2)]]
    by (simp add: escaped_def) (simp add: visible_def)
  then show ?case using Cons plain_visible by (simp add: encode_def)
qed (simp add: encode_def)

section \<open>Digests and numbers round trip\<close>

definition sized :: "digest \<Rightarrow> bool" where
  "sized d \<longleftrightarrow> length d = 32"

lemma octet_nibbles:
  fixes b :: octet
  shows "unat (drop_bit 4 b) = unat b div 16" "unat (b AND 0x0f) = unat b mod 16" "unat b div 16 < 16" "unat b < 256"
proof -
  have m: "(0x0f :: octet) = mask 4" by (simp add: mask_eq_exp_minus_1)
  show "unat (drop_bit 4 b) = unat b div 16" by (simp only: unat_drop_bit_eq drop_bit_eq_div [of 4 "unat b"]) simp
  show "unat (b AND 0x0f) = unat b mod 16" unfolding m take_bit_eq_mask [symmetric] by (simp only: unsigned_take_bit_eq take_bit_eq_mod [of 4 "unat b"]) simp
  show l: "unat b < 256" using unsigned_less [of b, where 'a = nat] by simp
  then show "unat b div 16 < 16" by (intro less_mult_imp_div_less) simp
qed

lemma to_hex_Cons: "to_hex (b # d) = kLowerHex ! (unat b div 16) # kLowerHex ! (unat b mod 16) # to_hex d"
  by (simp add: to_hex_def kHexDigits_def kLowerHex_def octet_nibbles)

lemma to_hex_Nil [simp]: "to_hex [] = []"
  by (simp add: to_hex_def)

lemma length_to_hex [simp]: "length (to_hex d) = 2 * length d"
  by (induction d) (simp_all add: to_hex_Cons)

lemma hex_octets_iff: "hex_octets token = Some d \<longleftrightarrow> token = to_hex d"
proof
  show "hex_octets token = Some d \<Longrightarrow> token = to_hex d"
  proof (induction "token" arbitrary: d rule: hex_octets.induct)
    case (3 h l rest)
    then obtain high low ds where d: "digit_value h kLowerHex = Some high" "digit_value l kLowerHex = Some low"
        "hex_octets rest = Some ds" "d = of_nat (high * 16 + low) # ds"
      by (auto split: option.splits)
    have n: "high < 16" "kLowerHex ! high = h" "low < 16" "kLowerHex ! low = l"
      using d(1,2) [THEN digit_value_Some] lower_hex by auto
    have "unat (of_nat (high * 16 + low) :: octet) = high * 16 + low" using n by (simp only: unsigned_of_nat) (simp add: take_bit_nat_eq_self)
    then show ?case using n "3.IH" d by (simp add: to_hex_Cons)
  qed simp_all
next
  have "hex_octets (to_hex d) = Some d"
  proof (induction d)
    case (Cons b d)
    have "(of_nat (unat b div 16 * 16 + unat b mod 16) :: octet) = b" unfolding div_mult_mod_eq by simp
    then show ?case
      using Cons octet_nibbles(3) [of b] lower_hex digit_value_nth [OF lower_hex(1)] by (simp add: to_hex_Cons)
  qed simp
  then show "token = to_hex d \<Longrightarrow> hex_octets token = Some d" by simp
qed

lemma parse_digest_iff: "parse_digest token = Some d \<longleftrightarrow> token = to_hex d \<and> sized d"
  using hex_octets_iff by (auto simp: parse_digest_def sized_def)

lemma to_hex_visible: "list_all visible (to_hex d)"
proof -
  have "list_all visible kLowerHex" by code_simp
  then have "visible (kLowerHex ! i)" if "i < 16" for i using that lower_hex(2) by (simp add: list_all_length)
  then show ?thesis by (induction d) (simp_all add: to_hex_Cons octet_nibbles)
qed

lemma digit_value_decimal: "digit_value c (take 10 kLowerHex) = Some d \<longleftrightarrow> d < 10 \<and> c = digit_char d"
proof -
  have ds: "take 10 kLowerHex = map digit_char [0..<10]" by code_simp
  have "distinct (take 10 kLowerHex)" "length (take 10 kLowerHex) = 10" using lower_hex by simp_all
  then show ?thesis
    using digit_value_nth [of "take 10 kLowerHex"] digit_value_Some [of c "take 10 kLowerHex" d] by (auto simp: ds)
qed

lemma decimal_value_append:
  "decimal_value (xs @ ys) n = (case decimal_value xs n of None \<Rightarrow> None | Some m \<Rightarrow> decimal_value ys m)"
  by (induction xs arbitrary: n) (auto split: option.splits)

lemma decimal_value_string: "decimal_value (string_of_nat n) 0 = Some n"
proof (induction n rule: string_of_nat.induct)
  case (1 n)
  show ?case
    using 1 digit_value_decimal [of "digit_char n" n] digit_value_decimal [of "digit_char (n mod 10)" "n mod 10"]
    by (subst string_of_nat.simps) (auto simp: decimal_value_append)
qed

lemma decimal_value_Some:
  "decimal_value xs 0 = Some n \<Longrightarrow> xs \<noteq> [] \<Longrightarrow> \<not> (1 < length xs \<and> hd xs = CHR ''0'') \<Longrightarrow> xs = string_of_nat n"
proof (induction xs arbitrary: n rule: rev_induct)
  case (snoc c xs)
  then obtain q d where q: "decimal_value xs 0 = Some q" "digit_value c (take 10 kLowerHex) = Some d" "n = q * 10 + d"
    by (auto simp: decimal_value_append split: option.splits)
  have d: "d < 10" "c = digit_char d" using q(2) unfolding digit_value_decimal by blast+
  show ?case
  proof (cases "xs = []")
    case True
    then show ?thesis using q d by (simp add: string_of_nat.simps)
  next
    case False
    then have hd: "hd xs \<noteq> CHR ''0''" using snoc.prems(3) by (cases xs) auto
    then have xs: "xs = string_of_nat q" using snoc.IH q(1) False by blast
    have "q \<noteq> 0"
    proof
      assume "q = 0"
      then have "xs = [digit_char 0]" using xs by (simp add: string_of_nat.simps)
      moreover have "digit_char 0 = CHR ''0''" by code_simp
      ultimately show False using hd by simp
    qed
    then show ?thesis using q d xs by (subst string_of_nat.simps) simp
  qed
qed simp

lemma string_of_nat_leading: "1 < length (string_of_nat n) \<Longrightarrow> hd (string_of_nat n) \<noteq> CHR ''0''"
proof (induction n rule: string_of_nat.induct)
  case (1 n)
  show ?case
  proof (cases "n < 10")
    case True
    then show ?thesis using "1.prems" by (simp add: string_of_nat.simps)
  next
    case False
    then have s: "string_of_nat n = string_of_nat (n div 10) @ [digit_char (n mod 10)]" by (simp add: string_of_nat.simps [of n])
    have "hd (string_of_nat (n div 10)) \<noteq> CHR ''0''"
    proof (cases "1 < length (string_of_nat (n div 10))")
      case True
      then show ?thesis using "1.IH" False by blast
    next
      case short: False
      then have "n div 10 < 10"
        using string_of_nat_nonempty [of "n div 10 div 10"] by (subst (asm) string_of_nat.simps) (auto split: if_splits)
      then have d: "string_of_nat (n div 10) = [digit_char (n div 10)]" by (simp add: string_of_nat.simps)
      have "0 < n div 10" "n div 10 < 10" using False \<open>n div 10 < 10\<close> by (simp_all add: div_greater_zero_iff)
      then have "(of_char (digit_char (n div 10)) :: nat) \<noteq> of_char CHR ''0''" by (simp add: digit_char_def)
      then show ?thesis unfolding d by auto
    qed
    then show ?thesis using string_of_nat_nonempty by (simp add: s)
  qed
qed

lemma length_string_of_nat: "n < 10 ^ Suc k \<Longrightarrow> length (string_of_nat n) \<le> Suc k"
proof (induction k arbitrary: n)
  case 0
  then show ?case by (simp add: string_of_nat.simps)
next
  case (Suc k)
  then have "length (string_of_nat (n div 10)) \<le> Suc k" by (intro Suc.IH) (simp add: less_mult_imp_div_less mult.commute)
  then show ?case by (subst string_of_nat.simps) simp
qed

lemma parse_number_iff: "parse_number token least = Some n \<longleftrightarrow> token = number_text n \<and> least \<le> unat n"
proof
  assume p: "parse_number token least = Some n"
  then obtain m where m: "decimal_value token 0 = Some m" "m \<le> 2 ^ 32 - 1" "least \<le> m" "n = of_nat m"
    and t: "token \<noteq> []" "\<not> (1 < length token \<and> hd token = CHR ''0'')"
    by (auto simp: parse_number_def split: if_splits option.splits)
  have "unat n = m" using m(2,4) by (simp only: unsigned_of_nat) (simp add: take_bit_nat_eq_self)
  then show "token = number_text n \<and> least \<le> unat n"
    using decimal_value_Some [OF m(1) t] m(3) by (simp add: number_text_def)
next
  assume t: "token = number_text n \<and> least \<le> unat n"
  have n: "unat n < 4294967296" using unsigned_less [of n, where 'a = nat] by simp
  then have "length (string_of_nat (unat n)) \<le> Suc 9" by (intro length_string_of_nat) simp
  then show "parse_number token least = Some n"
    using t n string_of_nat_nonempty string_of_nat_leading [of "unat n"] decimal_value_string [of "unat n"]
    by (auto simp: parse_number_def number_text_def)
qed

lemma number_text_visible: "list_all visible (number_text n)"
  using string_of_nat_digits [of "unat n"]
  by (auto simp: number_text_def list_all_iff is_digit_def visible_def)

lemma number_text_nonempty [simp]: "number_text n \<noteq> []"
  by (simp add: number_text_def string_of_nat_nonempty)

end
