(* ===== verification/Interface.thy ===== *)
theory Interface
  imports Interface_Fields
begin

text \<open>
  Verification interfaces (compiler/artifact/include/cppl/artifact/interface.hpp,
  compiler/artifact/src/interface.cpp): what a unit proved, written as canonical text and read
  back strictly.
\<close>

section \<open>The records\<close>

definition kMagic :: string where "kMagic = ''cppl-verification-interface''"
definition kFormatVersion :: nat where "kFormatVersion = 3"
definition kMaxBytes :: nat where "kMaxBytes = 16777216"
definition kMaxLineBytes :: nat where "kMaxLineBytes = 65536"
definition kMaxEntries :: nat where "kMaxEntries = 65536"
definition kMaxSources :: nat where "kMaxSources = 65536"
definition kMaxFlags :: nat where "kMaxFlags = 4096"
definition kMaxEntryItems :: nat where "kMaxEntryItems = 16384"
definition kMaxFields :: nat where "kMaxFields = 6"

record configuration =
  cf_compiler :: string
  cf_build :: digest
  cf_semantics :: string
  cf_verifier :: digest
  cf_kernel :: string
  cf_core :: string
  cf_clang :: string
  cf_language :: string
  cf_target :: string
  cf_flags :: "string list"

record source_file =
  sf_path :: string
  sf_digest :: digest

record law_premise =
  pm_identity :: digest
  pm_name :: string
  pm_file :: string
  pm_line :: u32

record code_model =
  md_identity :: digest
  md_name :: string

record unsafe_site =
  us_file :: string
  us_line :: u32
  us_column :: u32

record runtime_check =
  rc_file :: string
  rc_line :: u32
  rc_column :: u32
  rc_refinement :: string
  rc_predicate :: string

record dependency =
  dp_symbol :: string
  dp_entry :: digest

datatype correctness = TotalCorrectness | PartialCorrectness

record iface_entry =
  en_symbol :: string
  en_name :: string
  en_statement :: digest
  en_contract :: string
  en_correctness :: correctness
  en_premises :: "law_premise list"
  en_models :: "code_model list"
  en_unsafe :: "unsafe_site list"
  en_runtime :: "runtime_check list"
  en_depends :: "dependency list"

record iface =
  if_configuration :: configuration
  if_unit :: string
  if_sources :: "source_file list"
  if_entries :: "iface_entry list"

section \<open>Lines\<close>

text \<open>The fields of a line, with one space between each two.\<close>

fun joined :: "string list \<Rightarrow> string" where
  "joined [] = []"
| "joined [f] = f"
| "joined (f # fs) = f @ CHR '' '' # joined fs"

fun describe_correctness :: "correctness \<Rightarrow> string" where
  "describe_correctness TotalCorrectness = ''total''"
| "describe_correctness PartialCorrectness = ''partial''"

definition premise_fields :: "law_premise \<Rightarrow> string list" where
  "premise_fields p =
     [''premise'', to_hex (pm_identity p), number_text (pm_line p), encode (pm_file p), encode (pm_name p)]"

definition model_fields :: "code_model \<Rightarrow> string list" where
  "model_fields m = [''model'', to_hex (md_identity m), encode (md_name m)]"

definition unsafe_fields :: "unsafe_site \<Rightarrow> string list" where
  "unsafe_fields u = [''unsafe'', number_text (us_line u), number_text (us_column u), encode (us_file u)]"

definition runtime_fields :: "runtime_check \<Rightarrow> string list" where
  "runtime_fields c =
     [''runtime'', number_text (rc_line c), number_text (rc_column c), encode (rc_file c),
      encode (rc_refinement c), encode (rc_predicate c)]"

definition runtime_identity :: "runtime_check \<Rightarrow> string" where
  "runtime_identity c =
     joined [''runtime'', number_text (rc_line c), number_text (rc_column c), encode (rc_file c), encode (rc_refinement c)]"

definition dependency_fields :: "dependency \<Rightarrow> string list" where
  "dependency_fields d = [''depends'', to_hex (dp_entry d), encode (dp_symbol d)]"

text \<open>\<open>canonical_lines\<close>, with the line an item is written on.\<close>

definition canonical_lines :: "('a \<Rightarrow> string list) \<Rightarrow> 'a list \<Rightarrow> string list" where
  "canonical_lines render items = remdups_adj (sort (map (joined \<circ> render) items))"

definition entry_lines :: "iface_entry \<Rightarrow> string list" where
  "entry_lines e =
     [joined [''entry'', encode (en_symbol e)], joined [''name'', encode (en_name e)],
      joined [''statement'', to_hex (en_statement e)], joined [''contract'', encode (en_contract e)],
      joined [''status'', ''proven''], joined [''correctness'', describe_correctness (en_correctness e)]] @
     canonical_lines premise_fields (en_premises e) @ canonical_lines model_fields (en_models e) @
     canonical_lines unsafe_fields (en_unsafe e) @ canonical_lines runtime_fields (en_runtime e) @
     canonical_lines dependency_fields (en_depends e) @ [''end'']"

definition lines_text :: "string list \<Rightarrow> string" where
  "lines_text ls = concat (map (\<lambda>l. l @ [line_feed]) ls)"

definition entry_text :: "iface_entry \<Rightarrow> string" where
  "entry_text e = lines_text (entry_lines e)"

section \<open>Writing\<close>

definition ticked :: "string \<Rightarrow> string" where
  "ticked xs = tick # xs @ [tick]"

definition entry_problem :: "iface_entry \<Rightarrow> string option" where
  "entry_problem e =
     (if en_symbol e = [] \<or> en_name e = [] \<or> en_contract e = []
      then Some ''an entry lacks its symbol, name or contract''
      else if list_ex (\<lambda>p. pm_name p = [] \<or> pm_file p = [] \<or> pm_line p = 0) (en_premises e)
      then Some (''a premise of '' @ ticked (en_name e) @ '' lacks its name or location'')
      else if list_ex (\<lambda>m. md_name m = []) (en_models e)
      then Some (''a model '' @ ticked (en_name e) @ '' rests on lacks its name'')
      else if list_ex (\<lambda>u. us_file u = [] \<or> us_line u = 0) (en_unsafe e)
      then Some (''an unsafe block of '' @ ticked (en_name e) @ '' lacks its location'')
      else if list_ex (\<lambda>c. rc_file c = [] \<or> rc_line c = 0 \<or> rc_refinement c = [] \<or> rc_predicate c = []) (en_runtime e)
      then Some (''a runtime validation site of '' @ ticked (en_name e) @
                 '' lacks its location, refinement or predicate'')
      else if list_ex (\<lambda>d. dp_symbol d = []) (en_depends e)
      then Some (''a dependency of '' @ ticked (en_name e) @ '' lacks its symbol'')
      else if kMaxEntryItems < length (en_premises e) \<or> kMaxEntryItems < length (en_models e) \<or>
              kMaxEntryItems < length (en_unsafe e) \<or> kMaxEntryItems < length (en_runtime e) \<or>
              kMaxEntryItems < length (en_depends e)
      then Some (ticked (en_name e) @ '' rests on more than '' @ string_of_nat kMaxEntryItems @ '' items of one kind'')
      else None)"

text \<open>The loops over the sorted sources and entries; \<open>previous\<close> is the one before.\<close>

fun check_sources :: "source_file option \<Rightarrow> source_file list \<Rightarrow> string + unit" where
  "check_sources previous [] = Inr ()"
| "check_sources previous (f # fs) =
     (if sf_path f = [] then Inl ''a source file has no path''
      else case previous of
        Some g \<Rightarrow>
          if sf_path f = sf_path g \<and> sf_digest f \<noteq> sf_digest g
          then Inl (''source '' @ ticked (sf_path f) @ '' is recorded with two contents'')
          else check_sources (Some f) fs
      | None \<Rightarrow> check_sources (Some f) fs)"

fun check_entries :: "iface_entry option \<Rightarrow> iface_entry list \<Rightarrow> string + unit" where
  "check_entries previous [] = Inr ()"
| "check_entries previous (e # es) =
     (case entry_problem e of
        Some problem \<Rightarrow> Inl problem
      | None \<Rightarrow>
          (case previous of
             Some g \<Rightarrow>
               if en_symbol e = en_symbol g then Inl (ticked (en_name e) @ '' is recorded twice'')
               else check_entries (Some e) es
           | None \<Rightarrow> check_entries (Some e) es))"

definition configuration_lines :: "iface \<Rightarrow> string list" where
  "configuration_lines r =
     (let c = if_configuration r
      in [joined [kMagic, string_of_nat kFormatVersion],
          joined [''compiler'', encode (cf_compiler c)], joined [''build'', to_hex (cf_build c)],
          joined [''semantics'', encode (cf_semantics c)], joined [''verifier'', to_hex (cf_verifier c)],
          joined [''kernel'', encode (cf_kernel c)], joined [''core'', encode (cf_core c)],
          joined [''clang'', encode (cf_clang c)], joined [''language'', encode (cf_language c)],
          joined [''target'', encode (cf_target c)]] @
         map (\<lambda>f. joined [''flag'', encode f]) (cf_flags c) @ [joined [''unit'', encode (if_unit r)]])"

definition source_fields :: "source_file \<Rightarrow> string list" where
  "source_fields f = [''source'', to_hex (sf_digest f), encode (sf_path f)]"

text \<open>The lengths of the lines of a text, as the loop over it finds them.\<close>

function line_lengths :: "string \<Rightarrow> nat list" where
  "line_lengths xs =
     (if xs = [] then []
      else let line = takeWhile (\<lambda>c. c \<noteq> line_feed) xs
           in length line # line_lengths (drop (Suc (length line)) xs))"
  by pat_completeness auto
termination
  by (relation "measure length") auto

declare line_lengths.simps [simp del]

definition empty_field :: "iface \<Rightarrow> bool" where
  "empty_field r \<longleftrightarrow>
     (let c = if_configuration r
      in cf_compiler c = [] \<or> cf_semantics c = [] \<or> cf_kernel c = [] \<or> cf_core c = [] \<or> cf_clang c = [] \<or>
         cf_language c = [] \<or> cf_target c = [] \<or> if_unit r = [])"

definition sorted_sources :: "iface \<Rightarrow> source_file list" where
  "sorted_sources r = sort_key (encode \<circ> sf_path) (if_sources r)"

definition sorted_entries :: "iface \<Rightarrow> iface_entry list" where
  "sorted_entries r = sort_key (encode \<circ> en_symbol) (if_entries r)"

definition recorded_text :: "iface \<Rightarrow> string" where
  "recorded_text r =
     lines_text (configuration_lines r) @
     lines_text (map (joined \<circ> source_fields) (remdups_adj (sorted_sources r))) @
     concat (map entry_text (sorted_entries r))"

definition checksummed :: "string \<Rightarrow> string" where
  "checksummed xs = xs @ lines_text [joined [''checksum'', to_hex (hash_bytes xs)]]"

text \<open>Of two entries with one symbol the order, which the code leaves open, is that of the list.\<close>

definition serialize :: "iface \<Rightarrow> string + string" where
  "serialize r =
     (if empty_field r then Inl ''a configuration field or the unit is empty''
      else if kMaxFlags < length (cf_flags (if_configuration r))
      then Inl (''more than '' @ string_of_nat kMaxFlags @ '' options change C++ meaning'')
      else bind_ok (check_sources None (sorted_sources r)) (\<lambda>_.
        if kMaxSources < length (remdups_adj (sorted_sources r))
        then Inl (''more than '' @ string_of_nat kMaxSources @ '' source files'')
        else bind_ok (check_entries None (sorted_entries r)) (\<lambda>_.
          if kMaxEntries < length (sorted_entries r)
          then Inl (''more than '' @ string_of_nat kMaxEntries @ '' contracts'')
          else if [] \<in> set (cf_flags (if_configuration r)) then Inl ''an option is empty''
          else if list_ex (\<lambda>n. kMaxLineBytes < n) (line_lengths (recorded_text r))
          then Inl (''a recorded line is longer than '' @ string_of_nat kMaxLineBytes @ '' bytes'')
          else let xs = checksummed (recorded_text r)
               in if kMaxBytes < length xs
                  then Inl (''the interface would be larger than '' @ string_of_nat kMaxBytes @ '' bytes'')
                  else Inr xs)))"

section \<open>Identities\<close>

definition unique_keys :: "('a \<Rightarrow> string) \<Rightarrow> 'a list \<Rightarrow> string list" where
  "unique_keys key items = remdups_adj (sort (map key items))"

definition identity_kinds :: "iface_entry \<Rightarrow> (string \<times> string list) list" where
  "identity_kinds e =
     [(''premises'', unique_keys (to_hex \<circ> pm_identity) (en_premises e)),
      (''models'', unique_keys (to_hex \<circ> md_identity) (en_models e)),
      (''unsafe'', unique_keys (joined \<circ> unsafe_fields) (en_unsafe e)),
      (''runtime'', unique_keys runtime_identity (en_runtime e)),
      (''depends'', unique_keys (joined \<circ> dependency_fields) (en_depends e))]"

definition feed_kind :: "hasher \<Rightarrow> string \<times> string list \<Rightarrow> hasher" where
  "feed_kind h k =
     foldl (\<lambda>h key. update_field key h) (update_u64 (of_nat (length (snd k))) (update_field (fst k) h)) (snd k)"

definition identify :: "iface_entry \<Rightarrow> digest" where
  "identify e =
     (let h = update_field ''cppl-verification-interface-entry-v4'' new_hasher;
          h = update_field (en_symbol e) h;
          h = update_field (to_hex (en_statement e)) h;
          h = update_field (describe_correctness (en_correctness e)) h
      in fst (finish_hash (foldl feed_kind h (identity_kinds e))))"

definition displayed :: "string \<Rightarrow> string" where
  "displayed xs = concat (map (\<lambda>c. if plain c \<or> c = CHR '' '' then [c] else escaped c) xs)"

section \<open>Reading lines\<close>

definition quoted :: "string \<Rightarrow> string" where
  "quoted xs =
     ticked (map (\<lambda>c. if (0x20 :: nat) \<le> of_char c \<and> (of_char c :: nat) \<le> 0x7E then c else CHR ''?'') (take 64 xs) @
             (if 64 < length xs then ''...'' else []))"

record parse_error =
  pe_reason :: string
  pe_line :: nat

record line =
  ln_number :: nat
  ln_text :: string
  ln_fields :: "string list"

record parser =
  ps_rest :: string
  ps_number :: nat

definition refuse :: "string \<Rightarrow> nat \<Rightarrow> parse_error + 'a" where
  "refuse reason n = Inl \<lparr>pe_reason = reason, pe_line = n\<rparr>"

definition line_key :: "line \<Rightarrow> string" where
  "line_key l = ln_fields l ! 0"

function split_fields :: "nat \<Rightarrow> string \<Rightarrow> string list \<Rightarrow> parse_error + string list" where
  "split_fields n remaining found =
     (let field = takeWhile (\<lambda>c. c \<noteq> CHR '' '') remaining
      in if field = [] then refuse ''a line has an empty field'' n
         else if length found = kMaxFields then refuse ''a line has too many fields'' n
         else if length field = length remaining then Inr (found @ [field])
         else split_fields n (drop (Suc (length field)) remaining) (found @ [field]))"
  by pat_completeness auto
termination
  by (relation "measure (\<lambda>(n, remaining, found). length remaining)")
    (auto intro!: diff_less gr0I)

declare split_fields.simps [simp del]

definition done_reading :: "parser \<Rightarrow> bool" where
  "done_reading p \<longleftrightarrow> ps_rest p = []"

definition printable :: "char \<Rightarrow> bool" where
  "printable c \<longleftrightarrow> (0x20 :: nat) \<le> of_char c \<and> (of_char c :: nat) \<le> 0x7E"

definition peek :: "parser \<Rightarrow> parse_error + line" where
  "peek p =
     (let content = takeWhile (\<lambda>c. c \<noteq> line_feed) (ps_rest p)
      in if length content = length (ps_rest p) then refuse ''a line is not terminated'' (ps_number p)
         else if kMaxLineBytes < length content
         then refuse (''a line is longer than the '' @ string_of_nat kMaxLineBytes @ '' bytes allowed'') (ps_number p)
         else if \<not> list_all printable content then refuse ''a line holds a byte that must be escaped'' (ps_number p)
         else bind_ok (split_fields (ps_number p) content []) (\<lambda>found.
           Inr \<lparr>ln_number = ps_number p, ln_text = content, ln_fields = found\<rparr>))"

definition consume :: "line \<Rightarrow> nat \<Rightarrow> parser \<Rightarrow> parse_error + line \<times> parser" where
  "consume l arity p =
     (if length (ln_fields l) \<noteq> arity + 1
      then refuse (ticked (line_key l) @ '' has '' @ string_of_nat (length (ln_fields l) - 1) @ '' fields, not '' @
                   string_of_nat arity) (ln_number l)
      else Inr (l, \<lparr>ps_rest = drop (length (ln_text l) + 1) (ps_rest p), ps_number = ps_number p + 1\<rparr>))"

definition take_line :: "string \<Rightarrow> nat \<Rightarrow> parser \<Rightarrow> parse_error + line \<times> parser" where
  "take_line key arity p =
     (if done_reading p then refuse (''it ends where '' @ ticked key @ '' was expected'') (ps_number p)
      else bind_ok (peek p) (\<lambda>l.
        if line_key l \<noteq> key
        then refuse (''found '' @ quoted (line_key l) @ '' where '' @ ticked key @ '' was expected'') (ln_number l)
        else consume l arity p))"

definition take_if :: "string \<Rightarrow> nat \<Rightarrow> parser \<Rightarrow> parse_error + line option \<times> parser" where
  "take_if key arity p =
     (if done_reading p then Inr (None, p)
      else bind_ok (peek p) (\<lambda>l.
        if line_key l \<noteq> key then Inr (None, p)
        else bind_ok (consume l arity p) (\<lambda>(l, p). Inr (Some l, p))))"

definition malformed :: "string \<Rightarrow> line \<Rightarrow> parse_error + 'a" where
  "malformed what l = refuse what (ln_number l)"

definition text_field :: "line \<Rightarrow> nat \<Rightarrow> parse_error + string" where
  "text_field l i =
     (case decode (ln_fields l ! i) of
        None \<Rightarrow> malformed (ticked (line_key l) @ '' holds a field that is not canonically encoded'') l
      | Some xs \<Rightarrow> Inr xs)"

definition digest_field :: "line \<Rightarrow> nat \<Rightarrow> parse_error + digest" where
  "digest_field l i =
     (case parse_digest (ln_fields l ! i) of
        None \<Rightarrow> malformed (ticked (line_key l) @ '' holds a malformed digest'') l
      | Some d \<Rightarrow> Inr d)"

definition number_field :: "line \<Rightarrow> nat \<Rightarrow> nat \<Rightarrow> parse_error + u32" where
  "number_field l i least =
     (case parse_number (ln_fields l ! i) least of
        None \<Rightarrow> malformed (ticked (line_key l) @ '' holds a malformed number'') l
      | Some n \<Rightarrow> Inr n)"

definition in_order :: "string \<Rightarrow> line \<Rightarrow> string \<Rightarrow> parse_error + unit" where
  "in_order previous l what =
     (if previous \<noteq> [] \<and> \<not> previous < ln_text l
      then malformed (what @ '' are not in canonical order, or one is repeated'') l else Inr ())"

section \<open>Reading items\<close>

text \<open>The loop over the items of one kind, which the code has once for each kind.\<close>

lemma take_if_shorter: "take_if key arity p = Inr (Some l, q) \<Longrightarrow> length (ps_rest q) < length (ps_rest p)"
  by (auto simp: take_if_def consume_def done_reading_def refuse_def split: if_splits)

function item_loop ::
  "string \<Rightarrow> nat \<Rightarrow> string \<Rightarrow> string \<Rightarrow> (line \<Rightarrow> parse_error + 'a) \<Rightarrow> string \<Rightarrow> 'a list \<Rightarrow> parser \<Rightarrow>
     parse_error + 'a list \<times> parser" where
  "item_loop key arity many what item previous items p =
     bind_ok (take_if key arity p) (\<lambda>(found, q).
       case found of
         None \<Rightarrow> Inr (items, q)
       | Some l \<Rightarrow>
           if length items = kMaxEntryItems
           then malformed (''an entry rests on more than '' @ string_of_nat kMaxEntryItems @ many) l
           else bind_ok (in_order previous l what) (\<lambda>_. bind_ok (item l) (\<lambda>x.
             item_loop key arity many what item (ln_text l) (items @ [x]) q)))"
  by pat_completeness auto
termination
  by (relation "measure (\<lambda>(key, arity, many, what, item, previous, items, p). length (ps_rest p))")
    (auto dest: take_if_shorter)

declare item_loop.simps [simp del]

definition premise_item :: "line \<Rightarrow> parse_error + law_premise" where
  "premise_item l =
     bind_ok (digest_field l 1) (\<lambda>identity. bind_ok (number_field l 2 1) (\<lambda>at.
     bind_ok (text_field l 3) (\<lambda>file. bind_ok (text_field l 4) (\<lambda>law.
       Inr \<lparr>pm_identity = identity, pm_name = law, pm_file = file, pm_line = at\<rparr>))))"

definition model_item :: "line \<Rightarrow> parse_error + code_model" where
  "model_item l =
     bind_ok (digest_field l 1) (\<lambda>identity. bind_ok (text_field l 2) (\<lambda>modeled.
       Inr \<lparr>md_identity = identity, md_name = modeled\<rparr>))"

definition unsafe_item :: "line \<Rightarrow> parse_error + unsafe_site" where
  "unsafe_item l =
     bind_ok (number_field l 1 1) (\<lambda>at. bind_ok (number_field l 2 0) (\<lambda>column. bind_ok (text_field l 3) (\<lambda>file.
       Inr \<lparr>us_file = file, us_line = at, us_column = column\<rparr>)))"

definition runtime_item :: "line \<Rightarrow> parse_error + runtime_check" where
  "runtime_item l =
     bind_ok (number_field l 1 1) (\<lambda>at. bind_ok (number_field l 2 0) (\<lambda>column. bind_ok (text_field l 3) (\<lambda>file.
     bind_ok (text_field l 4) (\<lambda>refinement. bind_ok (text_field l 5) (\<lambda>predicate.
       Inr \<lparr>rc_file = file, rc_line = at, rc_column = column, rc_refinement = refinement, rc_predicate = predicate\<rparr>)))))"

definition dependency_item :: "line \<Rightarrow> parse_error + dependency" where
  "dependency_item l =
     bind_ok (digest_field l 1) (\<lambda>identity. bind_ok (text_field l 2) (\<lambda>callee.
       Inr \<lparr>dp_symbol = callee, dp_entry = identity\<rparr>))"

definition premises_loop :: "parser \<Rightarrow> parse_error + law_premise list \<times> parser" where
  "premises_loop = item_loop ''premise'' 4 '' premises'' ''premises'' premise_item [] []"

definition models_loop :: "parser \<Rightarrow> parse_error + code_model list \<times> parser" where
  "models_loop = item_loop ''model'' 2 '' models'' ''models'' model_item [] []"

definition unsafe_loop :: "parser \<Rightarrow> parse_error + unsafe_site list \<times> parser" where
  "unsafe_loop = item_loop ''unsafe'' 3 '' unsafe blocks'' ''unsafe blocks'' unsafe_item [] []"

definition runtime_loop :: "parser \<Rightarrow> parse_error + runtime_check list \<times> parser" where
  "runtime_loop = item_loop ''runtime'' 5 '' runtime validation sites'' ''runtime validation sites'' runtime_item [] []"

definition dependencies_loop :: "parser \<Rightarrow> parse_error + dependency list \<times> parser" where
  "dependencies_loop = item_loop ''depends'' 2 '' imported contracts'' ''dependencies'' dependency_item [] []"

section \<open>Reading entries\<close>

definition single_text :: "string \<Rightarrow> parser \<Rightarrow> parse_error + string \<times> parser" where
  "single_text key p =
     bind_ok (take_line key 1 p) (\<lambda>(l, p). bind_ok (text_field l 1) (\<lambda>xs. Inr (xs, p)))"

definition single_digest :: "string \<Rightarrow> parser \<Rightarrow> parse_error + digest \<times> parser" where
  "single_digest key p =
     bind_ok (take_line key 1 p) (\<lambda>(l, p). bind_ok (digest_field l 1) (\<lambda>d. Inr (d, p)))"

definition read_status :: "string \<Rightarrow> parser \<Rightarrow> parse_error + parser" where
  "read_status name p =
     bind_ok (take_line ''status'' 1 p) (\<lambda>(l, p).
       if ln_fields l ! 1 \<noteq> ''proven''
       then malformed (''the entry for '' @ quoted name @ '' records status '' @ quoted (ln_fields l ! 1) @
                       ''; only a proven contract is recorded'') l
       else Inr p)"

definition read_correctness :: "parser \<Rightarrow> parse_error + correctness \<times> parser" where
  "read_correctness p =
     bind_ok (take_line ''correctness'' 1 p) (\<lambda>(l, p).
       if ln_fields l ! 1 = ''total'' then Inr (TotalCorrectness, p)
       else if ln_fields l ! 1 = ''partial'' then Inr (PartialCorrectness, p)
       else malformed ([tick] @ ''correctness'' @ [tick] @ '' is neither '' @ ticked ''total'' @ '' nor '' @ ticked ''partial'') l)"

definition parse_entry :: "line \<Rightarrow> parser \<Rightarrow> parse_error + iface_entry \<times> parser" where
  "parse_entry opening p =
     bind_ok (text_field opening 1) (\<lambda>symbol.
     bind_ok (single_text ''name'' p) (\<lambda>(name, p).
     bind_ok (single_digest ''statement'' p) (\<lambda>(statement, p).
     bind_ok (single_text ''contract'' p) (\<lambda>(contract, p).
     bind_ok (read_status name p) (\<lambda>p.
     bind_ok (read_correctness p) (\<lambda>(correctness, p).
     bind_ok (premises_loop p) (\<lambda>(premises, p).
     bind_ok (models_loop p) (\<lambda>(models, p).
     bind_ok (unsafe_loop p) (\<lambda>(unsafe, p).
     bind_ok (runtime_loop p) (\<lambda>(runtime, p).
     bind_ok (dependencies_loop p) (\<lambda>(depends, p).
     bind_ok (take_line ''end'' 0 p) (\<lambda>(l, p).
       Inr (\<lparr>en_symbol = symbol, en_name = name, en_statement = statement, en_contract = contract,
             en_correctness = correctness, en_premises = premises, en_models = models, en_unsafe = unsafe,
             en_runtime = runtime, en_depends = depends\<rparr>, p)))))))))))))"

section \<open>Reading an interface\<close>

function flag_loop :: "string list \<Rightarrow> parser \<Rightarrow> parse_error + string list \<times> parser" where
  "flag_loop flags p =
     bind_ok (take_if ''flag'' 1 p) (\<lambda>(found, q).
       case found of
         None \<Rightarrow> Inr (flags, q)
       | Some l \<Rightarrow>
           if length flags = kMaxFlags
           then malformed (''more than '' @ string_of_nat kMaxFlags @ '' options are recorded'') l
           else bind_ok (text_field l 1) (\<lambda>flag. flag_loop (flags @ [flag]) q))"
  by pat_completeness auto
termination
  by (relation "measure (\<lambda>(flags, p). length (ps_rest p))") (auto dest: take_if_shorter)

declare flag_loop.simps [simp del]

function source_loop :: "string \<Rightarrow> source_file list \<Rightarrow> parser \<Rightarrow> parse_error + source_file list \<times> parser" where
  "source_loop previous files p =
     bind_ok (take_if ''source'' 2 p) (\<lambda>(found, q).
       case found of
         None \<Rightarrow> Inr (files, q)
       | Some l \<Rightarrow>
           if length files = kMaxSources
           then malformed (''more than '' @ string_of_nat kMaxSources @ '' source files are recorded'') l
           else if previous \<noteq> [] \<and> \<not> previous < ln_fields l ! 2
           then malformed ''source files are not in canonical order, or one is repeated'' l
           else bind_ok (digest_field l 1) (\<lambda>d. bind_ok (text_field l 2) (\<lambda>path.
             source_loop (ln_fields l ! 2) (files @ [\<lparr>sf_path = path, sf_digest = d\<rparr>]) q)))"
  by pat_completeness auto
termination
  by (relation "measure (\<lambda>(previous, files, p). length (ps_rest p))") (auto dest: take_if_shorter)

declare source_loop.simps [simp del]

text \<open>Reading an entry never goes back.\<close>

lemma take_line_shorter: "take_line key arity p = Inr (l, q) \<Longrightarrow> length (ps_rest q) \<le> length (ps_rest p)"
  by (auto simp: take_line_def consume_def refuse_def split: if_splits)

lemma item_loop_shorter:
  "item_loop key arity many what item previous items p = Inr (xs, q) \<Longrightarrow> length (ps_rest q) \<le> length (ps_rest p)"
proof (induction key arity many what item previous items p arbitrary: xs rule: item_loop.induct)
  case (1 key arity many what item previous items p)
  obtain found r where t: "take_if key arity p = Inr (found, r)"
    using "1.prems" by (subst (asm) item_loop.simps) auto
  show ?case
  proof (cases found)
    case None
    then have "q = r" using "1.prems" t by (subst (asm) item_loop.simps) simp
    moreover have "r = p" using t None by (auto simp: take_if_def refuse_def split: if_splits)
    ultimately show ?thesis by simp
  next
    case (Some l)
    then obtain x where "length items \<noteq> kMaxEntryItems" "in_order previous l what = Inr ()" "item l = Inr x"
        "item_loop key arity many what item (ln_text l) (items @ [x]) r = Inr (xs, q)"
      using "1.prems" t by (subst (asm) item_loop.simps) (auto simp: malformed_def refuse_def split: if_splits)
    then have "length (ps_rest q) \<le> length (ps_rest r)" using "1.IH" [OF t refl Some] by blast
    then show ?thesis using take_if_shorter t Some by fastforce
  qed
qed

lemma parse_entry_shorter: "parse_entry l p = Inr (e, q) \<Longrightarrow> length (ps_rest q) \<le> length (ps_rest p)"
  unfolding parse_entry_def single_text_def single_digest_def read_status_def read_correctness_def
    premises_loop_def models_loop_def unsafe_loop_def runtime_loop_def dependencies_loop_def
  by (auto simp: malformed_def refuse_def split: if_splits dest!: take_line_shorter item_loop_shorter)

function entry_loop :: "string \<Rightarrow> iface_entry list \<Rightarrow> parser \<Rightarrow> parse_error + iface_entry list \<times> parser" where
  "entry_loop previous entries p =
     bind_ok (take_if ''entry'' 1 p) (\<lambda>(found, q).
       case found of
         None \<Rightarrow> Inr (entries, q)
       | Some l \<Rightarrow>
           if length entries = kMaxEntries
           then malformed (''more than '' @ string_of_nat kMaxEntries @ '' contracts are recorded'') l
           else if previous \<noteq> [] \<and> \<not> previous < ln_fields l ! 1
           then malformed ''entries are not in canonical order, or one function is recorded twice'' l
           else bind_ok (parse_entry l q) (\<lambda>(e, r). entry_loop (ln_fields l ! 1) (entries @ [e]) r))"
  by pat_completeness auto
termination
  by (relation "measure (\<lambda>(previous, entries, p). length (ps_rest p))")
    (auto dest!: take_if_shorter parse_entry_shorter)

declare entry_loop.simps [simp del]

text \<open>The body: everything between the first line and the checksum.\<close>

definition parse_body :: "parser \<Rightarrow> parse_error + iface" where
  "parse_body p =
     bind_ok (single_text ''compiler'' p) (\<lambda>(compiler, p).
     bind_ok (single_digest ''build'' p) (\<lambda>(build, p).
     bind_ok (single_text ''semantics'' p) (\<lambda>(semantics, p).
     bind_ok (single_digest ''verifier'' p) (\<lambda>(verifier, p).
     bind_ok (single_text ''kernel'' p) (\<lambda>(kernel, p).
     bind_ok (single_text ''core'' p) (\<lambda>(core, p).
     bind_ok (single_text ''clang'' p) (\<lambda>(clang, p).
     bind_ok (single_text ''language'' p) (\<lambda>(language, p).
     bind_ok (single_text ''target'' p) (\<lambda>(target, p).
     bind_ok (flag_loop [] p) (\<lambda>(flags, p).
     bind_ok (single_text ''unit'' p) (\<lambda>(unit_name, p).
     bind_ok (source_loop [] [] p) (\<lambda>(sources, p).
     bind_ok (entry_loop [] [] p) (\<lambda>(entries, p).
       if done_reading p
       then Inr \<lparr>if_configuration =
                   \<lparr>cf_compiler = compiler, cf_build = build, cf_semantics = semantics, cf_verifier = verifier,
                    cf_kernel = kernel, cf_core = core, cf_clang = clang, cf_language = language,
                    cf_target = target, cf_flags = flags\<rparr>,
                 if_unit = unit_name, if_sources = sources, if_entries = entries\<rparr>
       else bind_ok (peek p) (\<lambda>l.
         malformed (''found '' @ quoted (line_key l) @ '' where an entry or the checksum was expected'') l))))))))))))))"

definition first_line :: string where
  "first_line = joined [kMagic, string_of_nat kFormatVersion]"

definition last_line_of :: "string \<Rightarrow> string" where
  "last_line_of xs = rev (takeWhile (\<lambda>c. c \<noteq> line_feed) (rev (butlast xs)))"

definition parse :: "string \<Rightarrow> parse_error + iface" where
  "parse xs =
     (if kMaxBytes < length xs
      then refuse (''it is larger than the '' @ string_of_nat kMaxBytes @ '' bytes an interface may have'') 0
      else
        let first_end = length (takeWhile (\<lambda>c. c \<noteq> line_feed) xs);
            first = take kMaxLineBytes (take first_end xs);
            prefix = kMagic @ '' ''
        in if first \<noteq> first_line
           then if take (length prefix) first = prefix
                then refuse (''it is format version '' @ quoted (drop (length prefix) first) @
                             '', and this compiler reads only version '' @ string_of_nat kFormatVersion) 1
                else refuse ''it is not a C++L verification interface'' 1
           else if first_end = length xs \<or> last xs \<noteq> line_feed
           then refuse ''it is truncated: its last line is incomplete'' 0
           else
             let last_text = last_line_of xs;
                 last_start = length xs - 1 - length last_text
             in if last_start \<le> first_end then refuse ''it is truncated: it does not end with its checksum'' 0
                else if take 9 last_text \<noteq> ''checksum '' then refuse ''it is truncated: it does not end with its checksum'' 0
                else case parse_digest (drop 9 last_text) of
                  None \<Rightarrow> refuse ''its checksum line is malformed'' 0
                | Some recorded \<Rightarrow>
                    if hash_bytes (take last_start xs) \<noteq> recorded
                    then refuse ''it is corrupt: its checksum does not match its content'' 0
                    else parse_body \<lparr>ps_rest = substr xs (first_end + 1) (last_start - first_end - 1), ps_number = 2\<rparr>)"

end
