(* ===== verification/Interface_Facts.thy ===== *)
theory Interface_Facts
  imports Interface
begin

text \<open>
  An interface is read back as it was written, and what is read is what would be written again:
  the reader accepts exactly the canonical texts.
\<close>

section \<open>Lines and their fields\<close>

definition field_ok :: "string \<Rightarrow> bool" where
  "field_ok f \<longleftrightarrow> f \<noteq> [] \<and> CHR '' '' \<notin> set f"

lemma joined_Cons: "fs \<noteq> [] \<Longrightarrow> joined (f # fs) = f @ CHR '' '' # joined fs"
  by (cases fs) simp_all

lemma takeWhile_field: "CHR '' '' \<notin> set f \<Longrightarrow> takeWhile (\<lambda>c. c \<noteq> CHR '' '') (f @ CHR '' '' # xs) = f"
  "CHR '' '' \<notin> set f \<Longrightarrow> takeWhile (\<lambda>c. c \<noteq> CHR '' '') f = f"
  by (subst takeWhile_append2) (auto simp: takeWhile_eq_all_conv)

lemma split_fields_iff:
  "length found \<le> kMaxFields \<Longrightarrow>
     split_fields n xs found = Inr fs \<longleftrightarrow>
     (\<exists>gs. fs = found @ gs \<and> gs \<noteq> [] \<and> xs = joined gs \<and> list_all field_ok gs \<and> length fs \<le> kMaxFields)"
proof (induction n xs found rule: split_fields.induct)
  case (1 n xs found)
  let ?f = "takeWhile (\<lambda>c. c \<noteq> CHR '' '') xs"
  have f: "CHR '' '' \<notin> set ?f" by (auto dest: set_takeWhileD)
  show ?case
  proof (cases "?f = [] \<or> length found = kMaxFields")
    case True
    have "\<not> (\<exists>gs. fs = found @ gs \<and> gs \<noteq> [] \<and> xs = joined gs \<and> list_all field_ok gs \<and> length fs \<le> kMaxFields)"
    proof
      assume "\<exists>gs. fs = found @ gs \<and> gs \<noteq> [] \<and> xs = joined gs \<and> list_all field_ok gs \<and> length fs \<le> kMaxFields"
      then obtain hs where hs: "fs = found @ hs" "hs \<noteq> []" "xs = joined hs" "list_all field_ok hs" "length fs \<le> kMaxFields"
        by blast
      then obtain g gs where "hs = g # gs" by (cases hs) auto
      then have g: "fs = found @ g # gs" "xs = joined (g # gs)" "field_ok g" "length fs \<le> kMaxFields" using hs by simp_all
      have "xs = g \<or> xs = g @ CHR '' '' # joined gs" using g(2) joined_Cons [of gs g] by (cases "gs = []") simp_all
      then have "?f = g" using g(3) takeWhile_field [of g] unfolding field_ok_def by metis
      then show False using True g(1,3,4) by (auto simp: field_ok_def)
    qed
    moreover have "split_fields n xs found \<noteq> Inr fs"
      using True by (elim disjE) (simp_all add: split_fields.simps [of n xs found] Let_def refuse_def)
    ultimately show ?thesis by blast
  next
    case False
    show ?thesis
    proof (cases "length ?f = length xs")
      case True
      then have e: "?f = xs" by (metis takeWhile_eq_take take_all order_refl)
      have "split_fields n xs found = Inr (found @ [xs])"
        using False True by (subst split_fields.simps) (simp add: Let_def e)
      moreover have "(\<exists>gs. fs = found @ gs \<and> gs \<noteq> [] \<and> xs = joined gs \<and> list_all field_ok gs \<and> length fs \<le> kMaxFields) \<longleftrightarrow>
          fs = found @ [xs]"
      proof
        assume "\<exists>gs. fs = found @ gs \<and> gs \<noteq> [] \<and> xs = joined gs \<and> list_all field_ok gs \<and> length fs \<le> kMaxFields"
        then obtain g gs where g: "fs = found @ g # gs" "xs = joined (g # gs)" by (metis list.exhaust)
        have "gs = []"
        proof (rule ccontr)
          assume "gs \<noteq> []"
          then have "CHR '' '' \<in> set xs" using g(2) by (simp add: joined_Cons)
          then show False using f e by simp
        qed
        then show "fs = found @ [xs]" using g by simp
      next
        assume "fs = found @ [xs]"
        then show "\<exists>gs. fs = found @ gs \<and> gs \<noteq> [] \<and> xs = joined gs \<and> list_all field_ok gs \<and> length fs \<le> kMaxFields"
          using False f e "1.prems" by (intro exI [of _ "[xs]"]) (auto simp: field_ok_def)
      qed
      ultimately show ?thesis by auto
    next
      case longer: False
      let ?r = "drop (Suc (length ?f)) xs"
      have "drop (length ?f) xs = CHR '' '' # ?r"
      proof -
        have d: "dropWhile (\<lambda>c. c \<noteq> CHR '' '') xs \<noteq> []"
          using longer by (metis append_Nil2 takeWhile_dropWhile_id)
        then have "hd (dropWhile (\<lambda>c. c \<noteq> CHR '' '') xs) = CHR '' ''" using hd_dropWhile [OF d] by blast
        then show ?thesis using d by (metis dropWhile_eq_drop drop_Suc list.exhaust_sel tl_drop)
      qed
      then have xs: "xs = ?f @ CHR '' '' # ?r" by (metis append_take_drop_id takeWhile_eq_take)
      have step: "split_fields n xs found = split_fields n ?r (found @ [?f])"
        using False longer by (subst split_fields.simps) (simp add: Let_def)
      have "split_fields n ?r (found @ [?f]) = Inr fs \<longleftrightarrow>
          (\<exists>gs. fs = (found @ [?f]) @ gs \<and> gs \<noteq> [] \<and> ?r = joined gs \<and> list_all field_ok gs \<and> length fs \<le> kMaxFields)"
        using "1.IH" [OF refl] False longer "1.prems" by simp
      also have "\<dots> \<longleftrightarrow> (\<exists>gs. fs = found @ gs \<and> gs \<noteq> [] \<and> xs = joined gs \<and> list_all field_ok gs \<and> length fs \<le> kMaxFields)"
      proof
        assume "\<exists>gs. fs = (found @ [?f]) @ gs \<and> gs \<noteq> [] \<and> ?r = joined gs \<and> list_all field_ok gs \<and> length fs \<le> kMaxFields"
        then obtain gs where g: "fs = (found @ [?f]) @ gs" "gs \<noteq> []" "?r = joined gs" "list_all field_ok gs" "length fs \<le> kMaxFields"
          by blast
        have "xs = joined (?f # gs)" using xs g(3) joined_Cons [OF g(2), of ?f] by simp
        then show "\<exists>gs. fs = found @ gs \<and> gs \<noteq> [] \<and> xs = joined gs \<and> list_all field_ok gs \<and> length fs \<le> kMaxFields"
          using g f False by (intro exI [of _ "?f # gs"]) (simp add: field_ok_def)
      next
        assume "\<exists>gs. fs = found @ gs \<and> gs \<noteq> [] \<and> xs = joined gs \<and> list_all field_ok gs \<and> length fs \<le> kMaxFields"
        then obtain hs where hs: "fs = found @ hs" "hs \<noteq> []" "xs = joined hs" "list_all field_ok hs" "length fs \<le> kMaxFields"
          by blast
        then obtain g gs where "hs = g # gs" by (cases hs) auto
        then have g: "fs = found @ g # gs" "xs = joined (g # gs)" "list_all field_ok (g # gs)" "length fs \<le> kMaxFields"
          using hs by simp_all
        have gs: "gs \<noteq> []"
        proof
          assume "gs = []"
          then have "xs = g" "CHR '' '' \<notin> set g" using g(2,3) by (simp_all add: field_ok_def)
          then have "?f = xs" using takeWhile_field(2) [of g] by metis
          then show False using longer by metis
        qed
        then have j: "xs = g @ CHR '' '' # joined gs" using g(2) joined_Cons by simp
        then have fg: "?f = g" using g(3) takeWhile_field(1) by (simp add: field_ok_def)
        then have "?r = joined gs" using j by simp
        then show "\<exists>gs. fs = (found @ [?f]) @ gs \<and> gs \<noteq> [] \<and> ?r = joined gs \<and> list_all field_ok gs \<and> length fs \<le> kMaxFields"
          using g gs fg by (intro exI [of _ gs]) simp
      qed
      finally show ?thesis unfolding step .
    qed
  qed
qed

text \<open>Lines a reader accepts, and what a reader has read between two states.\<close>

definition line_ok :: "string list \<Rightarrow> bool" where
  "line_ok fs \<longleftrightarrow> fs \<noteq> [] \<and> list_all field_ok fs \<and> length fs \<le> kMaxFields \<and> list_all printable (joined fs) \<and>
     length (joined fs) \<le> kMaxLineBytes"

definition line_of :: "parser \<Rightarrow> string list \<Rightarrow> line" where
  "line_of p fs = \<lparr>ln_number = ps_number p, ln_text = joined fs, ln_fields = fs\<rparr>"

definition reads_lines :: "parser \<Rightarrow> string list list \<Rightarrow> parser \<Rightarrow> bool" where
  "reads_lines p fss q \<longleftrightarrow>
     ps_rest p = lines_text (map joined fss) @ ps_rest q \<and> ps_number q = ps_number p + length fss \<and> list_all line_ok fss"

lemma lines_text_simps [simp]:
  "lines_text [] = []" "lines_text (l # ls) = l @ line_feed # lines_text ls"
  "lines_text (ls @ ms) = lines_text ls @ lines_text ms"
  by (simp_all add: lines_text_def)

lemma reads_Nil [simp]: "reads_lines p [] q \<longleftrightarrow> q = p"
  by (cases p; cases q) (auto simp: reads_lines_def)

lemma reads_append: "reads_lines p (fss @ gss) q \<longleftrightarrow> (\<exists>r. reads_lines p fss r \<and> reads_lines r gss q)"
proof
  assume a: "reads_lines p (fss @ gss) q"
  let ?r = "\<lparr>ps_rest = lines_text (map joined gss) @ ps_rest q, ps_number = ps_number p + length fss\<rparr>"
  have "reads_lines p fss ?r \<and> reads_lines ?r gss q" using a by (simp add: reads_lines_def)
  then show "\<exists>r. reads_lines p fss r \<and> reads_lines r gss q" by blast
qed (auto simp: reads_lines_def)

lemma reads_Cons: "reads_lines p (fs # fss) q \<longleftrightarrow> (\<exists>r. reads_lines p [fs] r \<and> reads_lines r fss q)"
  using reads_append [of p "[fs]" fss q] by simp

lemma printable_no_feed: "list_all printable xs \<Longrightarrow> line_feed \<notin> set xs"
  by (auto simp: list_all_iff printable_def)

lemma takeWhile_line: "line_feed \<notin> set l \<Longrightarrow> takeWhile (\<lambda>c. c \<noteq> line_feed) (l @ line_feed # xs) = l"
  by (subst takeWhile_append2) auto

lemma peek_iff: "peek p = Inr l \<longleftrightarrow> (\<exists>fs r. l = line_of p fs \<and> line_ok fs \<and> ps_rest p = joined fs @ line_feed # r)"
proof
  let ?c = "takeWhile (\<lambda>c. c \<noteq> line_feed) (ps_rest p)"
  assume "peek p = Inr l"
  then obtain fs where fs: "length ?c \<noteq> length (ps_rest p)" "length ?c \<le> kMaxLineBytes" "list_all printable ?c"
      "split_fields (ps_number p) ?c [] = Inr fs" "l = \<lparr>ln_number = ps_number p, ln_text = ?c, ln_fields = fs\<rparr>"
    by (auto simp: peek_def Let_def refuse_def split: if_splits)
  have s: "fs \<noteq> []" "?c = joined fs" "list_all field_ok fs" "length fs \<le> kMaxFields"
    using fs(4) split_fields_iff [of "[]" "ps_number p" ?c fs] by auto
  have d: "dropWhile (\<lambda>c. c \<noteq> line_feed) (ps_rest p) \<noteq> []" using fs(1) by (metis append_Nil2 takeWhile_dropWhile_id)
  then have "hd (dropWhile (\<lambda>c. c \<noteq> line_feed) (ps_rest p)) = line_feed" using hd_dropWhile [OF d] by blast
  then obtain r where "dropWhile (\<lambda>c. c \<noteq> line_feed) (ps_rest p) = line_feed # r" using d by (metis list.exhaust_sel)
  then have r: "ps_rest p = joined fs @ line_feed # r" using s(2) by (metis takeWhile_dropWhile_id)
  have "l = line_of p fs" "line_ok fs"
    using fs(2,3) s(1,3,4) unfolding fs(5) s(2) line_of_def line_ok_def by simp_all
  then show "\<exists>fs r. l = line_of p fs \<and> line_ok fs \<and> ps_rest p = joined fs @ line_feed # r" using r by blast
next
  assume "\<exists>fs r. l = line_of p fs \<and> line_ok fs \<and> ps_rest p = joined fs @ line_feed # r"
  then obtain fs r where fs: "l = line_of p fs" "line_ok fs" "ps_rest p = joined fs @ line_feed # r" by blast
  have "takeWhile (\<lambda>c. c \<noteq> line_feed) (ps_rest p) = joined fs"
    using fs(2,3) printable_no_feed takeWhile_line by (simp add: line_ok_def)
  moreover have "split_fields (ps_number p) (joined fs) [] = Inr fs"
    using fs(2) split_fields_iff [of "[]" "ps_number p" "joined fs" fs] by (auto simp: line_ok_def)
  ultimately show "peek p = Inr l" using fs by (simp add: peek_def line_of_def line_ok_def)
qed

lemma line_key_of [simp]: "line_ok fs \<Longrightarrow> line_key (line_of p fs) = hd fs"
  by (cases fs) (simp_all add: line_key_def line_of_def line_ok_def)

lemma consume_iff:
  "line_ok fs \<Longrightarrow> ps_rest p = joined fs @ line_feed # r \<Longrightarrow>
     consume (line_of p fs) arity p = Inr (l, q) \<longleftrightarrow> l = line_of p fs \<and> reads_lines p [fs] q \<and> length fs = arity + 1"
  by (cases q) (auto simp: consume_def refuse_def line_of_def reads_lines_def)

lemma take_line_iff:
  "take_line key arity p = Inr (l, q) \<longleftrightarrow>
     (\<exists>fs. l = line_of p fs \<and> reads_lines p [fs] q \<and> hd fs = key \<and> length fs = arity + 1)"
proof
  assume "take_line key arity p = Inr (l, q)"
  then obtain k where k: "peek p = Inr k" "line_key k = key" "consume k arity p = Inr (l, q)"
    by (auto simp: take_line_def refuse_def split: if_splits)
  then obtain fs r where "k = line_of p fs" "line_ok fs" "ps_rest p = joined fs @ line_feed # r" using peek_iff by blast
  then show "\<exists>fs. l = line_of p fs \<and> reads_lines p [fs] q \<and> hd fs = key \<and> length fs = arity + 1"
    using k consume_iff by auto
next
  assume "\<exists>fs. l = line_of p fs \<and> reads_lines p [fs] q \<and> hd fs = key \<and> length fs = arity + 1"
  then obtain fs where fs: "l = line_of p fs" "reads_lines p [fs] q" "hd fs = key" "length fs = arity + 1" by blast
  have ok: "line_ok fs" "ps_rest p = joined fs @ line_feed # ps_rest q" using fs(2) by (simp_all add: reads_lines_def)
  then have "peek p = Inr (line_of p fs)" using peek_iff by blast
  then show "take_line key arity p = Inr (l, q)"
    using fs ok consume_iff [OF ok] by (simp add: take_line_def done_reading_def)
qed

text \<open>A loop over lines with a key stops where the text ends or another key stands.\<close>

definition stops :: "string \<Rightarrow> parser \<Rightarrow> bool" where
  "stops key p \<longleftrightarrow> ps_rest p = [] \<or> (\<exists>fs r. line_ok fs \<and> ps_rest p = joined fs @ line_feed # r \<and> hd fs \<noteq> key)"

lemma take_if_Some:
  "take_if key arity p = Inr (Some l, q) \<longleftrightarrow>
     (\<exists>fs. l = line_of p fs \<and> reads_lines p [fs] q \<and> hd fs = key \<and> length fs = arity + 1)"
proof -
  have "take_if key arity p = Inr (Some l, q) \<longleftrightarrow> take_line key arity p = Inr (l, q)"
    by (auto simp: take_if_def take_line_def refuse_def)
  then show ?thesis using take_line_iff by simp
qed

lemma take_if_None: "take_if key arity p = Inr (None, q) \<longleftrightarrow> q = p \<and> stops key p"
proof
  assume "take_if key arity p = Inr (None, q)"
  then have "q = p \<and> (done_reading p \<or> (\<exists>l. peek p = Inr l \<and> line_key l \<noteq> key))"
    by (auto simp: take_if_def split: if_splits)
  then show "q = p \<and> stops key p" using peek_iff by (fastforce simp: stops_def done_reading_def)
next
  assume s: "q = p \<and> stops key p"
  show "take_if key arity p = Inr (None, q)"
  proof (cases "ps_rest p = []")
    case True
    then show ?thesis using s by (simp add: take_if_def done_reading_def)
  next
    case False
    then obtain fs r where fs: "line_ok fs" "ps_rest p = joined fs @ line_feed # r" "hd fs \<noteq> key" using s by (auto simp: stops_def)
    then have "peek p = Inr (line_of p fs)" using peek_iff by blast
    then show ?thesis using fs s by (simp add: take_if_def done_reading_def)
  qed
qed

lemma stops_reads: "reads_lines p fss q \<Longrightarrow> fss \<noteq> [] \<Longrightarrow> hd (hd fss) \<noteq> key \<Longrightarrow> stops key p"
  by (cases fss) (auto simp: reads_lines_def stops_def)

section \<open>Single lines\<close>

lemma text_field_iff: "text_field l i = Inr xs \<longleftrightarrow> ln_fields l ! i = encode xs \<and> xs \<noteq> []"
  using decode_iff [of "ln_fields l ! i" xs] by (auto simp: text_field_def malformed_def refuse_def split: option.splits)

lemma digest_field_iff: "digest_field l i = Inr d \<longleftrightarrow> ln_fields l ! i = to_hex d \<and> sized d"
  using parse_digest_iff [of "ln_fields l ! i" d] by (auto simp: digest_field_def malformed_def refuse_def split: option.splits)

lemma number_field_iff: "number_field l i least = Inr n \<longleftrightarrow> ln_fields l ! i = number_text n \<and> least \<le> unat n"
  using parse_number_iff [of "ln_fields l ! i" least n] by (auto simp: number_field_def malformed_def refuse_def split: option.splits)

lemma ln_fields_of [simp]: "ln_fields (line_of p fs) = fs" "ln_text (line_of p fs) = joined fs"
  by (simp_all add: line_of_def)

lemma take_one:
  "take_line key 1 p = Inr (l, q) \<longleftrightarrow> (\<exists>v. l = line_of p [key, v] \<and> reads_lines p [[key, v]] q)"
proof -
  have "hd fs = key \<and> length fs = 1 + 1 \<longleftrightarrow> (\<exists>v. fs = [key, v])" for fs
    by (cases fs rule: list.exhaust) (auto simp: length_Suc_conv)
  then show ?thesis unfolding take_line_iff by metis
qed

lemma bind_one:
  "bind_ok (take_line key 1 p) f = Inr y \<longleftrightarrow> (\<exists>v q. reads_lines p [[key, v]] q \<and> f (line_of p [key, v], q) = Inr y)"
proof
  assume "bind_ok (take_line key 1 p) f = Inr y"
  then obtain l q where "take_line key 1 p = Inr (l, q)" "f (l, q) = Inr y" by auto
  then show "\<exists>v q. reads_lines p [[key, v]] q \<and> f (line_of p [key, v], q) = Inr y" unfolding take_one by blast
next
  assume "\<exists>v q. reads_lines p [[key, v]] q \<and> f (line_of p [key, v], q) = Inr y"
  then obtain v q where v: "reads_lines p [[key, v]] q" "f (line_of p [key, v], q) = Inr y" by blast
  then have "take_line key 1 p = Inr (line_of p [key, v], q)" unfolding take_one by blast
  then show "bind_ok (take_line key 1 p) f = Inr y" using v(2) by simp
qed

lemma single_text_iff: "single_text key p = Inr (xs, q) \<longleftrightarrow> reads_lines p [[key, encode xs]] q \<and> xs \<noteq> []"
  unfolding single_text_def bind_one by (auto simp: text_field_iff)

lemma single_digest_iff: "single_digest key p = Inr (d, q) \<longleftrightarrow> reads_lines p [[key, to_hex d]] q \<and> sized d"
  unfolding single_digest_def bind_one by (auto simp: digest_field_iff)

lemma read_status_iff: "read_status name p = Inr q \<longleftrightarrow> reads_lines p [[''status'', ''proven'']] q"
  unfolding read_status_def bind_one by (auto simp: malformed_def refuse_def)

lemma read_correctness_iff:
  "read_correctness p = Inr (c, q) \<longleftrightarrow> reads_lines p [[''correctness'', describe_correctness c]] q"
proof -
  have "(if v = ''total'' then Inr (TotalCorrectness, r) else if v = ''partial'' then Inr (PartialCorrectness, r)
      else malformed m l) = Inr (c, q) \<longleftrightarrow> r = q \<and> v = describe_correctness c" for v r m l
    by (cases c) (auto simp: malformed_def refuse_def)
  then have "read_correctness p = Inr (c, q) \<longleftrightarrow>
      (\<exists>v r. reads_lines p [[''correctness'', v]] r \<and> r = q \<and> v = describe_correctness c)"
    unfolding read_correctness_def bind_one prod.case ln_fields_of by (simp only: nth_Cons_0 One_nat_def nth_Cons_Suc)
  then show ?thesis by auto
qed

section \<open>Items\<close>

fun ascending :: "string \<Rightarrow> string list \<Rightarrow> bool" where
  "ascending previous [] \<longleftrightarrow> True"
| "ascending previous (l # ls) \<longleftrightarrow> (previous \<noteq> [] \<longrightarrow> previous < l) \<and> ascending l ls"

lemma ascending_sorted: "l \<noteq> [] \<Longrightarrow> [] \<notin> set ls \<Longrightarrow> ascending l ls \<longleftrightarrow> sorted_wrt (<) (l # ls)"
proof (induction ls arbitrary: l)
  case (Cons k ls)
  have "ascending k ls \<longleftrightarrow> sorted_wrt (<) (k # ls)" using Cons.IH [of k] Cons.prems by auto
  then show ?case using Cons.prems(1) by (auto intro: less_trans)
qed simp

lemma ascending_first: "[] \<notin> set ls \<Longrightarrow> ascending [] ls \<longleftrightarrow> sorted_wrt (<) ls"
  using ascending_sorted by (cases ls) auto

text \<open>What the loop over the items of one kind asks of the kind.\<close>

locale item_kind =
  fixes key :: string and arity :: nat and render :: "'a \<Rightarrow> string list" and item :: "line \<Rightarrow> parse_error + 'a"
    and ok :: "'a \<Rightarrow> bool"
  assumes render_key: "hd (render x) = key" and render_arity: "length (render x) = arity + 1"
    and item_iff: "hd fs = key \<Longrightarrow> length fs = arity + 1 \<Longrightarrow> item (line_of p fs) = Inr x \<longleftrightarrow> fs = render x \<and> ok x"
begin

lemma loop_iff:
  "length items \<le> kMaxEntryItems \<Longrightarrow>
     item_loop key arity many what item previous items p = Inr (ys, q) \<longleftrightarrow>
     (\<exists>xs. ys = items @ xs \<and> reads_lines p (map render xs) q \<and> list_all ok xs \<and>
        ascending previous (map (joined \<circ> render) xs) \<and> length ys \<le> kMaxEntryItems \<and> stops key q)"
proof (induction "length (ps_rest p)" arbitrary: p previous items rule: less_induct)
  case less
  let ?loop = "item_loop key arity many what item"
  let ?goal = "\<exists>xs. ys = items @ xs \<and> reads_lines p (map render xs) q \<and> list_all ok xs \<and>
        ascending previous (map (joined \<circ> render) xs) \<and> length ys \<le> kMaxEntryItems \<and> stops key q"
  show ?case
  proof
    assume l: "?loop previous items p = Inr (ys, q)"
    then obtain found r where t: "take_if key arity p = Inr (found, r)" by (subst (asm) item_loop.simps) auto
    show ?goal
    proof (cases found)
      case None
      then have "Inr (items, r) = Inr (ys, q)" using l t unfolding item_loop.simps [of key arity many what item previous] by simp
      then have "ys = items" "q = r" by simp_all
      then show ?thesis using t None less.prems by (intro exI [of _ "[]"]) (auto simp: take_if_None)
    next
      case (Some k)
      then obtain x where x: "length items \<noteq> kMaxEntryItems" "in_order previous k what = Inr ()" "item k = Inr x"
          "?loop (ln_text k) (items @ [x]) r = Inr (ys, q)"
        using l t by (subst (asm) item_loop.simps) (auto simp: malformed_def refuse_def split: if_splits)
      obtain fs where fs: "k = line_of p fs" "reads_lines p [fs] r" "hd fs = key" "length fs = arity + 1"
        using t Some take_if_Some by blast
      have i: "fs = render x" "ok x" using item_iff [OF fs(3,4)] x(3) fs(1) by blast+
      have "length (ps_rest r) < length (ps_rest p)" using t Some take_if_shorter by blast
      then obtain xs where xs: "ys = (items @ [x]) @ xs" "reads_lines r (map render xs) q" "list_all ok xs"
          "ascending (ln_text k) (map (joined \<circ> render) xs)" "length ys \<le> kMaxEntryItems" "stops key q"
        using less.hyps [of r "items @ [x]" "ln_text k"] x(1,4) less.prems by auto
      have "previous \<noteq> [] \<longrightarrow> previous < joined fs"
        using x(2) fs(1) by (auto simp: in_order_def malformed_def refuse_def split: if_splits)
      moreover have "reads_lines p (render x # map render xs) q" using reads_Cons fs(2) i(1) xs(2) by blast
      ultimately show ?thesis using xs i fs(1) by (intro exI [of _ "x # xs"]) simp
    qed
  next
    assume ?goal
    then obtain xs where xs: "ys = items @ xs" "reads_lines p (map render xs) q" "list_all ok xs"
        "ascending previous (map (joined \<circ> render) xs)" "length ys \<le> kMaxEntryItems" "stops key q" by blast
    show "?loop previous items p = Inr (ys, q)"
    proof (cases xs)
      case Nil
      then show ?thesis using xs take_if_None [of key arity p p] by (subst item_loop.simps) simp
    next
      case (Cons x zs)
      then obtain r where r: "reads_lines p [render x] r" "reads_lines r (map render zs) q"
        using xs(2) reads_Cons [of p "render x" "map render zs" q] by auto
      have t: "take_if key arity p = Inr (Some (line_of p (render x)), r)"
        using r(1) render_key render_arity take_if_Some by blast
      have "item (line_of p (render x)) = Inr x"
        using item_iff [OF render_key render_arity] xs(3) Cons by simp
      moreover have "in_order previous (line_of p (render x)) what = Inr ()"
        using xs(4) Cons by (auto simp: in_order_def)
      moreover have "length items \<noteq> kMaxEntryItems" using xs(1,5) Cons by auto
      moreover have "length (ps_rest r) < length (ps_rest p)" using t take_if_shorter by blast
      then have "?loop (joined (render x)) (items @ [x]) r = Inr (ys, q)"
        using less.hyps [of r "items @ [x]" "joined (render x)"] xs r(2) Cons by auto
      ultimately show ?thesis using t by (subst item_loop.simps) simp
    qed
  qed
qed

end

definition premise_ok :: "law_premise \<Rightarrow> bool" where
  "premise_ok p \<longleftrightarrow> sized (pm_identity p) \<and> pm_name p \<noteq> [] \<and> pm_file p \<noteq> [] \<and> pm_line p \<noteq> 0"

definition model_ok :: "code_model \<Rightarrow> bool" where
  "model_ok m \<longleftrightarrow> sized (md_identity m) \<and> md_name m \<noteq> []"

definition unsafe_ok :: "unsafe_site \<Rightarrow> bool" where
  "unsafe_ok u \<longleftrightarrow> us_file u \<noteq> [] \<and> us_line u \<noteq> 0"

definition runtime_ok :: "runtime_check \<Rightarrow> bool" where
  "runtime_ok c \<longleftrightarrow> rc_file c \<noteq> [] \<and> rc_line c \<noteq> 0 \<and> rc_refinement c \<noteq> [] \<and> rc_predicate c \<noteq> []"

definition dependency_ok :: "dependency \<Rightarrow> bool" where
  "dependency_ok d \<longleftrightarrow> sized (dp_entry d) \<and> dp_symbol d \<noteq> []"

lemma positive_word: "(1 :: nat) \<le> unat (n :: u32) \<longleftrightarrow> n \<noteq> 0"
    "Suc 0 \<le> unat n \<longleftrightarrow> n \<noteq> 0"
  by (simp_all add: Suc_le_eq unat_gt_0)

lemma field_injects [simp]:
  "to_hex d = to_hex e \<longleftrightarrow> d = e" "number_text m = number_text n \<longleftrightarrow> m = n" "encode xs = encode ys \<longleftrightarrow> xs = ys"
proof -
  have d: "hex_octets (to_hex d) = Some d" for d using hex_octets_iff by blast
  have t: "decode_from (encode xs) = Some xs" for xs using decode_from_encode [of xs "[]"] by simp
  show "to_hex d = to_hex e \<longleftrightarrow> d = e" by (metis d option.inject)
  show "number_text m = number_text n \<longleftrightarrow> m = n"
    unfolding number_text_def string_of_nat_inj word_unat_eq_iff [of m n] ..
  show "encode xs = encode ys \<longleftrightarrow> xs = ys" by (metis t option.inject)
qed

lemmas field_iffs = text_field_iff digest_field_iff number_field_iff positive_word

lemma premise_item_iff:
  "hd fs = ''premise'' \<Longrightarrow> length fs = 4 + 1 \<Longrightarrow> premise_item (line_of p fs) = Inr x \<longleftrightarrow> fs = premise_fields x \<and> premise_ok x"
  by (cases x) (auto simp: premise_fields_def premise_item_def premise_ok_def field_iffs length_Suc_conv eval_nat_numeral)

interpretation law_premises: item_kind "''premise''" 4 premise_fields premise_item premise_ok
  by unfold_locales (simp_all add: premise_item_iff, simp_all add: premise_fields_def)

lemma model_item_iff:
  "hd fs = ''model'' \<Longrightarrow> length fs = 2 + 1 \<Longrightarrow> model_item (line_of p fs) = Inr x \<longleftrightarrow> fs = model_fields x \<and> model_ok x"
  by (cases x) (auto simp: model_fields_def model_item_def model_ok_def field_iffs length_Suc_conv eval_nat_numeral)

interpretation code_models: item_kind "''model''" 2 model_fields model_item model_ok
  by unfold_locales (simp_all add: model_item_iff, simp_all add: model_fields_def)

lemma unsafe_item_iff:
  "hd fs = ''unsafe'' \<Longrightarrow> length fs = 3 + 1 \<Longrightarrow> unsafe_item (line_of p fs) = Inr x \<longleftrightarrow> fs = unsafe_fields x \<and> unsafe_ok x"
  by (cases x) (auto simp: unsafe_fields_def unsafe_item_def unsafe_ok_def field_iffs length_Suc_conv eval_nat_numeral)

interpretation unsafe_sites: item_kind "''unsafe''" 3 unsafe_fields unsafe_item unsafe_ok
  by unfold_locales (simp_all add: unsafe_item_iff, simp_all add: unsafe_fields_def)

lemma runtime_item_iff:
  "hd fs = ''runtime'' \<Longrightarrow> length fs = 5 + 1 \<Longrightarrow> runtime_item (line_of p fs) = Inr x \<longleftrightarrow> fs = runtime_fields x \<and> runtime_ok x"
  by (cases x) (auto simp: runtime_fields_def runtime_item_def runtime_ok_def field_iffs length_Suc_conv eval_nat_numeral)

interpretation runtime_checks: item_kind "''runtime''" 5 runtime_fields runtime_item runtime_ok
  by unfold_locales (simp_all add: runtime_item_iff, simp_all add: runtime_fields_def)

lemma dependency_item_iff:
  "hd fs = ''depends'' \<Longrightarrow> length fs = 2 + 1 \<Longrightarrow> dependency_item (line_of p fs) = Inr x \<longleftrightarrow> fs = dependency_fields x \<and> dependency_ok x"
  by (cases x) (auto simp: dependency_fields_def dependency_item_def dependency_ok_def field_iffs length_Suc_conv eval_nat_numeral)

interpretation dependencies: item_kind "''depends''" 2 dependency_fields dependency_item dependency_ok
  by unfold_locales (simp_all add: dependency_item_iff, simp_all add: dependency_fields_def)

end
