(* ===== verification/Interface_Trip.thy ===== *)
theory Interface_Trip
  imports Interface_Facts
begin

text \<open>
  The round trip of whole interfaces: the reader accepts a text exactly when the writer makes it
  of the interface that is read.
\<close>

section \<open>Kinds of items\<close>

definition items_ok :: "('a \<Rightarrow> string list) \<Rightarrow> ('a \<Rightarrow> bool) \<Rightarrow> 'a list \<Rightarrow> bool" where
  "items_ok render ok xs \<longleftrightarrow>
     list_all ok xs \<and> sorted_wrt (<) (map (joined \<circ> render) xs) \<and> length xs \<le> kMaxEntryItems"

lemma joined_nonempty: "fs \<noteq> [] \<Longrightarrow> hd fs \<noteq> [] \<Longrightarrow> joined fs \<noteq> []"
  by (cases fs rule: joined.cases) auto

context item_kind begin

lemma loop_from_start:
  assumes "key \<noteq> []"
  shows "item_loop key arity many what item [] [] p = Inr (xs, q) \<longleftrightarrow>
     reads_lines p (map render xs) q \<and> items_ok render ok xs \<and> stops key q"
proof -
  have n: "joined (render x) \<noteq> []" for x
  proof -
    have "render x \<noteq> []" using render_arity [of x] by (cases "render x") simp_all
    then show ?thesis using joined_nonempty [of "render x"] render_key [of x] assms by simp
  qed
  have "ascending [] (map (joined \<circ> render) ys) \<longleftrightarrow> sorted_wrt (<) (map (joined \<circ> render) ys)" for ys
    by (rule ascending_first) (use n in \<open>force simp: eq_commute [of "[]"]\<close>)
  then show ?thesis using loop_iff [of "[]" many what "[]" p xs q] by (auto simp: items_ok_def)
qed

lemma map_keys: "fs \<in> set (map render xs) \<Longrightarrow> hd fs = key"
  using render_key by auto

end

lemmas premises_loop_iff = law_premises.loop_from_start [of "'' premises''" "''premises''", simplified, folded premises_loop_def]
lemmas models_loop_iff = code_models.loop_from_start [of "'' models''" "''models''", simplified, folded models_loop_def]
lemmas unsafe_loop_iff = unsafe_sites.loop_from_start [of "'' unsafe blocks''" "''unsafe blocks''", simplified, folded unsafe_loop_def]
lemmas runtime_loop_iff = runtime_checks.loop_from_start [of "'' runtime validation sites''" "''runtime validation sites''",
  simplified, folded runtime_loop_def]
lemmas dependencies_loop_iff = dependencies.loop_from_start [of "'' imported contracts''" "''dependencies''", simplified, folded dependencies_loop_def]

lemmas loop_iffs = premises_loop_iff models_loop_iff unsafe_loop_iff runtime_loop_iff dependencies_loop_iff
lemmas line_iffs = single_text_iff single_digest_iff read_status_iff read_correctness_iff

lemma reads_trans: "reads_lines p fss r \<Longrightarrow> reads_lines r gss q \<Longrightarrow> reads_lines p (fss @ gss) q"
  using reads_append by blast

lemma stops_keys: "reads_lines p fss q \<Longrightarrow> fss \<noteq> [] \<Longrightarrow> \<forall>fs \<in> set fss. hd fs \<noteq> key \<Longrightarrow> stops key p"
  using stops_reads by (metis list.set_sel(1))

section \<open>Entries\<close>

definition entry_rest :: "iface_entry \<Rightarrow> string list list" where
  "entry_rest e =
     [[''name'', encode (en_name e)], [''statement'', to_hex (en_statement e)], [''contract'', encode (en_contract e)],
      [''status'', ''proven''], [''correctness'', describe_correctness (en_correctness e)]] @
     map premise_fields (en_premises e) @ map model_fields (en_models e) @ map unsafe_fields (en_unsafe e) @
     map runtime_fields (en_runtime e) @ map dependency_fields (en_depends e) @ [[''end'']]"

definition entry_ok :: "iface_entry \<Rightarrow> bool" where
  "entry_ok e \<longleftrightarrow>
     en_symbol e \<noteq> [] \<and> en_name e \<noteq> [] \<and> sized (en_statement e) \<and> en_contract e \<noteq> [] \<and>
     items_ok premise_fields premise_ok (en_premises e) \<and> items_ok model_fields model_ok (en_models e) \<and>
     items_ok unsafe_fields unsafe_ok (en_unsafe e) \<and> items_ok runtime_fields runtime_ok (en_runtime e) \<and>
     items_ok dependency_fields dependency_ok (en_depends e)"

lemma parse_entry_reads:
  assumes "parse_entry l p = Inr (e, q)"
  shows "ln_fields l ! 1 = encode (en_symbol e) \<and> entry_ok e \<and> reads_lines p (entry_rest e) q"
proof -
  from assms obtain symbol name p1 statement p2 contract p3 p4 c p5 ps p6 ms p7 us p8 rs p9 ds p10 k where
      s: "text_field l 1 = Inr symbol" "single_text ''name'' p = Inr (name, p1)" "single_digest ''statement'' p1 = Inr (statement, p2)"
      "single_text ''contract'' p2 = Inr (contract, p3)" "read_status name p3 = Inr p4" "read_correctness p4 = Inr (c, p5)"
      "premises_loop p5 = Inr (ps, p6)" "models_loop p6 = Inr (ms, p7)" "unsafe_loop p7 = Inr (us, p8)"
      "runtime_loop p8 = Inr (rs, p9)" "dependencies_loop p9 = Inr (ds, p10)" "take_line ''end'' 0 p10 = Inr (k, q)"
      and e: "e = \<lparr>en_symbol = symbol, en_name = name, en_statement = statement, en_contract = contract,
             en_correctness = c, en_premises = ps, en_models = ms, en_unsafe = us, en_runtime = rs, en_depends = ds\<rparr>"
    unfolding parse_entry_def bind_ok_eq_Inr split_paired_Ex prod.case by auto
  have "reads_lines p10 [[''end'']] q" using s(12) unfolding take_line_iff by (auto simp: length_Suc_conv)
  then have "reads_lines p5 (map premise_fields ps @ map model_fields ms @ map unsafe_fields us @ map runtime_fields rs @
      map dependency_fields ds @ [[''end'']]) q"
    using s(7-11) unfolding loop_iffs by (blast intro: reads_trans)
  then have "reads_lines p4 ([''correctness'', describe_correctness c] # map premise_fields ps @ map model_fields ms @
      map unsafe_fields us @ map runtime_fields rs @ map dependency_fields ds @ [[''end'']]) q"
    using s(6) reads_Cons unfolding line_iffs by blast
  then have "reads_lines p2 ([''contract'', encode contract] # [''status'', ''proven''] # [''correctness'', describe_correctness c] #
      map premise_fields ps @ map model_fields ms @ map unsafe_fields us @ map runtime_fields rs @
      map dependency_fields ds @ [[''end'']]) q"
    using s(4,5) reads_Cons unfolding line_iffs by blast
  then have "reads_lines p (entry_rest e) q"
    using s(2,3) reads_Cons unfolding line_iffs entry_rest_def e iface_entry.select_convs append_Cons append_Nil by blast
  then show ?thesis
    using s unfolding line_iffs loop_iffs text_field_iff by (simp add: e entry_ok_def)
qed

lemma item_keys:
  "hd (premise_fields x) = ''premise''" "hd (model_fields m) = ''model''" "hd (unsafe_fields u) = ''unsafe''"
  "hd (runtime_fields c) = ''runtime''" "hd (dependency_fields d) = ''depends''"
  by (simp_all add: premise_fields_def model_fields_def unsafe_fields_def runtime_fields_def dependency_fields_def)

lemma reads_parse_entry:
  assumes l: "ln_fields l ! 1 = encode (en_symbol e)" and ok: "entry_ok e" and r: "reads_lines p (entry_rest e) q"
  shows "parse_entry l p = Inr (e, q)"
proof -
  have split: "entry_rest e =
      [[''name'', encode (en_name e)]] @ [[''statement'', to_hex (en_statement e)]] @ [[''contract'', encode (en_contract e)]] @
      [[''status'', ''proven'']] @ [[''correctness'', describe_correctness (en_correctness e)]] @
      map premise_fields (en_premises e) @ map model_fields (en_models e) @ map unsafe_fields (en_unsafe e) @
      map runtime_fields (en_runtime e) @ map dependency_fields (en_depends e) @ [[''end'']]"
    by (simp add: entry_rest_def)
  from r obtain p1 p2 p3 p4 p5 p6 p7 p8 p9 p10 where
      s: "reads_lines p [[''name'', encode (en_name e)]] p1" "reads_lines p1 [[''statement'', to_hex (en_statement e)]] p2"
      "reads_lines p2 [[''contract'', encode (en_contract e)]] p3" "reads_lines p3 [[''status'', ''proven'']] p4"
      "reads_lines p4 [[''correctness'', describe_correctness (en_correctness e)]] p5"
    and i: "reads_lines p5 (map premise_fields (en_premises e)) p6"
      "reads_lines p6 (map model_fields (en_models e)) p7" "reads_lines p7 (map unsafe_fields (en_unsafe e)) p8"
      "reads_lines p8 (map runtime_fields (en_runtime e)) p9" "reads_lines p9 (map dependency_fields (en_depends e)) p10"
      and end_line: "reads_lines p10 [[''end'']] q"
    unfolding split reads_append by blast
  have t10: "reads_lines p9 (map dependency_fields (en_depends e) @ [[''end'']]) q" using reads_trans i(5) end_line by blast
  have t9: "reads_lines p8 (map runtime_fields (en_runtime e) @ map dependency_fields (en_depends e) @ [[''end'']]) q"
    using reads_trans i(4) t10 by blast
  have t8: "reads_lines p7 (map unsafe_fields (en_unsafe e) @ map runtime_fields (en_runtime e) @
      map dependency_fields (en_depends e) @ [[''end'']]) q" using reads_trans i(3) t9 by blast
  have t7: "reads_lines p6 (map model_fields (en_models e) @ map unsafe_fields (en_unsafe e) @ map runtime_fields (en_runtime e) @
      map dependency_fields (en_depends e) @ [[''end'']]) q" using reads_trans i(2) t8 by blast
  have st: "stops ''premise'' p6" "stops ''model'' p7" "stops ''unsafe'' p8" "stops ''runtime'' p9" "stops ''depends'' p10"
    by (rule stops_keys [OF t7] stops_keys [OF t8] stops_keys [OF t9] stops_keys [OF t10] stops_keys [OF end_line];
        auto simp: item_keys)+
  have "take_line ''end'' 0 p10 = Inr (line_of p10 [''end''], q)" using end_line unfolding take_line_iff by auto
  moreover have "single_text ''name'' p = Inr (en_name e, p1)" "single_digest ''statement'' p1 = Inr (en_statement e, p2)"
      "single_text ''contract'' p2 = Inr (en_contract e, p3)" "read_status (en_name e) p3 = Inr p4"
      "read_correctness p4 = Inr (en_correctness e, p5)"
    using s ok unfolding line_iffs entry_ok_def by blast+
  moreover have "premises_loop p5 = Inr (en_premises e, p6)" "models_loop p6 = Inr (en_models e, p7)"
      "unsafe_loop p7 = Inr (en_unsafe e, p8)" "runtime_loop p8 = Inr (en_runtime e, p9)"
      "dependencies_loop p9 = Inr (en_depends e, p10)"
    using i st ok unfolding loop_iffs entry_ok_def by blast+
  moreover have "text_field l 1 = Inr (en_symbol e)" using l ok unfolding text_field_iff entry_ok_def by blast
  ultimately show ?thesis by (simp add: parse_entry_def)
qed

lemma parse_entry_iff:
  "parse_entry l p = Inr (e, q) \<longleftrightarrow>
     ln_fields l ! 1 = encode (en_symbol e) \<and> entry_ok e \<and> reads_lines p (entry_rest e) q"
  using parse_entry_reads reads_parse_entry by blast

section \<open>Loops over flags, sources and entries\<close>

text \<open>
  A loop that reads, while lines have its key, the line that opens an item and what follows it,
  each later in the order than the one before.
\<close>

fun chained :: "(string \<Rightarrow> string \<Rightarrow> bool) \<Rightarrow> string \<Rightarrow> string list \<Rightarrow> bool" where
  "chained precedes previous [] \<longleftrightarrow> True"
| "chained precedes previous (l # ls) \<longleftrightarrow> (previous \<noteq> [] \<longrightarrow> precedes previous l) \<and> chained precedes l ls"

lemma chained_ascending: "chained (<) previous ls = ascending previous ls"
  by (induction ls arbitrary: previous) simp_all

lemma chained_any [simp]: "chained (\<lambda>_ _. True) previous ls"
  by (induction ls arbitrary: previous) simp_all

locale keyed_loop =
  fixes key :: string and arity limit :: nat
    and loop :: "string \<Rightarrow> 'a list \<Rightarrow> parser \<Rightarrow> parse_error + 'a list \<times> parser"
    and precedes :: "string \<Rightarrow> string \<Rightarrow> bool" and mark :: "line \<Rightarrow> string" and item :: "line \<Rightarrow> parser \<Rightarrow> parse_error + 'a \<times> parser"
    and head :: "'a \<Rightarrow> string list" and rest :: "'a \<Rightarrow> string list list" and ok :: "'a \<Rightarrow> bool" and place :: "'a \<Rightarrow> string"
  assumes loop_step: "loop previous xs p = Inr (ys, q) \<longleftrightarrow>
      take_if key arity p = Inr (None, q) \<and> ys = xs \<or>
      (\<exists>l r x r'. take_if key arity p = Inr (Some l, r) \<and> length xs \<noteq> limit \<and> (previous \<noteq> [] \<longrightarrow> precedes previous (mark l)) \<and>
         item l r = Inr (x, r') \<and> loop (mark l) (xs @ [x]) r' = Inr (ys, q))"
    and head_key: "hd (head x) = key" "length (head x) = arity + 1"
    and item_reads: "hd fs = key \<Longrightarrow> length fs = arity + 1 \<Longrightarrow>
      item (line_of p fs) r = Inr (x, r') \<longleftrightarrow> fs = head x \<and> ok x \<and> reads_lines r (rest x) r'"
    and mark_place: "mark (line_of p (head x)) = place x"
begin

definition item_lines :: "'a list \<Rightarrow> string list list" where
  "item_lines xs = concat (map (\<lambda>x. head x # rest x) xs)"

lemma reads_shorter: "reads_lines p fss q \<Longrightarrow> length (ps_rest q) \<le> length (ps_rest p)"
  by (simp add: reads_lines_def)

lemma loop_iff:
  "length xs \<le> limit \<Longrightarrow>
     loop previous xs p = Inr (ys, q) \<longleftrightarrow>
     (\<exists>zs. ys = xs @ zs \<and> reads_lines p (item_lines zs) q \<and> list_all ok zs \<and> chained precedes previous (map place zs) \<and>
        length ys \<le> limit \<and> stops key q)"
proof (induction "length (ps_rest p)" arbitrary: p previous xs rule: less_induct)
  case less
  let ?goal = "\<exists>zs. ys = xs @ zs \<and> reads_lines p (item_lines zs) q \<and> list_all ok zs \<and> chained precedes previous (map place zs) \<and>
        length ys \<le> limit \<and> stops key q"
  show ?case
  proof
    assume "loop previous xs p = Inr (ys, q)"
    then consider "take_if key arity p = Inr (None, q)" "ys = xs"
      | l r x r' where "take_if key arity p = Inr (Some l, r)" "length xs \<noteq> limit" "previous \<noteq> [] \<longrightarrow> precedes previous (mark l)"
          "item l r = Inr (x, r')" "loop (mark l) (xs @ [x]) r' = Inr (ys, q)"
      using loop_step by blast
    then show ?goal
    proof cases
      case 1
      then show ?thesis using less.prems unfolding take_if_None by (intro exI [of _ "[]"]) (simp add: item_lines_def)
    next
      case (2 l r x r')
      obtain fs where fs: "l = line_of p fs" "reads_lines p [fs] r" "hd fs = key" "length fs = arity + 1"
        using 2(1) take_if_Some by blast
      then have i: "fs = head x" "ok x" "reads_lines r (rest x) r'" using 2(4) item_reads [OF fs(3,4)] by blast+
      have m: "mark l = place x" using fs(1) i(1) mark_place by blast
      have "length (ps_rest r') < length (ps_rest p)"
        using take_if_shorter [OF 2(1)] reads_shorter [OF i(3)] by simp
      then obtain zs where zs: "ys = (xs @ [x]) @ zs" "reads_lines r' (item_lines zs) q" "list_all ok zs"
          "chained precedes (place x) (map place zs)" "length ys \<le> limit" "stops key q"
        using less.hyps [of r' "xs @ [x]" "mark l"] 2(2,5) less.prems unfolding m by auto
      have "reads_lines p (head x # rest x @ item_lines zs) q" using fs(2) i(1,3) zs(2) reads_Cons reads_append by blast
      then show ?thesis using zs i(2) 2(3) m by (intro exI [of _ "x # zs"]) (simp add: item_lines_def)
    qed
  next
    assume ?goal
    then obtain zs where zs: "ys = xs @ zs" "reads_lines p (item_lines zs) q" "list_all ok zs" "chained precedes previous (map place zs)"
        "length ys \<le> limit" "stops key q" by blast
    show "loop previous xs p = Inr (ys, q)"
    proof (cases zs)
      case Nil
      then have "ys = xs" "q = p" using zs(1,2) by (simp_all add: item_lines_def)
      then have "ys = xs" "take_if key arity p = Inr (None, q)" using zs(6) take_if_None by blast+
      then show ?thesis by (intro iffD2 [OF loop_step] disjI1 conjI)
    next
      case (Cons x ws)
      have "reads_lines p ([head x] @ rest x @ item_lines ws) q" using zs(2) Cons by (simp add: item_lines_def)
      then obtain r r' where r: "reads_lines p [head x] r" "reads_lines r (rest x) r'" "reads_lines r' (item_lines ws) q"
        unfolding reads_append by blast
      have t: "take_if key arity p = Inr (Some (line_of p (head x)), r)" using r(1) head_key take_if_Some by blast
      have i: "item (line_of p (head x)) r = Inr (x, r')" using item_reads [OF head_key] zs(3) Cons r(2) by simp
      have "length (ps_rest r') < length (ps_rest p)"
        using take_if_shorter [OF t] reads_shorter [OF r(2)] by simp
      then have "loop (place x) (xs @ [x]) r' = Inr (ys, q) \<longleftrightarrow>
          (\<exists>zs. ys = (xs @ [x]) @ zs \<and> reads_lines r' (item_lines zs) q \<and> list_all ok zs \<and>
             chained precedes (place x) (map place zs) \<and> length ys \<le> limit \<and> stops key q)"
        by (rule less.hyps) (use zs(1,5) Cons in simp)
      moreover have "ys = (xs @ [x]) @ ws \<and> reads_lines r' (item_lines ws) q \<and> list_all ok ws \<and>
          chained precedes (place x) (map place ws) \<and> length ys \<le> limit \<and> stops key q"
        using zs(1,3-6) r(3) Cons by simp
      ultimately have "loop (place x) (xs @ [x]) r' = Inr (ys, q)" by blast
      then have "loop (mark (line_of p (head x))) (xs @ [x]) r' = Inr (ys, q)" by (simp only: mark_place)
      moreover have "length xs \<noteq> limit" "previous \<noteq> [] \<longrightarrow> precedes previous (mark (line_of p (head x)))"
        using zs(1,4,5) Cons by (simp_all add: mark_place)
      ultimately show ?thesis
        unfolding loop_step [of previous xs p ys q] using t i
        by (intro disjI2 exI [of _ "line_of p (head x)"] exI [of _ r] exI [of _ x] exI [of _ r'] conjI)
    qed
  qed
qed

end

definition flag_item :: "line \<Rightarrow> parser \<Rightarrow> parse_error + string \<times> parser" where
  "flag_item l q = bind_ok (text_field l 1) (\<lambda>flag. Inr (flag, q))"

lemma case_found: "(case x of None \<Rightarrow> f | Some l \<Rightarrow> g l) = y \<longleftrightarrow> x = None \<and> f = y \<or> (\<exists>l. x = Some l \<and> g l = y)"
  by (cases x) auto

lemma malformed_not_ok [simp]: "malformed m l \<noteq> Inr y" "Inr y \<noteq> malformed m l"
  by (simp_all add: malformed_def refuse_def)

lemma if_malformed [simp]: "(if b then malformed m l else x) = Inr y \<longleftrightarrow> \<not> b \<and> x = Inr y"
  by simp

interpretation flags: keyed_loop "''flag''" 1 kMaxFlags "\<lambda>_. flag_loop" "\<lambda>_ _. True" "\<lambda>_. []" flag_item "\<lambda>f. [''flag'', encode f]"
  "\<lambda>_. []" "\<lambda>f. f \<noteq> []" "\<lambda>_. []"
proof
  fix previous :: string and xs p ys q
  show "flag_loop xs p = Inr (ys, q) \<longleftrightarrow>
      take_if ''flag'' 1 p = Inr (None, q) \<and> ys = xs \<or>
      (\<exists>l r x r'. take_if ''flag'' 1 p = Inr (Some l, r) \<and> length xs \<noteq> kMaxFlags \<and> (previous \<noteq> [] \<longrightarrow> True) \<and>
         flag_item l r = Inr (x, r') \<and> flag_loop (xs @ [x]) r' = Inr (ys, q))"
    unfolding flag_loop.simps [of xs] bind_ok_eq_Inr split_paired_Ex prod.case case_found flag_item_def by auto
qed (auto simp: flag_item_def field_iffs length_Suc_conv)

definition source_item :: "line \<Rightarrow> parser \<Rightarrow> parse_error + source_file \<times> parser" where
  "source_item l q =
     bind_ok (digest_field l 1) (\<lambda>d. bind_ok (text_field l 2) (\<lambda>path. Inr (\<lparr>sf_path = path, sf_digest = d\<rparr>, q)))"

definition source_ok :: "source_file \<Rightarrow> bool" where
  "source_ok f \<longleftrightarrow> sf_path f \<noteq> [] \<and> sized (sf_digest f)"

interpretation sources: keyed_loop "''source''" 2 kMaxSources source_loop "(<)" "\<lambda>l. ln_fields l ! 2" source_item source_fields
  "\<lambda>_. []" source_ok "encode \<circ> sf_path"
proof
  fix previous xs p ys q
  show "source_loop previous xs p = Inr (ys, q) \<longleftrightarrow>
      take_if ''source'' 2 p = Inr (None, q) \<and> ys = xs \<or>
      (\<exists>l r x r'. take_if ''source'' 2 p = Inr (Some l, r) \<and> length xs \<noteq> kMaxSources \<and>
         (previous \<noteq> [] \<longrightarrow> previous < ln_fields l ! 2) \<and>
         source_item l r = Inr (x, r') \<and> source_loop (ln_fields l ! 2) (xs @ [x]) r' = Inr (ys, q))"
    unfolding source_loop.simps [of previous] bind_ok_eq_Inr split_paired_Ex prod.case case_found source_item_def by auto
next
  fix fs p r x r'
  assume "hd fs = ''source''" "length fs = 2 + 1"
  then show "source_item (line_of p fs) r = Inr (x, r') \<longleftrightarrow> fs = source_fields x \<and> source_ok x \<and> reads_lines r [] r'"
    by (cases x) (auto simp: source_item_def source_fields_def source_ok_def field_iffs length_Suc_conv eval_nat_numeral)
qed (auto simp: source_fields_def)

interpretation entries: keyed_loop "''entry''" 1 kMaxEntries entry_loop "(<)" "\<lambda>l. ln_fields l ! 1" parse_entry
  "\<lambda>e. [''entry'', encode (en_symbol e)]" entry_rest entry_ok "encode \<circ> en_symbol"
proof
  fix previous xs p ys q
  show "entry_loop previous xs p = Inr (ys, q) \<longleftrightarrow>
      take_if ''entry'' 1 p = Inr (None, q) \<and> ys = xs \<or>
      (\<exists>l r x r'. take_if ''entry'' 1 p = Inr (Some l, r) \<and> length xs \<noteq> kMaxEntries \<and>
         (previous \<noteq> [] \<longrightarrow> previous < ln_fields l ! 1) \<and>
         parse_entry l r = Inr (x, r') \<and> entry_loop (ln_fields l ! 1) (xs @ [x]) r' = Inr (ys, q))"
    unfolding entry_loop.simps [of previous] bind_ok_eq_Inr split_paired_Ex prod.case case_found by auto
next
  fix fs p r x r'
  assume "hd fs = ''entry''" "length fs = 1 + 1"
  then show "parse_entry (line_of p fs) r = Inr (x, r') \<longleftrightarrow>
      fs = [''entry'', encode (en_symbol x)] \<and> entry_ok x \<and> reads_lines r (entry_rest x) r'"
    unfolding parse_entry_iff by (auto simp: length_Suc_conv)
qed auto

section \<open>Whole interfaces\<close>

definition header_fields :: "configuration \<Rightarrow> string list list" where
  "header_fields c =
     [[''compiler'', encode (cf_compiler c)], [''build'', to_hex (cf_build c)], [''semantics'', encode (cf_semantics c)],
      [''verifier'', to_hex (cf_verifier c)], [''kernel'', encode (cf_kernel c)], [''core'', encode (cf_core c)],
      [''clang'', encode (cf_clang c)], [''language'', encode (cf_language c)], [''target'', encode (cf_target c)]]"

definition body_fields :: "iface \<Rightarrow> string list list" where
  "body_fields r =
     header_fields (if_configuration r) @ flags.item_lines (cf_flags (if_configuration r)) @
     [[''unit'', encode (if_unit r)]] @ sources.item_lines (if_sources r) @ entries.item_lines (if_entries r)"

definition configuration_ok :: "configuration \<Rightarrow> bool" where
  "configuration_ok c \<longleftrightarrow>
     cf_compiler c \<noteq> [] \<and> sized (cf_build c) \<and> cf_semantics c \<noteq> [] \<and> sized (cf_verifier c) \<and> cf_kernel c \<noteq> [] \<and>
     cf_core c \<noteq> [] \<and> cf_clang c \<noteq> [] \<and> cf_language c \<noteq> [] \<and> cf_target c \<noteq> [] \<and>
     list_all (\<lambda>f. f \<noteq> []) (cf_flags c) \<and> length (cf_flags c) \<le> kMaxFlags"

text \<open>
  An interface in its canonical form: everything is there, sources and entries are strictly
  ordered by path and symbol, items by the line they are written on, and no limit is exceeded.
\<close>

definition canonical_iface :: "iface \<Rightarrow> bool" where
  "canonical_iface r \<longleftrightarrow>
     configuration_ok (if_configuration r) \<and> if_unit r \<noteq> [] \<and>
     list_all source_ok (if_sources r) \<and> sorted_wrt (<) (map (encode \<circ> sf_path) (if_sources r)) \<and>
     length (if_sources r) \<le> kMaxSources \<and>
     list_all entry_ok (if_entries r) \<and> sorted_wrt (<) (map (encode \<circ> en_symbol) (if_entries r)) \<and>
     length (if_entries r) \<le> kMaxEntries"

lemma chained_sources:
  "list_all source_ok ss \<Longrightarrow> chained (<) [] (map (encode \<circ> sf_path) ss) \<longleftrightarrow> sorted_wrt (<) (map (encode \<circ> sf_path) ss)"
  unfolding chained_ascending by (rule ascending_first) (auto simp: list_all_iff source_ok_def eq_commute [of "[]"])

lemma chained_entries:
  "list_all entry_ok es \<Longrightarrow> chained (<) [] (map (encode \<circ> en_symbol) es) \<longleftrightarrow> sorted_wrt (<) (map (encode \<circ> en_symbol) es)"
  unfolding chained_ascending by (rule ascending_first) (auto simp: list_all_iff entry_ok_def eq_commute [of "[]"])

lemma flag_loop_iff:
  "flag_loop [] p = Inr (fs, q) \<longleftrightarrow>
     reads_lines p (flags.item_lines fs) q \<and> list_all (\<lambda>f. f \<noteq> []) fs \<and> length fs \<le> kMaxFlags \<and> stops ''flag'' q"
  using flags.loop_iff [where xs = "[]" and previous = "[]" and p = p and ys = fs and q = q] by auto

lemma source_loop_iff:
  "source_loop [] [] p = Inr (ss, q) \<longleftrightarrow>
     reads_lines p (sources.item_lines ss) q \<and> list_all source_ok ss \<and> sorted_wrt (<) (map (encode \<circ> sf_path) ss) \<and>
     length ss \<le> kMaxSources \<and> stops ''source'' q"
  using sources.loop_iff [where xs = "[]" and previous = "[]" and p = p and ys = ss and q = q] chained_sources by auto

lemma entry_loop_iff:
  "entry_loop [] [] p = Inr (es, q) \<longleftrightarrow>
     reads_lines p (entries.item_lines es) q \<and> list_all entry_ok es \<and> sorted_wrt (<) (map (encode \<circ> en_symbol) es) \<and>
     length es \<le> kMaxEntries \<and> stops ''entry'' q"
  using entries.loop_iff [where xs = "[]" and previous = "[]" and p = p and ys = es and q = q] chained_entries by auto

lemmas list_loop_iffs = flag_loop_iff source_loop_iff entry_loop_iff

lemma parse_body_reads:
  assumes "parse_body p = Inr r"
  shows "canonical_iface r \<and> (\<exists>q. reads_lines p (body_fields r) q \<and> ps_rest q = [])"
proof -
  from assms obtain c1 p1 c2 p2 c3 p3 c4 p4 c5 p5 c6 p6 c7 p7 c8 p8 c9 p9 fs p10 u p11 ss p12 es p13 where
      s: "single_text ''compiler'' p = Inr (c1, p1)" "single_digest ''build'' p1 = Inr (c2, p2)"
      "single_text ''semantics'' p2 = Inr (c3, p3)" "single_digest ''verifier'' p3 = Inr (c4, p4)"
      "single_text ''kernel'' p4 = Inr (c5, p5)" "single_text ''core'' p5 = Inr (c6, p6)"
      "single_text ''clang'' p6 = Inr (c7, p7)" "single_text ''language'' p7 = Inr (c8, p8)"
      "single_text ''target'' p8 = Inr (c9, p9)" "flag_loop [] p9 = Inr (fs, p10)" "single_text ''unit'' p10 = Inr (u, p11)"
      "source_loop [] [] p11 = Inr (ss, p12)" "entry_loop [] [] p12 = Inr (es, p13)" "done_reading p13"
      and r: "r = \<lparr>if_configuration = \<lparr>cf_compiler = c1, cf_build = c2, cf_semantics = c3, cf_verifier = c4,
                    cf_kernel = c5, cf_core = c6, cf_clang = c7, cf_language = c8, cf_target = c9, cf_flags = fs\<rparr>,
                 if_unit = u, if_sources = ss, if_entries = es\<rparr>"
    unfolding parse_body_def bind_ok_eq_Inr split_paired_Ex prod.case by (auto split: if_splits)
  have "reads_lines p11 (sources.item_lines ss @ entries.item_lines es) p13"
    using s(12,13) unfolding list_loop_iffs by (blast intro: reads_trans)
  then have "reads_lines p10 ([''unit'', encode u] # sources.item_lines ss @ entries.item_lines es) p13"
    using s(11) reads_Cons unfolding line_iffs by blast
  then have "reads_lines p9 (flags.item_lines fs @ [''unit'', encode u] # sources.item_lines ss @ entries.item_lines es) p13"
    using s(10) unfolding list_loop_iffs by (blast intro: reads_trans)
  then have "reads_lines p5 ([''core'', encode c6] # [''clang'', encode c7] # [''language'', encode c8] # [''target'', encode c9] #
      flags.item_lines fs @ [''unit'', encode u] # sources.item_lines ss @ entries.item_lines es) p13"
    using s(6-9) reads_Cons unfolding line_iffs by blast
  then have "reads_lines p ([''compiler'', encode c1] # [''build'', to_hex c2] # [''semantics'', encode c3] #
      [''verifier'', to_hex c4] # [''kernel'', encode c5] # [''core'', encode c6] # [''clang'', encode c7] #
      [''language'', encode c8] # [''target'', encode c9] #
      flags.item_lines fs @ [''unit'', encode u] # sources.item_lines ss @ entries.item_lines es) p13"
    using s(1-5) reads_Cons unfolding line_iffs by blast
  then have "reads_lines p (body_fields r) p13" by (simp add: r body_fields_def header_fields_def)
  moreover have "canonical_iface r"
    using s unfolding line_iffs list_loop_iffs by (simp add: r canonical_iface_def configuration_ok_def)
  ultimately show ?thesis using s(14) by (auto simp: done_reading_def)
qed

lemma reads_parse_body:
  assumes c: "canonical_iface r" and b: "reads_lines p (body_fields r) q" and q: "ps_rest q = []"
  shows "parse_body p = Inr r"
proof -
  let ?c = "if_configuration r"
  have split: "body_fields r =
      [[''compiler'', encode (cf_compiler ?c)]] @ [[''build'', to_hex (cf_build ?c)]] @ [[''semantics'', encode (cf_semantics ?c)]] @
      [[''verifier'', to_hex (cf_verifier ?c)]] @ [[''kernel'', encode (cf_kernel ?c)]] @ [[''core'', encode (cf_core ?c)]] @
      [[''clang'', encode (cf_clang ?c)]] @ [[''language'', encode (cf_language ?c)]] @ [[''target'', encode (cf_target ?c)]] @
      flags.item_lines (cf_flags ?c) @ [[''unit'', encode (if_unit r)]] @ sources.item_lines (if_sources r) @
      entries.item_lines (if_entries r)"
    by (simp add: body_fields_def header_fields_def)
  from b obtain p1 p2 p3 p4 p5 p6 p7 p8 p9 p10 p11 p12 where
      s: "reads_lines p [[''compiler'', encode (cf_compiler ?c)]] p1" "reads_lines p1 [[''build'', to_hex (cf_build ?c)]] p2"
      "reads_lines p2 [[''semantics'', encode (cf_semantics ?c)]] p3" "reads_lines p3 [[''verifier'', to_hex (cf_verifier ?c)]] p4"
      "reads_lines p4 [[''kernel'', encode (cf_kernel ?c)]] p5" "reads_lines p5 [[''core'', encode (cf_core ?c)]] p6"
      "reads_lines p6 [[''clang'', encode (cf_clang ?c)]] p7" "reads_lines p7 [[''language'', encode (cf_language ?c)]] p8"
      "reads_lines p8 [[''target'', encode (cf_target ?c)]] p9"
    and l: "reads_lines p9 (flags.item_lines (cf_flags ?c)) p10" "reads_lines p10 [[''unit'', encode (if_unit r)]] p11"
      "reads_lines p11 (sources.item_lines (if_sources r)) p12" "reads_lines p12 (entries.item_lines (if_entries r)) q"
    unfolding split reads_append by blast
  have e: "stops ''entry'' q" using q by (simp add: stops_def)
  have "stops ''source'' p12"
  proof (cases "if_entries r")
    case Nil
    then have "p12 = q" using l(4) by (simp add: entries.item_lines_def)
    then show ?thesis using q by (simp add: stops_def)
  next
    case (Cons x xs)
    then show ?thesis using stops_reads [OF l(4), of "''source''"] by (simp add: entries.item_lines_def)
  qed
  moreover have "stops ''flag'' p10" using stops_reads [OF l(2), of "''flag''"] by simp
  ultimately have "flag_loop [] p9 = Inr (cf_flags ?c, p10)" "source_loop [] [] p11 = Inr (if_sources r, p12)"
      "entry_loop [] [] p12 = Inr (if_entries r, q)"
    using l e c unfolding list_loop_iffs canonical_iface_def configuration_ok_def by blast+
  moreover have "single_text ''unit'' p10 = Inr (if_unit r, p11)" "single_text ''compiler'' p = Inr (cf_compiler ?c, p1)"
      "single_digest ''build'' p1 = Inr (cf_build ?c, p2)" "single_text ''semantics'' p2 = Inr (cf_semantics ?c, p3)"
      "single_digest ''verifier'' p3 = Inr (cf_verifier ?c, p4)" "single_text ''kernel'' p4 = Inr (cf_kernel ?c, p5)"
      "single_text ''core'' p5 = Inr (cf_core ?c, p6)" "single_text ''clang'' p6 = Inr (cf_clang ?c, p7)"
      "single_text ''language'' p7 = Inr (cf_language ?c, p8)" "single_text ''target'' p8 = Inr (cf_target ?c, p9)"
    using s l(2) c unfolding line_iffs canonical_iface_def configuration_ok_def by blast+
  ultimately show ?thesis using q by (simp add: parse_body_def done_reading_def)
qed

lemma parse_body_iff:
  "parse_body p = Inr r \<longleftrightarrow> canonical_iface r \<and> (\<exists>q. reads_lines p (body_fields r) q \<and> ps_rest q = [])"
  using parse_body_reads reads_parse_body by blast

end
