(* ===== verification/Digest_Facts.thy ===== *)
theory Digest_Facts
  imports Digest
begin

text \<open>
  The hasher, fed in any pieces, computes SHA-256 of all it was fed: the padded message cut into
  blocks. Digests are told apart by their text.
\<close>

section \<open>The hash of a whole message\<close>

function blocks64 :: "octet list \<Rightarrow> octet list list" where
  "blocks64 bs = (if length bs < 64 then [] else take 64 bs # blocks64 (drop 64 bs))"
  by pat_completeness auto
termination
  by (relation "measure length") auto

declare blocks64.simps [simp del]

definition padded :: "octet list \<Rightarrow> octet list" where
  "padded bs = bs @ 0x80 # replicate ((119 - length bs mod 64) mod 64) 0 @ octets64 (of_nat (8 * length bs))"

definition sha256 :: "octet list \<Rightarrow> digest" where
  "sha256 bs = concat (map octets32 (foldl compress initial_state (blocks64 (padded bs))))"

lemma pad_count:
  fixes r :: nat
  shows "r < 56 \<Longrightarrow> (119 - r) mod 64 = 55 - r" and "r < 64 \<Longrightarrow> \<not> r < 56 \<Longrightarrow> (119 - r) mod 64 = 119 - r"
proof -
  assume "r < 56"
  then have e: "119 - r = (55 - r) + 64" by simp
  have "(55 - r) mod 64 = 55 - r" by simp
  then show "(119 - r) mod 64 = 55 - r" unfolding e mod_add_self2 .
qed simp

lemma length_padded: "64 dvd length (padded bs)"
proof -
  have r: "length bs mod 64 < 64" by simp
  have "length (padded bs) = length bs + ((119 - length bs mod 64) mod 64 + 9)"
    by (simp add: padded_def octets64_def)
  then have "length (padded bs) mod 64 = (length bs mod 64 + ((119 - length bs mod 64) mod 64 + 9)) mod 64"
    by (simp only: mod_add_left_eq)
  also have "\<dots> = 0"
  proof (cases "length bs mod 64 < 56")
    case True
    then show ?thesis unfolding pad_count(1) [OF True] by simp
  next
    case False
    then show ?thesis unfolding pad_count(2) [OF r False] using r by simp
  qed
  finally show ?thesis by (simp add: dvd_eq_mod_eq_0)
qed

section \<open>What the hasher holds\<close>

definition held_back :: "octet list \<Rightarrow> octet list" where
  "held_back bs = drop (64 * (length bs div 64)) bs"

lemma length_held_back [simp]: "length (held_back bs) = length bs mod 64"
  by (simp add: held_back_def minus_mult_div_eq_mod)

lemma blocks64_append: "blocks64 (bs @ cs) = blocks64 bs @ blocks64 (held_back bs @ cs)"
proof (induction bs rule: blocks64.induct)
  case (1 bs)
  show ?case
  proof (cases "length bs < 64")
    case True
    then show ?thesis by (simp add: held_back_def blocks64.simps [of bs])
  next
    case False
    then have "held_back (drop 64 bs) = held_back bs"
      by (simp add: held_back_def le_div_geq algebra_simps)
    then show ?thesis using 1 False by (simp add: blocks64.simps [of bs] blocks64.simps [of "bs @ cs"])
  qed
qed

lemma held_back_append: "held_back (bs @ cs) = held_back (held_back bs @ cs)"
proof (induction bs rule: blocks64.induct)
  case (1 bs)
  show ?case
  proof (cases "length bs < 64")
    case True
    then show ?thesis by (simp add: held_back_def)
  next
    case False
    then have d: "held_back (drop 64 ds) = held_back ds" if "64 \<le> length ds" for ds
      using that by (simp add: held_back_def le_div_geq algebra_simps)
    show ?thesis using 1 False d [of bs] d [of "bs @ cs"] by simp
  qed
qed

lemma blocks64_short: "length bs < 64 \<Longrightarrow> blocks64 bs = [] \<and> held_back bs = bs"
  by (simp add: blocks64.simps [of bs] held_back_def)

lemma blocks64_full: "length bs = 64 \<Longrightarrow> blocks64 bs = [bs] \<and> held_back bs = []"
  by (simp add: blocks64.simps [of bs] blocks64.simps [of "[]"] held_back_def)

definition absorbed :: "hasher \<Rightarrow> octet list \<Rightarrow> bool" where
  "absorbed h bs \<longleftrightarrow>
     \<not> hash_finished h \<and> length (hash_buffer h) = 64 \<and> buffered h = length bs mod 64 \<and>
     take (buffered h) (hash_buffer h) = held_back bs \<and>
     hash_state h = foldl compress initial_state (blocks64 bs)"

lemma absorbed_new: "absorbed new_hasher []"
  by (simp add: absorbed_def new_hasher_def held_back_def blocks64.simps)

lemma absorbed_fill:
  assumes a: "absorbed h bs" and n: "buffered h + length cs \<le> 64"
  shows "absorbed (flush (fill cs h)) (bs @ cs)"
proof -
  let ?b = "hash_buffer (fill cs h)"
  have h: "length (hash_buffer h) = 64" "buffered h = length bs mod 64" "take (buffered h) (hash_buffer h) = held_back bs"
    "hash_state h = foldl compress initial_state (blocks64 bs)" "\<not> hash_finished h"
    using a unfolding absorbed_def by blast+
  have b: "?b = held_back bs @ cs @ drop (buffered h + length cs) (hash_buffer h)"
    using h by (simp add: fill_def)
  have len: "length ?b = 64" using n h(1,2) by (simp add: b)
  have m: "length (held_back bs @ cs) = buffered h + length cs" using h(2) by simp
  show ?thesis
  proof (cases "buffered h + length cs = 64")
    case True
    then have full: "?b = held_back bs @ cs" using h(1) by (simp add: b)
    have f: "blocks64 (held_back bs @ cs) = [held_back bs @ cs]" "held_back (held_back bs @ cs) = []"
      using blocks64_full m True by auto
    have z: "length (bs @ cs) mod 64 = 0" using True h(2) by (simp add: mod_add_left_eq [symmetric])
    have e: "flush (fill cs h) = (fill cs h)\<lparr>hash_state := compress (hash_state h) ?b, buffered := 0\<rparr>"
      using True by (simp add: flush_def) (simp add: fill_def)
    have s: "foldl compress initial_state (blocks64 (bs @ cs)) = compress (hash_state h) ?b"
      unfolding blocks64_append [of bs cs] f full h(4) by simp
    show ?thesis
      unfolding absorbed_def e s held_back_append [of bs cs] f z using len h(5) by simp (simp add: fill_def)
  next
    case False
    then have less: "buffered h + length cs < 64" using n by simp
    have f: "blocks64 (held_back bs @ cs) = []" "held_back (held_back bs @ cs) = held_back bs @ cs"
      using blocks64_short m less by auto
    have z: "length (bs @ cs) mod 64 = buffered h + length cs"
      using mod_add_left_eq [of "length bs" 64 "length cs"] mod_less [OF less] unfolding h(2) length_append by argo
    have k: "take (buffered h + length cs) ?b = held_back bs @ cs" using m by (simp add: b)
    have e: "flush (fill cs h) = fill cs h" "buffered (fill cs h) = buffered h + length cs"
      "hash_state (fill cs h) = hash_state h" "hash_finished (fill cs h) = hash_finished h"
      using False by (simp_all add: flush_def) (simp_all add: fill_def)
    show ?thesis
      unfolding absorbed_def e held_back_append [of bs cs] blocks64_append [of bs cs] f z k h(4) using len h(5) by simp
  qed
qed

lemma absorbed_update_from: "absorbed h bs \<Longrightarrow> absorbed (update_from cs h) (bs @ cs)"
proof (induction cs h arbitrary: bs rule: update_from.induct)
  case (1 cs h)
  have b: "buffered h < 64" using "1.prems" by (simp add: absorbed_def)
  show ?case
  proof (cases "cs = []")
    case True
    then show ?thesis using "1.prems" by (simp add: update_from.simps)
  next
    case False
    let ?t = "min (length cs) (64 - buffered h)"
    have "absorbed (flush (fill (take ?t cs) h)) (bs @ take ?t cs)"
      using "1.prems" b by (intro absorbed_fill) auto
    then have "absorbed (update_from (drop ?t cs) (flush (fill (take ?t cs) h))) ((bs @ take ?t cs) @ drop ?t cs)"
      by (rule "1.IH" [OF _ refl, rotated]) (use False b in simp)
    then show ?thesis using False b by (subst update_from.simps) (simp add: Let_def)
  qed
qed

lemma absorbed_total_bits [simp]: "absorbed (h\<lparr>total_bits := n\<rparr>) bs = absorbed h bs"
  by (simp add: absorbed_def)

lemma absorbed_update: "absorbed h bs \<Longrightarrow> absorbed (update cs h) (bs @ cs)"
  unfolding update_def by (rule absorbed_update_from) simp

lemma total_bits_update_from [simp]: "total_bits (update_from cs h) = total_bits h"
proof (induction cs h rule: update_from.induct)
  case (1 cs h)
  have "total_bits (flush (fill ds h)) = total_bits h" for ds by (simp add: flush_def fill_def)
  then show ?case using 1 by (subst update_from.simps) (auto simp: Let_def)
qed

definition fed :: "hasher \<Rightarrow> octet list \<Rightarrow> bool" where
  "fed h bs \<longleftrightarrow> absorbed h bs \<and> total_bits h = of_nat (8 * length bs)"

lemma fed_new: "fed new_hasher []"
  using absorbed_new by (simp add: fed_def) (simp add: new_hasher_def)

lemma fed_update: "fed h bs \<Longrightarrow> fed (update cs h) (bs @ cs)"
  using absorbed_update by (simp add: fed_def) (simp add: update_def algebra_simps)

section \<open>Finishing\<close>

lemma absorbed_pad:
  "absorbed h bs \<Longrightarrow>
     absorbed (pad_zeros h) (bs @ replicate ((120 - buffered h) mod 64) 0) \<and> buffered (pad_zeros h) = 56"
proof (induction h arbitrary: bs rule: pad_zeros.induct)
  case (1 h)
  have b: "buffered h < 64" using "1.prems" by (simp add: absorbed_def)
  show ?case
  proof (cases "buffered h = 56")
    case True
    then show ?thesis using "1.prems" by (simp add: pad_zeros.simps)
  next
    case False
    let ?h = "update_u8 0 h"
    have "absorbed ?h (bs @ [0])" unfolding update_u8_def using "1.prems" by (rule absorbed_update)
    then have "absorbed (pad_zeros ?h) ((bs @ [0]) @ replicate ((120 - buffered ?h) mod 64) 0) \<and> buffered (pad_zeros ?h) = 56"
      by (rule "1.IH" [rotated]) (use False b in simp)
    moreover have "(120 - buffered h) mod 64 = Suc ((120 - buffered ?h) mod 64)"
    proof (cases "buffered h < 56")
      case True
      then have "(120 - buffered h) mod 64 = 56 - buffered h" "(120 - Suc (buffered h)) mod 64 = 55 - buffered h"
        by (simp_all add: mod_if)
      then show ?thesis using True b by (simp add: buffered_update_u8)
    next
      case False
      then show ?thesis using b \<open>buffered h \<noteq> 56\<close> by (auto simp: buffered_update_u8 mod_if)
    qed
    ultimately show ?thesis using False b by (subst (1 2) pad_zeros.simps) simp
  qed
qed

lemma finish_sha256:
  assumes "fed h bs"
  shows "fst (finish_hash h) = sha256 bs"
proof -
  let ?h1 = "update_u8 0x80 h" and ?cs = "bs @ [0x80]"
  let ?h2 = "pad_zeros ?h1" and ?k = "(120 - buffered ?h1) mod 64"
  let ?ds = "?cs @ replicate ?k 0"
  have h1: "absorbed ?h1 ?cs" using assms absorbed_update unfolding update_u8_def by (simp add: fed_def)
  then have h2: "absorbed ?h2 ?ds" "buffered ?h2 = 56" using absorbed_pad by blast+
  have b1: "buffered ?h1 = Suc (length bs) mod 64" using h1 by (simp add: absorbed_def)
  have k: "?k = (119 - length bs mod 64) mod 64"
  proof (cases "length bs mod 64 = 63")
    case True
    then have "Suc (length bs) mod 64 = 0" by (simp add: mod_Suc)
    then show ?thesis using True by (simp add: b1)
  next
    case False
    then have "Suc (length bs) mod 64 = Suc (length bs mod 64)" by (simp add: mod_Suc)
    then show ?thesis by (simp add: b1)
  qed
  let ?l = "octets64 (of_nat (8 * length bs))"
  have p: "padded bs = ?ds @ ?l" by (simp add: padded_def k)
  have len: "length (held_back ?ds @ ?l) = 64" using h2 by (simp add: absorbed_def octets64_def)
  have buffer: "take (buffered ?h2) (hash_buffer ?h2) @ ?l @ drop (buffered ?h2 + 8) (hash_buffer ?h2) = held_back ?ds @ ?l"
    using h2 by (simp add: absorbed_def)
  have "foldl compress initial_state (blocks64 (padded bs)) =
      compress (foldl compress initial_state (blocks64 ?ds)) (held_back ?ds @ ?l)"
    unfolding p blocks64_append [of ?ds] using blocks64_full [OF len] by simp
  then have "hash_state (close_hasher h) = foldl compress initial_state (blocks64 (padded bs))"
    using assms h2(1) buffer by (simp add: close_hasher_def fed_def absorbed_def Let_def)
  then show ?thesis by (simp add: finish_hash_def sha256_def)
qed

text \<open>Whatever the pieces.\<close>

lemma hasher_sha256: "fst (finish_hash (foldl (\<lambda>h cs. update cs h) new_hasher pieces)) = sha256 (concat pieces)"
proof -
  have "fed h bs \<Longrightarrow> fed (foldl (\<lambda>h cs. update cs h) h pieces) (bs @ concat pieces)" for h bs
  proof (induction pieces arbitrary: h bs)
    case (Cons p ps)
    then show ?case using fed_update [of h bs p] by fastforce
  qed simp
  from this [OF fed_new] show ?thesis using finish_sha256 by simp
qed

lemma hash_bytes_sha256: "hash_bytes text = sha256 (octets text)"
  using hasher_sha256 [of "[octets text]"] by (simp add: hash_bytes_def update_text_def)

end
