(* ===== verification/Interface_Round.thy ===== *)
theory Interface_Round
  imports Interface_Trip Digest_Facts
begin

text \<open>
  The reader and the writer agree: a text is read exactly when it is the text the writer makes of
  the interface that is read, and what is written is read back in its canonical form.
\<close>

section \<open>The first line and the last\<close>

definition interface_text :: "iface \<Rightarrow> string" where
  "interface_text r = checksummed (lines_text (first_line # map joined (body_fields r)))"

lemma lines_text_ends: "ls \<noteq> [] \<Longrightarrow> \<exists>ys. lines_text ls = ys @ [line_feed]"
  by (cases ls rule: rev_cases) auto

lemma feed_after:
  assumes "length (takeWhile (\<lambda>c. c \<noteq> line_feed) xs) \<noteq> length xs"
  shows "\<exists>ys. xs = takeWhile (\<lambda>c. c \<noteq> line_feed) xs @ line_feed # ys"
proof -
  let ?d = "dropWhile (\<lambda>c. c \<noteq> line_feed) xs"
  have d: "?d \<noteq> []" using assms by (metis append_Nil2 takeWhile_dropWhile_id)
  then have "hd ?d = line_feed" using hd_dropWhile [OF d] by blast
  then have "?d = line_feed # tl ?d" using d by (metis list.exhaust_sel)
  then show ?thesis using takeWhile_dropWhile_id [of "\<lambda>c. c \<noteq> line_feed" xs] by metis
qed

lemma last_line_of_append:
  assumes "line_feed \<notin> set l"
  shows "last_line_of ((ys @ [line_feed]) @ l @ [line_feed]) = l"
proof -
  have b: "butlast ((ys @ [line_feed]) @ l @ [line_feed]) = ys @ line_feed # l"
    using butlast_snoc [of "(ys @ [line_feed]) @ l" line_feed] by simp
  have "takeWhile (\<lambda>c. c \<noteq> line_feed) (rev l @ line_feed # rev ys) = rev l"
    using assms by (intro takeWhile_line) simp
  then show ?thesis unfolding last_line_of_def b by simp
qed

lemma last_line_split:
  assumes "xs \<noteq> []" "last xs = line_feed"
  shows "xs = take (length xs - 1 - length (last_line_of xs)) xs @ last_line_of xs @ [line_feed]"
proof -
  let ?l = "last_line_of xs"
  have "rev (butlast xs) = rev ?l @ dropWhile (\<lambda>c. c \<noteq> line_feed) (rev (butlast xs))"
    unfolding last_line_of_def rev_rev_ident by simp
  then obtain ys where ys: "butlast xs = ys @ ?l" by (metis rev_append rev_rev_ident)
  then have x: "xs = ys @ ?l @ [line_feed]" using assms append_butlast_last_id [of xs] by simp
  then have "length xs = length ys + length ?l + 1" by (metis add.assoc length_append length_Cons list.size(3) One_nat_def add_Suc_right add_0_right)
  then have "take (length xs - 1 - length ?l) xs = ys" using x by (metis add_diff_cancel_right' append_eq_conv_conj)
  then show ?thesis using x by metis
qed

lemma first_line_plain: "line_feed \<notin> set first_line" "length first_line < kMaxLineBytes"
proof -
  have f: "first_line = ''cppl-verification-interface 3''" by code_simp
  show "line_feed \<notin> set first_line" "length first_line < kMaxLineBytes" unfolding f by (simp_all add: kMaxLineBytes_def)
qed

lemma length_words_of [simp]: "length (words_of w) = 8"
  by (cases w rule: words_of.cases) simp

lemma length_compress [simp]: "length (compress st b) = min (length st) 8"
  by (simp add: compress_def)

lemma length_compressed: "length st = 8 \<Longrightarrow> length (foldl compress st bs) = 8"
  by (induction bs arbitrary: st) simp_all

lemma sized_sha256: "sized (sha256 bs)"
proof -
  have "length (octets32 w) = 4" for w by (simp add: octets32_def)
  then have "length (concat (map octets32 ws)) = 4 * length ws" for ws by (induction ws) simp_all
  moreover have "length (foldl compress initial_state (blocks64 (padded bs))) = 8"
    by (rule length_compressed) (simp add: initial_state_def)
  ultimately show ?thesis by (simp add: sized_def sha256_def)
qed

lemma sized_hash: "sized (hash_bytes xs)"
  unfolding hash_bytes_sha256 by (rule sized_sha256)

definition checksum_key :: string where
  "checksum_key = ''checksum ''"

lemma checksummed_split:
  "checksummed xs = xs @ (checksum_key @ to_hex (hash_bytes xs)) @ [line_feed]"
  by (simp add: checksummed_def checksum_key_def)

lemma checksum_plain: "line_feed \<notin> set (checksum_key @ to_hex d)"
proof -
  have "line_feed \<notin> set (to_hex d)" using to_hex_visible [of d] by (auto simp: list_all_iff visible_def)
  then show ?thesis by (simp add: checksum_key_def)
qed

lemma last_line_before:
  "take (length xs - 1 - length (last_line_of xs)) xs = [] \<or>
   last (take (length xs - 1 - length (last_line_of xs)) xs) = line_feed"
proof (cases "xs = []")
  case False
  let ?d = "dropWhile (\<lambda>c. c \<noteq> line_feed) (rev (butlast xs))"
  have r: "rev (butlast xs) = rev (last_line_of xs) @ ?d"
    unfolding last_line_of_def rev_rev_ident by simp
  then have b: "butlast xs = rev ?d @ last_line_of xs" by (metis rev_append rev_rev_ident)
  have "xs = butlast xs @ [last xs]" using False by simp
  then have "xs = rev ?d @ last_line_of xs @ [last xs]" by (subst (asm) b) simp
  moreover from this have "length xs - 1 - length (last_line_of xs) = length ?d"
    by (metis add_diff_cancel_right' append.assoc butlast_snoc length_append length_butlast length_rev)
  ultimately have "take (length xs - 1 - length (last_line_of xs)) xs = rev ?d" by (metis append_eq_conv_conj length_rev)
  then show ?thesis using hd_dropWhile [of "\<lambda>c. c \<noteq> line_feed" "rev (butlast xs)"] by (auto simp: last_rev)
qed simp

text \<open>What the reader has established when it comes to read the body.\<close>

lemma parse_framed:
  "parse xs = Inr r \<longleftrightarrow>
     (\<exists>b. xs = checksummed (first_line @ line_feed # b) \<and> (b = [] \<or> last b = line_feed) \<and> length xs \<le> kMaxBytes \<and>
        parse_body \<lparr>ps_rest = b, ps_number = 2\<rparr> = Inr r)"
proof
  assume p: "parse xs = Inr r"
  let ?T = "takeWhile (\<lambda>c. c \<noteq> line_feed) xs"
  let ?L = "last_line_of xs"
  let ?k = "length xs - 1 - length ?L"
  let ?P = "take ?k xs"
  have t: "take (length ?T) xs = ?T" by (metis takeWhile_eq_take)
  obtain d where s: "length xs \<le> kMaxBytes" "take kMaxLineBytes ?T = first_line" "length ?T \<noteq> length xs" "last xs = line_feed"
      "length ?T < ?k" "take 9 ?L = ''checksum ''" "parse_digest (drop 9 ?L) = Some d" "hash_bytes ?P = d"
      "parse_body \<lparr>ps_rest = substr xs (length ?T + 1) (?k - length ?T - 1), ps_number = 2\<rparr> = Inr r"
    using p unfolding parse_def Let_def refuse_def t
    by (auto simp: not_less not_le split: if_splits option.splits)
  have T: "?T = first_line"
  proof -
    have "length (take kMaxLineBytes ?T) = length first_line" by (simp only: s(2))
    then have "length ?T < kMaxLineBytes" using first_line_plain(2) by (simp add: min_def split: if_splits)
    then show ?thesis using s(2) by simp
  qed
  have x: "xs \<noteq> []" using s(3) by auto
  obtain ys where "xs = ?T @ line_feed # ys" using feed_after [OF s(3)] by blast
  then have xs: "xs = first_line @ line_feed # ys" by (simp only: T)
  define n where "n = ?k - length first_line - 1"
  have n: "?k = length first_line + 1 + n" using s(5) T by (simp add: n_def)
  have P: "?P = first_line @ line_feed # take n ys" unfolding n by (subst xs) simp
  have b: "substr xs (length ?T + 1) (?k - length ?T - 1) = take n ys"
    unfolding T n by (subst xs) (simp add: substr_def)
  have "?L = checksum_key @ to_hex d" using s(6,7) parse_digest_iff checksum_key_def by (metis append_take_drop_id)
  then have "xs = checksummed ?P"
    using last_line_split [OF x s(4)] s(8) unfolding checksummed_split by metis
  moreover have "take n ys = [] \<or> last (take n ys) = line_feed"
  proof -
    have "?P = [] \<or> last ?P = line_feed" by (rule last_line_before)
    then show ?thesis unfolding P by (cases "take n ys") auto
  qed
  ultimately show "\<exists>b. xs = checksummed (first_line @ line_feed # b) \<and> (b = [] \<or> last b = line_feed) \<and> length xs \<le> kMaxBytes \<and>
        parse_body \<lparr>ps_rest = b, ps_number = 2\<rparr> = Inr r"
    using s(1,9) b P by metis
next
  assume "\<exists>b. xs = checksummed (first_line @ line_feed # b) \<and> (b = [] \<or> last b = line_feed) \<and> length xs \<le> kMaxBytes \<and>
        parse_body \<lparr>ps_rest = b, ps_number = 2\<rparr> = Inr r"
  then obtain b where b: "xs = checksummed (first_line @ line_feed # b)" "b = [] \<or> last b = line_feed" "length xs \<le> kMaxBytes"
      "parse_body \<lparr>ps_rest = b, ps_number = 2\<rparr> = Inr r" by blast
  let ?P = "first_line @ line_feed # b"
  let ?L = "checksum_key @ to_hex (hash_bytes ?P)"
  have xs: "xs = ?P @ ?L @ [line_feed]" using b(1) by (simp only: checksummed_split)
  obtain ys where ys: "?P = ys @ [line_feed]"
    using b(2) by (metis append_butlast_last_id append_is_Nil_conv last_append last.simps list.distinct(1))
  have L: "last_line_of xs = ?L" unfolding xs ys by (rule last_line_of_append [OF checksum_plain])
  have T: "takeWhile (\<lambda>c. c \<noteq> line_feed) xs = first_line" unfolding xs using takeWhile_line [OF first_line_plain(1)] by simp
  have k: "length xs - 1 - length ?L = length ?P" unfolding xs by simp
  have P: "take (length ?P) xs = ?P" unfolding xs by simp
  have f: "take kMaxLineBytes first_line = first_line" using first_line_plain(2) by simp
  have s: "substr xs (length first_line + 1) (length ?P - length first_line - 1) = b" unfolding xs by (simp add: substr_def)
  have t: "take (length first_line) xs = first_line" unfolding xs by simp
  have l: "last xs = line_feed" "length first_line \<noteq> length xs" unfolding xs by simp_all
  have c: "take 9 ?L = ''checksum ''" "drop 9 ?L = to_hex (hash_bytes ?P)" by (simp_all add: checksum_key_def)
  have d: "parse_digest (to_hex (hash_bytes ?P)) = Some (hash_bytes ?P)" using parse_digest_iff sized_hash by blast
  show "parse xs = Inr r"
    unfolding parse_def Let_def T L k t f P s c d using b(3,4) l by simp
qed

theorem parse_iff:
  "parse xs = Inr r \<longleftrightarrow>
     canonical_iface r \<and> list_all line_ok (body_fields r) \<and> xs = interface_text r \<and> length xs \<le> kMaxBytes"
proof -
  have b: "parse_body \<lparr>ps_rest = b, ps_number = 2\<rparr> = Inr r \<longleftrightarrow>
      canonical_iface r \<and> list_all line_ok (body_fields r) \<and> b = lines_text (map joined (body_fields r))" for b
  proof
    assume "parse_body \<lparr>ps_rest = b, ps_number = 2\<rparr> = Inr r"
    then show "canonical_iface r \<and> list_all line_ok (body_fields r) \<and> b = lines_text (map joined (body_fields r))"
      unfolding parse_body_iff by (auto simp: reads_lines_def)
  next
    let ?q = "\<lparr>ps_rest = [], ps_number = 2 + length (body_fields r)\<rparr>"
    assume "canonical_iface r \<and> list_all line_ok (body_fields r) \<and> b = lines_text (map joined (body_fields r))"
    then have "canonical_iface r" "reads_lines \<lparr>ps_rest = b, ps_number = 2\<rparr> (body_fields r) ?q" by (simp_all add: reads_lines_def)
    then show "parse_body \<lparr>ps_rest = b, ps_number = 2\<rparr> = Inr r" unfolding parse_body_iff by force
  qed
  have e: "lines_text ls = [] \<or> last (lines_text ls) = line_feed" for ls
    using lines_text_ends [of ls] by (cases "ls = []") auto
  have "interface_text r = checksummed (first_line @ line_feed # lines_text (map joined (body_fields r)))"
    by (simp add: interface_text_def)
  then show ?thesis unfolding parse_framed b using e by auto
qed

section \<open>The canonical form\<close>

lemma joined_inject:
  "length fs = length gs \<Longrightarrow> list_all (\<lambda>f. CHR '' '' \<notin> set f) fs \<Longrightarrow> list_all (\<lambda>f. CHR '' '' \<notin> set f) gs \<Longrightarrow>
     joined fs = joined gs \<Longrightarrow> fs = gs"
proof (induction fs gs rule: list_induct2)
  case (Cons f fs g gs)
  show ?case
  proof (cases "fs = []")
    case True
    then show ?thesis using Cons.prems(3) Cons.hyps by simp
  next
    case False
    then have j: "f @ CHR '' '' # joined fs = g @ CHR '' '' # joined gs"
      using Cons.prems(3) Cons.hyps joined_Cons by (metis length_0_conv)
    have "f = g" using arg_cong [OF j, of "takeWhile (\<lambda>c. c \<noteq> CHR '' '')"] Cons.prems(1,2) takeWhile_field(1) by simp
    then show ?thesis using j Cons.IH Cons.prems(1,2) by simp
  qed
qed simp

lemma strictly_sorted_remdups_adj:
  fixes xs :: "'a :: linorder list"
  shows "sorted xs \<Longrightarrow> sorted_wrt (<) (remdups_adj xs)"
  by (induction xs rule: remdups_adj.induct) (auto simp: order_less_le)

lemma map_sort_key: "map f (sort_key f xs) = sort (map f xs)"
proof -
  have "map f (insort_key f x xs) = insort (f x) (map f xs)" for x xs by (induction xs) simp_all
  then show ?thesis by (induction xs) simp_all
qed

lemma sort_key_of_sorted: "sorted_wrt (<) (map f xs) \<Longrightarrow> sort_key f xs = xs"
  by (rule sort_key_id_if_sorted) (simp add: strict_sorted_imp_sorted)

lemma remdups_adj_of_sorted:
  fixes f :: "'a \<Rightarrow> 'b :: linorder"
  shows "sorted_wrt (<) (map f xs) \<Longrightarrow> remdups_adj xs = xs"
  by (rule remdups_adj_distinct) (auto simp: strict_sorted_iff distinct_map)

definition canonical_items :: "('a \<Rightarrow> string list) \<Rightarrow> 'a list \<Rightarrow> 'a list" where
  "canonical_items render xs = remdups_adj (sort_key (joined \<circ> render) xs)"

lemma set_canonical_items [simp]: "set (canonical_items render xs) = set xs"
  by (simp add: canonical_items_def)

lemma length_canonical_items: "length (canonical_items render xs) \<le> length xs"
  unfolding canonical_items_def by (metis length_sort remdups_adj_length)

lemma canonical_items_fixed: "items_ok render ok xs \<Longrightarrow> canonical_items render xs = xs"
  unfolding items_ok_def canonical_items_def
  using sort_key_of_sorted [of "joined \<circ> render" xs] remdups_adj_of_sorted [of "joined \<circ> render" xs] by simp

lemma visible_no_space: "list_all visible f \<Longrightarrow> CHR '' '' \<notin> set f"
  by (auto simp: list_all_iff visible_def)

lemma visible_letter:
  "visible CHR ''a''" "visible CHR ''b''" "visible CHR ''c''" "visible CHR ''d''" "visible CHR ''e''"
  "visible CHR ''f''" "visible CHR ''g''" "visible CHR ''h''" "visible CHR ''i''" "visible CHR ''j''"
  "visible CHR ''k''" "visible CHR ''l''" "visible CHR ''m''" "visible CHR ''n''" "visible CHR ''o''"
  "visible CHR ''p''" "visible CHR ''q''" "visible CHR ''r''" "visible CHR ''s''" "visible CHR ''t''"
  "visible CHR ''u''" "visible CHR ''v''" "visible CHR ''w''" "visible CHR ''x''" "visible CHR ''y''"
  "visible CHR ''z''"
  by code_simp+

text \<open>Kinds of items whose lines tell them apart.\<close>

locale written_kind = item_kind +
  assumes render_injects: "render x = render y \<Longrightarrow> x = y"
    and render_visible: "list_all (list_all visible) (render x)"
    and render_nonempty: "ok x \<Longrightarrow> [] \<notin> set (render x)"
begin

lemma joined_render_inj: "inj (joined \<circ> render)"
proof (rule injI)
  fix x y
  have s: "list_all (\<lambda>f. CHR '' '' \<notin> set f) (render z)" for z
    using render_visible [of z] visible_no_space by (auto simp: list_all_iff)
  assume "(joined \<circ> render) x = (joined \<circ> render) y"
  then have "render x = render y"
    using joined_inject [of "render x" "render y"] s render_arity by simp
  then show "x = y" by (rule render_injects)
qed

lemma map_canonical_items: "map (joined \<circ> render) (canonical_items render xs) = canonical_lines render xs"
  unfolding canonical_items_def canonical_lines_def
  by (simp only: remdups_adj_map_injective [OF joined_render_inj, symmetric] map_sort_key)

lemma canonical_items_ok:
  "list_all ok xs \<Longrightarrow> length xs \<le> kMaxEntryItems \<Longrightarrow> items_ok render ok (canonical_items render xs)"
  unfolding items_ok_def map_canonical_items using length_canonical_items [of render xs]
  by (auto simp: list_all_iff canonical_lines_def intro: strictly_sorted_remdups_adj)

end

lemma to_hex_nonempty [simp]: "sized d \<Longrightarrow> to_hex d \<noteq> []" "sized d \<Longrightarrow> [] \<noteq> to_hex d"
  by (cases d; simp add: sized_def to_hex_Cons)+

lemmas visible_fields = encode_visible to_hex_visible number_text_visible
lemmas render_defs = premise_fields_def model_fields_def unsafe_fields_def runtime_fields_def dependency_fields_def
lemmas kind_defs = premise_ok_def model_ok_def unsafe_ok_def runtime_ok_def dependency_ok_def
lemmas nil_eq_commute = eq_commute [of "[] :: string"]

interpretation law_premises: written_kind "''premise''" 4 premise_fields premise_item premise_ok
  by unfold_locales (auto simp: render_defs kind_defs visible_fields visible_letter nil_eq_commute)

interpretation code_models: written_kind "''model''" 2 model_fields model_item model_ok
  by unfold_locales (auto simp: render_defs kind_defs visible_fields visible_letter nil_eq_commute)

interpretation unsafe_sites: written_kind "''unsafe''" 3 unsafe_fields unsafe_item unsafe_ok
  by unfold_locales (auto simp: render_defs kind_defs visible_fields visible_letter nil_eq_commute)

interpretation runtime_checks: written_kind "''runtime''" 5 runtime_fields runtime_item runtime_ok
  by unfold_locales (auto simp: render_defs kind_defs visible_fields visible_letter nil_eq_commute)

interpretation dependencies: written_kind "''depends''" 2 dependency_fields dependency_item dependency_ok
  by unfold_locales (auto simp: render_defs kind_defs visible_fields visible_letter nil_eq_commute)

section \<open>Canonical entries, sources and interfaces\<close>

definition canonical_entry :: "iface_entry \<Rightarrow> iface_entry" where
  "canonical_entry e =
     e\<lparr>en_premises := canonical_items premise_fields (en_premises e),
       en_models := canonical_items model_fields (en_models e),
       en_unsafe := canonical_items unsafe_fields (en_unsafe e),
       en_runtime := canonical_items runtime_fields (en_runtime e),
       en_depends := canonical_items dependency_fields (en_depends e)\<rparr>"

definition canonical_form :: "iface \<Rightarrow> iface" where
  "canonical_form r =
     r\<lparr>if_sources := remdups_adj (sorted_sources r), if_entries := map canonical_entry (sorted_entries r)\<rparr>"

text \<open>Every digest has its 32 bytes, which the code's array type says.\<close>

definition entry_sized :: "iface_entry \<Rightarrow> bool" where
  "entry_sized e \<longleftrightarrow>
     sized (en_statement e) \<and> list_all (sized \<circ> pm_identity) (en_premises e) \<and>
     list_all (sized \<circ> md_identity) (en_models e) \<and> list_all (sized \<circ> dp_entry) (en_depends e)"

definition digests_sized :: "iface \<Rightarrow> bool" where
  "digests_sized r \<longleftrightarrow>
     sized (cf_build (if_configuration r)) \<and> sized (cf_verifier (if_configuration r)) \<and>
     list_all (sized \<circ> sf_digest) (if_sources r) \<and> list_all entry_sized (if_entries r)"

lemma entry_problem_None:
  "entry_problem e = None \<longleftrightarrow>
     en_symbol e \<noteq> [] \<and> en_name e \<noteq> [] \<and> en_contract e \<noteq> [] \<and>
     list_all (\<lambda>p. pm_name p \<noteq> [] \<and> pm_file p \<noteq> [] \<and> pm_line p \<noteq> 0) (en_premises e) \<and>
     list_all (\<lambda>m. md_name m \<noteq> []) (en_models e) \<and> list_all unsafe_ok (en_unsafe e) \<and>
     list_all runtime_ok (en_runtime e) \<and> list_all (\<lambda>d. dp_symbol d \<noteq> []) (en_depends e) \<and>
     length (en_premises e) \<le> kMaxEntryItems \<and> length (en_models e) \<le> kMaxEntryItems \<and>
     length (en_unsafe e) \<le> kMaxEntryItems \<and> length (en_runtime e) \<le> kMaxEntryItems \<and>
     length (en_depends e) \<le> kMaxEntryItems"
  by (simp add: entry_problem_def not_less list_ex_iff list_all_iff unsafe_ok_def runtime_ok_def)

lemma entry_ok_canonical:
  assumes "entry_problem e = None" "entry_sized e"
  shows "entry_ok (canonical_entry e)"
proof -
  have "list_all premise_ok (en_premises e)" "list_all model_ok (en_models e)" "list_all dependency_ok (en_depends e)"
    using assms unfolding entry_problem_None entry_sized_def
    by (auto simp: list_all_iff premise_ok_def model_ok_def dependency_ok_def)
  then show ?thesis
    using assms unfolding entry_problem_None entry_sized_def entry_ok_def canonical_entry_def
    by (simp add: law_premises.canonical_items_ok code_models.canonical_items_ok unsafe_sites.canonical_items_ok
        runtime_checks.canonical_items_ok dependencies.canonical_items_ok)
qed

lemma canonical_entry_fixed: "entry_ok e \<Longrightarrow> canonical_entry e = e"
  unfolding entry_ok_def canonical_entry_def
  by (simp add: canonical_items_fixed [of premise_fields premise_ok] canonical_items_fixed [of model_fields model_ok]
      canonical_items_fixed [of unsafe_fields unsafe_ok] canonical_items_fixed [of runtime_fields runtime_ok]
      canonical_items_fixed [of dependency_fields dependency_ok])

lemma entry_ok_no_problem: "entry_ok e \<Longrightarrow> entry_problem e = None"
  unfolding entry_problem_None entry_ok_def items_ok_def
  by (auto simp: list_all_iff premise_ok_def model_ok_def dependency_ok_def)

lemma entry_lines_canonical:
  "entry_lines e = map joined ([''entry'', encode (en_symbol e)] # entry_rest (canonical_entry e))"
proof -
  have "map joined (map render xs) = map (joined \<circ> render) xs" for render and xs :: "'a list" by simp
  then show ?thesis
    by (simp add: entry_lines_def entry_rest_def canonical_entry_def
        law_premises.map_canonical_items [unfolded o_def] code_models.map_canonical_items [unfolded o_def]
        unsafe_sites.map_canonical_items [unfolded o_def] runtime_checks.map_canonical_items [unfolded o_def]
        dependencies.map_canonical_items [unfolded o_def] o_def)
qed

lemma lines_text_concat: "lines_text (concat lss) = concat (map lines_text lss)"
  by (induction lss) simp_all

lemma recorded_text_canonical:
  "recorded_text r = lines_text (first_line # map joined (body_fields (canonical_form r)))"
proof -
  have e: "concat (map entry_text es) = lines_text (map joined (entries.item_lines (map canonical_entry es)))" for es
  proof (induction es)
    case (Cons e es)
    have "map joined (entries.item_lines (map canonical_entry (e # es))) =
        entry_lines e @ map joined (entries.item_lines (map canonical_entry es))"
      unfolding entry_lines_canonical by (simp add: entries.item_lines_def canonical_entry_def)
    then show ?case using Cons by (simp add: entry_text_def)
  qed (simp add: entries.item_lines_def)
  have s: "sources.item_lines ss = map source_fields ss" for ss by (induction ss) (simp_all add: sources.item_lines_def)
  have f: "map joined (flags.item_lines fs) = map (\<lambda>f. joined [''flag'', encode f]) fs" for fs
    by (induction fs) (simp_all add: flags.item_lines_def)
  have "configuration_lines r = first_line # map joined (header_fields (if_configuration r) @
      flags.item_lines (cf_flags (if_configuration r)) @ [[''unit'', encode (if_unit r)]])"
    by (simp add: configuration_lines_def first_line_def header_fields_def f Let_def)
  then show ?thesis by (simp add: recorded_text_def e body_fields_def canonical_form_def s)
qed

lemma recorded_interface: "checksummed (recorded_text r) = interface_text (canonical_form r)"
  by (simp only: recorded_text_canonical interface_text_def)

section \<open>The writer's checks\<close>

lemma check_sources_iff:
  "check_sources previous fs = Inr () \<longleftrightarrow>
     list_all (\<lambda>f. sf_path f \<noteq> []) fs \<and>
     successively (\<lambda>f g. sf_path f = sf_path g \<longrightarrow> f = g) (case previous of None \<Rightarrow> fs | Some g \<Rightarrow> g # fs)"
proof (induction fs arbitrary: previous)
  case (Cons f fs)
  have e: "sf_path g = sf_path f \<and> sf_digest g = sf_digest f \<longleftrightarrow> g = f" for g :: source_file by (cases g; cases f) auto
  show ?case
  proof (cases previous)
    case None
    then show ?thesis using Cons.IH [of "Some f"] by auto
  next
    case (Some g)
    have "(sf_path f = sf_path g \<and> sf_digest f \<noteq> sf_digest g) \<longleftrightarrow> \<not> (sf_path g = sf_path f \<longrightarrow> g = f)" using e [of g] by auto
    then show ?thesis using Cons.IH [of "Some f"] Some by auto
  qed
qed (auto split: option.splits)

lemma check_entries_iff:
  "check_entries previous es = Inr () \<longleftrightarrow>
     list_all (\<lambda>e. entry_problem e = None) es \<and>
     successively (\<lambda>e g. en_symbol e \<noteq> en_symbol g) (case previous of None \<Rightarrow> es | Some g \<Rightarrow> g # es)"
  by (induction previous es rule: check_entries.induct) (auto split: option.splits)

lemma strictly_sorted_sources:
  fixes key :: "'a \<Rightarrow> 'b :: linorder"
  assumes "sorted (map key xs)" "successively (\<lambda>x y. key x = key y \<longrightarrow> x = y) xs"
  shows "sorted_wrt (<) (map key (remdups_adj xs))"
  using assms by (induction xs rule: remdups_adj.induct) (auto simp: order_less_le)

lemma strictly_sorted_entries:
  fixes key :: "'a \<Rightarrow> 'b :: linorder"
  assumes "sorted (map key xs)" "successively (\<lambda>x y. key x \<noteq> key y) xs"
  shows "sorted_wrt (<) (map key xs)"
  using assms
proof (induction xs rule: remdups_adj.induct)
  case (3 x y xs)
  then show ?case by (auto simp: order_less_le dest: order_trans)
qed simp_all

lemma line_lengths_lines: "list_all (\<lambda>l. line_feed \<notin> set l) ls \<Longrightarrow> line_lengths (lines_text ls) = map length ls"
proof (induction ls)
  case (Cons l ls)
  then show ?case by (subst line_lengths.simps) (simp add: takeWhile_line Let_def)
qed (simp add: line_lengths.simps)

text \<open>The lines of an interface that is all there differ from accepted lines by their length only.\<close>

definition line_formed :: "string list \<Rightarrow> bool" where
  "line_formed fs \<longleftrightarrow> fs \<noteq> [] \<and> length fs \<le> kMaxFields \<and> list_all (\<lambda>f. f \<noteq> [] \<and> list_all visible f) fs"

lemma line_formed_printable: "list_all (\<lambda>f. f \<noteq> [] \<and> list_all visible f) fs \<Longrightarrow> list_all printable (joined fs)"
  by (induction fs rule: joined.induct) (auto simp: list_all_iff printable_def visible_def)

lemma line_formed_ok: "line_formed fs \<Longrightarrow> line_ok fs \<longleftrightarrow> length (joined fs) \<le> kMaxLineBytes"
  using line_formed_printable [of fs] visible_no_space
  by (auto simp: line_formed_def line_ok_def field_ok_def list_all_iff)

context written_kind begin

lemma render_formed: "ok x \<Longrightarrow> arity < kMaxFields \<Longrightarrow> line_formed (render x)"
  using render_arity [of x] render_visible [of x] render_nonempty [of x] by (auto simp: line_formed_def list_all_iff)

end

lemma describe_visible: "list_all visible (describe_correctness c)" "describe_correctness c \<noteq> []"
  by (cases c; simp add: visible_letter)+

lemma entry_lines_formed: "entry_ok e \<Longrightarrow> list_all line_formed ([''entry'', encode (en_symbol e)] # entry_rest e)"
proof -
  assume e: "entry_ok e"
  then have "list_all line_formed (map premise_fields (en_premises e))" "list_all line_formed (map model_fields (en_models e))"
      "list_all line_formed (map unsafe_fields (en_unsafe e))" "list_all line_formed (map runtime_fields (en_runtime e))"
      "list_all line_formed (map dependency_fields (en_depends e))"
    unfolding entry_ok_def items_ok_def list_all_iff
    by (auto simp: kMaxFields_def intro!: law_premises.render_formed code_models.render_formed unsafe_sites.render_formed
        runtime_checks.render_formed dependencies.render_formed)
  then show ?thesis
    using e by (simp add: entry_ok_def entry_rest_def line_formed_def kMaxFields_def visible_fields visible_letter describe_visible)
qed

lemma body_fields_formed: "canonical_iface r \<Longrightarrow> list_all line_formed (body_fields r)"
proof -
  assume c: "canonical_iface r"
  have f: "list_all line_formed (flags.item_lines fs)" if "list_all (\<lambda>f. f \<noteq> []) fs" for fs
    using that by (induction fs)
      (simp_all add: flags.item_lines_def line_formed_def kMaxFields_def visible_fields visible_letter)
  have s: "list_all line_formed (sources.item_lines ss)" if "list_all source_ok ss" for ss
    using that by (induction ss)
      (simp_all add: sources.item_lines_def source_ok_def source_fields_def line_formed_def kMaxFields_def visible_fields visible_letter)
  have e: "list_all line_formed (entries.item_lines es)" if "list_all entry_ok es" for es
    using that entry_lines_formed by (induction es) (simp_all add: entries.item_lines_def)
  have "list_all line_formed (header_fields (if_configuration r) @ [[''unit'', encode (if_unit r)]])"
    using c by (simp add: canonical_iface_def configuration_ok_def header_fields_def line_formed_def kMaxFields_def visible_fields visible_letter)
  then show ?thesis using c f s e by (simp add: body_fields_def canonical_iface_def configuration_ok_def)
qed

lemma recorded_lines:
  assumes "canonical_iface (canonical_form r)"
  shows "list_ex (\<lambda>n. kMaxLineBytes < n) (line_lengths (recorded_text r)) \<longleftrightarrow>
    \<not> list_all line_ok (body_fields (canonical_form r))"
proof -
  let ?b = "body_fields (canonical_form r)"
  have f: "list_all line_formed ?b" using body_fields_formed [OF assms] .
  then have "list_all (\<lambda>l. line_feed \<notin> set l) (map joined ?b)"
    using line_formed_printable printable_no_feed by (auto simp: list_all_iff line_formed_def)
  then have "line_lengths (recorded_text r) = map length (first_line # map joined ?b)"
    unfolding recorded_text_canonical using first_line_plain(1) by (intro line_lengths_lines) simp
  then show ?thesis
    using f first_line_plain(2) line_formed_ok by (auto simp: list_ex_iff list_all_iff not_le)
qed

text \<open>The checks that do not look at the text say that the canonical form is canonical.\<close>

theorem serialize_canonical:
  assumes s: "serialize r = Inr xs" and d: "digests_sized r"
  shows "canonical_iface (canonical_form r) \<and> list_all line_ok (body_fields (canonical_form r)) \<and>
    xs = interface_text (canonical_form r) \<and> length xs \<le> kMaxBytes"
proof -
  let ?c = "if_configuration r"
  have h: "\<not> empty_field r" "length (cf_flags ?c) \<le> kMaxFlags" "check_sources None (sorted_sources r) = Inr ()"
      "length (remdups_adj (sorted_sources r)) \<le> kMaxSources" "check_entries None (sorted_entries r) = Inr ()"
      "length (sorted_entries r) \<le> kMaxEntries" "[] \<notin> set (cf_flags ?c)"
      "\<not> list_ex (\<lambda>n. kMaxLineBytes < n) (line_lengths (recorded_text r))"
      "length xs \<le> kMaxBytes" "xs = checksummed (recorded_text r)"
    using s by (auto simp: serialize_def Let_def not_less split: if_splits)
  have so: "list_all (\<lambda>f. sf_path f \<noteq> []) (sorted_sources r)"
      "successively (\<lambda>f g. (encode \<circ> sf_path) f = (encode \<circ> sf_path) g \<longrightarrow> f = g) (sorted_sources r)"
    using h(3) unfolding check_sources_iff by simp_all
  then have "sorted_wrt (<) (map (encode \<circ> sf_path) (remdups_adj (sorted_sources r)))"
    by (intro strictly_sorted_sources) (simp_all add: sorted_sources_def)
  moreover have "list_all source_ok (remdups_adj (sorted_sources r))"
    using so(1) d by (auto simp: list_all_iff source_ok_def digests_sized_def sorted_sources_def)
  moreover have en: "list_all (\<lambda>e. entry_problem e = None) (sorted_entries r)"
      "successively (\<lambda>e g. (encode \<circ> en_symbol) e \<noteq> (encode \<circ> en_symbol) g) (sorted_entries r)"
    using h(5) unfolding check_entries_iff by simp_all
  then have "sorted_wrt (<) (map (encode \<circ> en_symbol) (sorted_entries r))"
    by (intro strictly_sorted_entries) (simp_all add: sorted_entries_def)
  then have "sorted_wrt (<) (map (encode \<circ> en_symbol) (map canonical_entry (sorted_entries r)))"
    by (simp add: canonical_entry_def o_def)
  moreover have "list_all entry_ok (map canonical_entry (sorted_entries r))"
    using en(1) d entry_ok_canonical by (auto simp: list_all_iff digests_sized_def sorted_entries_def)
  ultimately have c: "canonical_iface (canonical_form r)"
    using h(1,2,4,6,7) d
    by (auto simp: canonical_iface_def canonical_form_def configuration_ok_def empty_field_def digests_sized_def list_all_iff Let_def)
  then show ?thesis using recorded_lines [OF c] recorded_interface h(8-10) by auto
qed

lemma canonical_form_fixed:
  assumes "canonical_iface r"
  shows "canonical_form r = r" "sorted_sources r = if_sources r" "sorted_entries r = if_entries r"
proof -
  have s: "sorted_wrt (<) (map (encode \<circ> sf_path) (if_sources r))" "sorted_wrt (<) (map (encode \<circ> en_symbol) (if_entries r))"
      "list_all entry_ok (if_entries r)"
    using assms by (simp_all add: canonical_iface_def)
  show o: "sorted_sources r = if_sources r" "sorted_entries r = if_entries r"
    using s sort_key_of_sorted by (simp_all add: sorted_sources_def sorted_entries_def)
  have "map canonical_entry (if_entries r) = if_entries r"
    using s(3) canonical_entry_fixed by (simp add: list_all_iff map_idI)
  then show "canonical_form r = r" using remdups_adj_of_sorted [OF s(1)] by (simp add: canonical_form_def o)
qed

lemma successively_strict:
  fixes key :: "'a \<Rightarrow> 'b :: linorder"
  shows "sorted_wrt (<) (map key xs) \<Longrightarrow> successively (\<lambda>x y. key x < key y) xs"
  using successively_if_sorted_wrt by (fastforce simp: successively_map)

theorem canonical_serialize:
  assumes c: "canonical_iface r" and l: "list_all line_ok (body_fields r)" and b: "length (interface_text r) \<le> kMaxBytes"
  shows "serialize r = Inr (interface_text r)"
proof -
  have s: "successively (\<lambda>x y. (encode \<circ> sf_path) x < (encode \<circ> sf_path) y) (if_sources r)"
      "successively (\<lambda>x y. (encode \<circ> en_symbol) x < (encode \<circ> en_symbol) y) (if_entries r)"
    using c by (simp_all only: canonical_iface_def successively_strict)
  have "check_sources None (if_sources r) = Inr ()"
    using c s(1) unfolding check_sources_iff canonical_iface_def
    by (auto simp: list_all_iff source_ok_def elim!: successively_mono)
  moreover have "check_entries None (if_entries r) = Inr ()"
    using c s(2) entry_ok_no_problem unfolding check_entries_iff canonical_iface_def
    by (auto simp: list_all_iff elim!: successively_mono)
  moreover have "remdups_adj (if_sources r) = if_sources r"
    using c by (intro remdups_adj_of_sorted [of "encode \<circ> sf_path"]) (simp add: canonical_iface_def)
  moreover have "\<not> empty_field r" using c by (simp add: canonical_iface_def configuration_ok_def empty_field_def Let_def)
  moreover have "[] \<notin> set (cf_flags (if_configuration r))" using c by (auto simp: canonical_iface_def configuration_ok_def list_all_iff)
  ultimately show ?thesis
    using c b l recorded_lines [of r] recorded_interface [of r] canonical_form_fixed [OF c]
    by (simp add: serialize_def Let_def not_less canonical_iface_def configuration_ok_def)
qed

text \<open>The two directions of the round trip.\<close>

theorem serialized_is_read:
  "serialize r = Inr xs \<Longrightarrow> digests_sized r \<Longrightarrow> parse xs = Inr (canonical_form r)"
  using serialize_canonical parse_iff by blast

theorem read_is_serialized: "parse xs = Inr r \<Longrightarrow> serialize r = Inr xs"
  unfolding parse_iff by (elim conjE) (simp add: canonical_serialize)

end
