(* ===== verification/Interface_Identity.thy ===== *)
theory Interface_Identity
  imports Interface_Round
begin

text \<open>
  What identifies an entry: the identity is the hash of the entry's symbol, statement and
  correctness and of what it rests on, each with its length before it, and nothing else.
\<close>

section \<open>What is hashed\<close>

definition field_octets :: "string \<Rightarrow> octet list" where
  "field_octets xs = octets64 (of_nat (length xs)) @ octets xs"

definition kind_octets :: "string \<times> string list \<Rightarrow> octet list" where
  "kind_octets k = field_octets (fst k) @ octets64 (of_nat (length (snd k))) @ concat (map field_octets (snd k))"

definition identity_octets :: "iface_entry \<Rightarrow> octet list" where
  "identity_octets e =
     field_octets ''cppl-verification-interface-entry-v4'' @ field_octets (en_symbol e) @
     field_octets (to_hex (en_statement e)) @ field_octets (describe_correctness (en_correctness e)) @
     concat (map kind_octets (identity_kinds e))"

lemma fed_field: "fed h bs \<Longrightarrow> fed (update_field xs h) (bs @ field_octets xs)"
  unfolding update_field_def update_u64_def field_octets_def append_assoc [symmetric] by (intro fed_update)

lemma fed_u64: "fed h bs \<Longrightarrow> fed (update_u64 n h) (bs @ octets64 n)"
  unfolding update_u64_def by (rule fed_update)

lemma fed_fields: "fed h bs \<Longrightarrow> fed (foldl (\<lambda>h key. update_field key h) h keys) (bs @ concat (map field_octets keys))"
proof (induction keys arbitrary: h bs)
  case (Cons key keys)
  then show ?case using Cons.IH [OF fed_field [OF Cons.prems, of key]] by simp
qed simp

lemma fed_kind: "fed h bs \<Longrightarrow> fed (feed_kind h k) (bs @ kind_octets k)"
  using fed_fields [OF fed_u64 [OF fed_field]] by (simp add: feed_kind_def kind_octets_def)

lemma fed_kinds: "fed h bs \<Longrightarrow> fed (foldl feed_kind h ks) (bs @ concat (map kind_octets ks))"
proof (induction ks arbitrary: h bs)
  case (Cons k ks)
  then show ?case using Cons.IH [OF fed_kind [OF Cons.prems, of k]] by simp
qed simp

lemma identify_sha256: "identify e = sha256 (identity_octets e)"
proof -
  have "fed (foldl feed_kind (update_field (describe_correctness (en_correctness e)) (update_field (to_hex (en_statement e))
      (update_field (en_symbol e) (update_field ''cppl-verification-interface-entry-v4'' new_hasher)))) (identity_kinds e))
      (identity_octets e)"
    using fed_kinds [OF fed_field [OF fed_field [OF fed_field [OF fed_field [OF fed_new]]]]] by (simp add: identity_octets_def)
  then show ?thesis unfolding identify_def Let_def by (rule finish_sha256)
qed

section \<open>What is hashed can be told apart\<close>

definition short :: "'a list \<Rightarrow> bool" where
  "short xs \<longleftrightarrow> length xs < 2 ^ 64"

lemma length_octets64 [simp]: "length (octets64 n) = 8"
  by (simp add: octets64_def)

lemma octets64_inject: "octets64 m = octets64 n \<longleftrightarrow> m = n"
proof
  assume e: "octets64 m = octets64 n"
  have "bit m j = bit n j" if j: "j < 64" for j
  proof -
    let ?i = "7 - j div 8"
    have i: "?i < 8" "56 - ?i * 8 + j mod 8 = j" using j by (auto simp: algebra_simps)
    have "octets64 m ! ?i = octets64 n ! ?i" by (simp only: e)
    then have "(ucast (drop_bit (56 - ?i * 8) m) :: octet) = ucast (drop_bit (56 - ?i * 8) n)"
      using i(1) by (simp add: octets64_def)
    then have "bit (ucast (drop_bit (56 - ?i * 8) m) :: octet) (j mod 8) = bit (ucast (drop_bit (56 - ?i * 8) n) :: octet) (j mod 8)"
      by (rule arg_cong)
    then show ?thesis using i(2) by (simp add: bit_ucast_iff bit_drop_bit_eq)
  qed
  then show "m = n" by (intro bit_word_eqI) simp
qed simp

lemma octets64_append: "octets64 m @ xs = octets64 n @ ys \<longleftrightarrow> m = n \<and> xs = ys"
  using octets64_inject by simp

lemma short_length:
  "short xs \<Longrightarrow> short ys \<Longrightarrow> (of_nat (length xs) :: u64) = of_nat (length ys) \<longleftrightarrow> length xs = length ys"
  by (simp add: short_def of_nat_inverse word_of_nat_eq_iff take_bit_nat_eq_self)

lemma octets_inject: "octets xs = octets ys \<longleftrightarrow> xs = ys"
proof -
  have "inj (of_char :: char \<Rightarrow> octet)"
  proof (rule injI)
    fix c d :: char
    assume "(of_char c :: octet) = of_char d"
    then have "(of_nat (of_char c) :: octet) = of_nat (of_char d)" by (simp only: of_nat_of_char)
    moreover have "(of_char b :: nat) < 2 ^ 8" for b :: char using nat_of_char_less_256 [of b] by simp
    ultimately have "(of_char c :: nat) = of_char d"
      by (simp add: word_of_nat_eq_iff take_bit_nat_eq_self)
    then show "c = d" by simp
  qed
  then show ?thesis by (simp add: octets_def inj_map_eq_map)
qed

lemma field_octets_append:
  assumes "short xs" "short ys"
  shows "field_octets xs @ us = field_octets ys @ vs \<longleftrightarrow> xs = ys \<and> us = vs"
proof
  assume "field_octets xs @ us = field_octets ys @ vs"
  then have "length xs = length ys" "octets xs @ us = octets ys @ vs"
    using assms by (simp_all add: field_octets_def octets64_append short_length)
  then show "xs = ys \<and> us = vs" using octets_inject by (simp add: octets_def)
qed simp

lemma fields_octets_append:
  "length ks = length ls \<Longrightarrow> list_all short ks \<Longrightarrow> list_all short ls \<Longrightarrow>
     concat (map field_octets ks) @ us = concat (map field_octets ls) @ vs \<longleftrightarrow> ks = ls \<and> us = vs"
  by (induction ks ls rule: list_induct2) (auto simp: field_octets_append)

definition kind_short :: "string \<times> string list \<Rightarrow> bool" where
  "kind_short k \<longleftrightarrow> short (fst k) \<and> short (snd k) \<and> list_all short (snd k)"

lemma kind_octets_append:
  assumes "kind_short k" "kind_short l"
  shows "kind_octets k @ us = kind_octets l @ vs \<longleftrightarrow> k = l \<and> us = vs"
proof
  assume "kind_octets k @ us = kind_octets l @ vs"
  then have "fst k = fst l" "length (snd k) = length (snd l)"
      "concat (map field_octets (snd k)) @ us = concat (map field_octets (snd l)) @ vs"
    using assms by (simp_all add: kind_octets_def kind_short_def field_octets_append octets64_append short_length)
  then show "k = l \<and> us = vs"
    using fields_octets_append assms by (simp add: kind_short_def prod_eq_iff)
qed simp

lemma kinds_octets_inject:
  "length ks = length ls \<Longrightarrow> list_all kind_short ks \<Longrightarrow> list_all kind_short ls \<Longrightarrow>
     concat (map kind_octets ks) = concat (map kind_octets ls) \<longleftrightarrow> ks = ls"
  by (induction ks ls rule: list_induct2) (auto simp: kind_octets_append)

text \<open>No entry has more than \<open>2 ^ 64\<close> of anything.\<close>

definition identity_short :: "iface_entry \<Rightarrow> bool" where
  "identity_short e \<longleftrightarrow> short (en_symbol e) \<and> short (to_hex (en_statement e)) \<and> list_all kind_short (identity_kinds e)"

lemma identity_octets_iff:
  assumes "identity_short d" "identity_short e"
  shows "identity_octets d = identity_octets e \<longleftrightarrow>
    en_symbol d = en_symbol e \<and> en_statement d = en_statement e \<and> en_correctness d = en_correctness e \<and>
    identity_kinds d = identity_kinds e"
proof -
  have c: "describe_correctness x = describe_correctness y \<longleftrightarrow> x = y" for x y by (cases x; cases y) simp_all
  have s: "short (describe_correctness x)" for x by (cases x) (simp_all add: short_def)
  have "length (identity_kinds d) = length (identity_kinds e)" by (simp add: identity_kinds_def)
  then show ?thesis
    using assms by (simp add: identity_octets_def identity_short_def field_octets_append s c kinds_octets_inject)
qed

section \<open>Reading an entry back keeps its identity\<close>

lemma unique_keys_set: "set xs = set ys \<Longrightarrow> unique_keys key xs = unique_keys key ys"
  unfolding unique_keys_def
  by (rule strict_sorted_equal) (simp_all add: strictly_sorted_remdups_adj)

lemma identity_kinds_canonical: "identity_kinds (canonical_entry e) = identity_kinds e"
  unfolding identity_kinds_def canonical_entry_def
  by (simp add: unique_keys_set [OF set_canonical_items])

lemma identify_canonical: "identify (canonical_entry e) = identify e"
  by (simp add: identify_def identity_kinds_canonical) (simp add: canonical_entry_def)

end
