(* ===== verification/Interface_Examples.thy ===== *)
theory Interface_Examples
  imports Interface_Identity
begin

text \<open>
  An interface as it may be collected, with sources and entries out of order and items twice, and
  what is written of it.
\<close>

definition zeros :: digest where "zeros = replicate 32 0"
definition ones :: digest where "ones = replicate 32 1"

definition first_premise :: law_premise where
  "first_premise = \<lparr>pm_identity = zeros, pm_name = ''law'', pm_file = ''a.cpp'', pm_line = 3\<rparr>"

definition second_premise :: law_premise where
  "second_premise = \<lparr>pm_identity = ones, pm_name = ''other law'', pm_file = ''a.cpp'', pm_line = 4\<rparr>"

definition callee_entry :: iface_entry where
  "callee_entry =
     \<lparr>en_symbol = ''_Z1fi'', en_name = ''f'', en_statement = ones, en_contract = ''ensures result == 1'',
      en_correctness = TotalCorrectness, en_premises = [], en_models = [], en_unsafe = [],
      en_runtime = [\<lparr>rc_file = ''a.cpp'', rc_line = 7, rc_column = 2, rc_refinement = ''Positive'', rc_predicate = ''x > 0''\<rparr>],
      en_depends = []\<rparr>"

definition caller_entry :: "law_premise list \<Rightarrow> iface_entry" where
  "caller_entry ps =
     \<lparr>en_symbol = ''_Z1gi'', en_name = ''g'', en_statement = zeros, en_contract = ''ensures result == 2'',
      en_correctness = PartialCorrectness, en_premises = ps, en_models = [],
      en_unsafe = [\<lparr>us_file = ''a.cpp'', us_line = 9, us_column = 0\<rparr>], en_runtime = [],
      en_depends = [\<lparr>dp_symbol = ''_Z1fi'', dp_entry = ones\<rparr>]\<rparr>"

definition sample_configuration :: configuration where
  "sample_configuration =
     \<lparr>cf_compiler = ''0.1'', cf_build = zeros, cf_semantics = ''1'', cf_verifier = ones, cf_kernel = ''k'', cf_core = ''c'',
      cf_clang = ''clang 20'', cf_language = ''c++23'', cf_target = ''x86_64'', cf_flags = [''-O2'', ''-DNAME=a b'']\<rparr>"

definition sample_interface :: "source_file list \<Rightarrow> iface_entry list \<Rightarrow> iface" where
  "sample_interface ss es =
     \<lparr>if_configuration = sample_configuration, if_unit = ''a.cpp'', if_sources = ss, if_entries = es\<rparr>"

definition main_source :: source_file where "main_source = \<lparr>sf_path = ''a.cpp'', sf_digest = zeros\<rparr>"
definition header_source :: source_file where "header_source = \<lparr>sf_path = ''b.hpp'', sf_digest = ones\<rparr>"

definition collected_interface :: iface where
  "collected_interface =
     sample_interface [header_source, main_source, header_source]
       [caller_entry [second_premise, first_premise, second_premise], callee_entry]"

definition written_interface :: iface where
  "written_interface =
     sample_interface [main_source, header_source] [callee_entry, caller_entry [first_premise, second_premise]]"

lemmas sample_defs = zeros_def ones_def first_premise_def second_premise_def callee_entry_def caller_entry_def
  sample_configuration_def sample_interface_def main_source_def header_source_def

lemma collected_sorted:
  "sorted_sources collected_interface = [main_source, header_source, header_source]"
  "sorted_entries collected_interface = [callee_entry, caller_entry [second_premise, first_premise, second_premise]]"
  by code_simp+

lemma collected_canonical: "canonical_form collected_interface = written_interface"
  by code_simp

lemma collected_sized: "digests_sized collected_interface"
  by code_simp

lemma written_items:
  "sorted_wrt (<) (map (joined \<circ> premise_fields) [first_premise, second_premise])" "premise_ok first_premise"
  "premise_ok second_premise" "runtime_ok (en_runtime callee_entry ! 0)" "unsafe_ok (en_unsafe (caller_entry []) ! 0)"
  "dependency_ok (en_depends (caller_entry []) ! 0)"
  by code_simp+

lemma written_entries: "entry_ok callee_entry" "entry_ok (caller_entry [first_premise, second_premise])"
  using written_items
  by (simp_all add: entry_ok_def items_ok_def callee_entry_def caller_entry_def kMaxEntryItems_def sized_def ones_def zeros_def)

lemma written_canonical: "canonical_iface written_interface"
proof -
  have "sorted_wrt (<) (map (encode \<circ> sf_path) (if_sources written_interface))"
      "sorted_wrt (<) (map (encode \<circ> en_symbol) (if_entries written_interface))"
      "list_all source_ok (if_sources written_interface)"
    by code_simp+
  then show ?thesis
    using written_entries
    by (simp add: canonical_iface_def written_interface_def sample_interface_def sample_configuration_def configuration_ok_def
        kMaxFlags_def kMaxSources_def kMaxEntries_def sized_def ones_def zeros_def)
qed

lemmas item_lines_defs = body_fields_def flags.item_lines_def sources.item_lines_def entries.item_lines_def

lemma written_lines: "list_all line_ok (body_fields written_interface)"
proof -
  have "list_all (\<lambda>fs. length (joined fs) \<le> 200) (body_fields written_interface)"
    unfolding item_lines_defs by code_simp
  then show ?thesis
    using body_fields_formed [OF written_canonical] line_formed_ok by (fastforce simp: list_all_iff kMaxLineBytes_def)
qed

lemma written_short: "length (interface_text written_interface) \<le> kMaxBytes"
proof -
  have "length (lines_text (first_line # map joined (body_fields written_interface))) \<le> 2000"
    unfolding item_lines_defs by code_simp
  moreover have "length (to_hex (hash_bytes xs)) = 64" for xs
    using sized_hash [of xs] by (simp add: sized_def to_hex_def length_concat comp_def sum_list_triv)
  ultimately show ?thesis
    by (simp add: interface_text_def checksummed_split checksum_key_def kMaxBytes_def)
qed

lemma written_read: "parse (interface_text written_interface) = Inr written_interface"
  using parse_iff written_canonical written_lines written_short by blast

lemma collected_written: "serialize collected_interface = Inr (interface_text written_interface)"
proof -
  have c: "empty_field collected_interface = False" "check_sources None (sorted_sources collected_interface) = Inr ()"
      "[] \<in> set (cf_flags (if_configuration collected_interface)) \<longleftrightarrow> False"
    by code_simp+
  have p: "entry_problem callee_entry = None" "entry_problem (caller_entry [second_premise, first_premise, second_premise]) = None"
    using written_items unfolding entry_problem_None
    by (simp_all add: callee_entry_def caller_entry_def kMaxEntryItems_def) (simp_all add: first_premise_def second_premise_def)
  have e: "check_entries None (sorted_entries collected_interface) = Inr ()"
    unfolding check_entries_iff collected_sorted using p by (simp add: callee_entry_def caller_entry_def)
  have n: "length (cf_flags (if_configuration collected_interface)) \<le> kMaxFlags"
      "length (remdups_adj (sorted_sources collected_interface)) \<le> kMaxSources"
      "length (sorted_entries collected_interface) \<le> kMaxEntries"
    unfolding collected_sorted
    by (simp_all add: collected_interface_def sample_interface_def sample_configuration_def kMaxFlags_def kMaxSources_def
        kMaxEntries_def)
  have "\<not> list_ex (\<lambda>n. kMaxLineBytes < n) (line_lengths (recorded_text collected_interface))"
    using recorded_lines [of collected_interface] written_canonical written_lines unfolding collected_canonical by simp
  then show ?thesis
    using c e n written_short recorded_interface [of collected_interface]
    unfolding collected_canonical by (simp add: serialize_def Let_def not_less)
qed

definition partial_callee :: iface_entry where
  "partial_callee = callee_entry\<lparr>en_correctness := PartialCorrectness\<rparr>"

lemma short_of: "length xs \<le> 1000 \<Longrightarrow> short xs"
  by (simp add: short_def)

lemma callee_short: "identity_short callee_entry" "identity_short partial_callee"
proof -
  have "list_all (\<lambda>k. length (fst k) \<le> 1000 \<and> length (snd k) \<le> 1000 \<and> list_all (\<lambda>s. length s \<le> 1000) (snd k))
      (identity_kinds callee_entry)" by code_simp
  then have k: "list_all kind_short (identity_kinds callee_entry)"
    by (auto simp: list_all_iff kind_short_def intro!: short_of)
  have "length (en_symbol callee_entry) \<le> 1000" "length (to_hex (en_statement callee_entry)) \<le> 1000" by code_simp+
  then have "short (en_symbol callee_entry)" "short (to_hex (en_statement callee_entry))" by (simp_all only: short_of)
  moreover have "identity_kinds partial_callee = identity_kinds callee_entry"
    by (simp add: identity_kinds_def partial_callee_def)
  ultimately show "identity_short callee_entry" "identity_short partial_callee"
    using k by (simp_all add: identity_short_def) (simp_all add: partial_callee_def)
qed

end
