(* ===== verification/Kernel_Types.thy ===== *)
theory Kernel_Types
  imports Prelude
begin

text \<open>
  The core's types (kernel/include/cppl/kernel/types.hpp, kernel/src/types.cpp): machine
  integer types with their range and wrap-around, abstract values with a signature of
  observations, indexed domains, the structural bounds on types, and their text.
\<close>

section \<open>Types\<close>

datatype signedness = Signed | Unsigned

datatype int_type = IntType (width: nat) (signedness: signedness)

datatype ktype =
    Int_Type int_type
  | Value_Type (identity: string) (projections: "ktype list")
  | Indexed_Type (element: "ktype list") (extent: u128)

text \<open>
  The extent is a \<open>Wide\<close> and part of the identity of the type, so it is kept at its
  width; \<open>to_wide\<close> reads it as the signed value.
\<close>

abbreviation to_wide :: "u128 \<Rightarrow> wide" where
  "to_wide w \<equiv> sint w"

fun is_integer :: "ktype \<Rightarrow> bool" where
  "is_integer (Int_Type _) = True"
| "is_integer _ = False"

fun is_value :: "ktype \<Rightarrow> bool" where
  "is_value (Value_Type _ _) = True"
| "is_value _ = False"

fun is_indexed :: "ktype \<Rightarrow> bool" where
  "is_indexed (Indexed_Type _ _) = True"
| "is_indexed _ = False"

lemma is_integer_iff: "is_integer \<tau> \<longleftrightarrow> (\<exists>it. \<tau> = Int_Type it)"
  by (cases \<tau>) auto

lemma is_value_iff: "is_value \<tau> \<longleftrightarrow> (\<exists>i ps. \<tau> = Value_Type i ps)"
  by (cases \<tau>) auto

lemma is_indexed_iff: "is_indexed \<tau> \<longleftrightarrow> (\<exists>es n. \<tau> = Indexed_Type es n)"
  by (cases \<tau>) auto

section \<open>Division of 128-bit integers\<close>

text \<open>\<open>magnitude\<close>: the absolute value, correct for the least \<open>Wide\<close> too.\<close>

definition magnitude :: "wide \<Rightarrow> u128" where
  "magnitude value = (let bits = word_of_int value in if value < 0 then NOT bits + 1 else bits)"

text \<open>The loop of \<open>divide_magnitudes\<close>: \<open>Suc bit\<close> bits are left, \<open>bit\<close> is the next.\<close>

fun long_division :: "nat \<Rightarrow> u128 \<Rightarrow> u128 \<Rightarrow> u128 \<Rightarrow> u128 \<Rightarrow> u128 \<times> u128" where
  "long_division 0 numerator denominator quot rest = (quot, rest)"
| "long_division (Suc b) numerator denominator quot rest =
     (let rest = push_bit 1 rest OR (drop_bit b numerator AND 1) in
      if denominator \<le> rest
      then long_division b numerator denominator (quot OR push_bit b 1) (rest - denominator)
      else long_division b numerator denominator quot rest)"

definition divide_magnitudes :: "u128 \<Rightarrow> u128 \<Rightarrow> u128 \<times> u128" where
  "divide_magnitudes numerator denominator =
     (if drop_bit 64 numerator = 0 \<and> drop_bit 64 denominator = 0
      then (let low_numerator = ucast numerator :: u64; low_denominator = ucast denominator :: u64
            in (ucast (low_numerator div low_denominator), ucast (low_numerator mod low_denominator)))
      else long_division 128 numerator denominator 0 0)"

definition divide :: "wide \<Rightarrow> wide \<Rightarrow> wide" where
  "divide numerator denominator =
     (let quot = fst (divide_magnitudes (magnitude numerator) (magnitude denominator));
          negative = ((numerator < 0) \<noteq> (denominator < 0))
      in to_wide (if negative then NOT quot + 1 else quot))"

definition remainder :: "wide \<Rightarrow> wide \<Rightarrow> wide" where
  "remainder numerator denominator =
     (let rest = snd (divide_magnitudes (magnitude numerator) (magnitude denominator))
      in to_wide (if numerator < 0 then NOT rest + 1 else rest))"

section \<open>Machine integer types\<close>

definition is_supported_width :: "int_type \<Rightarrow> bool" where
  "is_supported_width type \<longleftrightarrow> 1 \<le> width type \<and> width type \<le> 64"

definition is_supported_int :: "int_type \<Rightarrow> bool" where
  "is_supported_int type \<longleftrightarrow>
     is_supported_width type \<and> (signedness type = Signed \<or> signedness type = Unsigned)"

definition minimum_value :: "int_type \<Rightarrow> wide" where
  "minimum_value type =
     (if \<not> is_supported_int type \<or> signedness type = Unsigned then 0
      else - (2 ^ (width type - 1)))"

definition maximum_value :: "int_type \<Rightarrow> wide" where
  "maximum_value type =
     (if \<not> is_supported_int type then 0
      else if signedness type = Signed then 2 ^ (width type - 1) - 1
      else 2 ^ width type - 1)"

definition is_representable :: "int_type \<Rightarrow> wide \<Rightarrow> bool" where
  "is_representable type value \<longleftrightarrow>
     is_supported_int type \<and> minimum_value type \<le> value \<and> value \<le> maximum_value type"

definition wrap_into :: "int_type \<Rightarrow> wide \<Rightarrow> wide" where
  "wrap_into type value =
     (if \<not> is_supported_int type then 0
      else let modulus = push_bit (width type) 1 :: u128;
               truncated = word_of_int value AND (modulus - 1)
           in if signedness type = Signed \<and> drop_bit 1 modulus \<le> truncated
              then to_wide truncated - to_wide modulus
              else to_wide truncated)"

section \<open>Structural bounds on types\<close>

text \<open>
  The recursive lambda of \<open>is_supported(const Type&)\<close>. It counts the nodes it visits; the
  count after a node that is valid is \<open>Some\<close>, and \<open>None\<close> is its answer \<open>false\<close>, after
  which nothing more is visited.
\<close>

fun valid_type :: "ktype \<Rightarrow> nat \<Rightarrow> nat \<Rightarrow> nat option"
  and valid_types :: "ktype list \<Rightarrow> nat \<Rightarrow> nat \<Rightarrow> nat option" where
  "valid_type (Int_Type it) depth nodes =
     (if 4096 < Suc nodes \<or> 64 < depth then None
      else if is_supported_int it then Some (Suc nodes) else None)"
| "valid_type (Indexed_Type es n) depth nodes =
     (if 4096 < Suc nodes \<or> 64 < depth then None
      else if length es \<noteq> 1 \<or> to_wide n \<le> 0 then None
      else valid_types es (Suc depth) (Suc nodes))"
| "valid_type (Value_Type i ps) depth nodes =
     (if 4096 < Suc nodes \<or> 64 < depth then None
      else if i = [] \<or> 4096 < length i \<or> 256 < length ps then None
      else valid_types ps (Suc depth) (Suc nodes))"
| "valid_types [] depth nodes = Some nodes"
| "valid_types (\<tau> # \<tau>s) depth nodes =
     (case valid_type \<tau> depth nodes of None \<Rightarrow> None | Some nodes \<Rightarrow> valid_types \<tau>s depth nodes)"

definition is_supported :: "ktype \<Rightarrow> bool" where
  "is_supported \<tau> \<longleftrightarrow> valid_type \<tau> 0 0 \<noteq> None"

section \<open>Text\<close>

text \<open>The digits of \<open>describe(Wide)\<close>, least significant first, as its loop pushes them.\<close>

function digits_of :: "u128 \<Rightarrow> string" where
  "digits_of rest =
     (if rest = 0 then [] else digit_char (unat (rest mod 10)) # digits_of (rest div 10))"
  by pat_completeness auto
termination
proof (relation "measure unat", goal_cases)
  case (2 rest)
  then have "0 < unat rest" by (simp add: unat_gt_0)
  then show ?case by (simp add: unat_div)
qed simp

declare digits_of.simps [simp del]

definition describe_wide :: "wide \<Rightarrow> string" where
  "describe_wide value =
     (if value = 0 then ''0''
      else let digits = digits_of (magnitude value)
           in rev (if value < 0 then digits @ ''-'' else digits))"

definition describe_int_type :: "int_type \<Rightarrow> string" where
  "describe_int_type type =
     (if signedness type = Signed then ''i'' else ''u'') @ string_of_nat (width type)"

fun describe_type :: "ktype \<Rightarrow> string"
  and describe_projections :: "ktype list \<Rightarrow> string" where
  "describe_type (Int_Type it) = describe_int_type it"
| "describe_type (Indexed_Type es n) =
     ''indexed['' @ describe_wide (to_wide n) @ '']{'' @
     (case es of [e] \<Rightarrow> describe_type e | _ \<Rightarrow> ''?'') @ ''}''"
| "describe_type (Value_Type i ps) =
     ''value['' @ string_of_nat (length i) @ '':'' @ i @ '']{'' @ describe_projections ps @ ''}''"
| "describe_projections [] = ''''"
| "describe_projections (p # ps) = describe_type p @ '';'' @ describe_projections ps"

section \<open>Range and wrap-around\<close>

lemma supported_width:
  assumes "is_supported_int type"
  shows "0 < width type" and "width type \<le> 64"
  using assms by (auto simp: is_supported_int_def is_supported_width_def)

lemma is_supported_int_iff: "is_supported_int type \<longleftrightarrow> 1 \<le> width type \<and> width type \<le> 64"
  by (cases "signedness type") (auto simp: is_supported_int_def is_supported_width_def)

lemma to_wide_small: "uint (w :: u128) < 2 ^ 127 \<Longrightarrow> to_wide w = uint w"
proof -
  assume "uint w < 2 ^ 127"
  moreover have "- (2 ^ 127) \<le> uint w" using unsigned_greater_eq [of w] by (rule order_trans [rotated]) simp
  ultimately show ?thesis
    by (simp only: sint_uint signed_take_bit_int_eq_self_iff) simp
qed

lemma power_le_64: "n \<le> 64 \<Longrightarrow> (2 :: int) ^ n \<le> 2 ^ 64"
  by (rule power_increasing) simp_all

lemma uint_modulus: "n \<le> 64 \<Longrightarrow> uint (push_bit n 1 :: u128) = 2 ^ n"
proof -
  assume n: "n \<le> 64"
  then have "(2 :: int) ^ n \<le> 2 ^ 64" by (rule power_le_64)
  also have "(2 :: int) ^ 64 < 2 ^ 128" by simp
  finally have "(2 :: int) ^ n < 2 ^ 128" .
  then show ?thesis using n
    by (subst unsigned_push_bit_eq) (simp add: push_bit_of_1 take_bit_int_eq_self)
qed

lemma uint_truncated:
  assumes "n \<le> 64"
  shows "uint (word_of_int v AND (push_bit n 1 - 1) :: u128) = v mod 2 ^ n"
proof -
  have "(push_bit n 1 - 1 :: u128) = mask n"
    by (simp add: mask_eq_exp_minus_1 push_bit_eq_mult)
  then have "uint (word_of_int v AND (push_bit n 1 - 1) :: u128) = uint (take_bit n (word_of_int v :: u128))"
    by (simp add: take_bit_eq_mask)
  also have "\<dots> = take_bit n (take_bit 128 v)"
    by (simp add: unsigned_take_bit_eq unsigned_of_int)
  also have "\<dots> = take_bit n v" using assms by (simp add: min_def)
  finally show ?thesis by (simp add: take_bit_eq_mod)
qed

lemma wrap_into_eq:
  assumes "is_supported_int type"
  shows "wrap_into type v =
    (let r = v mod 2 ^ width type
     in if signedness type = Signed \<and> 2 ^ (width type - 1) \<le> r then r - 2 ^ width type else r)"
proof -
  let ?n = "width type" and ?m = "push_bit (width type) 1 :: u128"
  let ?t = "word_of_int v AND (?m - 1) :: u128"
  have n: "0 < ?n" "?n \<le> 64" using supported_width [OF assms] by auto
  have m: "uint ?m = 2 ^ ?n" using n by (simp only: uint_modulus)
  have t: "uint ?t = v mod 2 ^ ?n" using n(2) by (rule uint_truncated)
  have small: "(2 :: int) ^ ?n < 2 ^ 127" using power_le_64 [OF n(2)] by simp
  have wt: "to_wide ?t = v mod 2 ^ ?n"
    using t small pos_mod_bound [of "2 ^ ?n" v] by (subst to_wide_small) (simp_all del: pos_mod_bound)
  have wm: "to_wide ?m = 2 ^ ?n" using m small by (subst to_wide_small) simp_all
  have "uint (drop_bit 1 ?m) = uint ?m div 2 ^ 1"
    by (subst unsigned_drop_bit_eq, subst drop_bit_eq_div, subst take_bit_int_eq_self)
      (use m small in simp_all)
  also have "\<dots> = 2 ^ ?n div 2" by (simp only: m power_one_right)
  also have "\<dots> = 2 ^ (?n - 1)" using n by (cases ?n) auto
  finally have half: "drop_bit 1 ?m \<le> ?t \<longleftrightarrow> 2 ^ (?n - 1) \<le> v mod 2 ^ ?n"
    by (simp only: word_le_def t)
  show ?thesis
    by (simp only: wrap_into_def Let_def half wt wm assms not_True_eq_False if_False)
qed

lemma minimum_value_eq:
  "is_supported_int type \<Longrightarrow>
     minimum_value type = (if signedness type = Signed then - (2 ^ (width type - 1)) else 0)"
  by (cases "signedness type") (auto simp: minimum_value_def)

lemma maximum_value_eq:
  "is_supported_int type \<Longrightarrow>
     maximum_value type =
       (if signedness type = Signed then 2 ^ (width type - 1) - 1 else 2 ^ width type - 1)"
  by (cases "signedness type") (auto simp: maximum_value_def)

lemma half_modulus: "0 < n \<Longrightarrow> (2 :: int) ^ n = 2 * 2 ^ (n - 1)"
  by (cases n) auto

lemma range_size:
  "is_supported_int type \<Longrightarrow> maximum_value type - minimum_value type = 2 ^ width type - 1"
  by (auto simp: minimum_value_eq maximum_value_eq half_modulus [OF supported_width(1)])

lemma minimum_le_zero: "minimum_value type \<le> 0"
  by (simp add: minimum_value_def)

lemma maximum_ge_zero: "0 \<le> maximum_value type"
  by (simp add: maximum_value_def)

lemma wrap_into_representable:
  "is_supported_int type \<Longrightarrow> is_representable type (wrap_into type v)"
  by (auto simp: is_representable_def wrap_into_eq minimum_value_eq maximum_value_eq Let_def
      half_modulus [OF supported_width(1)] not_le) 
     (smt (verit) half_modulus pos_mod_bound pos_mod_sign supported_width(1) zero_less_power)+

lemma wrap_into_mod:
  "is_supported_int type \<Longrightarrow> wrap_into type v mod 2 ^ width type = v mod 2 ^ width type"
  by (simp add: wrap_into_eq Let_def)

lemma representable_unique:
  assumes "is_representable type a" and "is_representable type b"
    and "a mod 2 ^ width type = b mod 2 ^ width type"
  shows "a = b"
proof -
  have "is_supported_int type" using assms by (simp add: is_representable_def)
  then have "maximum_value type - minimum_value type < 2 ^ width type"
    using range_size [of type] by simp
  then have "\<bar>a - b\<bar> < 2 ^ width type"
    using assms(1,2) unfolding is_representable_def by linarith
  moreover have "2 ^ width type dvd a - b" using assms(3) by (simp add: mod_eq_dvd_iff)
  ultimately show ?thesis using zdvd_imp_le [of "2 ^ width type" "\<bar>a - b\<bar>"] by force
qed

lemma wrap_into_unique:
  assumes "is_representable type a" and "a mod 2 ^ width type = v mod 2 ^ width type"
  shows "wrap_into type v = a"
proof (rule representable_unique)
  have "is_supported_int type" using assms by (simp add: is_representable_def)
  then show "is_representable type (wrap_into type v)"
    and "wrap_into type v mod 2 ^ width type = a mod 2 ^ width type"
    using assms by (simp_all add: wrap_into_representable wrap_into_mod)
qed (rule assms)

lemma wrap_into_self: "is_representable type v \<Longrightarrow> wrap_into type v = v"
  by (rule wrap_into_unique) simp_all

lemma wrap_into_cong:
  assumes "a mod 2 ^ width type = b mod 2 ^ width type"
  shows "wrap_into type a = wrap_into type b"
proof (cases "is_supported_int type")
  case True
  then show ?thesis using assms by (simp add: wrap_into_eq)
qed (simp add: wrap_into_def)

lemma representable_zero: "is_supported_int type \<Longrightarrow> is_representable type 0"
  by (simp add: is_representable_def minimum_le_zero maximum_ge_zero)

lemma representable_bounds:
  assumes "is_representable type v"
  shows "- (2 ^ 63) \<le> v" and "v < 2 ^ 64"
proof -
  have s: "is_supported_int type" using assms by (simp add: is_representable_def)
  have "(2 :: int) ^ (width type - 1) \<le> 2 ^ 63" and "(2 :: int) ^ width type \<le> 2 ^ 64"
    using supported_width [OF s] by (simp_all only: power_increasing_iff)
  moreover have "minimum_value type \<le> v" "v \<le> maximum_value type"
    using assms by (auto simp: is_representable_def)
  ultimately show "- (2 ^ 63) \<le> v" and "v < 2 ^ 64"
    by (auto simp: minimum_value_eq [OF s] maximum_value_eq [OF s] split: if_splits)
qed

section \<open>The long division divides\<close>

lemma uint_below: "uint (w :: u128) < 2 ^ 128"
  using unsigned_less [where 'a = int and 'b = 128, of w] by simp

lemma uint_drop_bit: "uint (drop_bit b w :: u128) = uint w div 2 ^ b"
  using uint_below [of w]
  by (subst unsigned_drop_bit_eq, subst drop_bit_eq_div, subst take_bit_int_eq_self) simp_all

lemma uint_of_int_small: "0 \<le> v \<Longrightarrow> v < 2 ^ 128 \<Longrightarrow> uint (word_of_int v :: u128) = v"
  by (simp add: uint_word_of_int_eq take_bit_int_eq_self)

lemma uint_magnitude:
  assumes "in_wide a"
  shows "uint (magnitude a) = \<bar>a\<bar>"
proof (cases "a < 0")
  case True
  then have "magnitude a = word_of_int (- a)"
    by (simp add: magnitude_def Let_def flip: minus_eq_not_plus_1)
  moreover have "uint (word_of_int (- a) :: u128) = - a"
    using assms True by (intro uint_of_int_small) (auto simp: in_wide_def)
  ultimately show ?thesis using True by simp
next
  case False
  moreover have "uint (word_of_int a :: u128) = a"
    using assms False by (intro uint_of_int_small) (auto simp: in_wide_def)
  ultimately show ?thesis by (simp add: magnitude_def)
qed

lemma uint_shift_in:
  assumes "uint rest < 2 ^ 127"
  shows "uint (push_bit 1 rest OR (drop_bit b n AND 1) :: u128) = 2 * uint rest + uint n div 2 ^ b mod 2"
proof -
  have rest: "uint (push_bit 1 rest) = 2 * uint rest"
    using assms by (subst unsigned_push_bit_eq) (simp add: push_bit_eq_mult take_bit_int_eq_self)
  have "uint (drop_bit b n AND 1) = uint (drop_bit b n) AND 1"
    by (subst unsigned_and_eq) (simp only: unsigned_1)
  also have "\<dots> = uint n div 2 ^ b mod 2"
    by (subst uint_drop_bit) (rule and_one_eq)
  finally have low: "uint (drop_bit b n AND 1) = uint n div 2 ^ b mod 2" .
  have "push_bit 1 rest OR (drop_bit b n AND 1) = push_bit 1 rest + (drop_bit b n AND 1)"
    by (rule disjunctive_add [symmetric])
      (auto simp only: bit_push_bit_iff bit_and_iff bit_1_iff)
  then have "uint (push_bit 1 rest OR (drop_bit b n AND 1)) =
      (2 * uint rest + uint n div 2 ^ b mod 2) mod 2 ^ 128"
    by (simp only: uint_word_ariths rest low) simp
  also have "\<dots> = 2 * uint rest + uint n div 2 ^ b mod 2"
    using assms by (intro mod_pos_pos_trivial) auto
  finally show ?thesis .
qed

lemma uint_or_bit:
  assumes "uint q mod 2 ^ Suc b = 0" and "b < 128"
  shows "uint (q OR push_bit b 1 :: u128) = uint q + 2 ^ b"
proof -
  have "bit (uint q) b = bit (take_bit (Suc b) (uint q)) b" by (simp add: bit_take_bit_iff)
  also have "\<dots> = False" using assms(1) by (simp only: take_bit_eq_mod bit_0_eq bot_apply bot_bool_def)
  finally have "\<not> bit q b" using assms(2) by (simp add: bit_uint_iff)
  then have "q OR push_bit b 1 = q + push_bit b 1"
    by (intro disjunctive_add [symmetric]) (auto simp: bit_simps)
  moreover have "uint (push_bit b 1 :: u128) = 2 ^ b"
    using assms(2) by (subst unsigned_push_bit_eq) (simp add: push_bit_of_1 take_bit_int_eq_self)
  moreover have "uint q + 2 ^ b < 2 ^ 128"
  proof -
    obtain k where k: "uint q = 2 ^ Suc b * k" using assms(1) by (metis dvdE mod_0_imp_dvd)
    have split: "(2 :: int) ^ 128 = 2 ^ Suc b * 2 ^ (127 - b)"
      using assms(2) by (simp flip: power_add)
    have "uint q < 2 ^ 128" by (rule uint_below)
    then have "k < 2 ^ (127 - b)" unfolding split k by simp
    then have "k + 1 \<le> 2 ^ (127 - b)" by simp
    then have "2 ^ Suc b * (k + 1) \<le> (2 :: int) ^ 128" unfolding split by (rule mult_left_mono) simp
    moreover have "2 ^ Suc b * k + 2 ^ b < 2 ^ Suc b * (k + 1)" by (simp add: distrib_left)
    ultimately show ?thesis unfolding k by (rule less_le_trans [rotated])
  qed
  ultimately show ?thesis by (simp add: uint_word_ariths)
qed

lemma long_division_correct:
  assumes "uint denominator \<le> 2 ^ 127" and "b \<le> 128"
    and "uint quot mod 2 ^ b = 0" and "uint rest < uint denominator"
    and "uint numerator div 2 ^ b = (uint quot div 2 ^ b) * uint denominator + uint rest"
    and "long_division b numerator denominator quot rest = (q, r)"
  shows "uint numerator = uint q * uint denominator + uint r \<and> uint r < uint denominator"
  using assms
proof (induction b arbitrary: quot rest)
  case 0
  then show ?case by simp
next
  case (Suc b)
  let ?d = "uint denominator" and ?n = "uint numerator"
  let ?rest = "push_bit 1 rest OR (drop_bit b numerator AND 1)"
  have rest: "uint ?rest = 2 * uint rest + ?n div 2 ^ b mod 2"
    using Suc.prems(1,4) by (intro uint_shift_in) linarith
  obtain k where k: "uint quot = 2 ^ Suc b * k" using Suc.prems(3) by (metis dvdE mod_0_imp_dvd)
  have "?n div 2 ^ Suc b = ?n div 2 ^ b div 2"
    by (simp only: power_Suc2) (simp add: zdiv_zmult2_eq)
  then have "?n div 2 ^ b = 2 * (?n div 2 ^ Suc b) + ?n div 2 ^ b mod 2" by simp
  also have "\<dots> = 2 * (k * ?d + uint rest) + ?n div 2 ^ b mod 2"
    using Suc.prems(5) k by simp
  finally have digits: "?n div 2 ^ b = 2 * k * ?d + uint ?rest"
    unfolding rest by (simp add: algebra_simps)
  have b: "b < 128" using Suc.prems(2) by simp
  show ?case
  proof (cases "denominator \<le> ?rest")
    case True
    then have le: "?d \<le> uint ?rest" by (simp add: word_le_def)
    have "uint (?rest - denominator) = uint ?rest - ?d"
      using True by (simp add: uint_sub_if' word_le_def)
    then have r: "uint (?rest - denominator) < ?d"
      "uint ?rest - ?d = uint (?rest - denominator)"
      using rest Suc.prems(4) pos_mod_bound [of 2 "?n div 2 ^ b"] by linarith+
    have q: "uint (quot OR push_bit b 1) = 2 ^ b * (2 * k + 1)"
      using uint_or_bit [OF Suc.prems(3) b] k by (simp add: algebra_simps)
    then have "uint (quot OR push_bit b 1) mod 2 ^ b = 0"
      and "uint (quot OR push_bit b 1) div 2 ^ b = 2 * k + 1" by simp_all
    moreover have "?n div 2 ^ b = (2 * k + 1) * ?d + uint (?rest - denominator)"
      using digits r(2) by (simp add: distrib_right)
    moreover have "long_division b numerator denominator (quot OR push_bit b 1) (?rest - denominator) = (q, r)"
      using Suc.prems(6) True by (simp only: long_division.simps Let_def if_True)
    ultimately show ?thesis
      using Suc.prems(1) b r(1) by (intro Suc.IH [of "quot OR push_bit b 1" "?rest - denominator"]) simp_all
  next
    case False
    then have "uint ?rest < ?d" by (simp only: word_le_def not_le)
    moreover have "uint quot mod 2 ^ b = 0" and "uint quot div 2 ^ b = 2 * k" using k by simp_all
    moreover have "long_division b numerator denominator quot ?rest = (q, r)"
      using Suc.prems(6) False by (simp only: long_division.simps Let_def if_False)
    ultimately show ?thesis
      using Suc.prems(1) b digits by (intro Suc.IH [of quot ?rest]) (simp_all only: less_imp_le_nat)
  qed
qed

lemma divide_magnitudes_correct:
  assumes "0 < uint d" and "uint d \<le> 2 ^ 127"
  shows "uint (fst (divide_magnitudes n d)) = uint n div uint d"
    and "uint (snd (divide_magnitudes n d)) = uint n mod uint d"
proof -
  have "uint (fst (divide_magnitudes n d)) = uint n div uint d \<and>
        uint (snd (divide_magnitudes n d)) = uint n mod uint d"
  proof (cases "drop_bit 64 n = 0 \<and> drop_bit 64 d = 0")
    case True
    have low: "uint (ucast w :: u64) = uint w" if "drop_bit 64 w = 0" for w :: u128
    proof -
      have "uint w div 2 ^ 64 = 0" using uint_drop_bit [of 64 w] that by simp
      then have "uint w < 2 ^ 64" by (simp add: div_eq_0_iff)
      then show ?thesis by (simp add: unsigned_ucast_eq take_bit_int_eq_self)
    qed
    have up: "uint (ucast w :: u128) = uint w" for w :: u64
      by (simp add: uint_up_ucast is_up)
    show ?thesis using True
      by (simp add: divide_magnitudes_def Let_def up uint_div uint_mod low)
  next
    case False
    obtain q r where qr: "long_division 128 n d 0 0 = (q, r)" by fastforce
    have "uint n div 2 ^ 128 = 0" using uint_below [of n] by (simp add: div_eq_0_iff)
    then have "uint n = uint q * uint d + uint r \<and> uint r < uint d"
      using long_division_correct [OF assms(2) _ _ _ _ qr] assms(1) by simp
    moreover have "uint q = (uint q * uint d + uint r) div uint d" and "uint r = (uint q * uint d + uint r) mod uint d"
      if "uint r < uint d" using that assms(1) by simp_all
    ultimately show ?thesis
      using False qr by (auto simp: divide_magnitudes_def)
  qed
  then show "uint (fst (divide_magnitudes n d)) = uint n div uint d"
    and "uint (snd (divide_magnitudes n d)) = uint n mod uint d" by simp_all
qed

lemma to_wide_of_int: "in_wide x \<Longrightarrow> to_wide (word_of_int x) = x"
  by (simp add: in_wide_def signed_of_int signed_take_bit_int_eq_self_iff)

lemma word_of_int_negated: "NOT (word_of_int x :: u128) + 1 = word_of_int (- x)"
  by (simp flip: minus_eq_not_plus_1)

lemma magnitudes_divide:
  assumes "in_wide a" and "in_wide b" and "b \<noteq> 0"
  shows "fst (divide_magnitudes (magnitude a) (magnitude b)) = word_of_int (\<bar>a\<bar> div \<bar>b\<bar>)"
    and "snd (divide_magnitudes (magnitude a) (magnitude b)) = word_of_int (\<bar>a\<bar> mod \<bar>b\<bar>)"
proof -
  have m: "uint (magnitude a) = \<bar>a\<bar>" "uint (magnitude b) = \<bar>b\<bar>"
    using assms by (simp_all add: uint_magnitude)
  have "0 < uint (magnitude b)" "uint (magnitude b) \<le> 2 ^ 127"
    using assms m by (auto simp: in_wide_def)
  from divide_magnitudes_correct [OF this, of "magnitude a"]
  show "fst (divide_magnitudes (magnitude a) (magnitude b)) = word_of_int (\<bar>a\<bar> div \<bar>b\<bar>)"
    and "snd (divide_magnitudes (magnitude a) (magnitude b)) = word_of_int (\<bar>a\<bar> mod \<bar>b\<bar>)"
    by (simp_all flip: m) (metis word_of_int_uint)+
qed

lemma divide_eq:
  assumes "in_wide a" and "in_wide b" and "b \<noteq> 0"
  shows "divide a b = to_wide (word_of_int (a sdiv b))"
proof -
  have "a sdiv b = (if (a < 0) \<noteq> (b < 0) then - (\<bar>a\<bar> div \<bar>b\<bar>) else \<bar>a\<bar> div \<bar>b\<bar>)"
    using assms(3) by (auto simp: signed_divide_int_def sgn_if)
  then show ?thesis
    by (simp add: divide_def magnitudes_divide [OF assms] word_of_int_negated)
qed

lemma remainder_eq:
  assumes "in_wide a" and "in_wide b" and "b \<noteq> 0"
  shows "remainder a b = a smod b"
proof -
  have smod: "a smod b = (if a < 0 then - (\<bar>a\<bar> mod \<bar>b\<bar>) else \<bar>a\<bar> mod \<bar>b\<bar>)"
    by (auto simp: signed_modulo_int_def sgn_if)
  have "0 \<le> \<bar>a\<bar> mod \<bar>b\<bar>" "\<bar>a\<bar> mod \<bar>b\<bar> < \<bar>b\<bar>" using assms(3) by simp_all
  then have "in_wide (a smod b)"
    using assms(2) unfolding smod by (auto simp: in_wide_def)
  moreover have "remainder a b = to_wide (word_of_int (a smod b))"
    by (simp add: remainder_def magnitudes_divide [OF assms] word_of_int_negated smod)
  ultimately show ?thesis by (simp add: to_wide_of_int)
qed

lemma abs_sdiv_le: "\<bar>(a :: int) sdiv b\<bar> \<le> \<bar>a\<bar>"
proof -
  have "\<bar>a\<bar> div \<bar>b\<bar> \<le> \<bar>a\<bar>" using zdiv_mono2 [of "\<bar>a\<bar>" 1 "\<bar>b\<bar>"] by (cases "b = 0") simp_all
  moreover have "0 \<le> \<bar>a\<bar> div \<bar>b\<bar>" by (cases "b = 0") (simp_all add: pos_imp_zdiv_nonneg_iff)
  moreover have "\<bar>a sdiv b\<bar> \<le> \<bar>\<bar>a\<bar> div \<bar>b\<bar>\<bar>" by (simp add: signed_divide_int_def abs_mult sgn_if)
  ultimately show ?thesis by linarith
qed

lemma divide_exact:
  assumes "in_wide a" and "in_wide b" and "b \<noteq> 0" and "\<bar>a\<bar> < 2 ^ 127"
  shows "divide a b = a sdiv b"
proof -
  have "in_wide (a sdiv b)" using abs_sdiv_le [of a b] assms(4) by (auto simp: in_wide_def)
  then show ?thesis by (simp add: divide_eq [OF assms(1-3)] to_wide_of_int)
qed

section \<open>The text of a type identifies it\<close>

lemma digits_of_digits: "list_all is_digit (digits_of w)"
proof (induction w rule: digits_of.induct)
  case (1 w)
  have "unat (w mod 10) < 10" by (simp add: unat_mod)
  with 1 show ?case by (subst digits_of.simps) (simp add: is_digit_digit_char)
qed

lemma digits_of_inj: "digits_of v = digits_of w \<longleftrightarrow> v = w"
proof (induction v arbitrary: w rule: digits_of.induct)
  case (1 v)
  have below: "unat (x mod 10) < 10" for x :: u128 by (simp add: unat_mod)
  show ?case
  proof
    assume eq: "digits_of v = digits_of w"
    have zero: "digits_of x = [] \<longleftrightarrow> x = 0" for x by (subst digits_of.simps) simp
    show "v = w"
    proof (cases "v = 0")
      case True
      then show ?thesis using eq zero by metis
    next
      case False
      then have "w \<noteq> 0" using eq zero by metis
      then have "digit_char (unat (v mod 10)) = digit_char (unat (w mod 10))"
        and "digits_of (v div 10) = digits_of (w div 10)"
        using False eq by (simp_all add: digits_of.simps [of v] digits_of.simps [of w])
      then have "unat (v mod 10) = unat (w mod 10)" and "v div 10 = w div 10"
        using "1.IH" [OF False] by (simp_all only: digit_char_inj below)
      then have "v mod 10 = w mod 10" and "v div 10 = w div 10"
        by (simp_all only: word_unat_eq_iff)
      then show ?thesis by (metis div_mult_mod_eq)
    qed
  qed simp
qed

lemma describe_wide_positive:
  "0 < v \<Longrightarrow> describe_wide v = rev (digits_of (magnitude v))"
  by (simp add: describe_wide_def)

lemma describe_extent_digits: "0 < to_wide n \<Longrightarrow> list_all is_digit (describe_wide (to_wide n))"
  by (simp add: describe_wide_positive digits_of_digits)

lemma describe_extent_inj:
  assumes "0 < to_wide m" and "0 < to_wide n"
  shows "describe_wide (to_wide m) = describe_wide (to_wide n) \<longleftrightarrow> m = n"
proof -
  have "magnitude (to_wide x) = x" if "0 < to_wide x" for x
    using that by (simp add: magnitude_def)
  then show ?thesis using assms by (simp add: describe_wide_positive digits_of_inj)
qed

text \<open>The part of \<open>valid_type\<close> that makes the text unambiguous.\<close>

fun unambiguous :: "ktype \<Rightarrow> bool" where
  "unambiguous (Int_Type it) \<longleftrightarrow> True"
| "unambiguous (Indexed_Type es n) \<longleftrightarrow> length es = 1 \<and> 0 < to_wide n \<and> (\<forall>e \<in> set es. unambiguous e)"
| "unambiguous (Value_Type i ps) \<longleftrightarrow> (\<forall>p \<in> set ps. unambiguous p)"

lemma valid_type_unambiguous:
  "valid_type \<tau> depth nodes = Some n \<Longrightarrow> unambiguous \<tau>"
  "valid_types \<tau>s depth nodes = Some n \<Longrightarrow> \<forall>\<tau> \<in> set \<tau>s. unambiguous \<tau>"
  by (induction \<tau> depth nodes and \<tau>s depth nodes arbitrary: n and n rule: valid_type_valid_types.induct)
    (auto split: if_splits option.splits)

lemma supported_unambiguous: "is_supported \<tau> \<Longrightarrow> unambiguous \<tau>"
  using valid_type_unambiguous(1) by (auto simp: is_supported_def)

abbreviation digits_end :: "string \<Rightarrow> bool" where
  "digits_end x \<equiv> x = [] \<or> \<not> is_digit (hd x)"

lemma string_of_nat_Cons: "\<exists>d ds. string_of_nat n = d # ds \<and> is_digit d"
  using string_of_nat_digits [of n] string_of_nat_nonempty [of n] by (cases "string_of_nat n") auto

lemma not_digit: "\<not> is_digit CHR ''n''" "\<not> is_digit CHR '':''" "\<not> is_digit CHR '']''"
    "\<not> is_digit CHR '';''" "\<not> is_digit CHR ''}''"
  by (simp_all add: is_digit_def)

lemma describe_type_Cons: "\<exists>c cs. describe_type p = c # cs \<and> c \<noteq> CHR ''}''"
  by (cases p) (simp_all add: describe_int_type_def)

lemma describe_type_prefix:
  "unambiguous s \<Longrightarrow> unambiguous t \<Longrightarrow> digits_end x \<Longrightarrow> digits_end y \<Longrightarrow>
     describe_type s @ x = describe_type t @ y \<Longrightarrow> s = t \<and> x = y"
  "\<forall>p \<in> set ps. unambiguous p \<Longrightarrow> \<forall>q \<in> set qs. unambiguous q \<Longrightarrow>
     describe_projections ps @ CHR ''}'' # x = describe_projections qs @ CHR ''}'' # y \<Longrightarrow> ps = qs \<and> x = y"
proof (induction s and ps arbitrary: t x y and qs x y rule: describe_type_describe_projections.induct)
  case (1 it)
  show ?case
  proof (cases t)
    case (Int_Type jt)
    have "string_of_nat (width it) = string_of_nat (width jt) \<and> x = y"
      using 1 Int_Type
      by (intro takeWhile_digits) (auto simp: describe_int_type_def string_of_nat_digits split: if_splits)
    moreover have "signedness it = signedness jt"
      using 1 Int_Type by (cases "signedness it"; cases "signedness jt") (auto simp: describe_int_type_def)
    ultimately show ?thesis using Int_Type by (simp add: string_of_nat_inj int_type.expand)
  next
    case (Value_Type i ps)
    then show ?thesis using 1 by (auto simp: describe_int_type_def split: if_splits)
  next
    case (Indexed_Type es n)
    then show ?thesis
      using 1 string_of_nat_Cons [of "width it"] not_digit
      by (auto simp: describe_int_type_def split: if_splits)
  qed
next
  case (2 es n)
  obtain e where es: "es = [e]" using 2 by (cases es) auto
  show ?case
  proof (cases t)
    case (Int_Type jt)
    then show ?thesis
      using "2.prems"(5) string_of_nat_Cons [of "width jt"] not_digit
      by (auto simp: describe_int_type_def split: if_splits)
  next
    case (Value_Type i ps)
    then show ?thesis using "2.prems"(5) by simp
  next
    case (Indexed_Type fs m)
    obtain f where fs: "fs = [f]" using 2 Indexed_Type by (cases fs) auto
    have pos: "0 < to_wide n" "0 < to_wide m" using 2 Indexed_Type by simp_all
    have "describe_wide (to_wide n) @ '']{'' @ describe_type e @ ''}'' @ x =
        describe_wide (to_wide m) @ '']{'' @ describe_type f @ ''}'' @ y"
      using 2(6) Indexed_Type es fs by simp
    then have "describe_wide (to_wide n) = describe_wide (to_wide m) \<and>
        '']{'' @ describe_type e @ ''}'' @ x = '']{'' @ describe_type f @ ''}'' @ y"
      by (rule takeWhile_digits [OF describe_extent_digits describe_extent_digits, rotated 2])
        (simp_all add: pos not_digit)
    then have n: "n = m" and "describe_type e @ ''}'' @ x = describe_type f @ ''}'' @ y"
      using pos by (simp_all add: describe_extent_inj)
    moreover have "unambiguous e" and "unambiguous f"
      using 2(2,3) Indexed_Type es fs by simp_all
    ultimately have "e = f \<and> ''}'' @ x = ''}'' @ y"
      using es not_digit by (intro "2.IH" [of e "[]"]) simp_all
    then show ?thesis using n es fs Indexed_Type by simp
  qed
next
  case (3 i ps)
  show ?case
  proof (cases t)
    case (Int_Type jt)
    then show ?thesis using "3.prems"(5) by (simp add: describe_int_type_def split: if_splits)
  next
    case (Indexed_Type es n)
    then show ?thesis using "3.prems"(5) by simp
  next
    case (Value_Type j qs)
    have "string_of_nat (length i) @ '':'' @ i @ '']{'' @ describe_projections ps @ ''}'' @ x =
        string_of_nat (length j) @ '':'' @ j @ '']{'' @ describe_projections qs @ ''}'' @ y"
      using "3.prems"(5) Value_Type by simp
    then have "string_of_nat (length i) = string_of_nat (length j) \<and>
        '':'' @ i @ '']{'' @ describe_projections ps @ ''}'' @ x =
        '':'' @ j @ '']{'' @ describe_projections qs @ ''}'' @ y"
      by (rule takeWhile_digits [OF string_of_nat_digits string_of_nat_digits])
        (simp_all add: not_digit)
    then have i: "i = j" and "describe_projections ps @ CHR ''}'' # x = describe_projections qs @ CHR ''}'' # y"
      by (auto simp: string_of_nat_inj)
    then have "ps = qs \<and> x = y"
      using "3.prems"(1,2) Value_Type by (intro "3.IH") simp_all
    then show ?thesis using i Value_Type by simp
  qed
next
  case 4
  show ?case
  proof (cases qs)
    case Nil
    with 4 show ?thesis by simp
  next
    case (Cons q qs')
    then show ?thesis using 4(3) describe_type_Cons [of q] by auto
  qed
next
  case (5 p ps)
  show ?case
  proof (cases qs)
    case Nil
    then show ?thesis using "5.prems"(3) describe_type_Cons [of p] by auto
  next
    case (Cons q qs')
    have "p = q \<and> '';'' @ describe_projections ps @ CHR ''}'' # x = '';'' @ describe_projections qs' @ CHR ''}'' # y"
      using "5.prems" Cons not_digit by (intro "5.IH"(1)) simp_all
    moreover from this have "ps = qs' \<and> x = y"
      using "5.prems"(1,2) Cons by (intro "5.IH"(2)) simp_all
    ultimately show ?thesis using Cons by simp
  qed
qed

lemma describe_type_inj:
  assumes "is_supported s" and "is_supported t"
  shows "describe_type s = describe_type t \<longleftrightarrow> s = t"
  using describe_type_prefix(1) [of s t "[]" "[]"] assms supported_unambiguous by auto

end
