(* ===== verification/Kernel_Terms.thy ===== *)
theory Kernel_Terms
  imports Kernel_Types
begin

text \<open>
  Terms (kernel/include/cppl/kernel/term.hpp, kernel/src/term.cpp) and what the core shares
  from kernel/include/cppl/kernel/context.hpp: the errors, the limits on untrusted input, and
  the definitions a term may call.
\<close>

section \<open>Primitives\<close>

datatype prim_op =
    AddWrap | Equal | NotEqual | Less | LessEqual | Greater | GreaterEqual | NotOp | Select
  | SubWrap | MulWrap | AddFits | SubFits | MulFits | Quotient | Remainder | Convert

text \<open>The value of the enumerator, \<open>static_cast<std::uint8_t>(op)\<close>.\<close>

fun op_number :: "prim_op \<Rightarrow> nat" where
  "op_number AddWrap = 0" | "op_number Equal = 1" | "op_number NotEqual = 2"
| "op_number Less = 3" | "op_number LessEqual = 4" | "op_number Greater = 5"
| "op_number GreaterEqual = 6" | "op_number NotOp = 7" | "op_number Select = 8"
| "op_number SubWrap = 9" | "op_number MulWrap = 10" | "op_number AddFits = 11"
| "op_number SubFits = 12" | "op_number MulFits = 13" | "op_number Quotient = 14"
| "op_number Remainder = 15" | "op_number Convert = 16"

lemma op_number_inj: "op_number a = op_number b \<longleftrightarrow> a = b"
  by (cases a; cases b) simp_all

fun describe_op :: "prim_op \<Rightarrow> string" where
  "describe_op AddWrap = ''add_wrap''"
| "describe_op Equal = ''eq''"
| "describe_op NotEqual = ''ne''"
| "describe_op Less = ''lt''"
| "describe_op LessEqual = ''le''"
| "describe_op Greater = ''gt''"
| "describe_op GreaterEqual = ''ge''"
| "describe_op NotOp = ''not''"
| "describe_op Select = ''select''"
| "describe_op SubWrap = ''sub_wrap''"
| "describe_op MulWrap = ''mul_wrap''"
| "describe_op AddFits = ''add_fits''"
| "describe_op SubFits = ''sub_fits''"
| "describe_op MulFits = ''mul_fits''"
| "describe_op Quotient = ''quot''"
| "describe_op Remainder = ''rem''"
| "describe_op Convert = ''convert''"

definition is_arithmetic :: "prim_op \<Rightarrow> bool" where
  "is_arithmetic op \<longleftrightarrow> op = AddWrap \<or> op = SubWrap \<or> op = MulWrap"

definition is_representability :: "prim_op \<Rightarrow> bool" where
  "is_representability op \<longleftrightarrow> op = AddFits \<or> op = SubFits \<or> op = MulFits"

fun is_comparison :: "prim_op \<Rightarrow> bool" where
  "is_comparison Equal = True"
| "is_comparison NotEqual = True"
| "is_comparison Less = True"
| "is_comparison LessEqual = True"
| "is_comparison Greater = True"
| "is_comparison GreaterEqual = True"
| "is_comparison _ = False"

definition yields_boolean :: "prim_op \<Rightarrow> bool" where
  "yields_boolean op \<longleftrightarrow> is_comparison op \<or> is_representability op \<or> op = NotOp"

fun arity :: "prim_op \<Rightarrow> nat" where
  "arity Select = 3"
| "arity NotOp = 1"
| "arity Convert = 1"
| "arity _ = 2"

definition kBoolean :: int_type where
  "kBoolean = IntType 1 Unsigned"

lemma kBoolean_supported: "is_supported_int kBoolean"
  by (simp add: kBoolean_def is_supported_int_iff)

lemma kBoolean_representable: "is_representable kBoolean v \<longleftrightarrow> v = 0 \<or> v = 1"
  by (auto simp: is_representable_def kBoolean_supported minimum_value_eq maximum_value_eq)
    (auto simp: kBoolean_def)

section \<open>Terms\<close>

text \<open>
  A variable is a de Bruijn index, a callee the identity of a definition; both are
  \<open>std::uint32_t\<close> in the code.
\<close>

datatype kterm =
    Var nat
  | Literal int_type wide
  | Call nat "kterm list"
  | Prim prim_op int_type "kterm list"
  | Projection ktype nat "kterm list"
  | Element ktype "kterm list"

definition parameter_reference :: "nat \<Rightarrow> nat \<Rightarrow> nat" where
  "parameter_reference parameter_count position =
     (if parameter_count \<le> position then parameter_count else parameter_count - 1 - position)"

text \<open>The arguments of a description, separated by commas.\<close>

fun comma_separated :: "string list \<Rightarrow> string" where
  "comma_separated [] = ''''"
| "comma_separated [s] = s"
| "comma_separated (s # ss) = s @ '', '' @ comma_separated ss"

fun describe_term :: "kterm \<Rightarrow> string" where
  "describe_term (Var i) = ''#'' @ string_of_nat i"
| "describe_term (Literal type v) = describe_wide v @ '':'' @ describe_int_type type"
| "describe_term (Call callee arguments) =
     ''def#'' @ string_of_nat callee @ ''('' @ comma_separated (map describe_term arguments) @ '')''"
| "describe_term (Projection domain index arguments) =
     ''project['' @ describe_type domain @ '','' @ string_of_nat index @ '']'' @
     ''('' @ comma_separated (map describe_term arguments) @ '')''"
| "describe_term (Element domain arguments) =
     ''element['' @ describe_type domain @ '']'' @
     ''('' @ comma_separated (map describe_term arguments) @ '')''"
| "describe_term (Prim op type arguments) =
     describe_op op @ '':'' @ describe_int_type type @
     ''('' @ comma_separated (map describe_term arguments) @ '')''"

section \<open>Errors and limits\<close>

datatype core_error_kind =
    DuplicateDefinition | UnknownDefinition | ArityMismatch | TypeMismatch | VariableOutOfScope
  | MalformedLiteral | MalformedPrimitive | MalformedType | DepthLimitExceeded
  | NormalizationBudgetExhausted

text \<open>
  \<open>CoreError\<close> is the code's error value. The others are no values of the code. They stand
  for executions the model does not follow: one that leaves the language (a signed 128-bit
  operation, written without a check, whose result does not fit), one that narrows the size
  of a table of \<open>2 ^ 32\<close> entries to 32 bits, and one that does not end.
\<close>

datatype core_error =
    CoreError core_error_kind string
  | UndefinedBehaviour
  | IndexOverflow
  | OutOfFuel

fun describe_error_kind :: "core_error_kind \<Rightarrow> string" where
  "describe_error_kind DuplicateDefinition = ''duplicate definition''"
| "describe_error_kind UnknownDefinition = ''unknown definition''"
| "describe_error_kind ArityMismatch = ''arity mismatch''"
| "describe_error_kind TypeMismatch = ''type mismatch''"
| "describe_error_kind VariableOutOfScope = ''variable out of scope''"
| "describe_error_kind MalformedLiteral = ''malformed literal''"
| "describe_error_kind MalformedPrimitive = ''malformed primitive''"
| "describe_error_kind MalformedType = ''malformed type''"
| "describe_error_kind DepthLimitExceeded = ''depth limit exceeded''"
| "describe_error_kind NormalizationBudgetExhausted = ''normalization budget exhausted''"

type_synonym u32 = "32 word"

record core_limits =
  max_normalization_steps :: u64
  max_term_depth :: u32
  max_polynomial_terms :: u32
  max_monomial_degree :: u32
  max_arithmetic_facts :: u32
  max_certificate_nodes :: u32

definition default_limits :: core_limits where
  "default_limits =
     \<lparr>max_normalization_steps = push_bit 20 1, max_term_depth = 512, max_polynomial_terms = 256,
      max_monomial_degree = 64, max_arithmetic_facts = 256, max_certificate_nodes = push_bit 14 1\<rparr>"

section \<open>Definitions\<close>

text \<open>
  \<open>Context\<close> holds its definitions in the order they were admitted. \<open>name\<close> is diagnostic
  text only.
\<close>

record kdefinition =
  def_id :: nat
  def_name :: string
  parameters :: "ktype list"
  result :: ktype
  body :: kterm

type_synonym kcontext = "kdefinition list"

fun lookup :: "kcontext \<Rightarrow> nat \<Rightarrow> kdefinition option" where
  "lookup [] i = None"
| "lookup (d # ds) i = (if def_id d = i then Some d else lookup ds i)"

lemma lookup_Some: "lookup \<Gamma> i = Some d \<Longrightarrow> d \<in> set \<Gamma> \<and> def_id d = i"
  by (induction \<Gamma>) (auto split: if_splits)

lemma lookup_None: "lookup \<Gamma> i = None \<longleftrightarrow> i \<notin> def_id ` set \<Gamma>"
  by (induction \<Gamma>) auto

lemma lookup_append:
  "lookup (\<Gamma> @ \<Delta>) i = (case lookup \<Gamma> i of Some d \<Rightarrow> Some d | None \<Rightarrow> lookup \<Delta> i)"
  by (induction \<Gamma>) auto

fun describe_named :: "kcontext \<Rightarrow> kterm \<Rightarrow> string" where
  "describe_named \<Gamma> (Var i) = ''#'' @ string_of_nat i"
| "describe_named \<Gamma> (Literal type v) = describe_wide v"
| "describe_named \<Gamma> (Call callee arguments) =
     (case lookup \<Gamma> callee of Some d \<Rightarrow> def_name d | None \<Rightarrow> ''def#'' @ string_of_nat callee) @
     ''('' @ comma_separated (map (describe_named \<Gamma>) arguments) @ '')''"
| "describe_named \<Gamma> (Projection domain index arguments) =
     ''project['' @ describe_type domain @ '','' @ string_of_nat index @ '']'' @
     ''('' @ comma_separated (map (describe_named \<Gamma>) arguments) @ '')''"
| "describe_named \<Gamma> (Element domain arguments) =
     ''element['' @ describe_type domain @ '']'' @
     ''('' @ comma_separated (map (describe_named \<Gamma>) arguments) @ '')''"
| "describe_named \<Gamma> (Prim op type arguments) =
     describe_op op @ ''('' @ comma_separated (map (describe_named \<Gamma>) arguments) @ '')''"

end
