(* ===== verification/Kernel_Order.thy ===== *)
theory Kernel_Order
  imports Kernel_Terms
begin

text \<open>
  The structural order on terms (\<open>compare\<close>, \<open>compare_types\<close>, \<open>compare_lists\<close> and
  \<open>FactorOrder\<close> of kernel/src/arithmetic.cpp, \<open>TypedTermOrder\<close> of kernel/src/linear.cpp):
  a strict weak order, whose equivalence is identity on terms whose domains are admitted types.
\<close>

fun signedness_number :: "signedness \<Rightarrow> nat" where
  "signedness_number Signed = 0"
| "signedness_number Unsigned = 1"

definition compare_types :: "int_type \<Rightarrow> int_type \<Rightarrow> ordering" where
  "compare_types lhs rhs =
     then_by (three_way (width lhs) (width rhs))
       (three_way (signedness_number (signedness lhs)) (signedness_number (signedness rhs)))"

instantiation int_type :: linorder
begin

definition less_int_type :: "int_type \<Rightarrow> int_type \<Rightarrow> bool" where
  "less_int_type s t \<longleftrightarrow> compare_types s t = Ord_Less"

definition less_eq_int_type :: "int_type \<Rightarrow> int_type \<Rightarrow> bool" where
  "less_eq_int_type s t \<longleftrightarrow> compare_types s t \<noteq> Ord_Greater"

lemma signedness_number_inj: "signedness_number a = signedness_number b \<longleftrightarrow> a = b"
  by (cases a; cases b) simp_all

lemma compare_types_equal: "compare_types s t = Ord_Equal \<longleftrightarrow> s = t"
  by (auto simp: compare_types_def signedness_number_inj int_type.expand)

lemma compare_types_reversed: "reversed (compare_types s t) = compare_types t s"
  by (simp add: compare_types_def)

instance
proof
  fix x y z :: int_type
  show "(x < y) = (x \<le> y \<and> \<not> y \<le> x)"
    using compare_types_reversed [of x y] compare_types_reversed [of y x]
    by (cases "compare_types x y") (auto simp: less_int_type_def less_eq_int_type_def)
  show "x \<le> x" using compare_types_equal [of x x] by (simp add: less_eq_int_type_def)
  show "x \<le> z" if "x \<le> y" and "y \<le> z"
    using that by (auto simp: less_eq_int_type_def compare_types_def then_by_def split: if_splits)
  show "x = y" if "x \<le> y" and "y \<le> x"
    using that compare_types_reversed [of x y] compare_types_equal [of x y]
    by (cases "compare_types x y") (auto simp: less_eq_int_type_def)
  show "x \<le> y \<or> y \<le> x"
    using compare_types_reversed [of x y] by (cases "compare_types x y") (auto simp: less_eq_int_type_def)
qed

end

lemma compare_types_three_way: "compare_types s t = three_way s t"
  using compare_types_equal [of s t] by (cases "compare_types s t")
    (auto simp: three_way_def less_int_type_def)

text \<open>\<open>node.index()\<close>\<close>

fun node_index :: "kterm \<Rightarrow> nat" where
  "node_index (Var _) = 0"
| "node_index (Literal _ _) = 1"
| "node_index (Call _ _) = 2"
| "node_index (Prim _ _ _) = 3"
| "node_index (Projection _ _ _) = 4"
| "node_index (Element _ _) = 5"

text \<open>
  \<open>compare\<close> and \<open>compare_lists\<close>. The catch-all is the code's first test: terms of
  different kinds are ordered by kind.
\<close>

fun compare :: "kterm \<Rightarrow> kterm \<Rightarrow> ordering"
  and compare_lists :: "kterm list \<Rightarrow> kterm list \<Rightarrow> ordering" where
  "compare (Var i) (Var j) = three_way i j"
| "compare (Literal s v) (Literal t w) = then_by (compare_types s t) (three_way v w)"
| "compare (Call f xs) (Call g ys) = then_by (three_way f g) (compare_lists xs ys)"
| "compare (Projection d i xs) (Projection e j ys) =
     then_by (three_way (describe_type d) (describe_type e))
       (then_by (three_way i j) (compare_lists xs ys))"
| "compare (Element d xs) (Element e ys) =
     then_by (three_way (describe_type d) (describe_type e)) (compare_lists xs ys)"
| "compare (Prim o1 s xs) (Prim o2 t ys) =
     then_by (three_way (op_number o1) (op_number o2))
       (then_by (compare_types s t) (compare_lists xs ys))"
| "compare lhs rhs = three_way (node_index lhs) (node_index rhs)"
| "compare_lists [] [] = Ord_Equal"
| "compare_lists [] (y # ys) = Ord_Less"
| "compare_lists (x # xs) [] = Ord_Greater"
| "compare_lists (x # xs) (y # ys) = then_by (compare x y) (compare_lists xs ys)"

lemma compare_kinds:
  "node_index lhs \<noteq> node_index rhs \<Longrightarrow> compare lhs rhs = three_way (node_index lhs) (node_index rhs)"
  by (cases lhs; cases rhs) simp_all

lemma compare_equal_kind: "compare lhs rhs = Ord_Equal \<Longrightarrow> node_index lhs = node_index rhs"
  by (cases "node_index lhs = node_index rhs") (simp_all add: compare_kinds)

lemma compare_lists_self:
  "(\<And>x. x \<in> set xs \<Longrightarrow> compare x x = Ord_Equal) \<Longrightarrow> compare_lists xs xs = Ord_Equal"
  by (induction xs) auto

lemma compare_self: "compare t t = Ord_Equal"
  by (induction t) (simp_all add: compare_lists_self compare_types_three_way)

lemma compare_lists_reversed:
  "(\<And>x y. x \<in> set xs \<Longrightarrow> compare y x = reversed (compare x y)) \<Longrightarrow>
     compare_lists ys xs = reversed (compare_lists xs ys)"
proof (induction xs arbitrary: ys)
  case Nil
  then show ?case by (cases ys) auto
next
  case (Cons x xs)
  then show ?case by (cases ys) auto
qed

lemma compare_reversed: "compare s t = reversed (compare t s)"
proof (induction t arbitrary: s)
  case (Var i)
  show ?case by (cases s) simp_all
next
  case (Literal type v)
  show ?case by (cases s) (simp_all add: compare_types_three_way)
next
  case (Call f xs)
  have lists: "compare_lists ys xs = reversed (compare_lists xs ys)" for ys
    by (rule compare_lists_reversed [OF Call.IH])
  show ?case by (cases s) (simp_all add: lists)
next
  case (Prim op type xs)
  have lists: "compare_lists ys xs = reversed (compare_lists xs ys)" for ys
    by (rule compare_lists_reversed [OF Prim.IH])
  show ?case by (cases s) (simp_all add: lists compare_types_three_way)
next
  case (Projection d i xs)
  have lists: "compare_lists ys xs = reversed (compare_lists xs ys)" for ys
    by (rule compare_lists_reversed [OF Projection.IH])
  show ?case by (cases s) (simp_all add: lists)
next
  case (Element d xs)
  have lists: "compare_lists ys xs = reversed (compare_lists xs ys)" for ys
    by (rule compare_lists_reversed [OF Element.IH])
  show ?case by (cases s) (simp_all add: lists)
qed

lemma compare_lists_equal_left:
  "(\<And>x y z. x \<in> set xs \<Longrightarrow> compare x y = Ord_Equal \<Longrightarrow> compare x z = compare y z) \<Longrightarrow>
     compare_lists xs ys = Ord_Equal \<Longrightarrow> compare_lists xs zs = compare_lists ys zs"
proof (induction xs arbitrary: ys zs)
  case Nil
  then show ?case by (cases ys) auto
next
  case (Cons x xs)
  from Cons.prems(2) obtain y ys' where ys: "ys = y # ys'"
    and eq: "compare x y = Ord_Equal" "compare_lists xs ys' = Ord_Equal" by (cases ys) simp_all
  have IH: "compare_lists xs zs' = compare_lists ys' zs'" for zs'
    by (rule Cons.IH [OF _ eq(2)]) (rule Cons.prems(1), simp_all)
  have "compare x z = compare y z" for z
    using Cons.prems(1) [of x y z] eq(1) by simp
  with IH ys show ?case by (cases zs) simp_all
qed

lemma compare_equal_left: "compare s t = Ord_Equal \<Longrightarrow> compare s u = compare t u"
proof (induction s arbitrary: t u)
  case (Var i)
  then show ?case by (cases t) simp_all
next
  case (Literal type v)
  then show ?case by (cases t) (simp_all add: compare_types_three_way)
next
  case (Call f xs)
  have lists: "compare_lists xs = compare_lists ys" if "compare_lists xs ys = Ord_Equal" for ys
    by (rule ext, rule compare_lists_equal_left [OF Call.IH that])
  from Call.prems show ?case by (cases t; cases u) (auto dest: lists)
next
  case (Prim op type xs)
  have lists: "compare_lists xs = compare_lists ys" if "compare_lists xs ys = Ord_Equal" for ys
    by (rule ext, rule compare_lists_equal_left [OF Prim.IH that])
  from Prim.prems show ?case by (cases t; cases u) (auto simp: compare_types_three_way dest: lists)
next
  case (Projection d i xs)
  have lists: "compare_lists xs = compare_lists ys" if "compare_lists xs ys = Ord_Equal" for ys
    by (rule ext, rule compare_lists_equal_left [OF Projection.IH that])
  from Projection.prems show ?case by (cases t; cases u) (auto dest: lists)
next
  case (Element d xs)
  have lists: "compare_lists xs = compare_lists ys" if "compare_lists xs ys = Ord_Equal" for ys
    by (rule ext, rule compare_lists_equal_left [OF Element.IH that])
  from Element.prems show ?case by (cases t; cases u) (auto dest: lists)
qed

lemma compare_equal_right: "compare s t = Ord_Equal \<Longrightarrow> compare u s = compare u t"
  using compare_equal_left [of s t u] compare_reversed [of u s] compare_reversed [of u t] by simp

lemma compare_lists_trans:
  "(\<And>x y z. x \<in> set xs \<Longrightarrow> compare x y = Ord_Less \<Longrightarrow> compare y z = Ord_Less \<Longrightarrow> compare x z = Ord_Less) \<Longrightarrow>
     compare_lists xs ys = Ord_Less \<Longrightarrow> compare_lists ys zs = Ord_Less \<Longrightarrow> compare_lists xs zs = Ord_Less"
proof (induction xs arbitrary: ys zs)
  case Nil
  then show ?case by (cases ys; cases zs) auto
next
  case (Cons x xs)
  from Cons.prems(2) obtain y ys' where ys: "ys = y # ys'" by (cases ys) simp_all
  from Cons.prems(3) ys obtain z zs' where zs: "zs = z # zs'" by (cases zs) simp_all
  have IH: "compare_lists xs zs' = Ord_Less"
    if "compare_lists xs ys' = Ord_Less" "compare_lists ys' zs' = Ord_Less"
    by (rule Cons.IH [OF _ that]) (rule Cons.prems(1), simp_all)
  have "compare x z = Ord_Less" if "compare x y = Ord_Less" "compare y z = Ord_Less"
    using Cons.prems(1) [of x y z] that by simp
  then show ?case
    using Cons.prems(2,3) IH ys zs compare_equal_left [of x y z] compare_equal_right [of y z x]
    by (auto simp: then_by_eq_Less)
qed

lemma compare_trans:
  "compare s t = Ord_Less \<Longrightarrow> compare t u = Ord_Less \<Longrightarrow> compare s u = Ord_Less"
proof (induction s arbitrary: t u)
  case (Var i)
  then show ?case by (cases t; cases u) simp_all
next
  case (Literal type v)
  then show ?case
    by (cases t; cases u) (auto simp: then_by_eq_Less compare_types_three_way)
next
  case (Call f xs)
  have "compare_lists xs zs = Ord_Less"
    if "compare_lists xs ys = Ord_Less" "compare_lists ys zs = Ord_Less" for ys zs
    by (rule compare_lists_trans [OF Call.IH that])
  with Call.prems show ?case
    by (cases t; cases u) (auto simp: then_by_eq_Less)
next
  case (Prim op type xs)
  have "compare_lists xs zs = Ord_Less"
    if "compare_lists xs ys = Ord_Less" "compare_lists ys zs = Ord_Less" for ys zs
    by (rule compare_lists_trans [OF Prim.IH that])
  with Prim.prems show ?case
    by (cases t; cases u) (auto simp: then_by_eq_Less compare_types_three_way)
next
  case (Projection d i xs)
  have "compare_lists xs zs = Ord_Less"
    if "compare_lists xs ys = Ord_Less" "compare_lists ys zs = Ord_Less" for ys zs
    by (rule compare_lists_trans [OF Projection.IH that])
  with Projection.prems show ?case
    by (cases t; cases u) (auto simp: then_by_eq_Less)
next
  case (Element d xs)
  have "compare_lists xs zs = Ord_Less"
    if "compare_lists xs ys = Ord_Less" "compare_lists ys zs = Ord_Less" for ys zs
    by (rule compare_lists_trans [OF Element.IH that])
  with Element.prems show ?case
    by (cases t; cases u) (auto simp: then_by_eq_Less)
qed

interpretation term_order: comparison compare
  by unfold_locales
    (rule compare_self compare_reversed compare_trans compare_equal_left; assumption?)+

section \<open>Equal terms\<close>

text \<open>
  Every domain the term names is an admitted type. The order looks at the text of a domain,
  which tells admitted types apart; a malformed domain may share its text with another.
\<close>

fun supported_domains :: "kterm \<Rightarrow> bool" where
  "supported_domains (Var i) \<longleftrightarrow> True"
| "supported_domains (Literal type v) \<longleftrightarrow> True"
| "supported_domains (Call f xs) \<longleftrightarrow> (\<forall>x \<in> set xs. supported_domains x)"
| "supported_domains (Prim op type xs) \<longleftrightarrow> (\<forall>x \<in> set xs. supported_domains x)"
| "supported_domains (Projection d i xs) \<longleftrightarrow> is_supported d \<and> (\<forall>x \<in> set xs. supported_domains x)"
| "supported_domains (Element d xs) \<longleftrightarrow> is_supported d \<and> (\<forall>x \<in> set xs. supported_domains x)"

lemma compare_lists_identity:
  "(\<And>x y. x \<in> set xs \<Longrightarrow> y \<in> set ys \<Longrightarrow> compare x y = Ord_Equal \<Longrightarrow> x = y) \<Longrightarrow>
     compare_lists xs ys = Ord_Equal \<Longrightarrow> xs = ys"
proof (induction xs arbitrary: ys)
  case Nil
  then show ?case by (cases ys) auto
next
  case (Cons x xs)
  from Cons.prems(2) obtain y ys' where ys: "ys = y # ys'"
    and eq: "compare x y = Ord_Equal" "compare_lists xs ys' = Ord_Equal" by (cases ys) simp_all
  have "x = y" using Cons.prems(1) ys eq(1) by simp
  moreover have "xs = ys'" by (rule Cons.IH [OF _ eq(2)]) (rule Cons.prems(1), simp_all add: ys)
  ultimately show ?case using ys by simp
qed

lemma compare_identity:
  "compare s t = Ord_Equal \<Longrightarrow> supported_domains s \<Longrightarrow> supported_domains t \<Longrightarrow> s = t"
proof (induction s arbitrary: t)
  case (Var i)
  then show ?case by (cases t) simp_all
next
  case (Literal type v)
  then show ?case by (cases t) (simp_all add: compare_types_three_way)
next
  case (Call f xs)
  from Call.prems obtain ys where t: "t = Call f ys" and eq: "compare_lists xs ys = Ord_Equal"
    by (cases t) simp_all
  have "xs = ys"
    by (rule compare_lists_identity [OF Call.IH eq]) (use Call.prems t in auto)
  with t show ?case by simp
next
  case (Prim op type xs)
  from Prim.prems obtain ys where t: "t = Prim op type ys" and eq: "compare_lists xs ys = Ord_Equal"
    by (cases t) (simp_all add: compare_types_three_way op_number_inj)
  have "xs = ys"
    by (rule compare_lists_identity [OF Prim.IH eq]) (use Prim.prems t in auto)
  with t show ?case by simp
next
  case (Projection d i xs)
  from Projection.prems obtain ys where t: "t = Projection d i ys" and eq: "compare_lists xs ys = Ord_Equal"
    by (cases t) (simp_all add: describe_type_inj)
  have "xs = ys"
    by (rule compare_lists_identity [OF Projection.IH eq]) (use Projection.prems t in auto)
  with t show ?case by simp
next
  case (Element d xs)
  from Element.prems obtain ys where t: "t = Element d ys" and eq: "compare_lists xs ys = Ord_Equal"
    by (cases t) (simp_all add: describe_type_inj)
  have "xs = ys"
    by (rule compare_lists_identity [OF Element.IH eq]) (use Element.prems t in auto)
  with t show ?case by simp
qed

section \<open>Orders of the maps\<close>

text \<open>\<open>FactorOrder\<close>: by degree, then by the factors.\<close>

definition factor_less :: "kterm list \<Rightarrow> kterm list \<Rightarrow> bool" where
  "factor_less lhs rhs \<longleftrightarrow>
     (if length lhs \<noteq> length rhs then length lhs < length rhs
      else compare_lists lhs rhs = Ord_Less)"

definition factor_compare :: "kterm list \<Rightarrow> kterm list \<Rightarrow> ordering" where
  "factor_compare lhs rhs = then_by (three_way (length lhs) (length rhs)) (compare_lists lhs rhs)"

lemma factor_less_compare: "factor_less lhs rhs \<longleftrightarrow> factor_compare lhs rhs = Ord_Less"
  by (auto simp: factor_less_def factor_compare_def then_by_eq_Less)

lemma compare_lists_laws:
  "compare_lists xs xs = Ord_Equal"
  "compare_lists ys xs = reversed (compare_lists xs ys)"
  "compare_lists xs ys = Ord_Less \<Longrightarrow> compare_lists ys zs = Ord_Less \<Longrightarrow> compare_lists xs zs = Ord_Less"
  "compare_lists xs ys = Ord_Equal \<Longrightarrow> compare_lists xs zs = compare_lists ys zs"
  by (rule compare_lists_self compare_self compare_lists_reversed compare_reversed
      compare_lists_trans compare_trans compare_lists_equal_left compare_equal_left; assumption?)+

interpretation factor_order: comparison factor_compare
proof
  fix x y z :: "kterm list"
  show "factor_compare x x = Ord_Equal"
    by (simp add: factor_compare_def compare_lists_laws(1))
  show "factor_compare y x = reversed (factor_compare x y)"
    using compare_lists_laws(2) [of y x] by (simp add: factor_compare_def)
  show "factor_compare x z = Ord_Less" if "factor_compare x y = Ord_Less" "factor_compare y z = Ord_Less"
    using that compare_lists_laws(3) [of x y z] by (auto simp: factor_compare_def then_by_eq_Less)
  show "factor_compare x z = factor_compare y z" if "factor_compare x y = Ord_Equal"
    using that compare_lists_laws(4) [of x y z] by (simp add: factor_compare_def)
qed

text \<open>\<open>TypedTerm\<close> and \<open>TypedTermOrder\<close>.\<close>

datatype typed_term = TypedTerm (tt_type: int_type) (tt_term: kterm)

definition typed_term_less :: "typed_term \<Rightarrow> typed_term \<Rightarrow> bool" where
  "typed_term_less lhs rhs \<longleftrightarrow>
     (if width (tt_type lhs) \<noteq> width (tt_type rhs) then width (tt_type lhs) < width (tt_type rhs)
      else if signedness (tt_type lhs) \<noteq> signedness (tt_type rhs)
      then signedness_number (signedness (tt_type lhs)) < signedness_number (signedness (tt_type rhs))
      else compare (tt_term lhs) (tt_term rhs) = Ord_Less)"

definition typed_term_compare :: "typed_term \<Rightarrow> typed_term \<Rightarrow> ordering" where
  "typed_term_compare lhs rhs =
     then_by (compare_types (tt_type lhs) (tt_type rhs)) (compare (tt_term lhs) (tt_term rhs))"

lemma typed_term_less_compare: "typed_term_less lhs rhs \<longleftrightarrow> typed_term_compare lhs rhs = Ord_Less"
  by (auto simp: typed_term_less_def typed_term_compare_def compare_types_def then_by_eq_Less
      signedness_number_inj)

interpretation typed_term_order: comparison typed_term_compare
proof
  fix x y z :: typed_term
  show "typed_term_compare x x = Ord_Equal"
    by (simp add: typed_term_compare_def compare_types_three_way compare_self)
  show "typed_term_compare y x = reversed (typed_term_compare x y)"
    using compare_reversed [of "tt_term y" "tt_term x"]
    by (simp add: typed_term_compare_def compare_types_three_way)
  show "typed_term_compare x z = Ord_Less"
    if "typed_term_compare x y = Ord_Less" "typed_term_compare y z = Ord_Less"
    using that compare_trans [of "tt_term x" "tt_term y" "tt_term z"]
    by (auto simp: typed_term_compare_def compare_types_three_way then_by_eq_Less)
  show "typed_term_compare x z = typed_term_compare y z" if "typed_term_compare x y = Ord_Equal"
    using that compare_equal_left [of "tt_term x" "tt_term y" "tt_term z"]
    by (simp add: typed_term_compare_def compare_types_three_way)
qed

text \<open>Keys the maps take for the same key are the same key, on admitted terms.\<close>

lemma factor_less_identity:
  assumes "\<not> factor_less xs ys" and "\<not> factor_less ys xs"
    and "\<forall>x \<in> set xs. supported_domains x" and "\<forall>y \<in> set ys. supported_domains y"
  shows "xs = ys"
proof -
  have "factor_compare xs ys = Ord_Equal"
    using assms(1,2) factor_order.neither_less_iff [of xs ys] by (simp add: factor_less_compare)
  then have "compare_lists xs ys = Ord_Equal" by (simp add: factor_compare_def)
  then show ?thesis using assms(3,4) by (intro compare_lists_identity) (auto intro: compare_identity)
qed

lemma typed_term_less_identity:
  assumes "\<not> typed_term_less x y" and "\<not> typed_term_less y x"
    and "supported_domains (tt_term x)" and "supported_domains (tt_term y)"
  shows "x = y"
proof -
  have "typed_term_compare x y = Ord_Equal"
    using assms(1,2) typed_term_order.neither_less_iff [of x y] by (simp add: typed_term_less_compare)
  then show ?thesis
    using compare_identity assms(3,4)
    by (simp add: typed_term_compare_def compare_types_three_way typed_term.expand)
qed

end
