(* ===== verification/Kernel_Arith.thy ===== *)
theory Kernel_Arith
  imports Kernel_Order
begin

text \<open>
  Polynomial normal forms (kernel/include/cppl/kernel/arithmetic.hpp,
  kernel/src/arithmetic.cpp): residues, the reader, the rendering, and the normal form of
  each primitive.
\<close>

section \<open>Residues\<close>

definition residue_mask :: "int_type \<Rightarrow> u64" where
  "residue_mask type = (if 64 \<le> width type then NOT 0 else push_bit (width type) 1 - 1)"

text \<open>Only read for a width of at least one, where the code's shift is defined.\<close>

definition half :: "int_type \<Rightarrow> u64" where
  "half type = push_bit (width type - 1) 1"

definition literal_of :: "int_type \<Rightarrow> u64 \<Rightarrow> kterm" where
  "literal_of type bits = Literal type (wrap_into type (uint bits))"

definition lowest :: "int_type \<Rightarrow> wide" where
  "lowest type = (if signedness type = Signed then - uint (half type) else 0)"

definition highest :: "int_type \<Rightarrow> wide" where
  "highest type =
     (if signedness type = Signed then uint (half type) - 1 else uint (residue_mask type))"

definition value_of :: "int_type \<Rightarrow> u64 \<Rightarrow> wide" where
  "value_of type bits =
     (let bits = bits AND residue_mask type
      in if signedness type = Signed \<and> half type \<le> bits then uint bits - 2 ^ width type
         else uint bits)"

definition bits_of :: "int_type \<Rightarrow> wide \<Rightarrow> u64" where
  "bits_of type v = ucast (word_of_int v :: u128) AND residue_mask type"

section \<open>Polynomials\<close>

record monomial =
  factors :: "kterm list"
  coefficient :: u64

record polynomial =
  poly_type :: int_type
  monomials :: "monomial list"
  poly_constant :: u64

text \<open>\<open>Work\<close>: a polynomial while it is built, its monomials keyed by their factors.\<close>

record work =
  work_type :: int_type
  work_terms :: "(kterm list, u64) omap"
  work_constant :: u64

definition spend :: "core_limits \<Rightarrow> u64 \<Rightarrow> u64 \<Rightarrow> core_error + u64" where
  "spend limits amount steps =
     (let steps = steps + amount
      in if max_normalization_steps limits < steps
         then Inl (CoreError NormalizationBudgetExhausted ''normalization exceeded its step budget'')
         else Inr steps)"

definition accumulate ::
  "int_type \<Rightarrow> core_limits \<Rightarrow> work \<Rightarrow> kterm list \<Rightarrow> u64 \<Rightarrow> core_error + work" where
  "accumulate type limits into fs c =
     (let c = c AND residue_mask type
      in if c = 0 then Inr into
         else if fs = [] then Inr (into\<lparr>work_constant := (work_constant into + c) AND residue_mask type\<rparr>)
         else
           let terms = omap_emplace factor_less fs 0 (work_terms into);
               entry = (case omap_find factor_less fs terms of Some v \<Rightarrow> v | None \<Rightarrow> 0);
               entry = (entry + c) AND residue_mask type;
               terms = (if entry = 0 then omap_erase factor_less fs terms
                        else omap_put factor_less fs entry terms)
           in if unat (max_polynomial_terms limits) < length terms
              then Inl (CoreError NormalizationBudgetExhausted
                     (''a polynomial has more than '' @
                      string_of_nat (unat (max_polynomial_terms limits)) @ '' terms''))
              else Inr (into\<lparr>work_terms := terms\<rparr>))"

text \<open>The loop of \<open>sum\<close> over the terms that are added.\<close>

fun add_terms ::
  "int_type \<Rightarrow> core_limits \<Rightarrow> u64 \<Rightarrow> (kterm list, u64) omap \<Rightarrow> work \<Rightarrow> core_error + work" where
  "add_terms type limits scale [] into = Inr into"
| "add_terms type limits scale ((fs, c) # added) into =
     bind_ok (accumulate type limits into fs (c * scale)) (add_terms type limits scale added)"

definition work_sum :: "int_type \<Rightarrow> core_limits \<Rightarrow> work \<Rightarrow> work \<Rightarrow> u64 \<Rightarrow> core_error + work" where
  "work_sum type limits into added scale =
     bind_ok (add_terms type limits scale (work_terms added) into) (\<lambda>into.
       Inr (into\<lparr>work_constant :=
         (work_constant into + work_constant added * scale) AND residue_mask type\<rparr>))"

text \<open>\<open>std::ranges::merge\<close>: of two equal factors the one of the left list comes first.\<close>

fun merge_factors :: "kterm list \<Rightarrow> kterm list \<Rightarrow> kterm list" where
  "merge_factors [] ys = ys"
| "merge_factors xs [] = xs"
| "merge_factors (x # xs) (y # ys) =
     (if compare y x = Ord_Less then y # merge_factors (x # xs) ys
      else x # merge_factors xs (y # ys))"

text \<open>The lambda \<open>each\<close> of \<open>product\<close>: the terms, then the constant where it is not zero.\<close>

definition each_term :: "work \<Rightarrow> (kterm list \<times> u64) list" where
  "each_term w =
     work_terms w @ (if work_constant w \<noteq> 0 then [([], work_constant w)] else [])"

text \<open>The inner and the outer loop of \<open>product\<close>.\<close>

fun product_row ::
  "int_type \<Rightarrow> core_limits \<Rightarrow> kterm list \<Rightarrow> u64 \<Rightarrow> (kterm list \<times> u64) list \<Rightarrow> work \<Rightarrow> u64 \<Rightarrow>
     core_error + work \<times> u64" where
  "product_row type limits lf lc [] acc steps = Inr (acc, steps)"
| "product_row type limits lf lc ((rf, rc) # right) acc steps =
     bind_ok (spend limits 1 steps) (\<lambda>steps.
       if unat (max_monomial_degree limits) < length lf + length rf
       then Inl (CoreError NormalizationBudgetExhausted
              (''a monomial has more than '' @
               string_of_nat (unat (max_monomial_degree limits)) @ '' factors''))
       else bind_ok (accumulate type limits acc (merge_factors lf rf) (lc * rc)) (\<lambda>acc.
              product_row type limits lf lc right acc steps))"

fun product_rows ::
  "int_type \<Rightarrow> core_limits \<Rightarrow> (kterm list \<times> u64) list \<Rightarrow> (kterm list \<times> u64) list \<Rightarrow> work \<Rightarrow> u64 \<Rightarrow>
     core_error + work \<times> u64" where
  "product_rows type limits [] right acc steps = Inr (acc, steps)"
| "product_rows type limits ((lf, lc) # left) right acc steps =
     bind_ok (product_row type limits lf lc right acc steps) (\<lambda>(acc, steps).
       product_rows type limits left right acc steps)"

definition work_product ::
  "int_type \<Rightarrow> core_limits \<Rightarrow> work \<Rightarrow> work \<Rightarrow> u64 \<Rightarrow> core_error + work \<times> u64" where
  "work_product type limits lhs rhs steps =
     product_rows type limits (each_term lhs) (each_term rhs)
       \<lparr>work_type = type, work_terms = [], work_constant = 0\<rparr> steps"

definition opaque :: "int_type \<Rightarrow> kterm \<Rightarrow> work" where
  "opaque type t = \<lparr>work_type = type, work_terms = [([t], 1)], work_constant = 0\<rparr>"

text \<open>
  \<open>Reader::read\<close>. The depth is tested and a step spent first, whatever the term is.
\<close>

definition begin_read :: "core_limits \<Rightarrow> nat \<Rightarrow> u64 \<Rightarrow> core_error + u64" where
  "begin_read limits depth steps =
     (if unat (max_term_depth limits) < depth
      then Inl (CoreError DepthLimitExceeded ''arithmetic nests deeper than the core allows'')
      else spend limits 1 steps)"

fun read_term ::
  "int_type \<Rightarrow> core_limits \<Rightarrow> kterm \<Rightarrow> nat \<Rightarrow> u64 \<Rightarrow> core_error + work \<times> u64" where
  "read_term type limits (Literal t v) depth steps =
     bind_ok (begin_read limits depth steps) (\<lambda>steps.
       if t = type
       then Inr (\<lparr>work_type = type, work_terms = [], work_constant = bits_of type v\<rparr>, steps)
       else Inr (opaque type (Literal t v), steps))"
| "read_term type limits (Prim op t [a, b]) depth steps =
     bind_ok (begin_read limits depth steps) (\<lambda>steps.
       if is_arithmetic op \<and> t = type
       then bind_ok (read_term type limits a (Suc depth) steps) (\<lambda>(lhs, steps).
            bind_ok (read_term type limits b (Suc depth) steps) (\<lambda>(rhs, steps).
              if op = AddWrap
              then bind_ok (work_sum type limits lhs rhs 1) (\<lambda>w. Inr (w, steps))
              else if op = SubWrap
              then bind_ok (work_sum type limits lhs rhs (residue_mask type)) (\<lambda>w. Inr (w, steps))
              else work_product type limits lhs rhs steps))
       else Inr (opaque type (Prim op t [a, b]), steps))"
| "read_term type limits t depth steps =
     bind_ok (begin_read limits depth steps) (\<lambda>steps. Inr (opaque type t, steps))"

definition finish_work :: "work \<Rightarrow> polynomial" where
  "finish_work w =
     \<lparr>poly_type = work_type w,
      monomials = map (\<lambda>(fs, c). \<lparr>factors = fs, coefficient = c\<rparr>) (work_terms w),
      poly_constant = work_constant w\<rparr>"

definition read_polynomial :: "kterm \<Rightarrow> int_type \<Rightarrow> core_limits \<Rightarrow> core_error + polynomial" where
  "read_polynomial normal type limits =
     (if \<not> is_supported_int type
      then Inl (CoreError MalformedType ''polynomial over an unsupported integer type'')
      else bind_ok (read_term type limits normal 0 0) (\<lambda>(w, steps). Inr (finish_work w)))"

section \<open>Rendering\<close>

definition residue_negated :: "int_type \<Rightarrow> u64 \<Rightarrow> u64" where
  "residue_negated type c = (NOT c + 1) AND residue_mask type"

definition negated_polynomial :: "polynomial \<Rightarrow> polynomial" where
  "negated_polynomial p =
     p\<lparr>monomials := map (\<lambda>m. m\<lparr>coefficient := residue_negated (poly_type p) (coefficient m)\<rparr>) (monomials p),
       poly_constant := residue_negated (poly_type p) (poly_constant p)\<rparr>"

text \<open>The code takes the front of its argument, which no caller passes empty.\<close>

definition render_factors :: "int_type \<Rightarrow> kterm list \<Rightarrow> kterm" where
  "render_factors type fs = foldl (\<lambda>product f. Prim MulWrap type [product, f]) (hd fs) (tl fs)"

definition is_negative :: "int_type \<Rightarrow> u64 \<Rightarrow> bool" where
  "is_negative type c \<longleftrightarrow> half type < c"

definition scaled_term :: "int_type \<Rightarrow> kterm list \<Rightarrow> u64 \<Rightarrow> kterm" where
  "scaled_term type fs c =
     (if c = 1 then render_factors type fs
      else Prim MulWrap type [literal_of type c, render_factors type fs])"

fun render_positive :: "int_type \<Rightarrow> monomial list \<Rightarrow> kterm option \<Rightarrow> kterm option" where
  "render_positive type [] acc = acc"
| "render_positive type (m # ms) acc =
     (if is_negative type (coefficient m) then render_positive type ms acc
      else
        let t = scaled_term type (factors m) (coefficient m)
        in render_positive type ms
             (Some (case acc of Some s \<Rightarrow> Prim AddWrap type [s, t] | None \<Rightarrow> t)))"

fun render_negative :: "int_type \<Rightarrow> monomial list \<Rightarrow> kterm option \<Rightarrow> kterm option" where
  "render_negative type [] acc = acc"
| "render_negative type (m # ms) acc =
     (if \<not> is_negative type (coefficient m) then render_negative type ms acc
      else
        let t = scaled_term type (factors m) (residue_negated type (coefficient m));
            minuend = (case acc of Some s \<Rightarrow> s | None \<Rightarrow> literal_of type 0)
        in render_negative type ms (Some (Prim SubWrap type [minuend, t])))"

definition render :: "polynomial \<Rightarrow> kterm" where
  "render p =
     (let type = poly_type p;
          acc = render_negative type (monomials p) (render_positive type (monomials p) None);
          c = poly_constant p
      in if c \<noteq> 0
         then (case acc of
             None \<Rightarrow> literal_of type c
           | Some s \<Rightarrow>
               if is_negative type c
               then Prim SubWrap type [s, literal_of type (residue_negated type c)]
               else Prim AddWrap type [s, literal_of type c])
         else (case acc of Some s \<Rightarrow> s | None \<Rightarrow> literal_of type 0))"

section \<open>Primitives\<close>

fun literal_payload :: "kterm \<Rightarrow> wide option" where
  "literal_payload (Literal type v) = Some v"
| "literal_payload _ = None"

fun negate :: "kterm \<Rightarrow> kterm" where
  "negate (Literal type v) = Literal kBoolean (if v = 0 then 1 else 0)"
| "negate (Prim op type [a]) =
     (if op = NotOp then a else Prim NotOp kBoolean [Prim op type [a]])"
| "negate t = Prim NotOp kBoolean [t]"

definition less_term :: "int_type \<Rightarrow> kterm \<Rightarrow> kterm \<Rightarrow> kterm" where
  "less_term type lhs rhs =
     (let left = map_option (\<lambda>v. value_of type (bits_of type v)) (literal_payload lhs);
          right = map_option (\<lambda>v. value_of type (bits_of type v)) (literal_payload rhs)
      in case (left, right) of
           (Some a, Some b) \<Rightarrow> Literal kBoolean (if a < b then 1 else 0)
         | _ \<Rightarrow>
             if lhs = rhs then Literal kBoolean 0
             else if right = Some (lowest type) then Literal kBoolean 0
             else if left = Some (highest type) then Literal kBoolean 0
             else Prim Less type [lhs, rhs])"

fun literal_value :: "kterm \<Rightarrow> int_type \<Rightarrow> wide option" where
  "literal_value (Literal t v) type = (if t = type then Some (value_of type (bits_of type v)) else None)"
| "literal_value _ type = None"

definition representability :: "prim_op \<Rightarrow> int_type \<Rightarrow> kterm \<Rightarrow> kterm \<Rightarrow> kterm" where
  "representability op type a b =
     (case (literal_value a type, literal_value b type) of
        (Some lhs, Some rhs) \<Rightarrow>
          (let exact = (if op = AddFits then wide_add lhs rhs
                        else if op = SubFits then wide_sub lhs rhs else wide_mul lhs rhs)
           in Literal kBoolean
                (case exact of Some e \<Rightarrow> if is_representable type e then 1 else 0 | None \<Rightarrow> 0))
      | _ \<Rightarrow>
          if op \<noteq> SubFits \<and> compare b a = Ord_Less then Prim op type [b, a]
          else Prim op type [a, b])"

fun conversion :: "int_type \<Rightarrow> kterm \<Rightarrow> kterm" where
  "conversion type (Literal t v) =
     (if is_supported_int t then Literal type (wrap_into type (value_of t (bits_of t v)))
      else Prim Convert type [Literal t v])"
| "conversion type t = Prim Convert type [t]"

definition normalize_select :: "int_type \<Rightarrow> kterm \<Rightarrow> kterm \<Rightarrow> kterm \<Rightarrow> kterm" where
  "normalize_select type c a b =
     (case c of
        Literal t v \<Rightarrow>
          if t = kBoolean \<and> (v = 0 \<or> v = 1) then (if v = 1 then a else b)
          else if a = b then a else Prim Select type [c, a, b]
      | Prim op t [x] \<Rightarrow>
          if a = b then a
          else if op = NotOp then Prim Select type [x, b, a] else Prim Select type [c, a, b]
      | _ \<Rightarrow> if a = b then a else Prim Select type [c, a, b])"

definition normalize_ring ::
  "prim_op \<Rightarrow> int_type \<Rightarrow> kterm list \<Rightarrow> core_limits \<Rightarrow> u64 \<Rightarrow> core_error + kterm \<times> u64" where
  "normalize_ring op type operands limits steps =
     bind_ok (read_term type limits (Prim op type operands) 0 steps) (\<lambda>(w, steps).
       Inr (render (finish_work w), steps))"

definition normalize_equality ::
  "prim_op \<Rightarrow> int_type \<Rightarrow> kterm \<Rightarrow> kterm \<Rightarrow> core_limits \<Rightarrow> u64 \<Rightarrow> core_error + kterm \<times> u64" where
  "normalize_equality op type a b limits steps =
     bind_ok (read_term type limits a 0 steps) (\<lambda>(lhs, steps).
     bind_ok (read_term type limits b 0 steps) (\<lambda>(rhs, steps).
     bind_ok (work_sum type limits lhs rhs (residue_mask type)) (\<lambda>difference.
       let p = finish_work difference;
           equal = (if monomials p \<noteq> []
             then (let positive = render p; opposite = render (negated_polynomial p)
                   in Prim Equal type
                        [if compare positive opposite \<noteq> Ord_Greater then positive else opposite,
                         literal_of type 0])
             else Literal kBoolean (if poly_constant p = 0 then 1 else 0))
       in Inr (if op = Equal then equal else negate equal, steps))))"

definition normalize_division ::
  "prim_op \<Rightarrow> int_type \<Rightarrow> kterm \<Rightarrow> kterm \<Rightarrow> core_limits \<Rightarrow> u64 \<Rightarrow> core_error + kterm \<times> u64" where
  "normalize_division op type a b limits steps =
     (let quot = (op = Quotient);
          dividend = literal_value a type;
          divisor = literal_value b type
      in if divisor = Some 0 then Inr (if quot then Literal type 0 else a, steps)
         else case (dividend, divisor) of
           (Some n, Some d) \<Rightarrow>
             Inr (Literal type (if quot then wrap_into type (divide n d) else remainder n d), steps)
         | _ \<Rightarrow>
             if dividend = Some 0 then Inr (Literal type 0, steps)
             else if divisor = Some 1 then Inr (if quot then a else Literal type 0, steps)
             else if divisor = Some (- 1)
             then (if \<not> quot then Inr (Literal type 0, steps)
                   else normalize_ring SubWrap type [Literal type 0, a] limits steps)
             else Inr (Prim op type [a, b], steps))"

definition normalize_primitive ::
  "prim_op \<Rightarrow> int_type \<Rightarrow> kterm list \<Rightarrow> core_limits \<Rightarrow> u64 \<Rightarrow> core_error + kterm \<times> u64" where
  "normalize_primitive op type operands limits steps =
     (if length operands \<noteq> arity op \<or> \<not> is_supported_int type
      then Inr (Prim op type operands, steps)
      else if is_arithmetic op then normalize_ring op type operands limits steps
      else case op of
        NotOp \<Rightarrow> Inr (negate (operands ! 0), steps)
      | Select \<Rightarrow> Inr (normalize_select type (operands ! 0) (operands ! 1) (operands ! 2), steps)
      | Equal \<Rightarrow> normalize_equality op type (operands ! 0) (operands ! 1) limits steps
      | NotEqual \<Rightarrow> normalize_equality op type (operands ! 0) (operands ! 1) limits steps
      | Less \<Rightarrow> Inr (less_term type (operands ! 0) (operands ! 1), steps)
      | Greater \<Rightarrow> Inr (less_term type (operands ! 1) (operands ! 0), steps)
      | LessEqual \<Rightarrow> Inr (negate (less_term type (operands ! 1) (operands ! 0)), steps)
      | GreaterEqual \<Rightarrow> Inr (negate (less_term type (operands ! 0) (operands ! 1)), steps)
      | AddFits \<Rightarrow> Inr (representability op type (operands ! 0) (operands ! 1), steps)
      | SubFits \<Rightarrow> Inr (representability op type (operands ! 0) (operands ! 1), steps)
      | MulFits \<Rightarrow> Inr (representability op type (operands ! 0) (operands ! 1), steps)
      | Quotient \<Rightarrow> normalize_division op type (operands ! 0) (operands ! 1) limits steps
      | Remainder \<Rightarrow> normalize_division op type (operands ! 0) (operands ! 1) limits steps
      | Convert \<Rightarrow> Inr (conversion type (operands ! 0), steps)
      | _ \<Rightarrow> Inr (Prim op type operands, steps))"

end
