(* ===== verification/Kernel_Context.thy ===== *)
theory Kernel_Context
  imports Kernel_Arith
begin

text \<open>
  Typing, the admission of definitions, unfolding and normalization
  (kernel/include/cppl/kernel/context.hpp, kernel/src/context.cpp). Both the typing and the
  normalization test their depth first; \<open>Context::define\<close> checks a body against the
  definitions admitted so far.
\<close>

section \<open>Typing\<close>

definition validate_type :: "ktype \<Rightarrow> core_error + unit" where
  "validate_type \<tau> =
     (if \<not> is_supported \<tau> then Inl (CoreError MalformedType ''unsupported or malformed core type'')
      else Inr ())"

definition depth_ok :: "core_limits \<Rightarrow> nat \<Rightarrow> string \<Rightarrow> core_error + unit" where
  "depth_ok limits depth detail =
     (if unat (max_term_depth limits) < depth then Inl (CoreError DepthLimitExceeded detail) else Inr ())"

abbreviation typing_depth :: "core_limits \<Rightarrow> nat \<Rightarrow> core_error + unit" where
  "typing_depth limits depth \<equiv> depth_ok limits depth ''term nests deeper than the core allows''"

text \<open>The types a primitive's operands must have; a conversion's is its operand's own.\<close>

definition operand_types :: "prim_op \<Rightarrow> int_type \<Rightarrow> ktype list" where
  "operand_types op type =
     map (\<lambda>index. if op = Select \<and> index = 0 then Int_Type kBoolean else Int_Type type) [0..<arity op]"

definition result_type :: "prim_op \<Rightarrow> int_type \<Rightarrow> ktype" where
  "result_type op type =
     (if is_comparison op \<or> is_representability op then Int_Type kBoolean else Int_Type type)"

definition call_mismatch :: "nat \<Rightarrow> nat \<Rightarrow> ktype \<Rightarrow> ktype \<Rightarrow> core_error" where
  "call_mismatch callee index expected actual =
     CoreError TypeMismatch
       (''argument '' @ string_of_nat index @ '' of def#'' @ string_of_nat callee @ '' has type '' @
        describe_type actual @ '' but '' @ describe_type expected @ '' is required'')"

definition prim_mismatch :: "prim_op \<Rightarrow> nat \<Rightarrow> ktype \<Rightarrow> ktype \<Rightarrow> core_error" where
  "prim_mismatch op index expected actual =
     CoreError TypeMismatch
       (describe_op op @ '' operates on '' @ describe_type expected @ '' but received '' @
        describe_type actual)"

text \<open>
  \<open>type_of_impl\<close>, and its loop over arguments, which types one argument and compares its
  type before it looks at the next.
\<close>

fun type_of_impl ::
  "kcontext \<Rightarrow> ktype list \<Rightarrow> core_limits \<Rightarrow> kterm \<Rightarrow> nat \<Rightarrow> core_error + ktype"
  and check_arguments ::
  "kcontext \<Rightarrow> ktype list \<Rightarrow> core_limits \<Rightarrow> (nat \<Rightarrow> ktype \<Rightarrow> ktype \<Rightarrow> core_error) \<Rightarrow> nat \<Rightarrow>
     ktype list \<Rightarrow> kterm list \<Rightarrow> nat \<Rightarrow> core_error + unit" where
  "type_of_impl \<Gamma> L limits (Var i) depth =
     bind_ok (typing_depth limits depth) (\<lambda>_.
       if length L \<le> i
       then Inl (CoreError VariableOutOfScope
              (''variable #'' @ string_of_nat i @ '' has no enclosing binder''))
       else bind_ok (validate_type (L ! (length L - 1 - i))) (\<lambda>_. Inr (L ! (length L - 1 - i))))"
| "type_of_impl \<Gamma> L limits (Literal type v) depth =
     bind_ok (typing_depth limits depth) (\<lambda>_.
     bind_ok (validate_type (Int_Type type)) (\<lambda>_.
       if \<not> is_representable type v
       then Inl (CoreError MalformedLiteral
              (''literal '' @ describe_wide v @ '' is not representable in '' @ describe_int_type type))
       else Inr (Int_Type type)))"
| "type_of_impl \<Gamma> L limits (Call callee arguments) depth =
     bind_ok (typing_depth limits depth) (\<lambda>_.
       case lookup \<Gamma> callee of
         None \<Rightarrow> Inl (CoreError UnknownDefinition (''def#'' @ string_of_nat callee @ '' is not defined''))
       | Some d \<Rightarrow>
           if length (parameters d) \<noteq> length arguments
           then Inl (CoreError ArityMismatch
                  (''def#'' @ string_of_nat callee @ '' expects '' @
                   string_of_nat (length (parameters d)) @ '' arguments but received '' @
                   string_of_nat (length arguments)))
           else bind_ok (check_arguments \<Gamma> L limits (call_mismatch callee) 0 (parameters d)
                  arguments (Suc depth)) (\<lambda>_. Inr (result d)))"
| "type_of_impl \<Gamma> L limits (Projection domain index arguments) depth =
     bind_ok (typing_depth limits depth) (\<lambda>_.
       if \<not> is_supported domain \<or> \<not> is_value domain
       then Inl (CoreError MalformedType ''projection requires a valid abstract domain'')
       else if length (projections domain) \<le> index
       then Inl (CoreError MalformedPrimitive ''projection index is outside its signature'')
       else if length arguments \<noteq> 1
       then Inl (CoreError ArityMismatch ''projection requires exactly one subject'')
       else bind_ok (check_arguments \<Gamma> L limits
              (\<lambda>_ _ _. CoreError TypeMismatch ''projection subject does not match its domain signature'')
              0 [domain] arguments (Suc depth))
              (\<lambda>_. Inr (projections domain ! index)))"
| "type_of_impl \<Gamma> L limits (Element domain arguments) depth =
     bind_ok (typing_depth limits depth) (\<lambda>_.
       if \<not> is_supported domain \<or> \<not> is_indexed domain
       then Inl (CoreError MalformedType ''element requires a valid indexed domain'')
       else (case arguments of
           [subject, index] \<Rightarrow>
             bind_ok (type_of_impl \<Gamma> L limits subject (Suc depth)) (\<lambda>\<tau>.
               if \<tau> \<noteq> domain
               then Inl (CoreError TypeMismatch ''element subject does not match its indexed domain'')
               else bind_ok (type_of_impl \<Gamma> L limits index (Suc depth)) (\<lambda>\<sigma>.
                 if \<not> is_integer \<sigma>
                 then Inl (CoreError TypeMismatch ''element index must be an integer'')
                 else Inr (element domain ! 0)))
         | _ \<Rightarrow> Inl (CoreError ArityMismatch ''element requires exactly one subject and one index'')))"
| "type_of_impl \<Gamma> L limits (Prim op type arguments) depth =
     bind_ok (typing_depth limits depth) (\<lambda>_.
     bind_ok (validate_type (Int_Type type)) (\<lambda>_.
       if op = NotOp \<and> type \<noteq> kBoolean
       then Inl (CoreError TypeMismatch ''negation requires a boolean'')
       else if length arguments \<noteq> arity op
       then Inl (CoreError ArityMismatch
              (describe_op op @ '' expects '' @ string_of_nat (arity op) @ '' arguments but received '' @
               string_of_nat (length arguments)))
       else if op = Convert
       then (case arguments of
           [a] \<Rightarrow> bind_ok (type_of_impl \<Gamma> L limits a (Suc depth)) (\<lambda>\<tau>.
             if \<not> is_integer \<tau>
             then Inl (CoreError TypeMismatch
                    (''convert operates on an integer but received '' @ describe_type \<tau>))
             else Inr (Int_Type type))
         | _ \<Rightarrow> Inl (CoreError ArityMismatch ''''))
       else bind_ok (check_arguments \<Gamma> L limits (prim_mismatch op) 0 (operand_types op type)
              arguments (Suc depth)) (\<lambda>_. Inr (result_type op type))))"
| "check_arguments \<Gamma> L limits mismatch index (e # es) (a # as) depth =
     bind_ok (type_of_impl \<Gamma> L limits a depth) (\<lambda>\<tau>.
       if \<tau> \<noteq> e then Inl (mismatch index e \<tau>)
       else check_arguments \<Gamma> L limits mismatch (Suc index) es as depth)"
| "check_arguments \<Gamma> L limits mismatch index es as depth = Inr ()"

definition type_of :: "kcontext \<Rightarrow> ktype list \<Rightarrow> kterm \<Rightarrow> core_limits \<Rightarrow> core_error + ktype" where
  "type_of \<Gamma> L t limits = type_of_impl \<Gamma> L limits t 0"

section \<open>Admission of definitions\<close>

fun validate_types :: "ktype list \<Rightarrow> core_error + unit" where
  "validate_types [] = Inr ()"
| "validate_types (\<tau> # \<tau>s) = bind_ok (validate_type \<tau>) (\<lambda>_. validate_types \<tau>s)"

text \<open>\<open>Context::define\<close>: the context with the definition added, or the reason it is refused.\<close>

definition define_in :: "kcontext \<Rightarrow> kdefinition \<Rightarrow> core_error + kcontext" where
  "define_in \<Gamma> d =
     (if lookup \<Gamma> (def_id d) \<noteq> None
      then Inl (CoreError DuplicateDefinition
             (''def#'' @ string_of_nat (def_id d) @ '' is already defined''))
      else bind_ok (validate_types (parameters d)) (\<lambda>_.
           bind_ok (validate_type (result d)) (\<lambda>_.
           bind_ok (type_of_impl \<Gamma> (parameters d) default_limits (body d) 0) (\<lambda>\<tau>.
             if \<tau> \<noteq> result d
             then Inl (CoreError TypeMismatch
                    (''definition '' @ [char_of (39 :: nat)] @ def_name d @ [char_of (39 :: nat)] @
                     '' returns '' @ describe_type \<tau> @ '' but declares '' @ describe_type (result d)))
             else Inr (\<Gamma> @ [d])))))"

text \<open>The contexts a client can build, starting from an empty one.\<close>

inductive built :: "kcontext \<Rightarrow> bool" where
  built_empty: "built []"
| built_define: "built \<Gamma> \<Longrightarrow> define_in \<Gamma> d = Inr \<Gamma>' \<Longrightarrow> built \<Gamma>'"

section \<open>Normalization\<close>

abbreviation substitution_depth :: "core_limits \<Rightarrow> nat \<Rightarrow> core_error + unit" where
  "substitution_depth limits depth \<equiv>
     depth_ok limits depth ''substitution nests deeper than the core allows''"

fun substitute :: "kterm \<Rightarrow> kterm list \<Rightarrow> core_limits \<Rightarrow> nat \<Rightarrow> core_error + kterm"
  and substitute_list :: "kterm list \<Rightarrow> kterm list \<Rightarrow> core_limits \<Rightarrow> nat \<Rightarrow> core_error + kterm list" where
  "substitute (Var i) arguments limits depth =
     bind_ok (substitution_depth limits depth) (\<lambda>_.
       if length arguments \<le> i
       then Inl (CoreError VariableOutOfScope
              (''definition body references variable #'' @ string_of_nat i @
               '' which is not one of its parameters''))
       else Inr (arguments ! (length arguments - 1 - i)))"
| "substitute (Literal type v) arguments limits depth =
     bind_ok (substitution_depth limits depth) (\<lambda>_. Inr (Literal type v))"
| "substitute (Call callee ts) arguments limits depth =
     bind_ok (substitution_depth limits depth) (\<lambda>_.
     bind_ok (substitute_list ts arguments limits (Suc depth)) (\<lambda>ts. Inr (Call callee ts)))"
| "substitute (Prim op type ts) arguments limits depth =
     bind_ok (substitution_depth limits depth) (\<lambda>_.
     bind_ok (substitute_list ts arguments limits (Suc depth)) (\<lambda>ts. Inr (Prim op type ts)))"
| "substitute (Projection domain index ts) arguments limits depth =
     bind_ok (substitution_depth limits depth) (\<lambda>_.
     bind_ok (substitute_list ts arguments limits (Suc depth)) (\<lambda>ts. Inr (Projection domain index ts)))"
| "substitute (Element domain ts) arguments limits depth =
     bind_ok (substitution_depth limits depth) (\<lambda>_.
     bind_ok (substitute_list ts arguments limits (Suc depth)) (\<lambda>ts. Inr (Element domain ts)))"
| "substitute_list [] arguments limits depth = Inr []"
| "substitute_list (t # ts) arguments limits depth =
     bind_ok (substitute t arguments limits depth) (\<lambda>t.
     bind_ok (substitute_list ts arguments limits depth) (\<lambda>ts. Inr (t # ts)))"

text \<open>The two tests at the head of \<open>normalize_impl\<close>.\<close>

definition begin_normalize :: "core_limits \<Rightarrow> u64 \<Rightarrow> nat \<Rightarrow> core_error + unit" where
  "begin_normalize limits steps depth =
     (if unat (max_term_depth limits) < depth
      then Inl (CoreError DepthLimitExceeded ''normalization nests deeper than the core allows'')
      else if max_normalization_steps limits < steps
      then Inl (CoreError NormalizationBudgetExhausted ''normalization exceeded its step budget'')
      else Inr ())"

lemma begin_normalize_ok:
  "begin_normalize limits steps depth = Inr x \<longleftrightarrow>
     depth \<le> unat (max_term_depth limits) \<and> steps \<le> max_normalization_steps limits"
  by (auto simp: begin_normalize_def)

function normalize_impl ::
  "kcontext \<Rightarrow> core_limits \<Rightarrow> kterm \<Rightarrow> u64 \<Rightarrow> nat \<Rightarrow> core_error + kterm \<times> u64"
  and normalize_list ::
  "kcontext \<Rightarrow> core_limits \<Rightarrow> kterm list \<Rightarrow> u64 \<Rightarrow> nat \<Rightarrow> core_error + kterm list \<times> u64" where
  "normalize_impl \<Gamma> limits (Var i) steps depth =
     bind_ok (begin_normalize limits steps depth) (\<lambda>_. Inr (Var i, steps))"
| "normalize_impl \<Gamma> limits (Literal type v) steps depth =
     bind_ok (begin_normalize limits steps depth) (\<lambda>_. Inr (Literal type v, steps))"
| "normalize_impl \<Gamma> limits (Call callee arguments) steps depth =
     bind_ok (begin_normalize limits steps depth) (\<lambda>_.
       case lookup \<Gamma> callee of
         None \<Rightarrow> Inl (CoreError UnknownDefinition (''def#'' @ string_of_nat callee @ '' is not defined''))
       | Some d \<Rightarrow>
           if length (parameters d) \<noteq> length arguments
           then Inl (CoreError ArityMismatch
                  (''def#'' @ string_of_nat callee @ '' applied with the wrong number of arguments''))
           else bind_ok (normalize_list \<Gamma> limits arguments steps (Suc depth)) (\<lambda>(arguments, steps).
                bind_ok (substitute (body d) arguments limits (Suc depth)) (\<lambda>unfolded.
                  normalize_impl \<Gamma> limits unfolded (steps + 1) (Suc depth))))"
| "normalize_impl \<Gamma> limits (Prim op type arguments) steps depth =
     bind_ok (begin_normalize limits steps depth) (\<lambda>_.
     bind_ok (normalize_list \<Gamma> limits arguments steps (Suc depth)) (\<lambda>(arguments, steps).
       normalize_primitive op type arguments limits (steps + 1)))"
| "normalize_impl \<Gamma> limits (Projection domain index arguments) steps depth =
     bind_ok (begin_normalize limits steps depth) (\<lambda>_.
     bind_ok (normalize_list \<Gamma> limits arguments steps (Suc depth)) (\<lambda>(arguments, steps).
       if \<not> is_supported domain \<or> \<not> is_value domain \<or> length arguments \<noteq> 1 \<or>
          length (projections domain) \<le> index
       then Inl (CoreError MalformedPrimitive ''malformed projection'')
       else Inr (Projection domain index arguments, steps + 1)))"
| "normalize_impl \<Gamma> limits (Element domain arguments) steps depth =
     bind_ok (begin_normalize limits steps depth) (\<lambda>_.
     bind_ok (normalize_list \<Gamma> limits arguments steps (Suc depth)) (\<lambda>(arguments, steps).
       if \<not> is_supported domain \<or> \<not> is_indexed domain \<or> length arguments \<noteq> 2
       then Inl (CoreError MalformedPrimitive ''malformed element'')
       else Inr (Element domain arguments, steps + 1)))"
| "normalize_list \<Gamma> limits [] steps depth = Inr ([], steps)"
| "normalize_list \<Gamma> limits (t # ts) steps depth =
     bind_ok (normalize_impl \<Gamma> limits t steps depth) (\<lambda>(t, steps).
     bind_ok (normalize_list \<Gamma> limits ts steps depth) (\<lambda>(ts, steps). Inr (t # ts, steps)))"
  by pat_completeness auto
termination
  by (relation "measures
       [\<lambda>x. case x of Inl (\<Gamma>, limits, t, steps, depth) \<Rightarrow> Suc (unat (max_term_depth limits)) - depth
                    | Inr (\<Gamma>, limits, ts, steps, depth) \<Rightarrow> Suc (unat (max_term_depth limits)) - depth,
        \<lambda>x. case x of Inl _ \<Rightarrow> 0 | Inr (\<Gamma>, limits, ts, steps, depth) \<Rightarrow> Suc (length ts)]")
    (auto simp: begin_normalize_ok)

definition normalize :: "kcontext \<Rightarrow> kterm \<Rightarrow> core_limits \<Rightarrow> core_error + kterm" where
  "normalize \<Gamma> t limits = bind_ok (normalize_impl \<Gamma> limits t 0 0) (\<lambda>(t, steps). Inr t)"

end
