(* ===== verification/Kernel_Props.thy ===== *)
theory Kernel_Props
  imports Kernel_Terms
begin

text \<open>
  Propositions (kernel/include/cppl/kernel/proposition.hpp, kernel/src/proposition.cpp) and the
  two operations on de Bruijn indices, raising and substituting
  (kernel/include/cppl/kernel/substitution.hpp, kernel/src/substitution.cpp).
\<close>

section \<open>Propositions\<close>

datatype kprop =
    Eq ktype kterm kterm
  | Forall ktype kprop
  | Implies kprop kprop
  | And kprop kprop
  | Or kprop kprop
  | Falsity

fun is_eq :: "kprop \<Rightarrow> bool" where
  "is_eq (Eq _ _ _) = True"
| "is_eq _ = False"

text \<open>The loop of \<open>predicate\<close> that removes negations, and the result it builds.\<close>

fun strip_not :: "kterm \<Rightarrow> bool \<Rightarrow> kterm \<times> bool" where
  "strip_not (Prim op type [a]) positive =
     (if op = NotOp then strip_not a (\<not> positive) else (Prim op type [a], positive))"
| "strip_not t positive = (t, positive)"

fun stripped_predicate :: "kterm \<Rightarrow> bool \<Rightarrow> kprop" where
  "stripped_predicate (Prim op type [a, b]) positive =
     (if op = Equal \<or> op = NotEqual
      then (if positive = (op = Equal) then Eq (Int_Type type) a b
            else Eq (Int_Type kBoolean) (Prim Equal type [a, b]) (Literal kBoolean 0))
      else Eq (Int_Type kBoolean) (Prim op type [a, b]) (Literal kBoolean (if positive then 1 else 0)))"
| "stripped_predicate t positive =
     Eq (Int_Type kBoolean) t (Literal kBoolean (if positive then 1 else 0))"

definition predicate :: "kterm \<Rightarrow> bool \<Rightarrow> kprop" where
  "predicate condition positive =
     (case strip_not condition positive of (t, positive) \<Rightarrow> stripped_predicate t positive)"

fun describe_prop :: "kprop \<Rightarrow> string" where
  "describe_prop (Forall binder p) = ''forall '' @ describe_type binder @ ''. '' @ describe_prop p"
| "describe_prop (Implies p q) = ''('' @ describe_prop p @ '' -> '' @ describe_prop q @ '')''"
| "describe_prop (And p q) = ''('' @ describe_prop p @ '' && '' @ describe_prop q @ '')''"
| "describe_prop (Or p q) = ''('' @ describe_prop p @ '' || '' @ describe_prop q @ '')''"
| "describe_prop Falsity = ''False''"
| "describe_prop (Eq type lhs rhs) =
     ''Eq<'' @ describe_type type @ ''>('' @ describe_term lhs @ '', '' @ describe_term rhs @ '')''"

section \<open>Raising\<close>

text \<open>
  An index is a \<open>std::uint32_t\<close>, so raising it wraps. With \<open>amount = 0\<close> the code returns
  its argument before it looks at it.
\<close>

fun raise_term :: "nat \<Rightarrow> nat \<Rightarrow> kterm \<Rightarrow> kterm" where
  "raise_term amount cutoff (Var i) =
     (if i < cutoff then Var i else Var ((i + amount) mod 2 ^ 32))"
| "raise_term amount cutoff (Call callee arguments) =
     Call callee (map (raise_term amount cutoff) arguments)"
| "raise_term amount cutoff (Prim op type arguments) =
     Prim op type (map (raise_term amount cutoff) arguments)"
| "raise_term amount cutoff (Projection domain index arguments) =
     Projection domain index (map (raise_term amount cutoff) arguments)"
| "raise_term amount cutoff (Element domain arguments) =
     Element domain (map (raise_term amount cutoff) arguments)"
| "raise_term amount cutoff (Literal type v) = Literal type v"

definition shift_term :: "kterm \<Rightarrow> nat \<Rightarrow> nat \<Rightarrow> kterm" where
  "shift_term t amount cutoff = (if amount = 0 then t else raise_term amount cutoff t)"

fun raise_prop :: "nat \<Rightarrow> nat \<Rightarrow> kprop \<Rightarrow> kprop" where
  "raise_prop amount cutoff (Forall binder p) = Forall binder (raise_prop amount (cutoff + 1) p)"
| "raise_prop amount cutoff (Implies p q) =
     Implies (raise_prop amount cutoff p) (raise_prop amount cutoff q)"
| "raise_prop amount cutoff (And p q) =
     And (raise_prop amount cutoff p) (raise_prop amount cutoff q)"
| "raise_prop amount cutoff (Or p q) =
     Or (raise_prop amount cutoff p) (raise_prop amount cutoff q)"
| "raise_prop amount cutoff Falsity = Falsity"
| "raise_prop amount cutoff (Eq type lhs rhs) =
     Eq type (shift_term lhs amount cutoff) (shift_term rhs amount cutoff)"

definition shift_prop :: "kprop \<Rightarrow> nat \<Rightarrow> nat \<Rightarrow> kprop" where
  "shift_prop p amount cutoff = (if amount = 0 then p else raise_prop amount cutoff p)"

section \<open>Substituting\<close>

fun instantiate_term :: "kterm \<Rightarrow> kterm \<Rightarrow> nat \<Rightarrow> kterm" where
  "instantiate_term (Var i) argument depth =
     (if i = depth then shift_term argument depth 0
      else if depth < i then Var (i - 1) else Var i)"
| "instantiate_term (Call callee arguments) argument depth =
     Call callee (map (\<lambda>t. instantiate_term t argument depth) arguments)"
| "instantiate_term (Prim op type arguments) argument depth =
     Prim op type (map (\<lambda>t. instantiate_term t argument depth) arguments)"
| "instantiate_term (Projection domain index arguments) argument depth =
     Projection domain index (map (\<lambda>t. instantiate_term t argument depth) arguments)"
| "instantiate_term (Element domain arguments) argument depth =
     Element domain (map (\<lambda>t. instantiate_term t argument depth) arguments)"
| "instantiate_term (Literal type v) argument depth = Literal type v"

fun instantiate_prop :: "kprop \<Rightarrow> kterm \<Rightarrow> nat \<Rightarrow> kprop" where
  "instantiate_prop (Forall binder p) argument depth =
     Forall binder (instantiate_prop p argument (depth + 1))"
| "instantiate_prop (Implies p q) argument depth =
     Implies (instantiate_prop p argument depth) (instantiate_prop q argument depth)"
| "instantiate_prop (And p q) argument depth =
     And (instantiate_prop p argument depth) (instantiate_prop q argument depth)"
| "instantiate_prop (Or p q) argument depth =
     Or (instantiate_prop p argument depth) (instantiate_prop q argument depth)"
| "instantiate_prop Falsity argument depth = Falsity"
| "instantiate_prop (Eq type lhs rhs) argument depth =
     Eq type (instantiate_term lhs argument depth) (instantiate_term rhs argument depth)"

end
