(* ===== verification/Kernel_Proofs.thy ===== *)
theory Kernel_Proofs
  imports Kernel_Props
begin

text \<open>
  Proof terms, arithmetic certificates, and the premises of unsigned induction
  (kernel/include/cppl/kernel/proof.hpp, kernel/src/proof.cpp).
\<close>

section \<open>Certificates\<close>

text \<open>Positions and variables are \<open>std::uint32_t\<close>; a split's coefficients are \<open>std::int64_t\<close>.\<close>

datatype certificate =
    FarkasSum "(nat \<times> wide) list"
  | IntegerSplit "(nat \<times> u64) list" u64 certificate certificate
  | DisjunctionCases nat certificate certificate

section \<open>Proof terms\<close>

datatype proof_term =
    Reflexivity
  | ForallIntroduction ktype proof_term
  | ForallElimination kprop proof_term kterm
  | Hypothesis nat
  | ImplicationIntroduction kprop proof_term
  | ImplicationElimination kprop proof_term proof_term
  | EqualityElimination ktype kterm kterm kprop proof_term proof_term
  | ConditionalElimination ktype kterm kterm kterm kprop proof_term proof_term
  | LinearArithmetic "arithmetic_fact list" certificate
  | ConjunctionIntroduction proof_term proof_term
  | ConjunctionElimination kprop proof_term bool
  | DisjunctionIntroduction proof_term bool
  | DisjunctionElimination kprop proof_term proof_term proof_term
  | FalsityElimination proof_term
  | UnsignedInduction ktype proof_term proof_term
and arithmetic_fact = ArithmeticFact kprop proof_term

fun describe_proof :: "proof_term \<Rightarrow> string"
  and describe_fact :: "arithmetic_fact \<Rightarrow> string" where
  "describe_proof (LinearArithmetic facts c) =
     ''linear_arithmetic('' @ comma_separated (map describe_fact facts) @ '')''"
| "describe_proof (ConditionalElimination type condition when_true when_false motive p q) =
     ''conditional_elim('' @ describe_term condition @ '', '' @ describe_proof p @ '', '' @
     describe_proof q @ '')''"
| "describe_proof (ForallIntroduction binder p) =
     ''forall_intro('' @ describe_type binder @ '', '' @ describe_proof p @ '')''"
| "describe_proof (ForallElimination quantified p argument) =
     ''forall_elim('' @ describe_proof p @ '', '' @ describe_term argument @ '')''"
| "describe_proof (Hypothesis i) = ''hypothesis('' @ string_of_nat i @ '')''"
| "describe_proof (ImplicationIntroduction premise p) =
     ''implies_intro('' @ describe_prop premise @ '', '' @ describe_proof p @ '')''"
| "describe_proof (ImplicationElimination implication p q) =
     ''implies_elim('' @ describe_proof p @ '', '' @ describe_proof q @ '')''"
| "describe_proof (EqualityElimination type lhs rhs motive p q) =
     ''eq_elim('' @ describe_proof p @ '', '' @ describe_proof q @ '')''"
| "describe_proof (ConjunctionIntroduction p q) =
     ''and_intro('' @ describe_proof p @ '', '' @ describe_proof q @ '')''"
| "describe_proof (ConjunctionElimination conjunction p right) =
     (if right then ''and_elim_right('' else ''and_elim_left('') @ describe_proof p @ '')''"
| "describe_proof (DisjunctionIntroduction p right) =
     (if right then ''or_intro_right('' else ''or_intro_left('') @ describe_proof p @ '')''"
| "describe_proof (DisjunctionElimination disjunction p q r) =
     ''or_elim('' @ describe_proof p @ '', '' @ describe_proof q @ '', '' @ describe_proof r @ '')''"
| "describe_proof (FalsityElimination p) = ''false_elim('' @ describe_proof p @ '')''"
| "describe_proof (UnsignedInduction binder p q) =
     ''unsigned_induction('' @ describe_type binder @ '', '' @ describe_proof p @ '', '' @
     describe_proof q @ '')''"
| "describe_proof Reflexivity = ''refl''"
| "describe_fact (ArithmeticFact proposition evidence) = describe_proof evidence"

section \<open>The premises of unsigned induction\<close>

definition induction_base :: "int_type \<Rightarrow> kprop \<Rightarrow> kprop" where
  "induction_base binder p = instantiate_prop p (Literal binder 0) 0"

definition induction_step :: "int_type \<Rightarrow> kprop \<Rightarrow> kprop" where
  "induction_step binder p =
     (let n = Var 0;
          successor = Prim AddWrap binder [n, Literal binder 1];
          below_maximum = Prim Less binder [n, Literal binder (maximum_value binder)];
          next_p = instantiate_prop (shift_prop p 1 1) successor 0
      in Forall (Int_Type binder)
           (Implies (predicate below_maximum True) (Implies p next_p)))"

end
