(* ===== verification/Kernel_Linear.thy ===== *)
theory Kernel_Linear
  imports Kernel_Context Kernel_Proofs
begin

text \<open>
  Linear arithmetic (kernel/include/cppl/kernel/linear.hpp, kernel/src/linear.cpp): the
  builder that states facts and a negated goal as integer constraints, and the checker of
  the certificates that refute them.
\<close>

section \<open>Systems\<close>

text \<open>\<open>sum (coefficient * variable) + constant \<le> 0\<close>\<close>

record linear_constraint =
  lin_terms :: "(nat \<times> wide) list"
  lin_constant :: wide

datatype variable_role = ValueRole | WrapRole

record arithmetic_variable =
  role :: variable_role
  var_type :: int_type
  var_term :: kterm
  var_lowest :: wide
  var_highest :: wide

record arithmetic_system =
  variables :: "arithmetic_variable list"
  constraints :: "linear_constraint list"
  disjunctions :: "(linear_constraint \<times> linear_constraint) list"

definition linear_failure :: "string \<Rightarrow> core_error" where
  "linear_failure detail = CoreError MalformedPrimitive detail"

section \<open>Residues and types\<close>

definition linear_mask :: "int_type \<Rightarrow> u64" where
  "linear_mask type = (if 64 \<le> width type then NOT 0 else push_bit (width type) 1 - 1)"

definition modulus :: "int_type \<Rightarrow> wide" where
  "modulus type = 2 ^ width type"

definition lowest_of :: "int_type \<Rightarrow> wide" where
  "lowest_of type = (if signedness type = Signed then - (modulus type div 2) else 0)"

definition highest_of :: "int_type \<Rightarrow> wide" where
  "highest_of type =
     (if signedness type = Signed then modulus type div 2 - 1 else modulus type - 1)"

definition centered :: "int_type \<Rightarrow> u64 \<Rightarrow> wide" where
  "centered type residue =
     (let v = uint (residue AND linear_mask type)
      in if modulus type div 2 < v then v - modulus type else v)"

section \<open>Expressions\<close>

record expression =
  expr_terms :: "(nat, wide) omap"
  expr_constant :: wide

definition empty_expression :: expression where
  "empty_expression = \<lparr>expr_terms = [], expr_constant = 0\<rparr>"

definition single_variable :: "nat \<Rightarrow> expression" where
  "single_variable i = \<lparr>expr_terms = [(i, 1)], expr_constant = 0\<rparr>"

definition constant_expression :: "wide \<Rightarrow> expression" where
  "constant_expression c = \<lparr>expr_terms = [], expr_constant = c\<rparr>"

text \<open>\<open>expression.terms.emplace(variable, coefficient)\<close>\<close>

definition emplace_term :: "nat \<Rightarrow> wide \<Rightarrow> expression \<Rightarrow> expression" where
  "emplace_term i c e = e\<lparr>expr_terms := omap_emplace (<) i c (expr_terms e)\<rparr>"

text \<open>\<open>-x\<close> on the 128-bit integer, which the code writes without a check.\<close>

definition unchecked_neg :: "wide \<Rightarrow> core_error + wide" where
  "unchecked_neg c = (case wide_neg c of Some n \<Rightarrow> Inr n | None \<Rightarrow> Inl UndefinedBehaviour)"

abbreviation coefficient_overflow :: core_error where
  "coefficient_overflow \<equiv> linear_failure ''an arithmetic coefficient overflows the core's integers''"

abbreviation constant_overflow :: core_error where
  "constant_overflow \<equiv> linear_failure ''an arithmetic constant overflows the core's integers''"

definition or_overflow :: "core_error \<Rightarrow> wide option \<Rightarrow> core_error + wide" where
  "or_overflow e r = (case r of Some c \<Rightarrow> Inr c | None \<Rightarrow> Inl e)"

fun negated_terms :: "(nat \<times> wide) list \<Rightarrow> core_error + (nat \<times> wide) list" where
  "negated_terms [] = Inr []"
| "negated_terms ((i, c) # ts) =
     bind_ok (unchecked_neg c) (\<lambda>c. bind_ok (negated_terms ts) (\<lambda>ts. Inr ((i, c) # ts)))"

definition negated :: "expression \<Rightarrow> core_error + expression" where
  "negated e =
     bind_ok (negated_terms (expr_terms e)) (\<lambda>ts.
     bind_ok (unchecked_neg (expr_constant e)) (\<lambda>c.
       Inr \<lparr>expr_terms = ts, expr_constant = c\<rparr>))"

fun subtract_terms :: "(nat \<times> wide) list \<Rightarrow> (nat, wide) omap \<Rightarrow> core_error + (nat, wide) omap" where
  "subtract_terms [] acc = Inr acc"
| "subtract_terms ((i, c) # ts) acc =
     (let acc = omap_emplace (<) i 0 acc;
          entry = (case omap_find (<) i acc of Some v \<Rightarrow> v | None \<Rightarrow> 0)
      in bind_ok (unchecked_neg c) (\<lambda>c.
         bind_ok (or_overflow coefficient_overflow (wide_add entry c)) (\<lambda>entry.
           subtract_terms ts
             (if entry = 0 then omap_erase (<) i acc else omap_put (<) i entry acc))))"

definition subtract :: "expression \<Rightarrow> expression \<Rightarrow> core_error + expression" where
  "subtract lhs rhs =
     bind_ok (subtract_terms (expr_terms rhs) (expr_terms lhs)) (\<lambda>ts.
     bind_ok (unchecked_neg (expr_constant rhs)) (\<lambda>c.
     bind_ok (or_overflow constant_overflow (wide_add (expr_constant lhs) c)) (\<lambda>c.
       Inr \<lparr>expr_terms = ts, expr_constant = c\<rparr>)))"

fun scaled_terms :: "wide \<Rightarrow> (nat \<times> wide) list \<Rightarrow> core_error + (nat \<times> wide) list" where
  "scaled_terms factor [] = Inr []"
| "scaled_terms factor ((i, c) # ts) =
     bind_ok (or_overflow coefficient_overflow (wide_mul c factor)) (\<lambda>c.
     bind_ok (scaled_terms factor ts) (\<lambda>ts. Inr (if c \<noteq> 0 then (i, c) # ts else ts)))"

definition scaled :: "expression \<Rightarrow> wide \<Rightarrow> core_error + expression" where
  "scaled e factor =
     bind_ok (scaled_terms factor (expr_terms e)) (\<lambda>ts.
     bind_ok (or_overflow constant_overflow (wide_mul (expr_constant e) factor)) (\<lambda>c.
       Inr \<lparr>expr_terms = ts, expr_constant = c\<rparr>))"

text \<open>\<open>finish\<close>: \<open>expression + extra \<le> 0\<close>\<close>

definition finish :: "expression \<Rightarrow> wide \<Rightarrow> core_error + linear_constraint" where
  "finish e extra =
     bind_ok (or_overflow constant_overflow (wide_add (expr_constant e) extra)) (\<lambda>c.
       Inr \<lparr>lin_terms = filter (\<lambda>(i, c). c \<noteq> 0) (expr_terms e), lin_constant = c\<rparr>)"

text \<open>\<open>linear\<close>: \<open>lhs - rhs + margin \<le> 0\<close>\<close>

definition linear :: "expression \<Rightarrow> expression \<Rightarrow> wide \<Rightarrow> core_error + linear_constraint" where
  "linear lhs rhs margin = bind_ok (subtract lhs rhs) (\<lambda>d. finish d margin)"

section \<open>The builder\<close>

text \<open>
  The state of \<open>Builder\<close>: the system being built, and what each term read so far became.
  \<open>divisions_\<close> is a set, kept as the keys of a map.
\<close>

record builder =
  system :: arithmetic_system
  variable_of :: "(typed_term, nat) omap"
  values_of :: "(typed_term, expression) omap"
  divisions :: "(typed_term, unit) omap"
  ranges :: "(nat, wide \<times> wide) omap"

definition empty_builder :: builder where
  "empty_builder =
     \<lparr>system = \<lparr>variables = [], constraints = [], disjunctions = []\<rparr>,
      variable_of = [], values_of = [], divisions = [], ranges = []\<rparr>"

text \<open>
  The index of a new variable is the number of variables so far, narrowed to 32 bits. The
  model follows an execution as long as nothing is lost.
\<close>

definition push_variable :: "arithmetic_variable \<Rightarrow> builder \<Rightarrow> core_error + nat \<times> builder" where
  "push_variable v s =
     (let index = length (variables (system s))
      in if 2 ^ 32 \<le> index then Inl IndexOverflow
         else Inr (index, s\<lparr>system := (system s)\<lparr>variables := variables (system s) @ [v]\<rparr>\<rparr>))"

text \<open>Evaluated on integers, where the bound is a numeral.\<close>

lemma push_variable_code [code]:
  "push_variable v s =
     (let index = length (variables (system s))
      in if 4294967296 \<le> int index then Inl IndexOverflow
         else Inr (index, s\<lparr>system := (system s)\<lparr>variables := variables (system s) @ [v]\<rparr>\<rparr>))"
  unfolding push_variable_def by (simp add: Let_def)

definition push_constraint :: "linear_constraint \<Rightarrow> builder \<Rightarrow> builder" where
  "push_constraint c s = s\<lparr>system := (system s)\<lparr>constraints := constraints (system s) @ [c]\<rparr>\<rparr>"

definition push_disjunction :: "linear_constraint \<Rightarrow> linear_constraint \<Rightarrow> builder \<Rightarrow> builder" where
  "push_disjunction c d s =
     s\<lparr>system := (system s)\<lparr>disjunctions := disjunctions (system s) @ [(c, d)]\<rparr>\<rparr>"

definition constrain :: "expression \<Rightarrow> wide \<Rightarrow> builder \<Rightarrow> core_error + builder" where
  "constrain e extra s = bind_ok (finish e extra) (\<lambda>c. Inr (push_constraint c s))"

text \<open>\<open>lhs + margin \<le> rhs\<close>\<close>

definition before :: "expression \<Rightarrow> expression \<Rightarrow> wide \<Rightarrow> builder \<Rightarrow> core_error + builder" where
  "before lhs rhs margin s = bind_ok (subtract lhs rhs) (\<lambda>d. constrain d margin s)"

definition equal :: "expression \<Rightarrow> expression \<Rightarrow> builder \<Rightarrow> core_error + builder" where
  "equal lhs rhs s = bind_ok (before lhs rhs 0 s) (before rhs lhs 0)"

definition differ :: "expression \<Rightarrow> expression \<Rightarrow> builder \<Rightarrow> core_error + builder" where
  "differ lhs rhs s =
     bind_ok (linear lhs rhs 1) (\<lambda>below.
     bind_ok (linear rhs lhs 1) (\<lambda>above. Inr (push_disjunction below above s)))"

text \<open>\<open>lowest(type) \<le> expression \<le> highest(type)\<close>\<close>

definition bound :: "expression \<Rightarrow> int_type \<Rightarrow> builder \<Rightarrow> core_error + builder" where
  "bound e type s =
     bind_ok (negated e) (\<lambda>below.
     bind_ok (constrain below (lowest_of type) s) (\<lambda>s.
     bind_ok (or_overflow (linear_failure ''an arithmetic bound overflows the core's integers'')
        (wide_mul (highest_of type) (- 1))) (\<lambda>top. constrain e top s)))"

text \<open>\<open>outside\<close>: the expression lies below the type's least value or above its greatest.\<close>

definition outside :: "expression \<Rightarrow> int_type \<Rightarrow> builder \<Rightarrow> core_error + builder" where
  "outside e type s =
     bind_ok (finish e (1 - lowest_of type)) (\<lambda>below.
     bind_ok (negated e) (\<lambda>opposite.
     bind_ok (finish opposite (highest_of type + 1)) (\<lambda>above.
       Inr (push_disjunction below above s))))"

text \<open>The lambda \<open>either\<close> of \<open>define_division\<close>.\<close>

definition either ::
  "expression \<Rightarrow> wide \<Rightarrow> expression \<Rightarrow> wide \<Rightarrow> builder \<Rightarrow> core_error + builder" where
  "either e a d b s =
     bind_ok (finish e a) (\<lambda>one.
     bind_ok (finish d b) (\<lambda>other. Inr (push_disjunction one other s)))"

section \<open>Ranges\<close>

text \<open>The code decrements a quotient that truncation rounded up.\<close>

definition floor_divide :: "wide \<Rightarrow> wide \<Rightarrow> wide" where
  "floor_divide numerator denominator =
     (let q = divide numerator denominator
      in if remainder numerator denominator \<noteq> 0 \<and> (numerator < 0) \<noteq> (denominator < 0)
         then q - 1 else q)"

text \<open>
  The loop \<open>static_range\<close> and \<open>wrap_range\<close> share: the least and the greatest value of a sum,
  given the bounds of its variables. \<open>None\<close> where a variable has none or a step overflows.
\<close>

fun extremes ::
  "(nat \<Rightarrow> (wide \<times> wide) option) \<Rightarrow> (nat \<times> wide) list \<Rightarrow> wide \<Rightarrow> wide \<Rightarrow> (wide \<times> wide) option" where
  "extremes bounds [] least greatest = Some (least, greatest)"
| "extremes bounds ((i, c) # ts) least greatest =
     (case bounds i of
        None \<Rightarrow> None
      | Some (low, high) \<Rightarrow>
          (case (wide_mul c (if 0 \<le> c then low else high), wide_mul c (if 0 \<le> c then high else low)) of
             (Some first, Some second) \<Rightarrow>
               (case (wide_add least first, wide_add greatest second) of
                  (Some least, Some greatest) \<Rightarrow> extremes bounds ts least greatest
                | _ \<Rightarrow> None)
           | _ \<Rightarrow> None))"

text \<open>
  \<open>wrap_range\<close>, a hint for the producers of certificates. The negation of the numerator is
  unchecked; those of the bounds and of the quotient cannot overflow.
\<close>

definition wrap_range :: "expression \<Rightarrow> int_type \<Rightarrow> builder \<Rightarrow> core_error + wide \<times> wide" where
  "wrap_range e type s =
     (let bounds = (\<lambda>i. let v = variables (system s) ! i in Some (lowest_of (var_type v), highest_of (var_type v)))
      in case extremes bounds (expr_terms e) (expr_constant e) (expr_constant e) of
           None \<Rightarrow> Inr (1, 0)
         | Some (least, greatest) \<Rightarrow>
             (case (wide_add least (- highest_of type), wide_add greatest (- lowest_of type)) of
                (Some low, Some high) \<Rightarrow>
                  bind_ok (unchecked_neg low) (\<lambda>low.
                    Inr (- floor_divide low (modulus type), floor_divide high (modulus type)))
              | _ \<Rightarrow> Inr (1, 0)))"

definition static_bounds :: "builder \<Rightarrow> nat \<Rightarrow> (wide \<times> wide) option" where
  "static_bounds s i =
     (let known = variables (system s) ! i
      in if role known \<noteq> ValueRole then None
         else case omap_find (<) i (ranges s) of
           Some narrowed \<Rightarrow> Some narrowed
         | None \<Rightarrow> Some (lowest_of (var_type known), highest_of (var_type known)))"

definition static_range :: "expression \<Rightarrow> builder \<Rightarrow> (wide \<times> wide) option" where
  "static_range e s = extremes (static_bounds s) (expr_terms e) (expr_constant e) (expr_constant e)"

section \<open>Reading terms\<close>

definition insert_division :: "typed_term \<Rightarrow> builder \<Rightarrow> builder" where
  "insert_division key s = s\<lparr>divisions := omap_put typed_term_less key () (divisions s)\<rparr>"

text \<open>
  The steps of \<open>define_division\<close> once quotient, remainder and dividend are read:
  \<open>same_sign\<close>, the branch for a constant divisor, and the branch for an unknown one.
\<close>

definition same_sign :: "expression \<Rightarrow> expression \<Rightarrow> builder \<Rightarrow> core_error + builder" where
  "same_sign dividend rest s =
     bind_ok (negated rest) (\<lambda>rest_negated.
     bind_ok (either dividend 1 rest_negated 0 s) (\<lambda>s.
     bind_ok (negated dividend) (\<lambda>dividend_negated.
       either dividend_negated 0 rest 0 s)))"

definition divide_by_constant ::
  "int_type \<Rightarrow> nat \<Rightarrow> nat \<Rightarrow> expression \<Rightarrow> wide \<Rightarrow> builder \<Rightarrow> core_error + builder" where
  "divide_by_constant type quot rest dividend divisor s =
     (if - 1 \<le> divisor \<and> divisor \<le> 1 then Inr s
      else
        let rest_expression = single_variable rest;
            identity = emplace_term rest 1 (emplace_term quot divisor empty_expression);
            largest = (if divisor < 0 then - divisor else divisor) - 1
        in bind_ok (equal dividend identity s) (\<lambda>s.
           bind_ok (constrain rest_expression (- largest) s) (\<lambda>s.
             if signedness type \<noteq> Signed then Inr s
             else bind_ok (negated rest_expression) (\<lambda>opposite.
                  bind_ok (constrain opposite (- largest) s) (same_sign dividend rest_expression)))))"

definition divide_by_unknown ::
  "int_type \<Rightarrow> nat \<Rightarrow> expression \<Rightarrow> expression \<Rightarrow> builder \<Rightarrow> core_error + builder" where
  "divide_by_unknown type rest dividend divisor s =
     (let rest_expression = single_variable rest
      in bind_ok (subtract rest_expression divisor) (\<lambda>excess.
         bind_ok (either divisor 0 excess 1 s) (\<lambda>s.
           if signedness type \<noteq> Signed
           then bind_ok (subtract rest_expression dividend) (\<lambda>within. constrain within 0 s)
           else bind_ok (negated rest_expression) (\<lambda>opposite.
                bind_ok (subtract opposite divisor) (\<lambda>shortfall.
                bind_ok (either divisor 0 shortfall 1 s) (same_sign dividend rest_expression))))))"

text \<open>
  The end of \<open>define_conversion\<close>, once the operand is read: equality where the target holds
  every value of the source, a fresh multiple of the modulus otherwise.
\<close>

definition state_conversion ::
  "nat \<Rightarrow> int_type \<Rightarrow> int_type \<Rightarrow> kterm list \<Rightarrow> expression \<Rightarrow> builder \<Rightarrow> core_error + builder" where
  "state_conversion index target from arguments operand s =
     (let converted = single_variable index
      in if lowest_of target \<le> lowest_of from \<and> highest_of from \<le> highest_of target
         then equal converted operand
                (s\<lparr>ranges := omap_emplace (<) index (lowest_of from, highest_of from) (ranges s)\<rparr>)
         else
           let least = - floor_divide (highest_of target - lowest_of from) (modulus target);
               greatest = floor_divide (highest_of from - lowest_of target) (modulus target);
               wrap = \<lparr>role = WrapRole, var_type = target, var_term = Prim Convert target arguments,
                       var_lowest = least, var_highest = greatest\<rparr>
           in bind_ok (push_variable wrap s) (\<lambda>(w, s).
                equal converted (emplace_term w (- modulus target) operand) s))"

text \<open>The loop of \<open>value\<close> over the monomials, given the reader of a monomial's variable.\<close>

fun each_monomial ::
  "(kterm list \<Rightarrow> builder \<Rightarrow> core_error + nat \<times> builder) \<Rightarrow> int_type \<Rightarrow> monomial list \<Rightarrow>
     expression \<Rightarrow> builder \<Rightarrow> core_error + expression \<times> builder" where
  "each_monomial read type [] e s = Inr (e, s)"
| "each_monomial read type (m # ms) e s =
     bind_ok (read (factors m) s) (\<lambda>(i, s).
       each_monomial read type ms (emplace_term i (centered type (coefficient m)) e) s)"

text \<open>The end of \<open>value\<close> for a polynomial that is not a single monomial.\<close>

definition wrapped_value ::
  "kterm \<Rightarrow> int_type \<Rightarrow> expression \<Rightarrow> builder \<Rightarrow> core_error + expression \<times> builder" where
  "wrapped_value normal type e s =
     bind_ok (wrap_range e type s) (\<lambda>(least, greatest).
     bind_ok (push_variable \<lparr>role = WrapRole, var_type = type, var_term = normal,
                             var_lowest = least, var_highest = greatest\<rparr> s) (\<lambda>(w, s).
       let e = emplace_term w (- modulus type) e
       in bind_ok (bound e type s) (\<lambda>s. Inr (e, s))))"

text \<open>
  \<open>value\<close>, \<open>variable\<close>, \<open>define_conversion\<close> and \<open>define_division\<close> call each other. They are
  given fuel; \<open>read_value\<close> below gives them enough.
\<close>

definition is_single :: "polynomial \<Rightarrow> bool" where
  "is_single p \<longleftrightarrow>
     length (monomials p) = 1 \<and> coefficient (hd (monomials p)) = 1 \<and> poly_constant p = 0"

definition register_variable ::
  "int_type \<Rightarrow> kterm \<Rightarrow> builder \<Rightarrow> core_error + nat \<times> builder" where
  "register_variable type t s =
     bind_ok (push_variable \<lparr>role = ValueRole, var_type = type, var_term = t, var_lowest = 0, var_highest = 0\<rparr> s)
       (\<lambda>(index, s).
         bind_ok (bound (single_variable index) type
             (s\<lparr>variable_of := omap_emplace typed_term_less (TypedTerm type t) index (variable_of s)\<rparr>))
           (\<lambda>s. Inr (index, s)))"

definition cache_value :: "typed_term \<Rightarrow> expression \<Rightarrow> builder \<Rightarrow> builder" where
  "cache_value key e s = s\<lparr>values_of := omap_emplace typed_term_less key e (values_of s)\<rparr>"

text \<open>The operand of a conversion into the type, or the operands of a division at it.\<close>

fun defining_primitive :: "int_type \<Rightarrow> kterm \<Rightarrow> (kterm + kterm \<times> kterm) option" where
  "defining_primitive type (Prim op type' [a]) =
     (if type' = type \<and> op = Convert then Some (Inl a) else None)"
| "defining_primitive type (Prim op type' [a, b]) =
     (if type' = type \<and> (op = Quotient \<or> op = Remainder) then Some (Inr (a, b)) else None)"
| "defining_primitive type t = None"

type_synonym value_reader = "kterm \<Rightarrow> int_type \<Rightarrow> builder \<Rightarrow> core_error + expression \<times> builder"
type_synonym variable_reader =
  "int_type \<Rightarrow> kterm list \<Rightarrow> builder \<Rightarrow> core_error + nat \<times> builder"
type_synonym conversion_definer = "nat \<Rightarrow> int_type \<Rightarrow> kterm \<Rightarrow> builder \<Rightarrow> core_error + builder"
type_synonym division_definer = "int_type \<Rightarrow> kterm \<Rightarrow> kterm \<Rightarrow> builder \<Rightarrow> core_error + builder"

text \<open>\<open>value\<close>, with the call of \<open>variable\<close> as its argument\<close>

definition value_body ::
  "variable_reader \<Rightarrow> kcontext \<Rightarrow> core_limits \<Rightarrow> value_reader" where
  "value_body variable \<Gamma> limits t type s =
     bind_ok (normalize \<Gamma> t limits) (\<lambda>normal.
       case omap_find typed_term_less (TypedTerm type normal) (values_of s) of
         Some cached \<Rightarrow> Inr (cached, s)
       | None \<Rightarrow>
           bind_ok (read_polynomial normal type limits) (\<lambda>p.
           bind_ok
             (if monomials p = [] then Inr (constant_expression (value_of type (poly_constant p)), s)
              else if is_single p
              then bind_ok (variable type (factors (hd (monomials p))) s) (\<lambda>(i, s).
                     Inr (single_variable i, s))
              else bind_ok (each_monomial (variable type) type (monomials p) empty_expression s)
                     (\<lambda>(e, s). wrapped_value normal type
                        (e\<lparr>expr_constant := centered type (poly_constant p)\<rparr>) s))
             (\<lambda>(e, s). Inr (e, cache_value (TypedTerm type normal) e s))))"

text \<open>\<open>variable\<close>, with the calls of \<open>define_conversion\<close> and \<open>define_division\<close>\<close>

definition variable_body :: "conversion_definer \<Rightarrow> division_definer \<Rightarrow> variable_reader" where
  "variable_body convert divided type fs s =
     (let t = render_factors type fs
      in case omap_find typed_term_less (TypedTerm type t) (variable_of s) of
           Some index \<Rightarrow> Inr (index, s)
         | None \<Rightarrow>
             bind_ok (register_variable type t s) (\<lambda>(index, s).
             bind_ok
               (if length fs \<noteq> 1 then Inr s
                else case defining_primitive type t of
                  Some (Inl a) \<Rightarrow> convert index type a s
                | Some (Inr (a, b)) \<Rightarrow> divided type a b s
                | None \<Rightarrow> Inr s)
               (\<lambda>s. Inr (index, s))))"

text \<open>\<open>define_conversion\<close>, with the call of \<open>value\<close>\<close>

definition conversion_body ::
  "value_reader \<Rightarrow> kcontext \<Rightarrow> ktype list \<Rightarrow> core_limits \<Rightarrow> conversion_definer" where
  "conversion_body read \<Gamma> L limits index target a s =
     bind_ok (type_of \<Gamma> L a limits) (\<lambda>source.
       case source of
         Int_Type from \<Rightarrow>
           bind_ok (read a from s) (\<lambda>(operand, s).
             state_conversion index target from [a] operand s)
       | _ \<Rightarrow> Inl (linear_failure ''a conversion's operand must be an integer''))"

text \<open>\<open>define_division\<close>, with the calls of \<open>value\<close> and \<open>variable\<close>\<close>

definition division_body :: "value_reader \<Rightarrow> variable_reader \<Rightarrow> division_definer" where
  "division_body read variable type a b s =
     (let quotient_term = Prim Quotient type [a, b]
      in case omap_find typed_term_less (TypedTerm type quotient_term) (divisions s) of
           Some _ \<Rightarrow> Inr s
         | None \<Rightarrow>
             bind_ok (variable type [quotient_term]
                (insert_division (TypedTerm type quotient_term) s)) (\<lambda>(quot, s).
             bind_ok (variable type [Prim Remainder type [a, b]] s) (\<lambda>(rest, s).
             bind_ok (read a type s) (\<lambda>(dividend, s).
               case literal_value b type of
                 Some divisor \<Rightarrow> divide_by_constant type quot rest dividend divisor s
               | None \<Rightarrow>
                   bind_ok (read b type s) (\<lambda>(divisor, s).
                     divide_by_unknown type rest dividend divisor s)))))"

fun value_in :: "nat \<Rightarrow> kcontext \<Rightarrow> ktype list \<Rightarrow> core_limits \<Rightarrow> value_reader"
  and variable :: "nat \<Rightarrow> kcontext \<Rightarrow> ktype list \<Rightarrow> core_limits \<Rightarrow> variable_reader"
  and define_conversion :: "nat \<Rightarrow> kcontext \<Rightarrow> ktype list \<Rightarrow> core_limits \<Rightarrow> conversion_definer"
  and define_division :: "nat \<Rightarrow> kcontext \<Rightarrow> ktype list \<Rightarrow> core_limits \<Rightarrow> division_definer" where
  "value_in 0 \<Gamma> L limits = (\<lambda>t type s. Inl OutOfFuel)"
| "value_in (Suc fuel) \<Gamma> L limits = value_body (variable fuel \<Gamma> L limits) \<Gamma> limits"
| "variable 0 \<Gamma> L limits = (\<lambda>type fs s. Inl OutOfFuel)"
| "variable (Suc fuel) \<Gamma> L limits =
     variable_body (define_conversion fuel \<Gamma> L limits) (define_division fuel \<Gamma> L limits)"
| "define_conversion 0 \<Gamma> L limits = (\<lambda>index target a s. Inl OutOfFuel)"
| "define_conversion (Suc fuel) \<Gamma> L limits =
     conversion_body (value_in fuel \<Gamma> L limits) \<Gamma> L limits"
| "define_division 0 \<Gamma> L limits = (\<lambda>type a b s. Inl OutOfFuel)"
| "define_division (Suc fuel) \<Gamma> L limits =
     division_body (value_in fuel \<Gamma> L limits) (variable fuel \<Gamma> L limits)"

text \<open>
  Each level of conversion or division in a normal form is three calls deep: a division reads
  the variable of its quotient, which comes back to it once.
\<close>

fun nesting :: "kterm \<Rightarrow> nat" where
  "nesting (Var i) = 0"
| "nesting (Literal type v) = 0"
| "nesting (Call callee ts) = foldr max (map nesting ts) 0"
| "nesting (Prim op type ts) =
     foldr max (map nesting ts) 0 + (if op = Convert \<or> op = Quotient \<or> op = Remainder then 1 else 0)"
| "nesting (Projection domain k ts) = foldr max (map nesting ts) 0"
| "nesting (Element domain ts) = foldr max (map nesting ts) 0"

definition reading_fuel :: "nat \<Rightarrow> nat" where
  "reading_fuel n = 3 * n + 2"

definition read_value ::
  "kcontext \<Rightarrow> ktype list \<Rightarrow> core_limits \<Rightarrow> kterm \<Rightarrow> int_type \<Rightarrow> builder \<Rightarrow> core_error + expression \<times> builder" where
  "read_value \<Gamma> L limits t type s =
     value_in
       (case normalize \<Gamma> t limits of Inr n \<Rightarrow> reading_fuel (nesting n) | Inl e \<Rightarrow> 1) \<Gamma> L limits t type s"

section \<open>Facts and the goal\<close>

text \<open>\<open>unbounded\<close>: the integer an operation computes, where it is linear.\<close>

definition unbounded ::
  "kcontext \<Rightarrow> ktype list \<Rightarrow> core_limits \<Rightarrow> prim_op \<Rightarrow> int_type \<Rightarrow> kterm \<Rightarrow> kterm \<Rightarrow> builder \<Rightarrow>
     core_error + expression option \<times> builder" where
  "unbounded \<Gamma> L limits op type a b s =
     bind_ok (read_value \<Gamma> L limits a type s) (\<lambda>(lhs, s).
     bind_ok (read_value \<Gamma> L limits b type s) (\<lambda>(rhs, s).
       if op = AddFits
       then bind_ok (negated rhs) (\<lambda>opposite. bind_ok (subtract lhs opposite) (\<lambda>e. Inr (Some e, s)))
       else if op = SubFits
       then bind_ok (subtract lhs rhs) (\<lambda>e. Inr (Some e, s))
       else if expr_terms lhs = []
       then bind_ok (scaled rhs (expr_constant lhs)) (\<lambda>e. Inr (Some e, s))
       else if expr_terms rhs = []
       then bind_ok (scaled lhs (expr_constant rhs)) (\<lambda>e. Inr (Some e, s))
       else Inr (None, s)))"

definition product_fits :: "int_type \<Rightarrow> wide \<times> wide \<Rightarrow> wide \<times> wide \<Rightarrow> bool" where
  "product_fits type left right \<longleftrightarrow>
     list_all (\<lambda>a. list_all (\<lambda>b.
         case wide_mul a b of
           None \<Rightarrow> False
         | Some p \<Rightarrow> \<not> p < lowest_of type \<and> \<not> highest_of type < p)
       [fst right, snd right]) [fst left, snd left]"

definition product_always_fits ::
  "kcontext \<Rightarrow> ktype list \<Rightarrow> core_limits \<Rightarrow> prim_op \<Rightarrow> int_type \<Rightarrow> kterm \<Rightarrow> kterm \<Rightarrow> builder \<Rightarrow>
     core_error + bool \<times> builder" where
  "product_always_fits \<Gamma> L limits op type a b s =
     (if op \<noteq> MulFits then Inr (False, s)
      else bind_ok (read_value \<Gamma> L limits a type s) (\<lambda>(lhs, s).
           bind_ok (read_value \<Gamma> L limits b type s) (\<lambda>(rhs, s).
             case (static_range lhs s, static_range rhs s) of
               (Some left, Some right) \<Rightarrow> Inr (product_fits type left right, s)
             | _ \<Rightarrow> Inr (False, s))))"

text \<open>\<open>truth\<close>: a normal boolean term evaluates to \<open>held\<close>. Its branches, then the function.\<close>

definition falsehood :: "builder \<Rightarrow> core_error + builder" where
  "falsehood s = constrain empty_expression 1 s"

definition truth_comparison ::
  "prim_op \<Rightarrow> bool \<Rightarrow> expression \<Rightarrow> expression \<Rightarrow> builder \<Rightarrow> core_error + builder" where
  "truth_comparison op held lhs rhs s =
     (case op of
        Less \<Rightarrow> if held then before lhs rhs 1 s else before rhs lhs 0 s
      | LessEqual \<Rightarrow> if held then before lhs rhs 0 s else before rhs lhs 1 s
      | Greater \<Rightarrow> if held then before rhs lhs 1 s else before lhs rhs 0 s
      | GreaterEqual \<Rightarrow> if held then before rhs lhs 0 s else before lhs rhs 1 s
      | Equal \<Rightarrow> if held then equal lhs rhs s else differ lhs rhs s
      | _ \<Rightarrow> if held then differ lhs rhs s else equal lhs rhs s)"

definition truth_boolean ::
  "kcontext \<Rightarrow> ktype list \<Rightarrow> core_limits \<Rightarrow> kterm \<Rightarrow> bool \<Rightarrow> builder \<Rightarrow> core_error + builder" where
  "truth_boolean \<Gamma> L limits condition held s =
     bind_ok (read_value \<Gamma> L limits condition kBoolean s) (\<lambda>(boolean, s).
       equal boolean (constant_expression (if held then 1 else 0)) s)"

definition truth_representability ::
  "kcontext \<Rightarrow> ktype list \<Rightarrow> core_limits \<Rightarrow> prim_op \<Rightarrow> int_type \<Rightarrow> kterm \<Rightarrow> kterm \<Rightarrow> bool \<Rightarrow> builder \<Rightarrow>
     core_error + builder" where
  "truth_representability \<Gamma> L limits op type a b held s =
     bind_ok (unbounded \<Gamma> L limits op type a b s) (\<lambda>(exact, s).
       case exact of
         Some e \<Rightarrow> if held then bound e type s else outside e type s
       | None \<Rightarrow>
           bind_ok (product_always_fits \<Gamma> L limits op type a b s) (\<lambda>(always, s).
             if always then (if held then Inr s else falsehood s)
             else truth_boolean \<Gamma> L limits (Prim op type [a, b]) held s))"

fun truth :: "kcontext \<Rightarrow> ktype list \<Rightarrow> core_limits \<Rightarrow> kterm \<Rightarrow> bool \<Rightarrow> builder \<Rightarrow> core_error + builder" where
  "truth \<Gamma> L limits (Literal type v) held s = (if (v \<noteq> 0) = held then Inr s else falsehood s)"
| "truth \<Gamma> L limits (Prim op type [a]) held s =
     (if op = NotOp then truth \<Gamma> L limits a (\<not> held) s
      else truth_boolean \<Gamma> L limits (Prim op type [a]) held s)"
| "truth \<Gamma> L limits (Prim op type [a, b]) held s =
     (if is_comparison op
      then bind_ok (read_value \<Gamma> L limits a type s) (\<lambda>(lhs, s).
           bind_ok (read_value \<Gamma> L limits b type s) (\<lambda>(rhs, s). truth_comparison op held lhs rhs s))
      else if is_representability op then truth_representability \<Gamma> L limits op type a b held s
      else truth_boolean \<Gamma> L limits (Prim op type [a, b]) held s)"
| "truth \<Gamma> L limits t held s = truth_boolean \<Gamma> L limits t held s"

text \<open>
  What \<open>fact\<close> and \<open>refuted\<close> do alike: an equality of integers, read as the truth of one side
  where the other is a boolean literal. \<open>literal_holds\<close> says which truth a literal stands for.
\<close>

definition read_sides ::
  "kcontext \<Rightarrow> ktype list \<Rightarrow> core_limits \<Rightarrow> int_type \<Rightarrow> kterm \<Rightarrow> kterm \<Rightarrow>
     (expression \<Rightarrow> expression \<Rightarrow> builder \<Rightarrow> core_error + builder) \<Rightarrow> builder \<Rightarrow> core_error + builder" where
  "read_sides \<Gamma> L limits type lhs rhs relate s =
     bind_ok (read_value \<Gamma> L limits lhs type s) (\<lambda>(left, s).
     bind_ok (read_value \<Gamma> L limits rhs type s) (\<lambda>(right, s). relate left right s))"

definition state_equality ::
  "kcontext \<Rightarrow> ktype list \<Rightarrow> core_limits \<Rightarrow> int_type \<Rightarrow> kterm \<Rightarrow> kterm \<Rightarrow> (wide \<Rightarrow> bool) \<Rightarrow>
     (expression \<Rightarrow> expression \<Rightarrow> builder \<Rightarrow> core_error + builder) \<Rightarrow> builder \<Rightarrow> core_error + builder" where
  "state_equality \<Gamma> L limits type lhs rhs literal_holds relate s =
     (if type = kBoolean
      then bind_ok (normalize \<Gamma> lhs limits) (\<lambda>left.
           bind_ok (normalize \<Gamma> rhs limits) (\<lambda>right.
             case (literal_payload right, literal_payload left) of
               (Some v, _) \<Rightarrow> truth \<Gamma> L limits left (literal_holds v) s
             | (None, Some v) \<Rightarrow> truth \<Gamma> L limits right (literal_holds v) s
             | (None, None) \<Rightarrow> read_sides \<Gamma> L limits type lhs rhs relate s))
      else read_sides \<Gamma> L limits type lhs rhs relate s)"

fun fact :: "kcontext \<Rightarrow> ktype list \<Rightarrow> core_limits \<Rightarrow> kprop \<Rightarrow> builder \<Rightarrow> core_error + builder" where
  "fact \<Gamma> L limits (Eq (Int_Type type) lhs rhs) s =
     state_equality \<Gamma> L limits type lhs rhs (\<lambda>v. v \<noteq> 0) equal s"
| "fact \<Gamma> L limits p s = Inl (linear_failure ''an arithmetic fact must be an equality of integers'')"

fun refuted :: "kcontext \<Rightarrow> ktype list \<Rightarrow> core_limits \<Rightarrow> kprop \<Rightarrow> builder \<Rightarrow> core_error + builder" where
  "refuted \<Gamma> L limits Falsity s = Inr s"
| "refuted \<Gamma> L limits (Eq (Int_Type type) lhs rhs) s =
     state_equality \<Gamma> L limits type lhs rhs (\<lambda>v. v = 0) differ s"
| "refuted \<Gamma> L limits p s = Inl (linear_failure ''linear arithmetic establishes an equality of integers'')"

fun add_facts :: "kcontext \<Rightarrow> ktype list \<Rightarrow> core_limits \<Rightarrow> kprop list \<Rightarrow> builder \<Rightarrow> core_error + builder" where
  "add_facts \<Gamma> L limits [] s = Inr s"
| "add_facts \<Gamma> L limits (p # ps) s = bind_ok (fact \<Gamma> L limits p s) (add_facts \<Gamma> L limits ps)"

definition arithmetic_system_of ::
  "kcontext \<Rightarrow> kprop list \<Rightarrow> kprop \<Rightarrow> core_limits \<Rightarrow> ktype list \<Rightarrow> core_error + arithmetic_system" where
  "arithmetic_system_of \<Gamma> facts goal limits L =
     (if unat (max_arithmetic_facts limits) < length facts
      then Inl (linear_failure (''an arithmetic step uses more than '' @
             string_of_nat (unat (max_arithmetic_facts limits)) @ '' facts''))
      else bind_ok (add_facts \<Gamma> L limits facts empty_builder) (\<lambda>s.
           bind_ok (refuted \<Gamma> L limits goal s) (\<lambda>s. Inr (system s))))"

section \<open>The checker of certificates\<close>

text \<open>The loop of \<open>contradiction\<close>; \<open>previous\<close> is the position before.\<close>

abbreviation combination_overflow :: string where
  "combination_overflow \<equiv> ''the combination overflows the core's integers''"

fun add_multiple ::
  "wide \<Rightarrow> (nat \<times> wide) list \<Rightarrow> (nat, wide) omap \<Rightarrow> string + (nat, wide) omap" where
  "add_multiple multiplier [] acc = Inr acc"
| "add_multiple multiplier ((i, c) # ts) acc =
     (case wide_mul c multiplier of
        None \<Rightarrow> Inl combination_overflow
      | Some multiple \<Rightarrow>
          (let acc = omap_emplace (<) i 0 acc;
               entry = (case omap_find (<) i acc of Some v \<Rightarrow> v | None \<Rightarrow> 0)
           in case wide_add entry multiple of
                None \<Rightarrow> Inl combination_overflow
              | Some entry \<Rightarrow> add_multiple multiplier ts (omap_put (<) i entry acc)))"

fun combine ::
  "linear_constraint list \<Rightarrow> (nat \<times> wide) list \<Rightarrow> nat option \<Rightarrow> (nat, wide) omap \<Rightarrow> wide \<Rightarrow>
     string + (nat, wide) omap \<times> wide" where
  "combine active [] previous coefs constant = Inr (coefs, constant)"
| "combine active ((position, multiplier) # ms) previous coefs constant =
     (if length active \<le> position \<or> multiplier \<le> 0 \<or>
         (case previous of Some p \<Rightarrow> position \<le> p | None \<Rightarrow> False)
      then Inl (''a contradiction names standing constraints in increasing order, each once, '' @
                ''each with a positive multiplier'')
      else bind_ok (add_multiple multiplier (lin_terms (active ! position)) coefs) (\<lambda>coefs.
        case wide_mul (lin_constant (active ! position)) multiplier of
          None \<Rightarrow> Inl combination_overflow
        | Some multiple \<Rightarrow>
            (case wide_add constant multiple of
               None \<Rightarrow> Inl combination_overflow
             | Some constant \<Rightarrow> combine active ms (Some position) coefs constant)))"

definition contradiction ::
  "linear_constraint list \<Rightarrow> (nat \<times> wide) list \<Rightarrow> string + unit" where
  "contradiction active multipliers =
     (if multipliers = [] then Inl ''a contradiction must combine at least one constraint''
      else bind_ok (combine active multipliers None [] 0) (\<lambda>(coefs, constant).
        case find (\<lambda>(i, c). c \<noteq> 0) coefs of
          Some (i, c) \<Rightarrow> Inl (''the combination leaves variable '' @ string_of_nat i @ '' standing'')
        | None \<Rightarrow>
            if constant \<le> 0
            then Inl (''the combination sums to a constant that is not positive, which is no '' @ ''contradiction'')
            else Inr ()))"

text \<open>The loop over the terms of a split, and the opposite form.\<close>

fun split_form ::
  "nat \<Rightarrow> (nat \<times> u64) list \<Rightarrow> nat option \<Rightarrow> string + (nat \<times> wide) list" where
  "split_form count [] previous = Inr []"
| "split_form count ((i, c) # ts) previous =
     (if count \<le> i \<or> c = 0 \<or> (case previous of Some p \<Rightarrow> i \<le> p | None \<Rightarrow> False)
      then Inl (''a split names its variables in increasing order, each once, each '' @
                ''with a nonzero coefficient'')
      else bind_ok (split_form count ts (Some i)) (\<lambda>ts. Inr ((i, sint c) # ts)))"

definition opposite_terms :: "(nat \<times> wide) list \<Rightarrow> (nat \<times> wide) list" where
  "opposite_terms ts = map (\<lambda>(i, c). (i, - c)) ts"

text \<open>The tests at the head of \<open>Checker::check\<close>, which count the node.\<close>

definition certificate_limits :: "core_limits \<Rightarrow> nat \<Rightarrow> nat \<Rightarrow> string + nat" where
  "certificate_limits limits depth nodes =
     (if unat (max_certificate_nodes limits) < Suc nodes
      then Inl (''the certificate has more than '' @
             string_of_nat (unat (max_certificate_nodes limits)) @ '' nodes'')
      else if unat (max_term_depth limits) < depth
      then Inl ''the certificate nests deeper than the core allows''
      else Inr (Suc nodes))"

text \<open>
  \<open>Checker::check\<close> and \<open>descend\<close>: the constraints standing at a node are those of the nodes
  above it, in order; the count of nodes is the checker's own and goes on from one to the next.
\<close>

fun check_certificate ::
  "arithmetic_system \<Rightarrow> core_limits \<Rightarrow> linear_constraint list \<Rightarrow> certificate \<Rightarrow> nat \<Rightarrow> nat \<Rightarrow>
     string + nat" where
  "check_certificate sys limits active (FarkasSum multipliers) depth nodes =
     bind_ok (certificate_limits limits depth nodes) (\<lambda>nodes.
     bind_ok (contradiction active multipliers) (\<lambda>_. Inr nodes))"
| "check_certificate sys limits active (IntegerSplit terms constant at_most_zero at_least_one) depth nodes =
     bind_ok (certificate_limits limits depth nodes) (\<lambda>nodes.
     bind_ok (split_form (length (variables sys)) terms None) (\<lambda>ts.
       case wide_add (- sint constant) 1 of
         None \<Rightarrow> Inl ''a split constant overflows the core's integers''
       | Some opposite \<Rightarrow>
           bind_ok (check_certificate sys limits
               (active @ [\<lparr>lin_terms = ts, lin_constant = sint constant\<rparr>]) at_most_zero (Suc depth) nodes)
             (check_certificate sys limits
               (active @ [\<lparr>lin_terms = opposite_terms ts, lin_constant = opposite\<rparr>]) at_least_one (Suc depth))))"
| "check_certificate sys limits active (DisjunctionCases disjunction first second) depth nodes =
     bind_ok (certificate_limits limits depth nodes) (\<lambda>nodes.
       if length (disjunctions sys) \<le> disjunction
       then Inl ''the certificate names a disjunction the system does not have''
       else
         bind_ok (check_certificate sys limits (active @ [fst (disjunctions sys ! disjunction)]) first
             (Suc depth) nodes)
           (check_certificate sys limits (active @ [snd (disjunctions sys ! disjunction)]) second (Suc depth)))"

definition refutes :: "arithmetic_system \<Rightarrow> certificate \<Rightarrow> core_limits \<Rightarrow> string + unit" where
  "refutes sys c limits =
     bind_ok (check_certificate sys limits (constraints sys) c 0 0) (\<lambda>nodes. Inr ())"

end
