(* ===== verification/Kernel_Check.thy ===== *)
theory Kernel_Check
  imports Kernel_Linear
begin

text \<open>
  The proof checker (kernel/include/cppl/kernel/check.hpp, kernel/src/check.cpp): the
  validation of propositions, one definition per rule, the dispatch on proof term and goal,
  and the entry point \<open>check\<close>, the only source of an \<open>Acceptance\<close>.
\<close>

section \<open>Rejections\<close>

datatype rejection_kind =
    MalformedProposition | MalformedProofTerm | ProofShapeMismatch | NotDefinitionallyEqual | CoreFailure

fun describe_rejection :: "rejection_kind \<Rightarrow> string" where
  "describe_rejection MalformedProposition = ''malformed proposition''"
| "describe_rejection MalformedProofTerm = ''malformed proof term''"
| "describe_rejection ProofShapeMismatch = ''proof shape mismatch''"
| "describe_rejection NotDefinitionallyEqual = ''terms are not definitionally equal''"
| "describe_rejection CoreFailure = ''core failure''"

text \<open>
  \<open>Rejection\<close> is the code's value. \<open>NoOutcome\<close> stands for an execution the model does not
  follow, with its reason.
\<close>

datatype rejection =
    Rejection rejection_kind string
  | NoOutcome core_error

fun reject_error :: "rejection_kind \<Rightarrow> core_error \<Rightarrow> rejection" where
  "reject_error kind (CoreError k detail) = Rejection kind (describe_error_kind k @ '': '' @ detail)"
| "reject_error kind e = NoOutcome e"

definition or_reject :: "rejection_kind \<Rightarrow> core_error + 'a \<Rightarrow> rejection + 'a" where
  "or_reject kind r = (case r of Inl e \<Rightarrow> Inl (reject_error kind e) | Inr x \<Rightarrow> Inr x)"

lemma or_reject_Inr [simp]: "or_reject kind r = Inr x \<longleftrightarrow> r = Inr x"
  by (cases r) (simp_all add: or_reject_def)

text \<open>A test of the code: rejected with the kind and the detail, or passed.\<close>

definition demand :: "bool \<Rightarrow> rejection_kind \<Rightarrow> string \<Rightarrow> rejection + unit" where
  "demand b kind detail = (if b then Inr () else Inl (Rejection kind detail))"

lemma demand_Inr [simp]: "demand b kind detail = Inr u \<longleftrightarrow> b"
  by (simp add: demand_def)

section \<open>Well-formed propositions\<close>

text \<open>The loop over the two sides of an equality.\<close>

definition validate_side ::
  "kcontext \<Rightarrow> ktype list \<Rightarrow> core_limits \<Rightarrow> ktype \<Rightarrow> kterm \<Rightarrow> rejection + unit" where
  "validate_side \<Gamma> L limits type side =
     bind_ok (or_reject MalformedProposition (type_of \<Gamma> L side limits)) (\<lambda>\<tau>.
       demand (\<tau> = type) MalformedProposition
         (''equality is stated at '' @ describe_type type @ '' but one side has type '' @ describe_type \<tau>))"

abbreviation proposition_depth :: "core_limits \<Rightarrow> nat \<Rightarrow> rejection + unit" where
  "proposition_depth limits depth \<equiv>
     demand (depth \<le> unat (max_term_depth limits)) MalformedProposition
       ''proposition nests deeper than the core allows''"

fun validate_proposition ::
  "kcontext \<Rightarrow> ktype list \<Rightarrow> kprop \<Rightarrow> core_limits \<Rightarrow> nat \<Rightarrow> rejection + unit" where
  "validate_proposition \<Gamma> L (Forall binder p) limits depth =
     bind_ok (proposition_depth limits depth) (\<lambda>_.
     bind_ok (demand (is_supported binder) MalformedProposition ''quantifier has an unsupported binder type'')
       (\<lambda>_. validate_proposition \<Gamma> (L @ [binder]) p limits (Suc depth)))"
| "validate_proposition \<Gamma> L (Implies p q) limits depth =
     bind_ok (proposition_depth limits depth) (\<lambda>_.
     bind_ok (validate_proposition \<Gamma> L p limits (Suc depth)) (\<lambda>_.
       validate_proposition \<Gamma> L q limits (Suc depth)))"
| "validate_proposition \<Gamma> L (And p q) limits depth =
     bind_ok (proposition_depth limits depth) (\<lambda>_.
     bind_ok (validate_proposition \<Gamma> L p limits (Suc depth)) (\<lambda>_.
       validate_proposition \<Gamma> L q limits (Suc depth)))"
| "validate_proposition \<Gamma> L (Or p q) limits depth =
     bind_ok (proposition_depth limits depth) (\<lambda>_.
     bind_ok (validate_proposition \<Gamma> L p limits (Suc depth)) (\<lambda>_.
       validate_proposition \<Gamma> L q limits (Suc depth)))"
| "validate_proposition \<Gamma> L Falsity limits depth = proposition_depth limits depth"
| "validate_proposition \<Gamma> L (Eq type lhs rhs) limits depth =
     bind_ok (proposition_depth limits depth) (\<lambda>_.
     bind_ok (validate_side \<Gamma> L limits type lhs) (\<lambda>_. validate_side \<Gamma> L limits type rhs))"

section \<open>Rules\<close>

text \<open>A premise of the proof context, and the binders that enclosed it.\<close>

record assumption =
  assumed :: kprop
  binders :: nat

text \<open>
  Each rule takes the checkers of its subproofs: \<open>check_under\<close> at the next depth, waiting for
  the binders, the assumptions and the goal.
\<close>

type_synonym subchecker = "ktype list \<Rightarrow> assumption list \<Rightarrow> kprop \<Rightarrow> rejection + unit"

definition conditional_rule ::
  "kcontext \<Rightarrow> core_limits \<Rightarrow> nat \<Rightarrow> ktype \<Rightarrow> kterm \<Rightarrow> kterm \<Rightarrow> kterm \<Rightarrow> kprop \<Rightarrow>
     subchecker \<Rightarrow> subchecker \<Rightarrow> subchecker" where
  "conditional_rule \<Gamma> limits depth type condition when_true when_false motive true_case false_case L A goal =
     (case type of
        Int_Type it \<Rightarrow>
          (let selected = Prim Select it [condition, when_true, when_false]
           in bind_ok (demand (type_of \<Gamma> L selected limits = Inr type) MalformedProofTerm
                 ''ill-typed conditional term'') (\<lambda>_.
              bind_ok (validate_proposition \<Gamma> (L @ [type]) motive limits (Suc depth)) (\<lambda>_.
              bind_ok (demand (instantiate_prop motive selected 0 = goal) ProofShapeMismatch
                 ''conditional motive does not yield the goal'') (\<lambda>_.
              bind_ok (true_case L A
                 (Implies (predicate condition True) (instantiate_prop motive when_true 0))) (\<lambda>_.
                false_case L A
                 (Implies (predicate condition False) (instantiate_prop motive when_false 0)))))))
      | _ \<Rightarrow> Inl (Rejection MalformedProofTerm ''conditional result is not an integer''))"

text \<open>The loop over the facts of an arithmetic step, which are all checked before it is used.\<close>

fun check_facts ::
  "kcontext \<Rightarrow> core_limits \<Rightarrow> nat \<Rightarrow> (kprop \<times> subchecker) list \<Rightarrow> ktype list \<Rightarrow> assumption list \<Rightarrow>
     rejection + kprop list" where
  "check_facts \<Gamma> limits depth [] L A = Inr []"
| "check_facts \<Gamma> limits depth ((p, evidence) # facts) L A =
     bind_ok (validate_proposition \<Gamma> L p limits (Suc depth)) (\<lambda>_.
     bind_ok (demand (is_eq p) MalformedProofTerm
        (''an arithmetic fact must be an equality or a comparison, and '' @ describe_prop p @
         '' is neither'')) (\<lambda>_.
     bind_ok (evidence L A p) (\<lambda>_.
     bind_ok (check_facts \<Gamma> limits depth facts L A) (\<lambda>ps. Inr (p # ps)))))"

definition arithmetic_rule ::
  "kcontext \<Rightarrow> core_limits \<Rightarrow> nat \<Rightarrow> (kprop \<times> subchecker) list \<Rightarrow> certificate \<Rightarrow> subchecker" where
  "arithmetic_rule \<Gamma> limits depth facts certificate L A goal =
     bind_ok (demand (is_eq goal \<or> goal = Falsity) ProofShapeMismatch
        (''linear arithmetic establishes an equality, a comparison or False, and the '' @
         ''goal is '' @ describe_prop goal)) (\<lambda>_.
     bind_ok (demand (length facts \<le> unat (max_arithmetic_facts limits)) MalformedProofTerm
        ''an arithmetic step uses more facts than the core allows'') (\<lambda>_.
     bind_ok (check_facts \<Gamma> limits depth facts L A) (\<lambda>ps.
     bind_ok (or_reject CoreFailure (arithmetic_system_of \<Gamma> ps goal limits L)) (\<lambda>sys.
       case refutes sys certificate limits of
         Inl e \<Rightarrow> Inl (Rejection ProofShapeMismatch
           (''the arithmetic certificate does not refute the negation of '' @ describe_prop goal @
            '': '' @ e))
       | Inr _ \<Rightarrow> Inr ()))))"

definition forall_elimination ::
  "kcontext \<Rightarrow> core_limits \<Rightarrow> nat \<Rightarrow> kprop \<Rightarrow> kterm \<Rightarrow> subchecker \<Rightarrow> subchecker" where
  "forall_elimination \<Gamma> limits depth quantified argument evidence L A goal =
     bind_ok (validate_proposition \<Gamma> L quantified limits (Suc depth)) (\<lambda>_.
       case quantified of
         Forall binder p \<Rightarrow>
           bind_ok (evidence L A quantified) (\<lambda>_.
           bind_ok (or_reject MalformedProofTerm (type_of \<Gamma> L argument limits)) (\<lambda>\<tau>.
           bind_ok (demand (\<tau> = binder) ProofShapeMismatch
              (''evidence quantifying over '' @ describe_type binder @ '' is instantiated at '' @
               describe_named \<Gamma> argument @ '', which has type '' @ describe_type \<tau>)) (\<lambda>_.
             demand (instantiate_prop p argument 0 = goal) ProofShapeMismatch
              (''instantiating that evidence establishes '' @ describe_prop (instantiate_prop p argument 0) @
               '', which is not the goal '' @ describe_prop goal))))
       | _ \<Rightarrow> Inl (Rejection ProofShapeMismatch
           (''an argument was applied to evidence for '' @ describe_prop quantified @
            '', which quantifies over nothing'')))"

definition implication_elimination ::
  "kcontext \<Rightarrow> core_limits \<Rightarrow> nat \<Rightarrow> kprop \<Rightarrow> subchecker \<Rightarrow> subchecker \<Rightarrow> subchecker" where
  "implication_elimination \<Gamma> limits depth implication evidence premise L A goal =
     bind_ok (validate_proposition \<Gamma> L implication limits (Suc depth)) (\<lambda>_.
       case implication of
         Implies p q \<Rightarrow>
           bind_ok (evidence L A implication) (\<lambda>_.
           bind_ok (premise L A p) (\<lambda>_.
             demand (q = goal) ProofShapeMismatch
              (''discharging that premise establishes '' @ describe_prop q @
               '', which is not the goal '' @ describe_prop goal)))
       | _ \<Rightarrow> Inl (Rejection ProofShapeMismatch
           (''a premise was discharged against evidence for '' @ describe_prop implication @
            '', which is not an implication'')))"

definition conjunction_elimination ::
  "kcontext \<Rightarrow> core_limits \<Rightarrow> nat \<Rightarrow> kprop \<Rightarrow> bool \<Rightarrow> subchecker \<Rightarrow> subchecker" where
  "conjunction_elimination \<Gamma> limits depth conjunction right evidence L A goal =
     bind_ok (validate_proposition \<Gamma> L conjunction limits (Suc depth)) (\<lambda>_.
       case conjunction of
         And p q \<Rightarrow>
           bind_ok (evidence L A conjunction) (\<lambda>_.
             let side = (if right then q else p)
             in demand (side = goal) ProofShapeMismatch
               (''that side of the conjunction is '' @ describe_prop side @
                '', which is not the goal '' @ describe_prop goal))
       | _ \<Rightarrow> Inl (Rejection ProofShapeMismatch
           (''a side was taken from evidence for '' @ describe_prop conjunction @
            '', which is not a conjunction'')))"

definition disjunction_elimination ::
  "kcontext \<Rightarrow> core_limits \<Rightarrow> nat \<Rightarrow> kprop \<Rightarrow> subchecker \<Rightarrow> subchecker \<Rightarrow> subchecker \<Rightarrow> subchecker" where
  "disjunction_elimination \<Gamma> limits depth disjunction evidence left_case right_case L A goal =
     bind_ok (validate_proposition \<Gamma> L disjunction limits (Suc depth)) (\<lambda>_.
       case disjunction of
         Or p q \<Rightarrow>
           bind_ok (evidence L A disjunction) (\<lambda>_.
           bind_ok (left_case L A (Implies p goal)) (\<lambda>_. right_case L A (Implies q goal)))
       | _ \<Rightarrow> Inl (Rejection ProofShapeMismatch
           (''cases were taken on evidence for '' @ describe_prop disjunction @
            '', which is not a disjunction'')))"

definition equality_elimination ::
  "kcontext \<Rightarrow> core_limits \<Rightarrow> nat \<Rightarrow> ktype \<Rightarrow> kterm \<Rightarrow> kterm \<Rightarrow> kprop \<Rightarrow> subchecker \<Rightarrow> subchecker \<Rightarrow>
     subchecker" where
  "equality_elimination \<Gamma> limits depth type lhs rhs motive equality evidence L A goal =
     bind_ok (validate_proposition \<Gamma> L (Eq type lhs rhs) limits (Suc depth)) (\<lambda>_.
     bind_ok (equality L A (Eq type lhs rhs)) (\<lambda>_.
     bind_ok (validate_proposition \<Gamma> (L @ [type]) motive limits (Suc depth)) (\<lambda>_.
     bind_ok (evidence L A (instantiate_prop motive rhs 0)) (\<lambda>_.
       demand (instantiate_prop motive lhs 0 = goal) ProofShapeMismatch
        (''transporting that evidence establishes '' @ describe_prop (instantiate_prop motive lhs 0) @
         '', which is not the goal '' @ describe_prop goal)))))"

text \<open>The difference of the two sizes is narrowed to 32 bits.\<close>

definition hypothesis_rule :: "nat \<Rightarrow> subchecker" where
  "hypothesis_rule index L A goal =
     (if length A \<le> index
      then Inl (Rejection MalformedProofTerm
             (''evidence names hypothesis '' @ string_of_nat index @ '', and '' @
              string_of_nat (length A) @ '' premises are in scope''))
      else
        let assumption = A ! (length A - 1 - index);
            amount = of_nat (length L) - of_nat (binders assumption) :: u32;
            available = shift_prop (assumed assumption) (unat amount) 0
        in demand (available = goal) ProofShapeMismatch
             (''that hypothesis is '' @ describe_prop available @ '', which is not the goal '' @
              describe_prop goal))"

definition induction_rule :: "ktype \<Rightarrow> subchecker \<Rightarrow> subchecker \<Rightarrow> subchecker" where
  "induction_rule binder base step L A goal =
     (case goal of
        Forall quantified p \<Rightarrow>
          bind_ok (demand (binder = quantified) ProofShapeMismatch
             (''induction is stated over '' @ describe_type binder @ '' but the goal quantifies over '' @
              describe_type quantified)) (\<lambda>_.
            case quantified of
              Int_Type type \<Rightarrow>
                if signedness type = Unsigned
                then bind_ok (base L A (induction_base type p)) (\<lambda>_. step L A (induction_step type p))
                else Inl (Rejection ProofShapeMismatch
                  (''induction has a principle only for an unsigned machine integer type, and the goal '' @
                   ''quantifies over '' @ describe_type quantified))
            | _ \<Rightarrow> Inl (Rejection ProofShapeMismatch
                (''induction has a principle only for an unsigned machine integer type, and the goal '' @
                 ''quantifies over '' @ describe_type quantified)))
      | _ \<Rightarrow> Inl (Rejection ProofShapeMismatch
          (''induction establishes a universally quantified goal, and the goal is '' @ describe_prop goal)))"

section \<open>Introductions\<close>

text \<open>An introduction offered for a goal it does not introduce is answered by the goal's kind.\<close>

fun wrong_introduction :: "kprop \<Rightarrow> rejection" where
  "wrong_introduction (Forall binder p) =
     Rejection ProofShapeMismatch ''a universally quantified goal requires forall-introduction''"
| "wrong_introduction (Implies p q) =
     Rejection ProofShapeMismatch ''an implication goal requires implication-introduction''"
| "wrong_introduction (And p q) =
     Rejection ProofShapeMismatch ''a conjunction goal requires conjunction-introduction''"
| "wrong_introduction (Or p q) =
     Rejection ProofShapeMismatch
       (''a disjunction goal is established by introducing one of its sides, or by '' @
        ''eliminating evidence for it'')"
| "wrong_introduction Falsity =
     Rejection ProofShapeMismatch
       (''False has no introduction; it is established only by a hypothesis, by eliminating evidence '' @
        ''for it, or by linear arithmetic refuting the facts alone'')"
| "wrong_introduction (Eq type lhs rhs) =
     Rejection ProofShapeMismatch
       (''an equality goal is established by reflexivity, by a hypothesis, or by '' @
        ''eliminating evidence for it'')"

definition forall_introduction :: "ktype \<Rightarrow> subchecker \<Rightarrow> subchecker" where
  "forall_introduction binder inner L A goal =
     (case goal of
        Forall quantified p \<Rightarrow>
          bind_ok (demand (binder = quantified) ProofShapeMismatch
             (''evidence introduces a binder of type '' @ describe_type binder @
              '' but the goal quantifies over '' @ describe_type quantified)) (\<lambda>_.
            inner (L @ [quantified]) A p)
      | _ \<Rightarrow> Inl (wrong_introduction goal))"

definition implication_introduction :: "kprop \<Rightarrow> subchecker \<Rightarrow> subchecker" where
  "implication_introduction premise inner L A goal =
     (case goal of
        Implies p q \<Rightarrow>
          bind_ok (demand (premise = p) ProofShapeMismatch
             (''evidence assumes '' @ describe_prop premise @ '' but the goal supposes '' @
              describe_prop p)) (\<lambda>_.
            inner L (A @ [\<lparr>assumed = p, binders = length L\<rparr>]) q)
      | _ \<Rightarrow> Inl (wrong_introduction goal))"

definition conjunction_introduction :: "subchecker \<Rightarrow> subchecker \<Rightarrow> subchecker" where
  "conjunction_introduction left right L A goal =
     (case goal of
        And p q \<Rightarrow> bind_ok (left L A p) (\<lambda>_. right L A q)
      | _ \<Rightarrow> Inl (wrong_introduction goal))"

definition disjunction_introduction :: "bool \<Rightarrow> subchecker \<Rightarrow> subchecker" where
  "disjunction_introduction right evidence L A goal =
     (case goal of
        Or p q \<Rightarrow> evidence L A (if right then q else p)
      | _ \<Rightarrow> Inl (wrong_introduction goal))"

definition reflexivity_rule :: "kcontext \<Rightarrow> core_limits \<Rightarrow> subchecker" where
  "reflexivity_rule \<Gamma> limits L A goal =
     (case goal of
        Eq type lhs rhs \<Rightarrow>
          bind_ok (or_reject CoreFailure (normalize \<Gamma> lhs limits)) (\<lambda>left.
          bind_ok (or_reject CoreFailure (normalize \<Gamma> rhs limits)) (\<lambda>right.
            demand (left = right) NotDefinitionallyEqual
              (''reflexivity requires definitionally equal terms, but '' @ describe_named \<Gamma> lhs @
               '' reduces to '' @ describe_named \<Gamma> left @ '' while '' @ describe_named \<Gamma> rhs @
               '' reduces to '' @ describe_named \<Gamma> right)))
      | _ \<Rightarrow> Inl (wrong_introduction goal))"

section \<open>The checker\<close>

definition proof_depth :: "core_limits \<Rightarrow> nat \<Rightarrow> subchecker \<Rightarrow> subchecker" where
  "proof_depth limits depth rule L A goal =
     bind_ok (demand (depth \<le> unat (max_term_depth limits)) MalformedProofTerm
       ''proof term nests deeper than the core allows'') (\<lambda>_. rule L A goal)"

fun check_under :: "kcontext \<Rightarrow> core_limits \<Rightarrow> proof_term \<Rightarrow> nat \<Rightarrow> subchecker"
  and fact_checker :: "kcontext \<Rightarrow> core_limits \<Rightarrow> arithmetic_fact \<Rightarrow> nat \<Rightarrow> kprop \<times> subchecker" where
  "check_under \<Gamma> limits (ConditionalElimination type c a b motive p q) depth =
     proof_depth limits depth (conditional_rule \<Gamma> limits depth type c a b motive
       (check_under \<Gamma> limits p (Suc depth)) (check_under \<Gamma> limits q (Suc depth)))"
| "check_under \<Gamma> limits (LinearArithmetic facts certificate) depth =
     proof_depth limits depth (arithmetic_rule \<Gamma> limits depth
       (map (\<lambda>f. fact_checker \<Gamma> limits f (Suc depth)) facts) certificate)"
| "check_under \<Gamma> limits (ForallElimination quantified p argument) depth =
     proof_depth limits depth (forall_elimination \<Gamma> limits depth quantified argument
       (check_under \<Gamma> limits p (Suc depth)))"
| "check_under \<Gamma> limits (ImplicationElimination implication p q) depth =
     proof_depth limits depth (implication_elimination \<Gamma> limits depth implication
       (check_under \<Gamma> limits p (Suc depth)) (check_under \<Gamma> limits q (Suc depth)))"
| "check_under \<Gamma> limits (ConjunctionElimination conjunction p right) depth =
     proof_depth limits depth (conjunction_elimination \<Gamma> limits depth conjunction right
       (check_under \<Gamma> limits p (Suc depth)))"
| "check_under \<Gamma> limits (DisjunctionElimination disjunction p q r) depth =
     proof_depth limits depth (disjunction_elimination \<Gamma> limits depth disjunction
       (check_under \<Gamma> limits p (Suc depth)) (check_under \<Gamma> limits q (Suc depth))
       (check_under \<Gamma> limits r (Suc depth)))"
| "check_under \<Gamma> limits (FalsityElimination p) depth =
     proof_depth limits depth (\<lambda>L A goal. check_under \<Gamma> limits p (Suc depth) L A Falsity)"
| "check_under \<Gamma> limits (EqualityElimination type lhs rhs motive p q) depth =
     proof_depth limits depth (equality_elimination \<Gamma> limits depth type lhs rhs motive
       (check_under \<Gamma> limits p (Suc depth)) (check_under \<Gamma> limits q (Suc depth)))"
| "check_under \<Gamma> limits (Hypothesis index) depth = proof_depth limits depth (hypothesis_rule index)"
| "check_under \<Gamma> limits (UnsignedInduction binder p q) depth =
     proof_depth limits depth (induction_rule binder
       (check_under \<Gamma> limits p (Suc depth)) (check_under \<Gamma> limits q (Suc depth)))"
| "check_under \<Gamma> limits (ForallIntroduction binder p) depth =
     proof_depth limits depth (forall_introduction binder (check_under \<Gamma> limits p (Suc depth)))"
| "check_under \<Gamma> limits (ImplicationIntroduction premise p) depth =
     proof_depth limits depth (implication_introduction premise (check_under \<Gamma> limits p (Suc depth)))"
| "check_under \<Gamma> limits (ConjunctionIntroduction p q) depth =
     proof_depth limits depth (conjunction_introduction
       (check_under \<Gamma> limits p (Suc depth)) (check_under \<Gamma> limits q (Suc depth)))"
| "check_under \<Gamma> limits (DisjunctionIntroduction p right) depth =
     proof_depth limits depth (disjunction_introduction right (check_under \<Gamma> limits p (Suc depth)))"
| "check_under \<Gamma> limits Reflexivity depth = proof_depth limits depth (reflexivity_rule \<Gamma> limits)"
| "fact_checker \<Gamma> limits (ArithmeticFact p evidence) depth = (p, check_under \<Gamma> limits evidence depth)"

text \<open>\<open>Acceptance\<close> carries the proposition that was accepted; only \<open>check\<close> makes one.\<close>

datatype acceptance = Acceptance (accepted: kprop)

definition check :: "kcontext \<Rightarrow> kprop \<Rightarrow> proof_term \<Rightarrow> core_limits \<Rightarrow> rejection + acceptance" where
  "check \<Gamma> goal evidence limits =
     bind_ok (validate_proposition \<Gamma> [] goal limits 0) (\<lambda>_.
     bind_ok (check_under \<Gamma> limits evidence 0 [] [] goal) (\<lambda>_. Inr (Acceptance goal)))"

end
