(* ===== verification/Obligation.thy ===== *)
theory Obligation
  imports Kernel_Check Interface Representation
begin

text \<open>
  Obligations and their outcomes (compiler/obligations/include/cppl/obligations/obligation.hpp,
  contracts.hpp, status.hpp, compiler/obligations/src/status.cpp): what the kernel is asked about a
  translation unit, the evidence written for it, and the verdicts. Identities of functions, laws
  and proofs are words of 32 bits.
\<close>

section \<open>Obligations\<close>

record source_range =
  range_begin :: source_location
  range_span :: byte_span

datatype origin =
    LawProposition | ProofProposition | FunctionContract | CallPreconditionOrigin | ReturnPathOrigin | LoopEntry
  | LoopPreservation | LoopDescent | CallDescent | RefinementIntroduction | ElementBounds | OmittedCase | ImpossiblePath
  | DefinedBehavior

fun describe_origin :: "origin \<Rightarrow> string" where
  "describe_origin CallPreconditionOrigin = ''call-site precondition''"
| "describe_origin ReturnPathOrigin = ''return path''"
| "describe_origin FunctionContract = ''function contract''"
| "describe_origin LawProposition = ''law proposition''"
| "describe_origin ProofProposition = ''proof proposition''"
| "describe_origin LoopEntry = ''loop invariant on entry''"
| "describe_origin LoopPreservation = ''loop invariant preservation''"
| "describe_origin LoopDescent = ''loop measure descent''"
| "describe_origin CallDescent = ''recursive call measure descent''"
| "describe_origin RefinementIntroduction = ''refinement membership''"
| "describe_origin ElementBounds = ''element index within extent''"
| "describe_origin OmittedCase = ''omitted case is impossible''"
| "describe_origin ImpossiblePath = ''runtime path is unreachable''"
| "describe_origin DefinedBehavior = ''operation has defined behavior''"

definition id_text :: "digest \<Rightarrow> string" where
  "id_text d = to_short_hex 16 d"

record trusted_premise =
  tp_law :: u32
  tp_name :: string
  tp_identity :: digest
  tp_location :: source_location
  tp_proposition :: kprop
  tp_direct :: bool

record proof_use =
  pu_name :: string
  pu_location :: source_location

record obligation =
  ob_id :: digest
  ob_origin :: origin
  ob_subject :: string
  ob_law :: "u32 option"
  ob_proof :: "u32 option"
  ob_trusted :: bool
  ob_goal :: kprop
  ob_range :: source_range
  ob_evidence :: "proof_term option"
  ob_assumptions :: "trusted_premise list"
  ob_uses :: "proof_use list"
  ob_refusal :: "string option"
  ob_explanation :: "string list"

record path_claim =
  pc_obligation :: nat
  pc_proof :: "u32 option"
  pc_evidence :: string
  pc_arguments :: "kterm list"
  pc_argument_types :: "ktype list"
  pc_location :: source_location

record written_proof =
  wp_id :: u32
  wp_name :: string
  wp_law :: "u32 option"
  wp_goal :: kprop
  wp_closes_law :: bool
  wp_assumptions :: "trusted_premise list"
  wp_uses :: "proof_use list"
  wp_term :: proof_term
  wp_range :: source_range

record refinement_predicate =
  rf_name :: string
  rf_parameters :: "ktype list"
  rf_predicate :: kprop
  rf_identity :: string
  rf_statement :: string
  rf_unvalidatable :: "string option"

record trusted_memory_assumption =
  tm_name :: string
  tm_identity :: digest
  tm_location :: source_location
  tm_statement :: string

section \<open>Contracts\<close>

record imported_contract =
  ic_origin :: string
  ic_entry :: digest
  ic_premises :: "law_premise list"
  ic_models :: "code_model list"
  ic_unsafe :: "unsafe_site list"
  ic_depends :: "dependency list"
  ic_runtime :: "runtime_check list"

record validation_site =
  vs_refinement :: string
  vs_predicate :: string
  vs_location :: source_location

record call_precondition =
  cpre_obligation :: nat
  cpre_reasoning_goal :: kprop

record call_verification =
  cv_callee :: u32
  cv_callee_name :: string
  cv_arguments :: "kterm list"
  cv_value :: kterm
  cv_result :: ktype
  cv_postcondition :: kprop
  cv_preconditions :: "call_precondition list"
  cv_conditions :: nat

record path_condition =
  cond_actual :: kprop
  cond_abstract :: kprop
  cond_calls :: nat

record return_path =
  rp_conditions :: "path_condition list"
  rp_calls :: "call_verification list"
  rp_returned_value :: kterm
  rp_obligation :: nat
  rp_reasoning_goal :: kprop

record verification_condition =
  vc_obligation :: nat
  vc_callees :: "nat list"

record library_summary =
  ls_symbol :: string
  ls_name :: string
  ls_library :: library_call
  ls_parameters :: "ktype list"
  ls_result :: ktype
  ls_preconditions :: "kprop list"
  ls_postcondition :: "kprop option"

record contract_verification =
  ct_function :: u32
  ct_name :: string
  ct_symbol :: string
  ct_description :: string
  ct_imported :: "imported_contract option"
  ct_parameters :: "ktype list"
  ct_preconditions :: "kprop list"
  ct_postcondition :: kprop
  ct_owed_at_return :: kprop
  ct_result :: ktype
  ct_returned_value :: kterm
  ct_named_value :: kterm
  ct_theorem :: kprop
  ct_paths :: "return_path list"
  ct_obligation :: nat
  ct_conditions :: "verification_condition list"
  ct_unsafe_regions :: "source_location list"
  ct_unmeasured_loops :: "source_location list"
  ct_partial_callees :: "nat list"
  ct_recursion :: "nat list"
  ct_library_models :: "representation_kind list"
  ct_validations :: "validation_site list"
  ct_partial :: bool
  ct_total :: bool
  ct_identity :: digest
  ct_statement :: "digest option"
  ct_interface_statement :: "digest option"

section \<open>Programs\<close>

record program =
  pg_context :: kcontext
  pg_obligations :: "obligation list"
  pg_memory_assumptions :: "trusted_memory_assumption list"
  pg_proofs :: "written_proof list"
  pg_contracts :: "contract_verification list"
  pg_refinements :: "refinement_predicate list"
  pg_library :: "library_summary list"
  pg_path_claims :: "path_claim list"
  pg_refused_proofs :: "u32 list"

definition relative_to :: "trusted_premise list \<Rightarrow> kprop \<Rightarrow> kprop" where
  "relative_to premises goal = foldr (\<lambda>p g. Implies (tp_proposition p) g) premises goal"

definition refinement_named :: "program \<Rightarrow> string \<Rightarrow> refinement_predicate option" where
  "refinement_named pg name =
     find (\<lambda>r. (if rf_identity r = [] then rf_name r else rf_identity r) = name) (pg_refinements pg)"

definition library_summary_of :: "program \<Rightarrow> string \<Rightarrow> library_summary option" where
  "library_summary_of pg symbol = find (\<lambda>s. ls_symbol s = symbol) (pg_library pg)"

definition proof_for_law :: "program \<Rightarrow> u32 \<Rightarrow> written_proof option" where
  "proof_for_law pg law = find (\<lambda>p. wp_law p = Some law \<and> wp_closes_law p) (pg_proofs pg)"

definition proof_for :: "program \<Rightarrow> obligation \<Rightarrow> written_proof option" where
  "proof_for pg ob =
     (case ob_proof ob of
        Some i \<Rightarrow> find (\<lambda>p. wp_id p = i) (pg_proofs pg)
      | None \<Rightarrow> (case ob_law ob of Some law \<Rightarrow> proof_for_law pg law | None \<Rightarrow> None))"

definition proof_refused :: "program \<Rightarrow> obligation \<Rightarrow> bool" where
  "proof_refused pg ob \<longleftrightarrow>
     (case ob_proof ob of
        Some i \<Rightarrow> proof_for pg ob = None
      | None \<Rightarrow> (case ob_law ob of Some law \<Rightarrow> law \<in> set (pg_refused_proofs pg) | None \<Rightarrow> False))"

section \<open>Verdicts\<close>

datatype status = Proven | Trusted | RuntimeChecked | Unsafe | Unverified | Unresolved

fun describe_status :: "status \<Rightarrow> string" where
  "describe_status Proven = ''PROVEN''"
| "describe_status Trusted = ''TRUSTED''"
| "describe_status RuntimeChecked = ''RUNTIME-CHECKED''"
| "describe_status Unsafe = ''UNSAFE''"
| "describe_status Unverified = ''UNVERIFIED''"
| "describe_status Unresolved = ''UNRESOLVED''"

record verdict =
  vd_status :: status
  vd_reason :: string
  vd_premises :: "trusted_premise list"

definition is_proven :: "verdict \<Rightarrow> bool" where
  "is_proven v \<longleftrightarrow> vd_status v = Proven"

definition unresolved :: "string \<Rightarrow> verdict" where
  "unresolved reason = \<lparr>vd_status = Unresolved, vd_reason = reason, vd_premises = []\<rparr>"

definition trusted :: "string \<Rightarrow> verdict" where
  "trusted declared = \<lparr>vd_status = Trusted, vd_reason = declared, vd_premises = []\<rparr>"

definition proven :: "acceptance \<Rightarrow> obligation \<Rightarrow> trusted_premise list \<Rightarrow> verdict" where
  "proven acceptance ob premises =
     (if accepted acceptance \<noteq> relative_to premises (ob_goal ob)
      then unresolved ''the kernel accepted a different proposition than this obligation states''
      else \<lparr>vd_status = Proven, vd_reason = [], vd_premises = premises\<rparr>)"

record obligation_result =
  or_obligation :: obligation
  or_verdict :: verdict
  or_strategy :: string

end
