(* ===== verification/Evidence_Shape.thy ===== *)
theory Evidence_Shape
  imports Obligation
begin

text \<open>
  Evidence shaped after a goal (compiler/obligations/src/status.cpp, and the motives of
  compiler/obligations/src/generate_evidence.cpp): what the premises in scope make available, and
  the proof terms that introduce the goal's own structure, use its premises and rewrite with them.
\<close>

section \<open>The motive of a rewrite\<close>

text \<open>
  \<open>abstract_occurrences\<close> returns the term or proposition with the variable at \<open>depth\<close> for every
  occurrence of the target, and sets a flag when it met one; the flag is the second function.
\<close>

fun abstract_term :: "kterm \<Rightarrow> nat \<Rightarrow> kterm \<Rightarrow> kterm" where
  "abstract_term target depth t =
     (if t = target then Var depth
      else case t of
        Call callee arguments \<Rightarrow> Call callee (map (abstract_term target depth) arguments)
      | Prim op type arguments \<Rightarrow> Prim op type (map (abstract_term target depth) arguments)
      | _ \<Rightarrow> t)"

fun met_in_term :: "kterm \<Rightarrow> kterm \<Rightarrow> bool" where
  "met_in_term target t \<longleftrightarrow>
     t = target \<or>
     (case t of
        Call callee arguments \<Rightarrow> list_ex (met_in_term target) arguments
      | Prim op type arguments \<Rightarrow> list_ex (met_in_term target) arguments
      | _ \<Rightarrow> False)"

declare abstract_term.simps [simp del] met_in_term.simps [simp del]

fun abstract_prop :: "kterm \<Rightarrow> nat \<Rightarrow> kprop \<Rightarrow> kprop" where
  "abstract_prop target depth (Forall binder p) = Forall binder (abstract_prop (shift_term target 1 0) (depth + 1) p)"
| "abstract_prop target depth (Implies p q) = Implies (abstract_prop target depth p) (abstract_prop target depth q)"
| "abstract_prop target depth (And p q) = And (abstract_prop target depth p) (abstract_prop target depth q)"
| "abstract_prop target depth (Or p q) = Or (abstract_prop target depth p) (abstract_prop target depth q)"
| "abstract_prop target depth Falsity = Falsity"
| "abstract_prop target depth (Eq type lhs rhs) = Eq type (abstract_term target depth lhs) (abstract_term target depth rhs)"

fun met_in_prop :: "kterm \<Rightarrow> kprop \<Rightarrow> bool" where
  "met_in_prop target (Forall binder p) = met_in_prop (shift_term target 1 0) p"
| "met_in_prop target (Implies p q) = (met_in_prop target p \<or> met_in_prop target q)"
| "met_in_prop target (And p q) = (met_in_prop target p \<or> met_in_prop target q)"
| "met_in_prop target (Or p q) = (met_in_prop target p \<or> met_in_prop target q)"
| "met_in_prop target Falsity = False"
| "met_in_prop target (Eq type lhs rhs) = (met_in_term target lhs \<or> met_in_term target rhs)"

definition rewrite_context :: "kprop \<Rightarrow> kterm \<Rightarrow> kprop option" where
  "rewrite_context goal target =
     (if met_in_prop (shift_term target 1 0) (shift_prop goal 1 0)
      then Some (abstract_prop (shift_term target 1 0) 0 (shift_prop goal 1 0)) else None)"

section \<open>What the premises make available\<close>

type_synonym available = "(kprop \<times> proof_term) list"

fun reachable :: "kprop \<Rightarrow> proof_term \<Rightarrow> available" where
  "reachable (And p q) e =
     (And p q, e) # reachable p (ConjunctionElimination (And p q) e False) @
     reachable q (ConjunctionElimination (And p q) e True)"
| "reachable p e = [(p, e)]"

fun implication_of :: "kprop \<Rightarrow> (kprop \<times> kprop) option" where
  "implication_of (Implies p q) = Some (p, q)"
| "implication_of p = None"

lemma implication_of_Some [simp]: "implication_of r = Some (p, q) \<longleftrightarrow> r = Implies p q"
  by (cases r) auto

text \<open>Implications in a proposition, which bound how often \<open>chain\<close> can use one.\<close>

fun implications :: "kprop \<Rightarrow> nat" where
  "implications (Implies p q) = Suc (implications p + implications q)"
| "implications (And p q) = implications p + implications q"
| "implications (Or p q) = implications p + implications q"
| "implications (Forall binder p) = implications p"
| "implications p = 0"

definition weight :: "kprop \<times> proof_term \<Rightarrow> nat" where
  "weight e = (if implication_of (fst e) = None then 0 else implications (fst e))"

fun unused_weight :: "nat \<Rightarrow> nat list \<Rightarrow> available \<Rightarrow> nat" where
  "unused_weight i used [] = 0"
| "unused_weight i used (e # es) = (if i \<in> set used then 0 else weight e) + unused_weight (Suc i) used es"

lemma reachable_weight: "sum_list (map weight (reachable p t)) \<le> implications p"
  by (induction p t rule: reachable.induct) (auto simp: weight_def)

lemma unused_weight_append:
  "unused_weight i used (es @ fs) = unused_weight i used es + unused_weight (i + length es) used fs"
  by (induction es arbitrary: i) simp_all

lemma unused_weight_new: "\<forall>j \<in> set used. j < i \<Longrightarrow> unused_weight i used es = sum_list (map weight es)"
  by (induction es arbitrary: i) (auto simp: less_Suc_eq)

lemma unused_weight_before: "j < i \<Longrightarrow> unused_weight i (j # used) es = unused_weight i used es"
  by (induction es arbitrary: i) auto

lemma unused_weight_used:
  "i \<le> j \<Longrightarrow> j < i + length es \<Longrightarrow> j \<notin> set used \<Longrightarrow>
     unused_weight i (j # used) es + weight (es ! (j - i)) = unused_weight i used es"
proof (induction es arbitrary: i)
  case (Cons e es)
  then show ?case by (cases "j = i") (auto simp: unused_weight_before nth_Cons')
qed simp

lemma unused_weight_chained:
  assumes "\<forall>j \<in> set used. j < length available" "i < length available" "i \<notin> set used" "fst (available ! i) = Implies p q"
  shows "unused_weight 0 (i # used) (available @ reachable q t) < unused_weight 0 used available"
proof -
  have "unused_weight 0 (i # used) (available @ reachable q t) =
      unused_weight 0 (i # used) available + sum_list (map weight (reachable q t))"
    using assms(1,2) by (simp add: unused_weight_append unused_weight_new)
  moreover have "unused_weight 0 (i # used) available + weight (available ! i) = unused_weight 0 used available"
    using unused_weight_used [of 0 i available used] assms(2,3) by simp
  moreover have "sum_list (map weight (reachable q t)) < weight (available ! i)"
    using reachable_weight [of q t] assms(4) by (simp add: weight_def)
  ultimately show ?thesis by simp
qed

text \<open>
  The two loops of \<open>chain\<close>: the inner one goes over the list while it grows, the outer one starts
  again while an implication was used. The used flags are the list of the used positions; they are
  all below the length of the list, so the first test never fails in a run of the code.
\<close>

function chain_from :: "nat \<Rightarrow> bool \<Rightarrow> nat list \<Rightarrow> available \<Rightarrow> available" where
  "chain_from i progress used available =
     (if \<not> (\<forall>j \<in> set used. j < length available) then available
      else if length available \<le> i then (if progress then chain_from 0 False used available else available)
      else case implication_of (fst (available ! i)) of
        None \<Rightarrow> chain_from (Suc i) progress used available
      | Some (p, q) \<Rightarrow>
          if i \<in> set used then chain_from (Suc i) progress used available
          else case find (\<lambda>e. fst e = p) available of
            None \<Rightarrow> chain_from (Suc i) progress used available
          | Some e \<Rightarrow>
              chain_from (Suc i) True (i # used)
                (available @ reachable q (ImplicationElimination (fst (available ! i)) (snd (available ! i)) (snd e))))"
  by pat_completeness auto
termination
proof (relation "inv_image (less_than <*lex*> less_than <*lex*> less_than)
    (\<lambda>(i, progress, used, available). (unused_weight 0 used available, if progress then 1 else 0 :: nat, length available - i))")
qed (auto simp: not_le intro!: unused_weight_chained split: if_splits)

declare chain_from.simps [simp del]

definition chain :: "available \<Rightarrow> available" where
  "chain available = chain_from 0 False [] available"

text \<open>A premise supposed on the way in, and how many binders stood over it.\<close>

type_synonym supposed = "(kprop \<times> nat) list"

text \<open>Innermost premise first; fewer than \<open>2 ^ 32\<close> premises and binders stand.\<close>

definition in_scope :: "supposed \<Rightarrow> nat \<Rightarrow> available" where
  "in_scope supposed levels =
     chain (concat (map (\<lambda>(i, p, b). reachable (shift_prop p (levels - b) 0) (Hypothesis i))
       (zip [0..<length supposed] (rev supposed))))"

section \<open>Propositions that can come into scope\<close>

fun subparts :: "kprop \<Rightarrow> kprop list" where
  "subparts (And p q) = And p q # subparts p @ subparts q"
| "subparts (Or p q) = Or p q # subparts p @ subparts q"
| "subparts (Implies p q) = Implies p q # subparts q"
| "subparts p = [p]"

lemma subparts_self [simp]: "p \<in> set (subparts p)"
  by (cases p) simp_all

lemma subparts_trans: "q \<in> set (subparts p) \<Longrightarrow> set (subparts q) \<subseteq> set (subparts p)"
  by (induction p) auto

lemma reachable_subparts: "fst ` set (reachable p t) \<subseteq> set (subparts p)"
  by (induction p t rule: reachable.induct) auto

definition closed_under_subparts :: "kprop set \<Rightarrow> bool" where
  "closed_under_subparts U \<longleftrightarrow> (\<forall>p \<in> U. set (subparts p) \<subseteq> U)"

lemma chain_from_closed:
  "closed_under_subparts U \<Longrightarrow> fst ` set available \<subseteq> U \<Longrightarrow> fst ` set (chain_from i progress used available) \<subseteq> U"
proof (induction i progress used available rule: chain_from.induct)
  case (1 i progress used available)
  show ?case
  proof (cases "(\<forall>j \<in> set used. j < length available) \<and> i < length available")
    case False
    then show ?thesis using 1 by (subst chain_from.simps) auto
  next
    case True
    note b = True
    show ?thesis
    proof (cases "implication_of (fst (available ! i))")
      case None
      then have "chain_from i progress used available = chain_from (Suc i) progress used available"
        using b by (subst chain_from.simps) auto
      then show ?thesis using "1.IH"(2) "1.prems" b None by simp
    next
      case (Some pq)
      obtain p q where pq: "pq = (p, q)" by fastforce
      show ?thesis
      proof (cases "i \<in> set used")
        case True
        then have "chain_from i progress used available = chain_from (Suc i) progress used available"
          using b Some pq by (subst chain_from.simps) auto
        then show ?thesis using "1.IH"(3) [OF _ _ Some pq [symmetric]] "1.prems" b True by simp
      next
        case False
        show ?thesis
        proof (cases "find (\<lambda>e. fst e = p) available")
          case None
          then have "chain_from i progress used available = chain_from (Suc i) progress used available"
            using b Some pq False by (subst chain_from.simps) auto
          then show ?thesis using "1.IH"(4) [OF _ _ Some pq [symmetric]] "1.prems" b False None by simp
        next
          case found: (Some e)
          let ?new = "reachable q (ImplicationElimination (fst (available ! i)) (snd (available ! i)) (snd e))"
          have "Implies p q \<in> U" using Some pq b "1.prems"(2) by (force dest!: nth_mem)
          then have "set (subparts q) \<subseteq> U" using "1.prems"(1) by (force simp: closed_under_subparts_def)
          then have "fst ` set (available @ ?new) \<subseteq> U" using reachable_subparts [of q] "1.prems"(2) by fastforce
          then have "fst ` set (chain_from (Suc i) True (i # used) (available @ ?new)) \<subseteq> U"
            using "1.IH"(5) [OF _ _ Some pq [symmetric] False found] "1.prems"(1) b by simp
          moreover have "chain_from i progress used available = chain_from (Suc i) True (i # used) (available @ ?new)"
            using b Some pq False found by (subst chain_from.simps) simp
          ultimately show ?thesis by simp
        qed
      qed
    qed
  qed
qed

definition supposable :: "supposed \<Rightarrow> nat \<Rightarrow> kprop set" where
  "supposable supposed levels = (\<Union>(p, b) \<in> set supposed. set (subparts (shift_prop p (levels - b) 0)))"

lemma finite_supposable [simp]: "finite (supposable supposed levels)"
  by (auto simp: supposable_def)

lemma supposable_closed: "closed_under_subparts (supposable supposed levels)"
  using subparts_trans by (fastforce simp: closed_under_subparts_def supposable_def)

lemma in_scope_supposable: "fst ` set (in_scope supposed levels) \<subseteq> supposable supposed levels"
proof -
  have "fst ` set (concat (map (\<lambda>(i, p, b). reachable (shift_prop p (levels - b) 0) (Hypothesis i))
      (zip [0..<length supposed] (rev supposed)))) \<subseteq> supposable supposed levels"
  proof
    fix r
    assume "r \<in> fst ` set (concat (map (\<lambda>(i, p, b). reachable (shift_prop p (levels - b) 0) (Hypothesis i))
      (zip [0..<length supposed] (rev supposed))))"
    then obtain z where "z \<in> set (zip [0..<length supposed] (rev supposed))"
        "r \<in> fst ` set ((\<lambda>(i, p, b). reachable (shift_prop p (levels - b) 0) (Hypothesis i)) z)"
      unfolding set_concat set_map by blast
    moreover obtain i p b where "z = (i, p, b)" by (cases z) auto
    ultimately have e: "(i, p, b) \<in> set (zip [0..<length supposed] (rev supposed))"
        "r \<in> fst ` set (reachable (shift_prop p (levels - b) 0) (Hypothesis i))" by simp_all
    have "(p, b) \<in> set supposed" using set_zip_rightD [OF e(1)] by simp
    then show "r \<in> supposable supposed levels" using e(2) reachable_subparts by (fastforce simp: supposable_def)
  qed
  then show ?thesis unfolding in_scope_def chain_def by (rule chain_from_closed [OF supposable_closed])
qed

lemma supposable_side:
  assumes "Or l r \<in> supposable supposed levels" "s = l \<or> s = r"
  shows "supposable (supposed @ [(s, levels)]) levels = supposable supposed levels"
proof -
  have "set (subparts s) \<subseteq> set (subparts (Or l r))" using assms(2) by auto
  then have "set (subparts s) \<subseteq> supposable supposed levels"
    using supposable_closed [of supposed levels] assms(1) unfolding closed_under_subparts_def by fastforce
  then show ?thesis by (auto simp: supposable_def shift_prop_def)
qed

section \<open>Shaped evidence\<close>

fun connectives :: "kprop \<Rightarrow> nat" where
  "connectives (Forall binder p) = Suc (connectives p)"
| "connectives (Implies p q) = Suc (connectives p + connectives q)"
| "connectives (And p q) = Suc (connectives p + connectives q)"
| "connectives (Or p q) = Suc (connectives p + connectives q)"
| "connectives p = 0"

lemma connectives_instantiate [simp]: "connectives (instantiate_prop p t d) = connectives p"
  by (induction p arbitrary: d) simp_all

lemma connectives_raise: "connectives (raise_prop a c p) = connectives p"
  by (induction p arbitrary: c) simp_all

lemma connectives_shift [simp]: "connectives (shift_prop p a c) = connectives p"
  by (simp add: shift_prop_def connectives_raise)

lemma connectives_abstract [simp]: "connectives (abstract_prop t d p) = connectives p"
  by (induction t d p rule: abstract_prop.induct) simp_all

lemma connectives_motive: "rewrite_context goal t = Some motive \<Longrightarrow> connectives motive = connectives goal"
  by (auto simp: rewrite_context_def split: if_splits)

text \<open>
  The first equality in scope, from \<open>skip\<close> on, the goal can be rewritten with: its position, its
  type, what is replaced by what, the motive and the evidence.
\<close>

fun oriented :: "kprop \<Rightarrow> kprop \<times> proof_term \<Rightarrow> (ktype \<times> kterm \<times> kterm \<times> kprop \<times> proof_term) option" where
  "oriented goal (Eq type lhs rhs, evidence) =
     (case rewrite_context goal lhs of
        Some motive \<Rightarrow> Some (type, lhs, rhs, motive, evidence)
      | None \<Rightarrow>
          if type = Int_Type kBoolean then None
          else map_option (\<lambda>motive. (type, rhs, lhs, motive,
                 EqualityElimination type lhs rhs (Eq type (shift_term rhs 1 0) (Var 0)) evidence Reflexivity))
               (rewrite_context goal rhs))"
| "oriented goal e = None"

definition rewrite_from :: "kprop \<Rightarrow> nat \<Rightarrow> available \<Rightarrow> (nat \<times> ktype \<times> kterm \<times> kterm \<times> kprop \<times> proof_term) option" where
  "rewrite_from goal skip available =
     map_option (\<lambda>i. (i, the (oriented goal (available ! i))))
       (find (\<lambda>i. oriented goal (available ! i) \<noteq> None) [skip..<length available])"

definition not_split :: "kprop list \<Rightarrow> kprop \<times> proof_term \<Rightarrow> bool" where
  "not_split split e \<longleftrightarrow> (case fst e of Or l r \<Rightarrow> fst e \<notin> set split | _ \<Rightarrow> False)"

fun sides :: "kprop \<Rightarrow> kprop \<times> kprop" where
  "sides (Or l r) = (l, r)"
| "sides p = (p, p)"

lemma find_mem: "find P xs = Some x \<Longrightarrow> x \<in> set xs \<and> P x"
  by (induction xs) (auto split: if_splits)

lemma rewrite_from_Some:
  assumes "rewrite_from goal skip available = Some (i, type, from, to, motive, evidence)"
  shows "skip \<le> i \<and> i < length available \<and> connectives motive = connectives goal"
proof -
  from assms have i: "find (\<lambda>i. oriented goal (available ! i) \<noteq> None) [skip..<length available] = Some i"
    and o: "the (oriented goal (available ! i)) = (type, from, to, motive, evidence)"
    by (auto simp: rewrite_from_def)
  have r: "skip \<le> i" "i < length available" "oriented goal (available ! i) \<noteq> None" using find_mem [OF i] by auto
  then have "oriented goal (available ! i) = Some (type, from, to, motive, evidence)" using o by auto
  then have "\<exists>t. rewrite_context goal t = Some motive"
    by (cases "(goal, available ! i)" rule: oriented.cases) (auto split: option.splits if_splits)
  then show ?thesis using r connectives_motive by blast
qed

lemma split_decreases:
  assumes "find (not_split split) (in_scope supposed levels) = Some (d, e)" "s = fst (sides d) \<or> s = snd (sides d)"
  shows "card (supposable (supposed @ [(s, levels)]) levels - insert d (set split)) <
    card (supposable supposed levels - set split)"
proof -
  from find_mem [OF assms(1)] have m: "(d, e) \<in> set (in_scope supposed levels)" "not_split split (d, e)" by simp_all
  then obtain l r where d: "d = Or l r" "d \<notin> set split" by (cases d) (auto simp: not_split_def)
  have u: "d \<in> supposable supposed levels" using m(1) in_scope_supposable by force
  then have "supposable (supposed @ [(s, levels)]) levels = supposable supposed levels"
    using supposable_side [of l r supposed levels s] assms(2) d(1) by auto
  moreover have "supposable supposed levels - insert d (set split) \<subset> supposable supposed levels - set split"
    using u d(2) by auto
  ultimately show ?thesis by (simp add: psubset_card_mono)
qed

lemma rewrite_decreases:
  "rewrite_from goal skip available = Some (i, type, from, to, motive, evidence) \<Longrightarrow>
     length available - Suc i < length available - skip"
  using rewrite_from_Some by fastforce

lemma rewrite_connectives:
  "rewrite_from goal skip available = Some (i, type, from, to, motive, evidence) \<Longrightarrow> connectives motive = connectives goal"
  using rewrite_from_Some by blast

text \<open>
  \<open>shaped_evidence\<close>: \<open>Shaping\<close> and the count of binders are arguments, and what the code pushes
  and pops is added for the recursive calls.
\<close>

function shaped_evidence :: "bool \<Rightarrow> supposed \<Rightarrow> kprop list \<Rightarrow> nat \<Rightarrow> nat \<Rightarrow> kprop \<Rightarrow> proof_term" where
  "shaped_evidence prefer_right supposed split levels skip goal =
     (case goal of
        Forall binder p \<Rightarrow> ForallIntroduction binder (shaped_evidence prefer_right supposed split (Suc levels) 0 p)
      | Implies p q \<Rightarrow>
          ImplicationIntroduction p (shaped_evidence prefer_right (supposed @ [(p, levels)]) split levels 0 q)
      | _ \<Rightarrow>
          let available = in_scope supposed levels in
          case find (\<lambda>e. fst e = goal) available of
            Some e \<Rightarrow> snd e
          | None \<Rightarrow>
              (case goal of
                 And p q \<Rightarrow>
                   ConjunctionIntroduction (shaped_evidence prefer_right supposed split levels 0 p)
                     (shaped_evidence prefer_right supposed split levels 0 q)
               | Or p q \<Rightarrow>
                   DisjunctionIntroduction
                     (if prefer_right then shaped_evidence prefer_right supposed split levels 0 q
                      else shaped_evidence prefer_right supposed split levels 0 p) prefer_right
               | _ \<Rightarrow>
                   (case find (not_split split) available of
                      Some (d, e) \<Rightarrow>
                        DisjunctionElimination d e
                          (ImplicationIntroduction (fst (sides d))
                            (shaped_evidence prefer_right (supposed @ [(fst (sides d), levels)]) (split @ [d]) levels 0 goal))
                          (ImplicationIntroduction (snd (sides d))
                            (shaped_evidence prefer_right (supposed @ [(snd (sides d), levels)]) (split @ [d]) levels 0 goal))
                    | None \<Rightarrow>
                        (case rewrite_from goal skip available of
                           Some (i, type, from, to, motive, e) \<Rightarrow>
                             EqualityElimination type from to motive e
                               (shaped_evidence prefer_right supposed split levels (Suc i) (instantiate_prop motive to 0))
                         | None \<Rightarrow> Reflexivity))))"
  by pat_completeness auto
termination
proof (relation "inv_image (less_than <*lex*> less_than <*lex*> less_than)
    (\<lambda>(prefer_right, supposed, split, levels, skip, goal).
       (connectives goal, card (supposable supposed levels - set split), length (in_scope supposed levels) - skip))")
qed (auto dest: split_decreases rewrite_decreases rewrite_connectives)

declare shaped_evidence.simps [simp del]

definition automatic_evidence :: "kprop \<Rightarrow> bool \<Rightarrow> proof_term" where
  "automatic_evidence goal prefer_right = shaped_evidence prefer_right [] [] 0 0 goal"

fun definitional_evidence :: "kprop \<Rightarrow> bool \<Rightarrow> proof_term" where
  "definitional_evidence (Forall binder p) prefer_right = ForallIntroduction binder (definitional_evidence p prefer_right)"
| "definitional_evidence (Implies p q) prefer_right = ImplicationIntroduction p (definitional_evidence q prefer_right)"
| "definitional_evidence (And p q) prefer_right =
     ConjunctionIntroduction (definitional_evidence p prefer_right) (definitional_evidence q prefer_right)"
| "definitional_evidence (Or p q) prefer_right =
     DisjunctionIntroduction (if prefer_right then definitional_evidence q prefer_right
                              else definitional_evidence p prefer_right) prefer_right"
| "definitional_evidence p prefer_right = Reflexivity"

end
