(* ===== verification/Semantics.thy ===== *)
theory Semantics
  imports Kernel_Context Kernel_Props
begin

text \<open>
  What the kernel's propositions mean. Integers are integers; abstract values and indexed
  domains are interpreted by any structure that respects their signatures, so nothing here
  assumes more of them than the kernel does. A definition means the function its body
  computes. This is the specification the checker is measured against; nothing in the code
  computes it.
\<close>

section \<open>Structures\<close>

datatype 'u kvalue = IntV (the_int: wide) | ObjV (the_obj: 'u)

record 'u kmodel =
  carrier :: "ktype \<Rightarrow> 'u set"
  observation :: "ktype \<Rightarrow> nat \<Rightarrow> 'u \<Rightarrow> 'u kvalue"
  component :: "ktype \<Rightarrow> 'u \<Rightarrow> int \<Rightarrow> 'u kvalue"

fun in_type :: "'u kmodel \<Rightarrow> ktype \<Rightarrow> 'u kvalue \<Rightarrow> bool" where
  "in_type S (Int_Type type) (IntV n) \<longleftrightarrow> is_representable type n"
| "in_type S (Int_Type type) (ObjV u) \<longleftrightarrow> False"
| "in_type S (Value_Type i ps) (ObjV u) \<longleftrightarrow> u \<in> carrier S (Value_Type i ps)"
| "in_type S (Indexed_Type es n) (ObjV u) \<longleftrightarrow> u \<in> carrier S (Indexed_Type es n)"
| "in_type S (Value_Type i ps) (IntV n) \<longleftrightarrow> False"
| "in_type S (Indexed_Type es n) (IntV m) \<longleftrightarrow> False"

text \<open>
  Every observation of an abstract value has the type its signature states, and every
  component of an indexed domain, at any integer, the element type. No carrier need be
  inhabited.
\<close>

definition wf_model :: "'u kmodel \<Rightarrow> bool" where
  "wf_model S \<longleftrightarrow>
     (\<forall>i ps k u. is_supported (Value_Type i ps) \<and> k < length ps \<and> u \<in> carrier S (Value_Type i ps) \<longrightarrow>
        in_type S (ps ! k) (observation S (Value_Type i ps) k u)) \<and>
     (\<forall>e n u j. is_supported (Indexed_Type [e] n) \<and> u \<in> carrier S (Indexed_Type [e] n) \<longrightarrow>
        in_type S e (component S (Indexed_Type [e] n) u j))"

lemma in_type_int: "in_type S (Int_Type type) v \<longleftrightarrow> (\<exists>n. v = IntV n \<and> is_representable type n)"
  by (cases v) simp_all

section \<open>Values of terms\<close>

text \<open>What each primitive computes (kernel/include/cppl/kernel/term.hpp, \<open>PrimOp\<close>).\<close>

definition truth_value :: "bool \<Rightarrow> wide" where
  "truth_value b = (if b then 1 else 0)"

definition prim_value :: "prim_op \<Rightarrow> int_type \<Rightarrow> wide list \<Rightarrow> wide" where
  "prim_value op type vs =
     (let a = vs ! 0; b = vs ! 1; c = vs ! 2 in
      case op of
        AddWrap \<Rightarrow> wrap_into type (a + b)
      | SubWrap \<Rightarrow> wrap_into type (a - b)
      | MulWrap \<Rightarrow> wrap_into type (a * b)
      | Equal \<Rightarrow> truth_value (a = b)
      | NotEqual \<Rightarrow> truth_value (a \<noteq> b)
      | Less \<Rightarrow> truth_value (a < b)
      | LessEqual \<Rightarrow> truth_value (a \<le> b)
      | Greater \<Rightarrow> truth_value (a > b)
      | GreaterEqual \<Rightarrow> truth_value (a \<ge> b)
      | NotOp \<Rightarrow> truth_value (a = 0)
      | Select \<Rightarrow> (if a = 0 then c else b)
      | AddFits \<Rightarrow> truth_value (is_representable type (a + b))
      | SubFits \<Rightarrow> truth_value (is_representable type (a - b))
      | MulFits \<Rightarrow> truth_value (is_representable type (a * b))
      | Quotient \<Rightarrow> wrap_into type (a sdiv b)
      | Remainder \<Rightarrow> a smod b
      | Convert \<Rightarrow> wrap_into type a)"

lemma prim_value_simps [simp]:
  "prim_value AddWrap type [a, b] = wrap_into type (a + b)"
  "prim_value SubWrap type [a, b] = wrap_into type (a - b)"
  "prim_value MulWrap type [a, b] = wrap_into type (a * b)"
  "prim_value Equal type [a, b] = truth_value (a = b)"
  "prim_value NotEqual type [a, b] = truth_value (a \<noteq> b)"
  "prim_value Less type [a, b] = truth_value (a < b)"
  "prim_value LessEqual type [a, b] = truth_value (a \<le> b)"
  "prim_value Greater type [a, b] = truth_value (a > b)"
  "prim_value GreaterEqual type [a, b] = truth_value (a \<ge> b)"
  "prim_value NotOp type [a] = truth_value (a = 0)"
  "prim_value Select type [c, a, b] = (if c = 0 then b else a)"
  "prim_value AddFits type [a, b] = truth_value (is_representable type (a + b))"
  "prim_value SubFits type [a, b] = truth_value (is_representable type (a - b))"
  "prim_value MulFits type [a, b] = truth_value (is_representable type (a * b))"
  "prim_value Quotient type [a, b] = wrap_into type (a sdiv b)"
  "prim_value Remainder type [a, b] = a smod b"
  "prim_value Convert type [a] = wrap_into type a"
  by (simp_all add: prim_value_def)

lemma truth_value_simps [simp]:
  "truth_value b = 0 \<longleftrightarrow> \<not> b"
  "truth_value b = 1 \<longleftrightarrow> b"
  "truth_value True = 1"
  "truth_value False = 0"
  by (simp_all add: truth_value_def)

lemma truth_value_eq: "truth_value b = truth_value c \<longleftrightarrow> b = c"
  by (auto simp: truth_value_def)

type_synonym 'u funs = "nat \<Rightarrow> 'u kvalue list \<Rightarrow> 'u kvalue"

text \<open>An environment lists the values of the enclosing binders, outermost first.\<close>

fun eval :: "'u kmodel \<Rightarrow> 'u funs \<Rightarrow> 'u kvalue list \<Rightarrow> kterm \<Rightarrow> 'u kvalue" where
  "eval S E env (Var i) = env ! (length env - 1 - i)"
| "eval S E env (Literal type v) = IntV v"
| "eval S E env (Call callee ts) = E callee (map (eval S E env) ts)"
| "eval S E env (Prim op type ts) = IntV (prim_value op type (map (\<lambda>t. the_int (eval S E env t)) ts))"
| "eval S E env (Projection domain k ts) =
     (case ts of [t] \<Rightarrow> observation S domain k (the_obj (eval S E env t)) | _ \<Rightarrow> IntV 0)"
| "eval S E env (Element domain ts) =
     (case ts of [t, i] \<Rightarrow> component S domain (the_obj (eval S E env t)) (the_int (eval S E env i))
      | _ \<Rightarrow> IntV 0)"

definition define_function ::
  "'u kmodel \<Rightarrow> 'u funs \<Rightarrow> kdefinition \<Rightarrow> 'u funs" where
  "define_function S E d = E(def_id d := (\<lambda>args. eval S E args (body d)))"

text \<open>The functions a context defines: each body is read with the definitions before it.\<close>

definition functions_of :: "'u kmodel \<Rightarrow> kcontext \<Rightarrow> 'u funs" where
  "functions_of S \<Gamma> = foldl (define_function S) (\<lambda>_ _. IntV 0) \<Gamma>"

section \<open>Truth of propositions\<close>

fun holds :: "'u kmodel \<Rightarrow> 'u funs \<Rightarrow> 'u kvalue list \<Rightarrow> kprop \<Rightarrow> bool" where
  "holds S E env (Eq type lhs rhs) \<longleftrightarrow> eval S E env lhs = eval S E env rhs"
| "holds S E env (Forall binder p) \<longleftrightarrow> (\<forall>v. in_type S binder v \<longrightarrow> holds S E (env @ [v]) p)"
| "holds S E env (Implies p q) \<longleftrightarrow> (holds S E env p \<longrightarrow> holds S E env q)"
| "holds S E env (And p q) \<longleftrightarrow> holds S E env p \<and> holds S E env q"
| "holds S E env (Or p q) \<longleftrightarrow> holds S E env p \<or> holds S E env q"
| "holds S E env Falsity \<longleftrightarrow> False"

section \<open>Well-typed terms and propositions, without limits\<close>

inductive has_type :: "kcontext \<Rightarrow> ktype list \<Rightarrow> kterm \<Rightarrow> ktype \<Rightarrow> bool" for \<Gamma> L where
  type_var: "i < length L \<Longrightarrow> is_supported (L ! (length L - 1 - i)) \<Longrightarrow>
     has_type \<Gamma> L (Var i) (L ! (length L - 1 - i))"
| type_literal: "is_representable type v \<Longrightarrow> has_type \<Gamma> L (Literal type v) (Int_Type type)"
| type_call: "lookup \<Gamma> f = Some d \<Longrightarrow> list_all2 (has_type \<Gamma> L) ts (parameters d) \<Longrightarrow>
     has_type \<Gamma> L (Call f ts) (result d)"
| type_projection: "is_supported (Value_Type i ps) \<Longrightarrow> k < length ps \<Longrightarrow>
     has_type \<Gamma> L t (Value_Type i ps) \<Longrightarrow> has_type \<Gamma> L (Projection (Value_Type i ps) k [t]) (ps ! k)"
| type_element: "is_supported (Indexed_Type [e] n) \<Longrightarrow> has_type \<Gamma> L t (Indexed_Type [e] n) \<Longrightarrow>
     has_type \<Gamma> L j (Int_Type type) \<Longrightarrow> has_type \<Gamma> L (Element (Indexed_Type [e] n) [t, j]) e"
| type_convert: "is_supported_int type \<Longrightarrow> has_type \<Gamma> L t (Int_Type source) \<Longrightarrow>
     has_type \<Gamma> L (Prim Convert type [t]) (Int_Type type)"
| type_prim: "is_supported_int type \<Longrightarrow> op \<noteq> Convert \<Longrightarrow> (op = NotOp \<Longrightarrow> type = kBoolean) \<Longrightarrow>
     list_all2 (has_type \<Gamma> L) ts (operand_types op type) \<Longrightarrow>
     has_type \<Gamma> L (Prim op type ts) (result_type op type)"

inductive_cases has_type_Var: "has_type \<Gamma> L (Var i) \<tau>"
inductive_cases has_type_Literal: "has_type \<Gamma> L (Literal type v) \<tau>"
inductive_cases has_type_Call: "has_type \<Gamma> L (Call f ts) \<tau>"
inductive_cases has_type_Projection: "has_type \<Gamma> L (Projection d k ts) \<tau>"
inductive_cases has_type_Element: "has_type \<Gamma> L (Element d ts) \<tau>"
inductive_cases has_type_Prim: "has_type \<Gamma> L (Prim op type ts) \<tau>"

inductive_simps has_type_Literal_iff: "has_type \<Gamma> L (Literal type v) \<tau>"

fun wf_prop :: "kcontext \<Rightarrow> ktype list \<Rightarrow> kprop \<Rightarrow> bool" where
  "wf_prop \<Gamma> L (Eq \<tau> lhs rhs) \<longleftrightarrow> has_type \<Gamma> L lhs \<tau> \<and> has_type \<Gamma> L rhs \<tau>"
| "wf_prop \<Gamma> L (Forall \<tau> p) \<longleftrightarrow> is_supported \<tau> \<and> wf_prop \<Gamma> (L @ [\<tau>]) p"
| "wf_prop \<Gamma> L (Implies p q) \<longleftrightarrow> wf_prop \<Gamma> L p \<and> wf_prop \<Gamma> L q"
| "wf_prop \<Gamma> L (And p q) \<longleftrightarrow> wf_prop \<Gamma> L p \<and> wf_prop \<Gamma> L q"
| "wf_prop \<Gamma> L (Or p q) \<longleftrightarrow> wf_prop \<Gamma> L p \<and> wf_prop \<Gamma> L q"
| "wf_prop \<Gamma> L Falsity \<longleftrightarrow> True"

text \<open>The number of binders a proposition nests.\<close>

fun binder_depth :: "kprop \<Rightarrow> nat" where
  "binder_depth (Forall \<tau> p) = Suc (binder_depth p)"
| "binder_depth (Implies p q) = max (binder_depth p) (binder_depth q)"
| "binder_depth (And p q) = max (binder_depth p) (binder_depth q)"
| "binder_depth (Or p q) = max (binder_depth p) (binder_depth q)"
| "binder_depth _ = 0"

abbreviation env_ok :: "'u kmodel \<Rightarrow> ktype list \<Rightarrow> 'u kvalue list \<Rightarrow> bool" where
  "env_ok S L env \<equiv> list_all2 (in_type S) L env"

lemma is_supported_Int: "is_supported (Int_Type type) \<longleftrightarrow> is_supported_int type"
  by (simp add: is_supported_def)

lemma operand_types_simps:
  "operand_types Select type = [Int_Type kBoolean, Int_Type type, Int_Type type]"
  "operand_types NotOp type = [Int_Type type]"
  "op \<noteq> Select \<Longrightarrow> op \<noteq> NotOp \<Longrightarrow> op \<noteq> Convert \<Longrightarrow> operand_types op type = [Int_Type type, Int_Type type]"
  by (simp_all add: operand_types_def upt_rec) (cases op; simp add: upt_rec)

end
