(* ===== verification/Typing_Facts.thy ===== *)
theory Typing_Facts
  imports Semantics
begin

text \<open>
  The typing the code computes is the typing of the specification: what \<open>type_of\<close> accepts
  is well typed, admitted contexts hold well-typed definitions, a well-typed term denotes a
  value of its type, and the functions of a context are those of its bodies.
\<close>

section \<open>What \<open>type_of\<close> accepts is well typed\<close>

lemma has_type_var_Suc:
  "i < length L \<Longrightarrow> is_supported (L ! (length L - Suc i)) \<Longrightarrow>
     has_type \<Gamma> L (Var i) (L ! (length L - Suc i))"
  using has_type.type_var [of i L \<Gamma>] by simp

lemma depth_ok_Inr [simp]: "depth_ok limits depth s = Inr u \<longleftrightarrow> depth \<le> unat (max_term_depth limits)"
  by (auto simp: depth_ok_def)

lemma validate_type_Inr [simp]: "validate_type \<tau> = Inr u \<longleftrightarrow> is_supported \<tau>"
  by (auto simp: validate_type_def)

lemma length_operand_types [simp]: "length (operand_types op type) = arity op"
  by (simp add: operand_types_def)

lemma type_of_impl_sound:
  "type_of_impl \<Gamma> L limits t depth = Inr \<tau> \<Longrightarrow> has_type \<Gamma> L t \<tau>"
  "check_arguments \<Gamma> L limits mismatch index es as depth = Inr () \<Longrightarrow> length es = length as \<Longrightarrow>
     list_all2 (has_type \<Gamma> L) as es"
proof (induction \<Gamma> L limits t depth and \<Gamma> L limits mismatch index es as depth
    arbitrary: \<tau> and rule: type_of_impl_check_arguments.induct)
  case (1 \<Gamma> L limits i depth)
  then show ?case by (auto intro: has_type_var_Suc)
next
  case (2 \<Gamma> L limits type v depth)
  then show ?case by (auto intro: has_type.type_literal)
next
  case (3 \<Gamma> L limits callee arguments depth)
  then show ?case by (auto split: option.splits intro!: has_type.type_call)
next
  case (4 \<Gamma> L limits domain index arguments depth)
  from "4.prems" obtain i ps t where d: "domain = Value_Type i ps" and args: "arguments = [t]"
    by (auto simp: is_value_iff length_Suc_conv)
  with 4 show ?case by (auto intro!: has_type.type_projection)
next
  case (5 \<Gamma> L limits domain arguments depth)
  then obtain es n where d: "domain = Indexed_Type es n" and sup: "is_supported domain"
    by (auto simp: is_indexed_iff)
  then have "length es = 1" using supported_unambiguous by fastforce
  then obtain e where "domain = Indexed_Type [e] n" using d by (auto simp: length_Suc_conv)
  moreover obtain t j it where ts: "arguments = [t, j]"
      "type_of_impl \<Gamma> L limits t (Suc depth) = Inr domain"
      "type_of_impl \<Gamma> L limits j (Suc depth) = Inr (Int_Type it)" and \<tau>: "\<tau> = element domain ! 0"
    using "5.prems" by (auto split: list.splits simp: is_integer_iff)
  moreover have "has_type \<Gamma> L t domain" "has_type \<Gamma> L j (Int_Type it)"
    using 5 ts by (auto simp: is_integer_iff)
  ultimately show ?case using sup by (auto intro: has_type.type_element)
next
  case (6 \<Gamma> L limits op type arguments depth)
  show ?case
  proof (cases "op = Convert")
    case True
    with 6 show ?thesis
      by (auto split: list.splits simp: is_integer_iff is_supported_Int intro!: has_type.type_convert)
  next
    case False
    with 6 show ?thesis by (auto simp: is_supported_Int intro!: has_type.type_prim)
  qed
qed auto

lemma type_of_sound: "type_of \<Gamma> L t limits = Inr \<tau> \<Longrightarrow> has_type \<Gamma> L t \<tau>"
  unfolding type_of_def by (rule type_of_impl_sound)

section \<open>Well-typed terms\<close>

lemma has_type_supported_domains: "has_type \<Gamma> L t \<tau> \<Longrightarrow> supported_domains t"
  by (induction rule: has_type.induct) (auto simp: list_all2_conv_all_nth in_set_conv_nth)

lemma has_type_scope:
  "has_type \<Gamma> L t \<tau> \<Longrightarrow> has_type \<Gamma> L (Var i) \<sigma> \<Longrightarrow> i < length L"
  by (erule has_type_Var [of _ _ i]) simp

text \<open>Definitions added later change no typing.\<close>

lemma has_type_weaken:
  assumes "has_type \<Gamma> L t \<tau>"
  shows "has_type (\<Gamma> @ \<Delta>) L t \<tau>"
  using assms
proof (induction rule: has_type.induct)
  case (type_call f d ts)
  then show ?case
    by (intro has_type.type_call) (auto simp: lookup_append elim: list_all2_mono)
next
  case (type_prim type op ts)
  then show ?case by (intro has_type.type_prim) (auto elim: list_all2_mono)
qed (auto intro: has_type.intros has_type_var_Suc)

section \<open>Admitted contexts\<close>

lemma define_in_Inr:
  assumes "define_in \<Gamma> d = Inr \<Gamma>'"
  shows "\<Gamma>' = \<Gamma> @ [d]" and "lookup \<Gamma> (def_id d) = None"
    and "has_type \<Gamma> (parameters d) (body d) (result d)" and "is_supported (result d)"
  using assms type_of_impl_sound(1) by (auto simp: define_in_def split: if_splits)

lemma validate_types_Inr: "validate_types \<tau>s = Inr u \<longleftrightarrow> (\<forall>\<tau> \<in> set \<tau>s. is_supported \<tau>)"
  by (induction \<tau>s) auto

lemma define_in_parameters: "define_in \<Gamma> d = Inr \<Gamma>' \<Longrightarrow> \<tau> \<in> set (parameters d) \<Longrightarrow> is_supported \<tau>"
  by (auto simp: define_in_def validate_types_Inr split: if_splits)

lemma built_typed:
  assumes "built \<Gamma>" and "d \<in> set \<Gamma>"
  shows "has_type \<Gamma> (parameters d) (body d) (result d)" and "is_supported (result d)"
    and "\<forall>\<tau> \<in> set (parameters d). is_supported \<tau>"
  using assms
proof (induction)
  case (built_define \<Gamma> e \<Gamma>')
  {
    case 1
    then show ?case
      using built_define define_in_Inr [OF built_define.hyps(2)] has_type_weaken by auto
  next
    case 2
    then show ?case using built_define define_in_Inr [OF built_define.hyps(2)] by auto
  next
    case 3
    then show ?case
      using built_define define_in_Inr [OF built_define.hyps(2)]
        define_in_parameters [OF built_define.hyps(2)] by auto
  }
qed simp_all

text \<open>Identities are unique, so looking one up finds the definition that has it.\<close>

lemma built_lookup:
  assumes "built \<Gamma>" and "d \<in> set \<Gamma>"
  shows "lookup \<Gamma> (def_id d) = Some d"
  using assms
proof (induction)
  case (built_define \<Gamma> e \<Gamma>')
  note e = define_in_Inr [OF built_define.hyps(2)]
  show ?case
  proof (cases "d \<in> set \<Gamma>")
    case True
    then show ?thesis using built_define.IH e by (simp add: lookup_append)
  next
    case False
    then have "d = e" using built_define.prems e by simp
    then show ?thesis using e by (simp add: lookup_append)
  qed
qed simp

section \<open>The functions of a context\<close>

text \<open>A term's value depends on the definitions it can call only.\<close>

lemma eval_functions_cong:
  assumes "has_type \<Gamma> L t \<tau>" and "\<And>f. lookup \<Gamma> f \<noteq> None \<Longrightarrow> E f = E' f"
  shows "eval S E env t = eval S E' env t"
  using assms
proof (induction rule: has_type.induct)
  case (type_call f d ts)
  have "map (eval S E env) ts = map (eval S E' env) ts"
    using type_call by (auto simp: list_all2_conv_all_nth in_set_conv_nth)
  moreover have "E f = E' f" using type_call by simp
  ultimately show ?case by (simp only: eval.simps)
next
  case (type_prim type op ts)
  have "map (eval S E env) ts = map (eval S E' env) ts"
    using type_prim by (auto simp: list_all2_conv_all_nth in_set_conv_nth)
  then have "map (\<lambda>t. the_int (eval S E env t)) ts = map (\<lambda>t. the_int (eval S E' env t)) ts"
    by auto
  then show ?case by (simp only: eval.simps)
qed auto

lemma functions_of_snoc: "functions_of S (\<Gamma> @ [d]) = define_function S (functions_of S \<Gamma>) d"
  by (simp add: functions_of_def)

lemma functions_of_body:
  assumes "built \<Gamma>" and "d \<in> set \<Gamma>"
  shows "functions_of S \<Gamma> (def_id d) args = eval S (functions_of S \<Gamma>) args (body d)"
  using assms
proof (induction)
  case (built_define \<Gamma> e \<Gamma>')
  note e = define_in_Inr [OF built_define.hyps(2)]
  have same: "functions_of S \<Gamma>' f = functions_of S \<Gamma> f" if "lookup \<Gamma> f \<noteq> None" for f
    using that e by (auto simp: functions_of_snoc define_function_def)
  have typed: "has_type \<Gamma> (parameters d) (body d) (result d)"
    using built_define e built_typed(1) by auto
  have body_same: "eval S (functions_of S \<Gamma>) args (body d) = eval S (functions_of S \<Gamma>') args (body d)"
    by (rule eval_functions_cong [OF typed]) (simp add: same)
  show ?case
  proof (cases "d \<in> set \<Gamma>")
    case True
    then have "lookup \<Gamma> (def_id d) \<noteq> None" using built_define.hyps(1) built_lookup by simp
    then show ?thesis using True built_define.IH body_same same by simp
  next
    case False
    then have "d = e" using built_define.prems e by simp
    then have "functions_of S \<Gamma>' (def_id d) args = eval S (functions_of S \<Gamma>) args (body d)"
      using e by (simp add: functions_of_snoc define_function_def)
    then show ?thesis using body_same by simp
  qed
qed simp

section \<open>Values of well-typed terms\<close>

text \<open>Functions that keep their types.\<close>

definition functions_ok :: "'u kmodel \<Rightarrow> kcontext \<Rightarrow> 'u funs \<Rightarrow> bool" where
  "functions_ok S \<Gamma> E \<longleftrightarrow>
     (\<forall>f d args. lookup \<Gamma> f = Some d \<longrightarrow> env_ok S (parameters d) args \<longrightarrow> in_type S (result d) (E f args))"

lemma truth_value_representable: "is_representable kBoolean (truth_value b)"
  by (simp add: kBoolean_representable truth_value_def)

lemma smod_representable:
  assumes "is_representable type a" and "is_representable type b"
  shows "is_representable type (a smod b)"
proof (cases "b = 0")
  case False
  have s: "is_supported_int type" using assms by (simp add: is_representable_def)
  have "\<bar>a smod b\<bar> \<le> \<bar>a\<bar>"
    using False by (simp add: signed_modulo_int_def abs_mult sgn_if zmod_le_nonneg_dividend)
  moreover have "0 \<le> a \<Longrightarrow> 0 \<le> a smod b" and "a \<le> 0 \<Longrightarrow> a smod b \<le> 0"
    using False by (auto simp: signed_modulo_int_def sgn_if)
  ultimately show ?thesis
    using assms minimum_le_zero [of type] maximum_ge_zero [of type]
    unfolding is_representable_def by linarith
qed (use assms in simp)

lemma prim_value_in_type:
  assumes "is_supported_int type" and "op \<noteq> Convert" and "op = NotOp \<Longrightarrow> type = kBoolean"
    and "list_all2 (\<lambda>n \<tau>. in_type S \<tau> (IntV n)) ns (operand_types op type)"
  shows "in_type S (result_type op type) (IntV (prim_value op type ns))"
  using assms
  by (cases op)
    (auto simp: operand_types_simps list_all2_Cons2 result_type_def is_representability_def
      wrap_into_representable truth_value_representable smod_representable)

lemma eval_in_type:
  assumes "has_type \<Gamma> L t \<tau>" and "wf_model S" and "functions_ok S \<Gamma> E" and "env_ok S L env"
  shows "in_type S \<tau> (eval S E env t)"
  using assms
proof (induction rule: has_type.induct)
  case (type_var i)
  then show ?case by (auto simp: list_all2_conv_all_nth)
next
  case (type_call f d ts)
  then have "list_all2 (\<lambda>t \<tau>. in_type S \<tau> (eval S E env t)) ts (parameters d)"
    by (auto elim: list_all2_mono)
  then have "env_ok S (parameters d) (map (eval S E env) ts)"
    by (auto simp: list_all2_conv_all_nth)
  with type_call show ?case by (auto simp: functions_ok_def)
next
  case (type_projection i ps k t)
  then show ?case by (cases "eval S E env t") (auto simp: wf_model_def)
next
  case (type_element e n t j type)
  then show ?case by (cases "eval S E env t") (auto simp: wf_model_def)
next
  case (type_convert type t source)
  then show ?case by (simp add: wrap_into_representable)
next
  case (type_prim type op ts)
  then have typed: "list_all2 (\<lambda>t \<tau>. in_type S \<tau> (eval S E env t)) ts (operand_types op type)"
    by (auto elim: list_all2_mono)
  have "in_type S \<tau> (IntV (the_int v))"
    if "\<tau> \<in> set (operand_types op type)" "in_type S \<tau> v" for \<tau> v
  proof -
    have "\<exists>it. \<tau> = Int_Type it" using that(1) by (auto simp: operand_types_def)
    then show ?thesis using that(2) by (auto simp: in_type_int)
  qed
  with typed have "list_all2 (\<lambda>n \<tau>. in_type S \<tau> (IntV n))
      (map (\<lambda>t. the_int (eval S E env t)) ts) (operand_types op type)"
    by (simp add: list_all2_conv_all_nth)
  then show ?case
    using type_prim by (simp del: in_type.simps) (rule prim_value_in_type; simp)
qed simp

lemma functions_of_ok:
  assumes "built \<Gamma>" and "wf_model S"
  shows "functions_ok S \<Gamma> (functions_of S \<Gamma>)"
  using assms
proof (induction)
  case built_empty
  then show ?case by (simp add: functions_ok_def)
next
  case (built_define \<Gamma> e \<Gamma>')
  note e = define_in_Inr [OF built_define.hyps(2)]
  note ok = built_define.IH [OF built_define.prems]
  show ?case unfolding functions_ok_def
  proof (intro allI impI)
    fix f d args
    assume f: "lookup \<Gamma>' f = Some d" and args: "env_ok S (parameters d) args"
    show "in_type S (result d) (functions_of S \<Gamma>' f args)"
    proof (cases "lookup \<Gamma> f")
      case None
      then have "d = e" "f = def_id e" using f e by (auto simp: lookup_append split: if_splits)
      moreover have "in_type S (result e) (eval S (functions_of S \<Gamma>) args (body e))"
        if "env_ok S (parameters e) args"
        using eval_in_type [OF e(3) built_define.prems ok that] .
      ultimately show ?thesis using e args by (simp add: functions_of_snoc define_function_def)
    next
      case (Some d')
      then have "d' = d" "f \<noteq> def_id e" using f e by (auto simp: lookup_append)
      then show ?thesis
        using Some ok args e by (simp add: functions_ok_def functions_of_snoc define_function_def)
    qed
  qed
qed

text \<open>The conditions under which the values of typed terms are read.\<close>

definition reads :: "'u kmodel \<Rightarrow> kcontext \<Rightarrow> ktype list \<Rightarrow> 'u kvalue list \<Rightarrow> bool" where
  "reads S \<Gamma> L env \<longleftrightarrow> wf_model S \<and> built \<Gamma> \<and> env_ok S L env"

lemma reads_in_type:
  "reads S \<Gamma> L env \<Longrightarrow> has_type \<Gamma> L t \<tau> \<Longrightarrow> in_type S \<tau> (eval S (functions_of S \<Gamma>) env t)"
  unfolding reads_def by (blast intro: eval_in_type functions_of_ok)

lemma reads_int:
  assumes "reads S \<Gamma> L env" and "has_type \<Gamma> L t (Int_Type type)"
  shows "\<exists>n. eval S (functions_of S \<Gamma>) env t = IntV n \<and> is_representable type n"
  using reads_in_type [OF assms] by (simp add: in_type_int)

end
