(* ===== verification/Subst_Facts.thy ===== *)
theory Subst_Facts
  imports Typing_Facts
begin

text \<open>
  Raising and instantiating keep typing, well-formedness and meaning, as long as no more than
  \<open>2 ^ 32\<close> binders stand, so that no index wraps. Then the propositions \<open>predicate\<close> states.
\<close>

abbreviation max_binders :: nat where
  "max_binders \<equiv> 2 ^ 32"

section \<open>Terms\<close>

text \<open>Every variable is bound by one of the \<open>n\<close> enclosing binders.\<close>

fun scoped :: "nat \<Rightarrow> kterm \<Rightarrow> bool" where
  "scoped n (Var i) \<longleftrightarrow> i < n"
| "scoped n (Literal type v) \<longleftrightarrow> True"
| "scoped n (Call f ts) \<longleftrightarrow> (\<forall>t \<in> set ts. scoped n t)"
| "scoped n (Prim op type ts) \<longleftrightarrow> (\<forall>t \<in> set ts. scoped n t)"
| "scoped n (Projection domain k ts) \<longleftrightarrow> (\<forall>t \<in> set ts. scoped n t)"
| "scoped n (Element domain ts) \<longleftrightarrow> (\<forall>t \<in> set ts. scoped n t)"

lemma list_all2_set:
  "list_all2 P xs ys \<Longrightarrow> x \<in> set xs \<Longrightarrow> \<exists>y \<in> set ys. P x y"
  by (metis list_all2_conv_all_nth in_set_conv_nth nth_mem)

lemma has_type_scoped: "has_type \<Gamma> L t \<tau> \<Longrightarrow> scoped (length L) t"
  by (induction rule: has_type.induct) (auto dest!: list_all2_set)

lemma map_as_cong: "(\<And>x. x \<in> set xs \<Longrightarrow> f x = g x) \<Longrightarrow> map f xs = map g xs"
  by simp

lemma map_the_int_cong:
  "(\<And>t. t \<in> set ts \<Longrightarrow> f (g t) = h t) \<Longrightarrow> map (\<lambda>t. the_int (f t)) (map g ts) = map (\<lambda>t. the_int (h t)) ts"
  by simp

lemma nth_from_end:
  "i < length e2 \<Longrightarrow> (e1 @ e2) ! (length e1 + length e2 - Suc i) = e2 ! (length e2 - Suc i)"
proof -
  assume "i < length e2"
  then have "length e1 + length e2 - Suc i = length e1 + (length e2 - Suc i)" by simp
  then show ?thesis by (simp only: nth_append_length_plus)
qed

lemma eval_raise_term:
  "scoped (length e1 + length e2) t \<Longrightarrow> length e1 + length m + length e2 \<le> max_binders \<Longrightarrow>
     eval S E (e1 @ m @ e2) (raise_term (length m) (length e2) t) = eval S E (e1 @ e2) t"
proof (induction t)
  case (Var i)
  then show ?case by (auto simp: nth_append)
next
  case (Call f ts)
  have "map (eval S E (e1 @ m @ e2) \<circ> raise_term (length m) (length e2)) ts = map (eval S E (e1 @ e2)) ts"
    using Call by simp
  then show ?case by (simp only: raise_term.simps eval.simps map_map)
next
  case (Prim op type ts)
  have "map (\<lambda>t. the_int (eval S E (e1 @ m @ e2) t)) (map (raise_term (length m) (length e2)) ts) =
      map (\<lambda>t. the_int (eval S E (e1 @ e2) t)) ts"
    using Prim by (intro map_the_int_cong) simp
  then show ?case by (simp only: raise_term.simps eval.simps)
qed (auto split: list.splits)

lemma has_type_raise_term:
  assumes "has_type \<Gamma> (L1 @ L2) t \<tau>" and "length L1 + length M + length L2 \<le> max_binders"
  shows "has_type \<Gamma> (L1 @ M @ L2) (raise_term (length M) (length L2) t) \<tau>"
  using assms
proof (induction rule: has_type.induct)
  case (type_var i)
  show ?case
  proof (cases "i < length L2")
    case True
    then show ?thesis
      using type_var has_type_var_Suc [of i "L1 @ M @ L2"]
        nth_from_end [of i L2 L1] nth_from_end [of i L2 "L1 @ M"]
      by (simp add: add.assoc)
  next
    case False
    then have "length L1 + length L2 - Suc i < length L1" using type_var by (cases L1) auto
    with type_var False show ?thesis
      using has_type.type_var [of "i + length M" "L1 @ M @ L2"] by (simp add: nth_append)
  qed
next
  case (type_call f d ts)
  then show ?case by (auto intro!: has_type.type_call elim: list_all2_mono simp: list_all2_map1)
next
  case (type_prim type op ts)
  then show ?case by (auto intro!: has_type.type_prim elim: list_all2_mono simp: list_all2_map1)
qed (auto intro: has_type.intros)

lemma eval_shift_term:
  "scoped (length e1 + length e2) t \<Longrightarrow> length e1 + length m + length e2 \<le> max_binders \<Longrightarrow>
     eval S E (e1 @ m @ e2) (shift_term t (length m) (length e2)) = eval S E (e1 @ e2) t"
  by (cases m) (simp_all add: shift_term_def eval_raise_term [of e1 e2 t "_ # _", simplified])

lemma has_type_shift_term:
  "has_type \<Gamma> (L1 @ L2) t \<tau> \<Longrightarrow> length L1 + length M + length L2 \<le> max_binders \<Longrightarrow>
     has_type \<Gamma> (L1 @ M @ L2) (shift_term t (length M) (length L2)) \<tau>"
  using has_type_raise_term [of \<Gamma> L1 L2 t \<tau> M] by (cases M) (simp_all add: shift_term_def)

lemma eval_instantiate_term:
  "scoped (length e1 + 1 + length e2) t \<Longrightarrow> scoped (length e1) a \<Longrightarrow>
     length e1 + length e2 \<le> max_binders \<Longrightarrow>
     eval S E (e1 @ e2) (instantiate_term t a (length e2)) = eval S E (e1 @ eval S E e1 a # e2) t"
proof (induction t)
  case (Var i)
  consider "i < length e2" | "i = length e2" | "length e2 < i" by linarith
  then show ?case
  proof cases
    case 2
    then show ?thesis using Var eval_shift_term [of e1 "[]" a e2 S E] by (simp add: nth_append)
  next
    case 3
    then have "length e1 + length e2 - i < length e1" using Var by (cases e1) auto
    then show ?thesis using Var 3 by (simp add: nth_append)
  next
    case 1
    then show ?thesis
      using nth_from_end [of i e2 e1] nth_from_end [of i e2 "e1 @ [eval S E e1 a]"] by simp
  qed
next
  case (Call f ts)
  have "map (eval S E (e1 @ e2) \<circ> (\<lambda>t. instantiate_term t a (length e2))) ts =
      map (eval S E (e1 @ eval S E e1 a # e2)) ts"
    using Call by simp
  then show ?case by (simp only: instantiate_term.simps eval.simps map_map)
next
  case (Prim op type ts)
  have "map (\<lambda>t. the_int (eval S E (e1 @ e2) t)) (map (\<lambda>t. instantiate_term t a (length e2)) ts) =
      map (\<lambda>t. the_int (eval S E (e1 @ eval S E e1 a # e2) t)) ts"
    using Prim by (intro map_the_int_cong) simp
  then show ?case by (simp only: instantiate_term.simps eval.simps)
qed (auto split: list.splits)

lemma has_type_instantiate_term:
  assumes "has_type \<Gamma> (L1 @ \<sigma> # L2) t \<tau>" and "has_type \<Gamma> L1 a \<sigma>"
    and "length L1 + length L2 \<le> max_binders"
  shows "has_type \<Gamma> (L1 @ L2) (instantiate_term t a (length L2)) \<tau>"
  using assms
proof (induction rule: has_type.induct)
  case (type_var i)
  consider "i < length L2" | "i = length L2" | "length L2 < i" by linarith
  then show ?case
  proof cases
    case 1
    then show ?thesis
      using type_var has_type_var_Suc [of i "L1 @ L2"]
        nth_from_end [of i L2 L1] nth_from_end [of i L2 "L1 @ [\<sigma>]"] by simp
  next
    case 2
    then show ?thesis
      using type_var has_type_shift_term [of \<Gamma> L1 "[]" a \<sigma> L2] by (simp add: nth_append)
  next
    case 3
    then have "length L1 + length L2 - i < length L1" using type_var by (cases L1) auto
    then show ?thesis
      using 3 type_var has_type.type_var [of "i - 1" "L1 @ L2"] by (simp add: nth_append)
  qed
next
  case (type_call f d ts)
  then show ?case by (auto intro!: has_type.type_call elim: list_all2_mono simp: list_all2_map1)
next
  case (type_prim type op ts)
  then show ?case by (auto intro!: has_type.type_prim elim: list_all2_mono simp: list_all2_map1)
qed (auto intro: has_type.intros)

section \<open>Propositions\<close>

lemma binder_depth_raise [simp]: "binder_depth (raise_prop amount cutoff p) = binder_depth p"
  by (induction p arbitrary: cutoff) simp_all

lemma binder_depth_shift [simp]: "binder_depth (shift_prop p amount cutoff) = binder_depth p"
  by (simp add: shift_prop_def)

lemma binder_depth_instantiate [simp]: "binder_depth (instantiate_prop p a depth) = binder_depth p"
  by (induction p arbitrary: depth) simp_all

lemma wf_prop_raise:
  "wf_prop \<Gamma> (L1 @ L2) p \<Longrightarrow> length L1 + length M + length L2 + binder_depth p \<le> max_binders \<Longrightarrow>
     wf_prop \<Gamma> (L1 @ M @ L2) (raise_prop (length M) (length L2) p)"
proof (induction p arbitrary: L2)
  case (Forall \<tau> p)
  then show ?case using Forall.IH [of "L2 @ [\<tau>]"] by simp
qed (auto intro: has_type_shift_term)

lemma wf_prop_shift:
  "wf_prop \<Gamma> (L1 @ L2) p \<Longrightarrow> length L1 + length M + length L2 + binder_depth p \<le> max_binders \<Longrightarrow>
     wf_prop \<Gamma> (L1 @ M @ L2) (shift_prop p (length M) (length L2))"
  using wf_prop_raise [of \<Gamma> L1 L2 p M] by (cases M) (simp_all add: shift_prop_def)

lemma holds_raise:
  "wf_prop \<Gamma> (L1 @ L2) p \<Longrightarrow> length e1 = length L1 \<Longrightarrow> length e2 = length L2 \<Longrightarrow>
     length e1 + length m + length e2 + binder_depth p \<le> max_binders \<Longrightarrow>
     holds S E (e1 @ m @ e2) (raise_prop (length m) (length e2) p) \<longleftrightarrow> holds S E (e1 @ e2) p"
proof (induction p arbitrary: L2 e2)
  case (Forall \<tau> p)
  have "holds S E (e1 @ m @ e2 @ [v]) (raise_prop (length m) (Suc (length e2)) p) \<longleftrightarrow>
      holds S E (e1 @ e2 @ [v]) p" for v
    using Forall.IH [of "L2 @ [\<tau>]" "e2 @ [v]"] Forall.prems by simp
  then show ?case by simp
next
  case (Eq \<tau> lhs rhs)
  then show ?case
    using eval_shift_term [of e1 e2 lhs m S E] eval_shift_term [of e1 e2 rhs m S E]
      has_type_scoped [of \<Gamma> "L1 @ L2" lhs \<tau>] has_type_scoped [of \<Gamma> "L1 @ L2" rhs \<tau>]
    by simp
qed auto

lemma holds_shift:
  "wf_prop \<Gamma> (L1 @ L2) p \<Longrightarrow> length e1 = length L1 \<Longrightarrow> length e2 = length L2 \<Longrightarrow>
     length e1 + length m + length e2 + binder_depth p \<le> max_binders \<Longrightarrow>
     holds S E (e1 @ m @ e2) (shift_prop p (length m) (length e2)) \<longleftrightarrow> holds S E (e1 @ e2) p"
  using holds_raise [of \<Gamma> L1 L2 p e1 e2 m S E] by (cases m) (simp_all add: shift_prop_def)

lemma wf_prop_instantiate:
  "wf_prop \<Gamma> (L1 @ \<sigma> # L2) p \<Longrightarrow> has_type \<Gamma> L1 a \<sigma> \<Longrightarrow>
     length L1 + length L2 + binder_depth p \<le> max_binders \<Longrightarrow>
     wf_prop \<Gamma> (L1 @ L2) (instantiate_prop p a (length L2))"
proof (induction p arbitrary: L2)
  case (Forall \<tau> p)
  then show ?case using Forall.IH [of "L2 @ [\<tau>]"] by simp
qed (auto intro: has_type_instantiate_term)

lemma holds_instantiate:
  "wf_prop \<Gamma> (L1 @ \<sigma> # L2) p \<Longrightarrow> has_type \<Gamma> L1 a \<sigma> \<Longrightarrow> length e1 = length L1 \<Longrightarrow>
     length e2 = length L2 \<Longrightarrow> length e1 + length e2 + binder_depth p \<le> max_binders \<Longrightarrow>
     holds S E (e1 @ e2) (instantiate_prop p a (length e2)) \<longleftrightarrow> holds S E (e1 @ eval S E e1 a # e2) p"
proof (induction p arbitrary: L2 e2)
  case (Forall \<tau> p)
  have "holds S E (e1 @ e2 @ [v]) (instantiate_prop p a (Suc (length e2))) \<longleftrightarrow>
      holds S E (e1 @ eval S E e1 a # e2 @ [v]) p" for v
    using Forall.IH [of "L2 @ [\<tau>]" "e2 @ [v]"] Forall.prems by simp
  then show ?case by simp
next
  case (Eq \<tau> lhs rhs)
  then show ?case
    using eval_instantiate_term [of e1 e2 lhs a S E] eval_instantiate_term [of e1 e2 rhs a S E]
      has_type_scoped [of \<Gamma> "L1 @ \<sigma> # L2" lhs \<tau>] has_type_scoped [of \<Gamma> "L1 @ \<sigma> # L2" rhs \<tau>]
      has_type_scoped [of \<Gamma> L1 a \<sigma>]
    by simp
qed auto

text \<open>The case of the outermost hole, which is how the checker uses them.\<close>

lemma wf_prop_instantiate_0:
  "wf_prop \<Gamma> (L @ [\<sigma>]) p \<Longrightarrow> has_type \<Gamma> L a \<sigma> \<Longrightarrow> length L + binder_depth p \<le> max_binders \<Longrightarrow>
     wf_prop \<Gamma> L (instantiate_prop p a 0)"
  using wf_prop_instantiate [of \<Gamma> L \<sigma> "[]" p a] by simp

lemma holds_instantiate_0:
  "wf_prop \<Gamma> (L @ [\<sigma>]) p \<Longrightarrow> has_type \<Gamma> L a \<sigma> \<Longrightarrow> length env = length L \<Longrightarrow>
     length L + binder_depth p \<le> max_binders \<Longrightarrow>
     holds S E env (instantiate_prop p a 0) \<longleftrightarrow> holds S E (env @ [eval S E env a]) p"
  using holds_instantiate [of \<Gamma> L \<sigma> "[]" p a env "[]" S E] by simp

section \<open>Predicates\<close>

lemma strip_not_typed:
  "strip_not c pos = (t, pos') \<Longrightarrow> has_type \<Gamma> L c (Int_Type kBoolean) \<Longrightarrow> has_type \<Gamma> L t (Int_Type kBoolean)"
proof (induction c pos rule: strip_not.induct)
  case (1 op type a pos)
  then show ?case
    by (auto split: if_splits elim!: has_type_Prim simp: operand_types_simps)
qed auto

lemma predicate_strip:
  assumes "has_type \<Gamma> L t (Int_Type kBoolean)"
  shows "wf_prop \<Gamma> L (stripped_predicate t pos)"
proof -
  have literal: "has_type \<Gamma> L (Literal kBoolean b) (Int_Type kBoolean)" if "b = 0 \<or> b = 1" for b
    using that by (intro has_type.type_literal) (simp add: kBoolean_representable)
  show ?thesis
  proof (cases "\<exists>op type a b. t = Prim op type [a, b]")
    case True
    then obtain op type a b where t: "t = Prim op type [a, b]" by blast
    have "has_type \<Gamma> L a (Int_Type type) \<and> has_type \<Gamma> L b (Int_Type type)" if "op = Equal \<or> op = NotEqual"
      using assms that unfolding t by (auto elim!: has_type_Prim simp: operand_types_simps)
    moreover have "has_type \<Gamma> L (Prim Equal type [a, b]) (Int_Type kBoolean)" if "op = Equal \<or> op = NotEqual"
      using assms that unfolding t
      by (auto elim!: has_type_Prim intro!: has_type.type_prim [where op = Equal and \<Gamma> = \<Gamma> and L = L and type = type,
            unfolded result_type_def, simplified] simp: operand_types_simps)
    ultimately show ?thesis using assms literal by (auto simp: t)
  next
    case False
    then have "stripped_predicate t pos = Eq (Int_Type kBoolean) t (Literal kBoolean (if pos then 1 else 0))"
      by (cases "(t, pos)" rule: stripped_predicate.cases) auto
    then show ?thesis using assms literal by simp
  qed
qed

lemma wf_predicate:
  "has_type \<Gamma> L c (Int_Type kBoolean) \<Longrightarrow> wf_prop \<Gamma> L (predicate c pos)"
  by (auto simp: predicate_def split: prod.split intro: predicate_strip strip_not_typed)

lemma binder_depth_predicate [simp]: "binder_depth (predicate c pos) = 0"
proof -
  have "binder_depth (stripped_predicate t pos) = 0" for t pos
    by (induction t pos rule: stripped_predicate.induct) auto
  then show ?thesis by (simp add: predicate_def split: prod.split)
qed

abbreviation value_at :: "'u kmodel \<Rightarrow> kcontext \<Rightarrow> 'u kvalue list \<Rightarrow> kterm \<Rightarrow> 'u kvalue" where
  "value_at S \<Gamma> env \<equiv> eval S (functions_of S \<Gamma>) env"

lemma reads_bool:
  assumes "reads S \<Gamma> L env" and "has_type \<Gamma> L t (Int_Type kBoolean)"
  shows "value_at S \<Gamma> env t = IntV 0 \<or> value_at S \<Gamma> env t = IntV 1"
  using reads_int [OF assms] by (auto simp: kBoolean_representable)

lemma strip_not_holds:
  "strip_not c pos = (t, pos') \<Longrightarrow> reads S \<Gamma> L env \<Longrightarrow> has_type \<Gamma> L c (Int_Type kBoolean) \<Longrightarrow>
     (value_at S \<Gamma> env c = IntV 1) = pos \<longleftrightarrow> (value_at S \<Gamma> env t = IntV 1) = pos'"
proof (induction c pos rule: strip_not.induct)
  case (1 op type a pos)
  show ?case
  proof (cases "op = NotOp")
    case True
    then have a: "has_type \<Gamma> L a (Int_Type kBoolean)"
      using 1 by (auto elim!: has_type_Prim simp: operand_types_simps)
    have "(value_at S \<Gamma> env (Prim op type [a]) = IntV 1) \<longleftrightarrow> value_at S \<Gamma> env a \<noteq> IntV 1"
      using reads_bool [OF "1.prems"(2) a] True by auto
    moreover have "(value_at S \<Gamma> env a = IntV 1) = (\<not> pos) \<longleftrightarrow> (value_at S \<Gamma> env t = IntV 1) = pos'"
      using 1 True a by simp
    ultimately show ?thesis by blast
  next
    case False
    then show ?thesis using 1 by simp
  qed
qed auto

lemma stripped_holds:
  assumes "reads S \<Gamma> L env" and t: "has_type \<Gamma> L t (Int_Type kBoolean)"
  shows "holds S (functions_of S \<Gamma>) env (stripped_predicate t pos) \<longleftrightarrow> (value_at S \<Gamma> env t = IntV 1) = pos"
proof (cases "\<exists>op type a b. t = Prim op type [a, b] \<and> (op = Equal \<or> op = NotEqual)")
  case True
  then obtain op type a b where c: "t = Prim op type [a, b]" "op = Equal \<or> op = NotEqual" by blast
  then have "has_type \<Gamma> L a (Int_Type type)" "has_type \<Gamma> L b (Int_Type type)"
    using t by (auto elim!: has_type_Prim simp: operand_types_simps)
  then obtain m n where "value_at S \<Gamma> env a = IntV m" "value_at S \<Gamma> env b = IntV n"
    using reads_int [OF assms(1)] by blast
  then show ?thesis using c by auto
next
  case False
  then have "stripped_predicate t pos = Eq (Int_Type kBoolean) t (Literal kBoolean (if pos then 1 else 0))"
    by (cases "(t, pos)" rule: stripped_predicate.cases) auto
  then show ?thesis using reads_bool [OF assms] by auto
qed

lemma holds_predicate:
  "reads S \<Gamma> L env \<Longrightarrow> has_type \<Gamma> L c (Int_Type kBoolean) \<Longrightarrow>
     holds S (functions_of S \<Gamma>) env (predicate c pos) \<longleftrightarrow> (value_at S \<Gamma> env c = IntV 1) = pos"
  by (auto simp: predicate_def stripped_holds strip_not_typed strip_not_holds split: prod.split)

end
