(* ===== verification/Poly_Facts.thy ===== *)
theory Poly_Facts
  imports Subst_Facts
begin

text \<open>
  Polynomials stand for the ring of integers modulo \<open>2 ^ width\<close>. What the reader and the
  rendering ask of terms is a locale: a typing and a valuation for which wrapping arithmetic
  is arithmetic up to a multiple of the modulus. The typing and the values of the kernel's
  terms interpret it.
\<close>

section \<open>Residues\<close>

definition same_residue :: "int_type \<Rightarrow> int \<Rightarrow> int \<Rightarrow> bool" where
  "same_residue type a b \<longleftrightarrow> a mod 2 ^ width type = b mod 2 ^ width type"

named_theorems residue_intros

lemma residue_refl [simp, residue_intros]: "same_residue type a a"
  by (simp add: same_residue_def)

lemma residue_sym: "same_residue type a b \<Longrightarrow> same_residue type b a"
  by (simp add: same_residue_def)

lemma residue_trans [trans]: "same_residue type a b \<Longrightarrow> same_residue type b c \<Longrightarrow> same_residue type a c"
  by (simp add: same_residue_def)

lemma residue_ring [residue_intros]:
  "same_residue type a b \<Longrightarrow> same_residue type c d \<Longrightarrow> same_residue type (a + c) (b + d)"
  "same_residue type a b \<Longrightarrow> same_residue type c d \<Longrightarrow> same_residue type (a - c) (b - d)"
  "same_residue type a b \<Longrightarrow> same_residue type c d \<Longrightarrow> same_residue type (a * c) (b * d)"
  unfolding same_residue_def by (rule mod_add_cong mod_diff_cong mod_mult_cong; assumption)+

lemma residue_uminus [residue_intros]: "same_residue type a b \<Longrightarrow> same_residue type (- a) (- b)"
  using residue_ring(2) [of type 0 0 a b] by simp

lemma residue_multiple: "same_residue type (a - 2 ^ width type * k) a"
  by (simp add: same_residue_def mod_diff_eq [symmetric])

lemma residue_mask_eq: "is_supported_int type \<Longrightarrow> residue_mask type = mask (width type)"
proof (cases "64 \<le> width type")
  case True
  moreover assume "is_supported_int type"
  ultimately have "width type = LENGTH(64)" by (simp add: is_supported_int_iff)
  then have "residue_mask type = NOT 0" "mask (width type) = (- 1 :: u64)"
    by (simp_all only: residue_mask_def mask_full) simp_all
  then show ?thesis by simp
next
  case False
  then show ?thesis by (simp add: residue_mask_def mask_eq_exp_minus_1 push_bit_eq_mult)
qed

lemma uint_masked:
  "is_supported_int type \<Longrightarrow> uint (c AND residue_mask type) = uint c mod 2 ^ width type"
  by (simp only: residue_mask_eq flip: take_bit_eq_mask) (metis unsigned_take_bit_eq take_bit_eq_mod)

lemma mod_word_size:
  "is_supported_int type \<Longrightarrow> (x :: int) mod 2 ^ 64 mod 2 ^ width type = x mod 2 ^ width type"
  by (intro mod_mod_cancel le_imp_power_dvd supported_width(2))

lemma uint_of_int_mod:
  "is_supported_int type \<Longrightarrow> uint (word_of_int x :: u64) mod 2 ^ width type = x mod 2 ^ width type"
  using mod_word_size [of type x] by (simp add: uint_word_of_int)

lemma uint_residue_mask:
  "is_supported_int type \<Longrightarrow> uint (residue_mask type) = 2 ^ width type - 1"
proof -
  assume s: "is_supported_int type"
  have "uint (residue_mask type) = uint (word_of_int (- 1) AND residue_mask type)" by simp
  also have "\<dots> = (- 1) mod 2 ^ width type" by (simp only: uint_masked [OF s] uint_of_int_mod [OF s])
  finally show ?thesis by (simp add: zmod_minus1)
qed

lemma uint_plus_mod:
  "is_supported_int type \<Longrightarrow> uint (a + b :: u64) mod 2 ^ width type = (uint a + uint b) mod 2 ^ width type"
  using mod_word_size [of type "uint a + uint b"] by (simp add: uint_word_ariths)

lemma uint_times_mod:
  "is_supported_int type \<Longrightarrow> uint (a * b :: u64) mod 2 ^ width type = (uint a * uint b) mod 2 ^ width type"
  using mod_word_size [of type "uint a * uint b"] by (simp add: uint_word_ariths)

lemma residue_masked: "is_supported_int type \<Longrightarrow> same_residue type (uint (c AND residue_mask type)) (uint c)"
  by (simp add: same_residue_def uint_masked)

lemma residue_plus: "is_supported_int type \<Longrightarrow> same_residue type (uint (a + b :: u64)) (uint a + uint b)"
  by (simp add: same_residue_def uint_plus_mod)

lemma residue_times: "is_supported_int type \<Longrightarrow> same_residue type (uint (a * b :: u64)) (uint a * uint b)"
  by (simp add: same_residue_def uint_times_mod)

lemma uint_negated_mod:
  "is_supported_int type \<Longrightarrow> uint (residue_negated type c) mod 2 ^ width type = (- uint c) mod 2 ^ width type"
proof -
  assume s: "is_supported_int type"
  have "NOT c + 1 = - c" by (simp add: not_eq_complement)
  then have "uint (residue_negated type c) = uint (- c) mod 2 ^ width type"
    by (simp add: residue_negated_def uint_masked [OF s])
  also have "\<dots> = (- uint c) mod 2 ^ width type"
    using mod_word_size [OF s, of "- uint c"] by (simp add: uint_word_ariths)
  finally show ?thesis by simp
qed

lemma uint_bits_of:
  "is_supported_int type \<Longrightarrow> uint (bits_of type v) = v mod 2 ^ width type"
proof -
  assume s: "is_supported_int type"
  have "ucast (word_of_int v :: u128) = (word_of_int v :: u64)"
    by transfer (simp add: take_bit_take_bit)
  then show ?thesis by (simp add: bits_of_def uint_masked [OF s] uint_of_int_mod [OF s])
qed

lemma uint_half: "is_supported_int type \<Longrightarrow> uint (half type) = 2 ^ (width type - 1)"
proof -
  assume s: "is_supported_int type"
  have "width type - 1 < 64" using supported_width [OF s] by linarith
  moreover from this have "(2 :: int) ^ (width type - 1) < 2 ^ 64"
    by (intro power_strict_increasing) simp_all
  ultimately show ?thesis
    unfolding half_def by (subst unsigned_push_bit_eq) (simp add: push_bit_of_1 take_bit_int_eq_self)
qed

lemma value_of_bits:
  assumes "is_supported_int type"
  shows "value_of type c = wrap_into type (uint c)"
  by (simp only: value_of_def wrap_into_eq [OF assms] Let_def word_le_def uint_masked [OF assms]
      uint_half [OF assms])

lemma value_of_bits_of:
  "is_supported_int type \<Longrightarrow> value_of type (bits_of type v) = wrap_into type v"
  using wrap_into_cong [of "uint (bits_of type v)" type v] by (simp add: value_of_bits uint_bits_of)

section \<open>Ordered maps of residues\<close>

lemma omap_find_put_same: "(\<And>x. \<not> lt x x) \<Longrightarrow> omap_find lt k (omap_put lt k v m) = Some v"
  by (induction lt k v m rule: omap_put.induct) auto

lemma omap_find_emplace_same:
  "(\<And>x. \<not> lt x x) \<Longrightarrow> omap_find lt k (omap_emplace lt k v m) =
     Some (case omap_find lt k m of Some w \<Rightarrow> w | None \<Rightarrow> v)"
  by (simp add: omap_emplace_def omap_find_put_same split: option.split)

lemma keys_omap_emplace: "fst ` set (omap_emplace lt k v m) \<subseteq> insert k (fst ` set m)"
  using keys_omap_put [of lt k v m] by (auto simp: omap_emplace_def split: option.splits)

lemma keys_omap_erase: "fst ` set (omap_erase lt k m) \<subseteq> fst ` set m"
  using set_omap_erase [of lt k m] by blast

lemma factor_less_irrefl: "\<not> factor_less x x"
  using factor_order.less_irrefl [of x] by (simp add: factor_less_compare)

section \<open>The interface\<close>

locale ring_reading =
  fixes admitted :: bool
    and typed :: "kterm \<Rightarrow> int_type \<Rightarrow> bool"
    and val :: "kterm \<Rightarrow> int"
  assumes typed_admitted: "typed t type \<Longrightarrow> admitted"
    and typed_representable: "typed t type \<Longrightarrow> is_representable type (val t)"
    and typed_domains: "typed t type \<Longrightarrow> supported_domains t"
    and typed_literal: "typed (Literal type' v) type \<longleftrightarrow> admitted \<and> type' = type \<and> is_representable type v"
    and val_literal: "val (Literal type v) = v"
    and typed_ring: "is_arithmetic op \<Longrightarrow>
      typed (Prim op type' [a, b]) type \<longleftrightarrow> type' = type \<and> typed a type \<and> typed b type"
    and val_add: "is_supported_int type \<Longrightarrow> val (Prim AddWrap type [a, b]) mod 2 ^ width type = (val a + val b) mod 2 ^ width type"
    and val_sub: "is_supported_int type \<Longrightarrow> val (Prim SubWrap type [a, b]) mod 2 ^ width type = (val a - val b) mod 2 ^ width type"
    and val_mul: "is_supported_int type \<Longrightarrow> val (Prim MulWrap type [a, b]) mod 2 ^ width type = (val a * val b) mod 2 ^ width type"
begin

lemma typed_supported: "typed t type \<Longrightarrow> is_supported_int type"
  using typed_representable by (auto simp: is_representable_def)

definition factors_value :: "kterm list \<Rightarrow> int" where
  "factors_value fs = prod_list (map val fs)"

lemma factors_value_simps [simp]:
  "factors_value [] = 1"
  "factors_value (f # fs) = val f * factors_value fs"
  "factors_value (fs @ gs) = factors_value fs * factors_value gs"
  by (simp_all add: factors_value_def)

definition term_value :: "kterm list \<Rightarrow> u64 \<Rightarrow> int" where
  "term_value fs c = uint c * factors_value fs"

definition work_value :: "work \<Rightarrow> int" where
  "work_value w = omap_sum term_value (work_terms w) + uint (work_constant w)"

text \<open>The factors are terms of the type that are not ring arithmetic of it.\<close>

definition factor_ok :: "int_type \<Rightarrow> kterm \<Rightarrow> bool" where
  "factor_ok type f \<longleftrightarrow> typed f type \<and>
     (\<forall>op a b. f = Prim op type [a, b] \<longrightarrow> \<not> is_arithmetic op) \<and> (\<forall>v. f \<noteq> Literal type v)"

definition factors_ok :: "int_type \<Rightarrow> kterm list \<Rightarrow> bool" where
  "factors_ok type fs \<longleftrightarrow> (\<forall>f \<in> set fs. factor_ok type f)"

definition keys_ok :: "int_type \<Rightarrow> (kterm list, u64) omap \<Rightarrow> bool" where
  "keys_ok type m \<longleftrightarrow> (\<forall>fs \<in> fst ` set m. fs \<noteq> [] \<and> factors_ok type fs)"

lemma factors_ok_append [simp]: "factors_ok type (fs @ gs) \<longleftrightarrow> factors_ok type fs \<and> factors_ok type gs"
  by (auto simp: factors_ok_def)

lemma factors_ok_domains: "factors_ok type fs \<Longrightarrow> \<forall>f \<in> set fs. supported_domains f"
  using typed_domains by (auto simp: factors_ok_def factor_ok_def)

lemma keys_ok_put: "keys_ok type m \<Longrightarrow> fs \<noteq> [] \<Longrightarrow> factors_ok type fs \<Longrightarrow> keys_ok type (omap_put factor_less fs c m)"
  using keys_omap_put [of factor_less fs c m] unfolding keys_ok_def by blast

lemma keys_ok_emplace:
  "keys_ok type m \<Longrightarrow> fs \<noteq> [] \<Longrightarrow> factors_ok type fs \<Longrightarrow> keys_ok type (omap_emplace factor_less fs c m)"
  using keys_omap_emplace [of factor_less fs c m] unfolding keys_ok_def by blast

lemma keys_ok_erase: "keys_ok type m \<Longrightarrow> keys_ok type (omap_erase factor_less fs m)"
  using keys_omap_erase [of factor_less fs m] unfolding keys_ok_def by blast

text \<open>Keys the map takes for the same key stand for the same product.\<close>

lemma same_key:
  assumes "keys_ok type m" and "factors_ok type fs" and "gs \<in> fst ` set m"
    and "\<not> factor_less fs gs" and "\<not> factor_less gs fs"
  shows "term_value gs = term_value fs"
proof -
  have "fs = gs"
    using assms factors_ok_domains by (intro factor_less_identity) (auto simp: keys_ok_def)
  then show ?thesis by simp
qed

lemma sum_put:
  "keys_ok type m \<Longrightarrow> factors_ok type fs \<Longrightarrow>
     omap_sum term_value (omap_put factor_less fs c m) =
       omap_sum term_value m + term_value fs c -
       (case omap_find factor_less fs m of None \<Rightarrow> 0 | Some d \<Rightarrow> term_value fs d)"
  by (rule omap_sum_put) (simp add: same_key)

lemma sum_erase:
  "keys_ok type m \<Longrightarrow> factors_ok type fs \<Longrightarrow>
     omap_sum term_value (omap_erase factor_less fs m) =
       omap_sum term_value m -
       (case omap_find factor_less fs m of None \<Rightarrow> 0 | Some d \<Rightarrow> term_value fs d)"
  by (rule omap_sum_erase) (simp add: same_key)

lemma sum_emplace_zero:
  "keys_ok type m \<Longrightarrow> factors_ok type fs \<Longrightarrow>
     omap_sum term_value (omap_emplace factor_less fs 0 m) = omap_sum term_value m"
  by (auto simp: omap_emplace_def sum_put term_value_def split: option.split)

section \<open>Sums and products\<close>

lemma accumulate_sound:
  assumes run: "accumulate type limits w fs c = Inr w'" and s: "is_supported_int type"
    and keys: "keys_ok type (work_terms w)" and fs: "factors_ok type fs"
  shows "keys_ok type (work_terms w') \<and> work_type w' = work_type w \<and>
    same_residue type (work_value w') (work_value w + term_value fs c)"
proof -
  let ?c = "c AND residue_mask type"
  have c: "same_residue type (uint ?c) (uint c)" by (simp add: residue_masked s)
  consider "?c = 0" | "?c \<noteq> 0" "fs = []" | "?c \<noteq> 0" "fs \<noteq> []" by blast
  then show ?thesis
  proof cases
    case 1
    then have "same_residue type (work_value w + 0 * factors_value fs) (work_value w + term_value fs c)"
      unfolding term_value_def using c by (intro residue_intros) simp
    then show ?thesis using run keys 1 by (simp add: accumulate_def)
  next
    case 2
    then have w': "w' = w\<lparr>work_constant := (work_constant w + ?c) AND residue_mask type\<rparr>"
      using run by (simp add: accumulate_def)
    have "same_residue type (uint ((work_constant w + ?c) AND residue_mask type)) (uint (work_constant w) + uint c)"
      by (rule residue_trans [OF residue_trans [OF residue_masked residue_plus]])
        (intro residue_intros s c)+
    then have "same_residue type (work_value w') (omap_sum term_value (work_terms w) + (uint (work_constant w) + uint c))"
      unfolding w' work_value_def by (simp add: residue_intros)
    then show ?thesis using keys 2 by (simp add: w' work_value_def term_value_def add.assoc)
  next
    case 3
    define terms where "terms = omap_emplace factor_less fs 0 (work_terms w)"
    define entry where "entry = (case omap_find factor_less fs terms of Some v \<Rightarrow> v | None \<Rightarrow> 0)"
    define new where "new = (entry + ?c) AND residue_mask type"
    define terms' where "terms' =
      (if new = 0 then omap_erase factor_less fs terms else omap_put factor_less fs new terms)"
    have w': "w' = w\<lparr>work_terms := terms'\<rparr>"
      using run 3
      unfolding accumulate_def Let_def terms_def [symmetric] entry_def [symmetric] new_def [symmetric]
        terms'_def [symmetric] by (simp split: if_splits)
    have keys': "keys_ok type terms" using keys fs 3 by (simp add: terms_def keys_ok_emplace)
    have find: "omap_find factor_less fs terms = Some entry"
      by (simp add: entry_def terms_def omap_find_emplace_same factor_less_irrefl)
    have old: "omap_sum term_value terms = omap_sum term_value (work_terms w)"
      using keys fs by (simp add: terms_def sum_emplace_zero)
    have "omap_sum term_value terms' = omap_sum term_value terms + term_value fs new - term_value fs entry"
      using sum_erase [OF keys' fs] sum_put [OF keys' fs] by (simp add: terms'_def find term_value_def)
    then have value': "work_value w' = work_value w + (uint new - uint entry) * factors_value fs"
      using old by (simp add: w' work_value_def term_value_def algebra_simps)
    have "same_residue type (uint new) (uint entry + uint c)"
      unfolding new_def by (rule residue_trans [OF residue_trans [OF residue_masked residue_plus]])
        (intro residue_intros s c)+
    then have "same_residue type (uint new - uint entry) (uint entry + uint c - uint entry)"
      by (intro residue_intros)
    then have "same_residue type (work_value w') (work_value w + term_value fs c)"
      unfolding value' term_value_def by (intro residue_intros) simp
    moreover have "keys_ok type terms'"
      using keys' fs 3 by (simp add: terms'_def keys_ok_put keys_ok_erase)
    ultimately show ?thesis by (simp add: w')
  qed
qed

lemma term_value_scale:
  "is_supported_int type \<Longrightarrow> same_residue type (term_value fs (c * scale)) (uint scale * term_value fs c)"
  using residue_ring(3) [OF residue_times [of type c scale] residue_refl [of type "factors_value fs"]]
  by (simp add: term_value_def ac_simps)

lemma add_terms_sound:
  "add_terms type limits scale added into = Inr w' \<Longrightarrow> is_supported_int type \<Longrightarrow>
     keys_ok type (work_terms into) \<Longrightarrow> keys_ok type added \<Longrightarrow>
     keys_ok type (work_terms w') \<and> work_type w' = work_type into \<and>
     same_residue type (work_value w') (work_value into + uint scale * omap_sum term_value added)"
proof (induction type limits scale added into rule: add_terms.induct)
  case (2 type limits scale fs c added into)
  then obtain w where w: "accumulate type limits into fs (c * scale) = Inr w"
    and rest: "add_terms type limits scale added w = Inr w'"
    by auto
  have fs: "factors_ok type fs" and added: "keys_ok type added" using 2 by (auto simp: keys_ok_def)
  note one = accumulate_sound [OF w "2.prems"(2,3) fs]
  then have IH: "keys_ok type (work_terms w') \<and> work_type w' = work_type w \<and>
      same_residue type (work_value w') (work_value w + uint scale * omap_sum term_value added)"
    using "2.IH" [OF w rest "2.prems"(2)] added by simp
  have "same_residue type (work_value w) (work_value into + uint scale * term_value fs c)"
    using one term_value_scale [OF "2.prems"(2), of fs c scale]
    by (blast intro: residue_trans residue_intros)
  then have "same_residue type (work_value w + uint scale * omap_sum term_value added)
      (work_value into + uint scale * term_value fs c + uint scale * omap_sum term_value added)"
    by (intro residue_intros)
  with IH one show ?case
    by (auto simp: algebra_simps intro: residue_trans)
qed simp

lemma work_sum_sound:
  assumes "work_sum type limits into added scale = Inr w'" and s: "is_supported_int type"
    and "keys_ok type (work_terms into)" and "keys_ok type (work_terms added)"
  shows "keys_ok type (work_terms w') \<and> work_type w' = work_type into \<and>
    same_residue type (work_value w') (work_value into + uint scale * work_value added)"
proof -
  from assms obtain w where run: "add_terms type limits scale (work_terms added) into = Inr w"
    and w': "w' = w\<lparr>work_constant := (work_constant w + work_constant added * scale) AND residue_mask type\<rparr>"
    by (auto simp: work_sum_def)
  note sum = add_terms_sound [OF run assms(2-4)]
  have "same_residue type (uint ((work_constant w + work_constant added * scale) AND residue_mask type))
      (uint (work_constant w) + uint (work_constant added) * uint scale)"
    by (rule residue_trans [OF residue_trans [OF residue_masked residue_plus]])
      (intro residue_intros residue_times s)+
  then have "same_residue type (work_value w')
      (omap_sum term_value (work_terms w) + (uint (work_constant w) + uint (work_constant added) * uint scale))"
    unfolding w' work_value_def by (simp add: residue_intros)
  also have "\<dots> = work_value w + uint scale * uint (work_constant added)"
    by (simp add: work_value_def)
  also have "same_residue type \<dots> (work_value into + uint scale * omap_sum term_value (work_terms added)
      + uint scale * uint (work_constant added))"
    using sum by (intro residue_intros) simp
  finally show ?thesis using sum by (simp add: w' work_value_def [of added] algebra_simps)
qed

lemma merge_factors_ok [simp]:
  "factors_ok type (merge_factors fs gs) \<longleftrightarrow> factors_ok type fs \<and> factors_ok type gs"
  by (induction fs gs rule: merge_factors.induct) (auto simp: factors_ok_def)

lemma merge_factors_value [simp]:
  "factors_value (merge_factors fs gs) = factors_value fs * factors_value gs"
  by (induction fs gs rule: merge_factors.induct) (auto simp: algebra_simps)

lemma term_value_merge:
  "is_supported_int type \<Longrightarrow>
     same_residue type (term_value (merge_factors fs gs) (c * d)) (term_value fs c * term_value gs d)"
  using residue_ring(3) [OF residue_times [of type c d]
      residue_refl [of type "factors_value fs * factors_value gs"]]
  by (simp add: term_value_def ac_simps)

definition terms_ok :: "int_type \<Rightarrow> (kterm list \<times> u64) list \<Rightarrow> bool" where
  "terms_ok type ts \<longleftrightarrow> (\<forall>(fs, c) \<in> set ts. factors_ok type fs)"

lemma terms_ok_simps [simp]:
  "terms_ok type []"
  "terms_ok type ((fs, c) # ts) \<longleftrightarrow> factors_ok type fs \<and> terms_ok type ts"
  by (simp_all add: terms_ok_def)

lemma each_term_ok: "keys_ok type (work_terms w) \<Longrightarrow> terms_ok type (each_term w)"
  by (auto simp: terms_ok_def each_term_def keys_ok_def factors_ok_def)

lemma each_term_value: "omap_sum term_value (each_term w) = work_value w"
  by (simp add: each_term_def work_value_def term_value_def)

lemma product_row_sound:
  "product_row type limits lf lc right acc steps = Inr (w', steps') \<Longrightarrow> is_supported_int type \<Longrightarrow>
     keys_ok type (work_terms acc) \<Longrightarrow> factors_ok type lf \<Longrightarrow> terms_ok type right \<Longrightarrow>
     keys_ok type (work_terms w') \<and> work_type w' = work_type acc \<and>
     same_residue type (work_value w') (work_value acc + term_value lf lc * omap_sum term_value right)"
proof (induction right arbitrary: acc steps)
  case (Cons t right)
  obtain rf rc where t: "t = (rf, rc)" by (cases t)
  with Cons.prems obtain w s where run: "accumulate type limits acc (merge_factors lf rf) (lc * rc) = Inr w"
    and rest: "product_row type limits lf lc right w s = Inr (w', steps')"
    by auto
  note one = accumulate_sound [OF run Cons.prems(2,3)]
  have IH: "keys_ok type (work_terms w') \<and> work_type w' = work_type w \<and>
      same_residue type (work_value w') (work_value w + term_value lf lc * omap_sum term_value right)"
    using Cons.IH [OF rest Cons.prems(2)] one Cons.prems t by simp
  have ok: "factors_ok type (merge_factors lf rf)" using Cons.prems t by simp
  have "same_residue type (work_value w) (work_value acc + term_value lf lc * term_value rf rc)"
    using one [OF ok] term_value_merge [OF Cons.prems(2), of lf rf lc rc]
    by (blast intro: residue_trans residue_intros)
  then have "same_residue type (work_value w + term_value lf lc * omap_sum term_value right)
      (work_value acc + term_value lf lc * term_value rf rc + term_value lf lc * omap_sum term_value right)"
    by (intro residue_intros)
  with IH one [OF ok] show ?case
    using t by (auto simp: algebra_simps intro: residue_trans)
qed simp

lemma product_rows_sound:
  "product_rows type limits left right acc steps = Inr (w', steps') \<Longrightarrow> is_supported_int type \<Longrightarrow>
     keys_ok type (work_terms acc) \<Longrightarrow> terms_ok type left \<Longrightarrow> terms_ok type right \<Longrightarrow>
     keys_ok type (work_terms w') \<and> work_type w' = work_type acc \<and>
     same_residue type (work_value w') (work_value acc + omap_sum term_value left * omap_sum term_value right)"
proof (induction left arbitrary: acc steps)
  case (Cons t left)
  obtain lf lc where t: "t = (lf, lc)" by (cases t)
  with Cons.prems obtain w s where run: "product_row type limits lf lc right acc steps = Inr (w, s)"
    and rest: "product_rows type limits left right w s = Inr (w', steps')"
    by auto
  note row = product_row_sound [OF run Cons.prems(2,3)]
  have IH: "keys_ok type (work_terms w') \<and> work_type w' = work_type w \<and>
      same_residue type (work_value w') (work_value w + omap_sum term_value left * omap_sum term_value right)"
    using Cons.IH [OF rest Cons.prems(2)] row Cons.prems t by simp
  have "same_residue type (work_value w + omap_sum term_value left * omap_sum term_value right)
      (work_value acc + term_value lf lc * omap_sum term_value right
        + omap_sum term_value left * omap_sum term_value right)"
    using row Cons.prems t by (intro residue_intros) simp
  with IH show ?case
    using row Cons.prems t by (auto simp: algebra_simps intro: residue_trans)
qed simp

lemma work_product_sound:
  assumes "work_product type limits lhs rhs steps = Inr (w', steps')" and "is_supported_int type"
    and "keys_ok type (work_terms lhs)" and "keys_ok type (work_terms rhs)"
  shows "keys_ok type (work_terms w') \<and> work_type w' = type \<and>
    same_residue type (work_value w') (work_value lhs * work_value rhs)"
proof -
  let ?zero = "\<lparr>work_type = type, work_terms = [], work_constant = 0\<rparr>"
  have "keys_ok type (work_terms ?zero)" by (simp add: keys_ok_def)
  moreover have "work_value ?zero = 0" by (simp add: work_value_def)
  ultimately show ?thesis
    using product_rows_sound [OF assms(1) [unfolded work_product_def] assms(2) _
        each_term_ok [OF assms(3)] each_term_ok [OF assms(4)]]
    by (simp add: each_term_value)
qed

section \<open>Reading\<close>

definition reads_as :: "int_type \<Rightarrow> kterm \<Rightarrow> work \<Rightarrow> bool" where
  "reads_as type t w \<longleftrightarrow> keys_ok type (work_terms w) \<and> work_type w = type \<and>
     same_residue type (work_value w) (val t)"

lemma opaque_reads: "factor_ok type t \<Longrightarrow> reads_as type t (opaque type t)"
  by (simp add: reads_as_def opaque_def keys_ok_def factors_ok_def work_value_def term_value_def)

lemma read_term_sound:
  "read_term type limits t depth steps = Inr (w, steps') \<Longrightarrow> typed t type \<Longrightarrow> reads_as type t w"
proof (induction type limits t depth steps arbitrary: w steps' rule: read_term.induct)
  case (1 type limits t v depth steps)
  then have "is_representable type v" "t = type" by (auto simp: typed_literal)
  moreover from this have "same_residue type (uint (bits_of type v)) v"
    by (simp add: same_residue_def uint_bits_of is_representable_def)
  ultimately show ?case
    using 1 by (auto simp: reads_as_def keys_ok_def work_value_def val_literal)
next
  case (2 type limits op t a b depth steps)
  show ?case
  proof (cases "is_arithmetic op \<and> t = type")
    case False
    then have "factor_ok type (Prim op t [a, b])" using 2 by (auto simp: factor_ok_def)
    then show ?thesis using 2 False by (auto intro: opaque_reads)
  next
    case True
    then have ab: "typed a type" "typed b type" using "2.prems"(2) typed_ring by auto
    from ab(1) have s: "is_supported_int type" by (rule typed_supported)
    from "2.prems"(1) True obtain s0 lhs s1 rhs s2
      where s0: "begin_read limits depth steps = Inr s0"
        and lhs: "read_term type limits a (Suc depth) s0 = Inr (lhs, s1)"
        and rhs: "read_term type limits b (Suc depth) s1 = Inr (rhs, s2)"
        and cases: "op = AddWrap \<and> work_sum type limits lhs rhs 1 = Inr w \<or>
          op = SubWrap \<and> work_sum type limits lhs rhs (residue_mask type) = Inr w \<or>
          op = MulWrap \<and> work_product type limits lhs rhs s2 = Inr (w, steps')"
      by (auto simp: is_arithmetic_def split: if_splits)
    have l: "reads_as type a lhs" using "2.IH"(1) [OF s0 True lhs ab(1)] .
    have r: "reads_as type b rhs" using "2.IH"(2) [OF s0 True lhs _ rhs ab(2)] by simp
    note lr = l [unfolded reads_as_def] r [unfolded reads_as_def]
    from cases show ?thesis
    proof (elim disjE conjE)
      assume op: "op = AddWrap" and run: "work_sum type limits lhs rhs 1 = Inr w"
      have "same_residue type (work_value lhs + 1 * work_value rhs) (val (Prim op t [a, b]))"
        using lr True val_add [OF s, of a b] residue_ring(1) [of type "work_value lhs" "val a" "work_value rhs" "val b"]
        by (simp add: op same_residue_def)
      with work_sum_sound [OF run s] lr show ?thesis by (auto simp: reads_as_def intro: residue_trans)
    next
      assume op: "op = SubWrap" and run: "work_sum type limits lhs rhs (residue_mask type) = Inr w"
      have "same_residue type (work_value lhs + (0 - 1) * work_value rhs) (val (Prim op t [a, b]))"
        using lr True val_sub [OF s, of a b] residue_ring(2) [of type "work_value lhs" "val a" "work_value rhs" "val b"]
        by (simp add: op same_residue_def)
      moreover have "same_residue type (work_value lhs + uint (residue_mask type) * work_value rhs)
          (work_value lhs + (0 - 1) * work_value rhs)"
      proof (intro residue_intros)
        show "same_residue type (uint (residue_mask type)) (0 - 1)"
          by (simp add: uint_residue_mask [OF s] same_residue_def mod_diff_left_eq [symmetric])
      qed
      ultimately show ?thesis
        using work_sum_sound [OF run s] lr by (auto simp: reads_as_def intro: residue_trans)
    next
      assume op: "op = MulWrap" and run: "work_product type limits lhs rhs s2 = Inr (w, steps')"
      have "same_residue type (work_value lhs * work_value rhs) (val (Prim op t [a, b]))"
        using lr True val_mul [OF s, of a b] residue_ring(3) [of type "work_value lhs" "val a" "work_value rhs" "val b"]
        by (simp add: op same_residue_def)
      with work_product_sound [OF run s] lr show ?thesis by (auto simp: reads_as_def intro: residue_trans)
    qed
  qed
qed (auto intro!: opaque_reads simp: factor_ok_def)

section \<open>Rendering\<close>

definition poly_value :: "polynomial \<Rightarrow> int" where
  "poly_value p =
     (\<Sum>m \<leftarrow> monomials p. term_value (factors m) (coefficient m)) + uint (poly_constant p)"

definition monomials_ok :: "int_type \<Rightarrow> monomial list \<Rightarrow> bool" where
  "monomials_ok type ms \<longleftrightarrow> (\<forall>m \<in> set ms. factors m \<noteq> [] \<and> factors_ok type (factors m))"

lemma finish_work_value: "poly_value (finish_work w) = work_value w"
proof -
  have "(\<Sum>m \<leftarrow> map (\<lambda>(fs, c). \<lparr>factors = fs, coefficient = c\<rparr>) ts. term_value (factors m) (coefficient m)) =
      omap_sum term_value ts" for ts
    by (induction ts) auto
  then show ?thesis by (simp add: poly_value_def finish_work_def work_value_def)
qed

lemma finish_work_ok: "keys_ok type (work_terms w) \<Longrightarrow> monomials_ok type (monomials (finish_work w))"
  by (auto simp: monomials_ok_def finish_work_def keys_ok_def)

lemma negated_polynomial_value:
  assumes "is_supported_int (poly_type p)"
  shows "same_residue (poly_type p) (poly_value (negated_polynomial p)) (- poly_value p)"
proof -
  let ?n = "residue_negated (poly_type p)"
  have neg: "same_residue (poly_type p) (uint (?n c)) (- uint c)" for c
    using uint_negated_mod [OF assms] by (simp add: same_residue_def)
  have "same_residue (poly_type p)
      (\<Sum>m \<leftarrow> map (\<lambda>m. m\<lparr>coefficient := ?n (coefficient m)\<rparr>) ms. term_value (factors m) (coefficient m))
      (- (\<Sum>m \<leftarrow> ms. term_value (factors m) (coefficient m)))" for ms
  proof (induction ms)
    case (Cons m ms)
    have "same_residue (poly_type p) (term_value (factors m) (?n (coefficient m)))
        (- uint (coefficient m) * factors_value (factors m))"
      unfolding term_value_def by (intro residue_intros neg)
    from residue_ring(1) [OF this Cons.IH] show ?case by (simp add: term_value_def)
  qed simp
  from residue_ring(1) [OF this neg] show ?thesis
    by (simp add: poly_value_def negated_polynomial_def)
qed

text \<open>A term of the type whose value is \<open>x\<close> up to the modulus.\<close>

definition denotes :: "int_type \<Rightarrow> kterm \<Rightarrow> int \<Rightarrow> bool" where
  "denotes type t x \<longleftrightarrow> typed t type \<and> same_residue type (val t) x"

lemma denotes_ring:
  assumes "denotes type a x" and "denotes type b y"
  shows "denotes type (Prim AddWrap type [a, b]) (x + y)"
    and "denotes type (Prim SubWrap type [a, b]) (x - y)"
    and "denotes type (Prim MulWrap type [a, b]) (x * y)"
proof -
  note xy = assms [unfolded denotes_def]
  have arith: "is_arithmetic AddWrap" "is_arithmetic SubWrap" "is_arithmetic MulWrap"
    by (simp_all add: is_arithmetic_def)
  have "same_residue type (val (Prim AddWrap type [a, b])) (val a + val b)"
    "same_residue type (val (Prim SubWrap type [a, b])) (val a - val b)"
    "same_residue type (val (Prim MulWrap type [a, b])) (val a * val b)"
    using typed_supported [of a type] xy by (simp_all add: same_residue_def val_add val_sub val_mul)
  then show "denotes type (Prim AddWrap type [a, b]) (x + y)"
    and "denotes type (Prim SubWrap type [a, b]) (x - y)"
    and "denotes type (Prim MulWrap type [a, b]) (x * y)"
    using xy arith by (auto simp: denotes_def typed_ring intro: residue_trans residue_intros)
qed

lemma denotes_residue: "denotes type t x \<Longrightarrow> same_residue type x y \<Longrightarrow> denotes type t y"
  by (auto simp: denotes_def intro: residue_trans)

lemma denotes_literal:
  "admitted \<Longrightarrow> is_supported_int type \<Longrightarrow> denotes type (literal_of type c) (uint c)"
  by (simp add: denotes_def literal_of_def typed_literal val_literal wrap_into_representable
      same_residue_def wrap_into_mod)

lemma denotes_factor: "factor_ok type f \<Longrightarrow> denotes type f (val f)"
  by (simp add: denotes_def factor_ok_def)

lemma render_factors_foldl:
  "factors_ok type fs \<Longrightarrow> denotes type t x \<Longrightarrow>
     denotes type (foldl (\<lambda>product f. Prim MulWrap type [product, f]) t fs) (x * factors_value fs)"
proof (induction fs arbitrary: t x)
  case (Cons f fs)
  then have "denotes type (Prim MulWrap type [t, f]) (x * val f)"
    by (intro denotes_ring denotes_factor) (simp_all add: factors_ok_def)
  with Cons show ?case by (simp add: factors_ok_def mult.assoc [symmetric])
qed simp

lemma render_factors_sound:
  assumes "fs \<noteq> []" and "factors_ok type fs"
  shows "denotes type (render_factors type fs) (factors_value fs)"
proof (cases fs)
  case (Cons f gs)
  then show ?thesis
    using assms render_factors_foldl [of type gs f "val f"] denotes_factor [of type f]
    by (simp add: render_factors_def factors_ok_def)
qed (use assms in simp)

lemma scaled_term_sound:
  assumes "fs \<noteq> []" and "factors_ok type fs"
  shows "denotes type (scaled_term type fs c) (term_value fs c)"
proof -
  from assms have "typed (hd fs) type" by (cases fs) (auto simp: factors_ok_def factor_ok_def)
  then show ?thesis
    using render_factors_sound [OF assms] denotes_ring(3) denotes_literal typed_admitted typed_supported
    by (simp add: scaled_term_def term_value_def)
qed

text \<open>What is rendered so far: nothing stands for zero.\<close>

definition denotes_option :: "int_type \<Rightarrow> kterm option \<Rightarrow> int \<Rightarrow> bool" where
  "denotes_option type acc x \<longleftrightarrow> (case acc of Some t \<Rightarrow> denotes type t x | None \<Rightarrow> same_residue type 0 x)"

lemma denotes_option_simps:
  "denotes_option type (Some t) x \<longleftrightarrow> denotes type t x"
  "denotes_option type None x \<longleftrightarrow> same_residue type 0 x"
  by (simp_all add: denotes_option_def)

lemma render_positive_sound:
  "monomials_ok type ms \<Longrightarrow> denotes_option type acc x \<Longrightarrow>
     denotes_option type (render_positive type ms acc)
       (x + (\<Sum>m \<leftarrow> filter (\<lambda>m. \<not> is_negative type (coefficient m)) ms. term_value (factors m) (coefficient m)))"
proof (induction type ms acc arbitrary: x rule: render_positive.induct)
  case (2 type m ms acc)
  show ?case
  proof (cases "is_negative type (coefficient m)")
    case True
    with 2 show ?thesis by (simp add: monomials_ok_def)
  next
    case False
    let ?t = "scaled_term type (factors m) (coefficient m)"
    let ?y = "term_value (factors m) (coefficient m)"
    have t: "denotes type ?t ?y"
      using 2 by (intro scaled_term_sound) (simp_all add: monomials_ok_def)
    have "denotes_option type (Some (case acc of Some s \<Rightarrow> Prim AddWrap type [s, ?t] | None \<Rightarrow> ?t)) (x + ?y)"
    proof (cases acc)
      case None
      then have "same_residue type (0 + ?y) (x + ?y)"
        using "2.prems"(2) by (intro residue_intros) (simp add: denotes_option_simps)
      with t None show ?thesis by (simp add: denotes_option_simps denotes_residue)
    next
      case (Some s)
      with t "2.prems"(2) show ?thesis by (simp add: denotes_option_simps denotes_ring)
    qed
    from "2.IH"(2) [OF False refl _ this] False "2.prems"(1) show ?thesis
      by (simp add: monomials_ok_def add.assoc Let_def)
  qed
qed simp

lemma render_negative_sound:
  "monomials_ok type ms \<Longrightarrow> admitted \<Longrightarrow> is_supported_int type \<Longrightarrow> denotes_option type acc x \<Longrightarrow>
     denotes_option type (render_negative type ms acc)
       (x + (\<Sum>m \<leftarrow> filter (\<lambda>m. is_negative type (coefficient m)) ms. term_value (factors m) (coefficient m)))"
proof (induction type ms acc arbitrary: x rule: render_negative.induct)
  case (2 type m ms acc)
  show ?case
  proof (cases "is_negative type (coefficient m)")
    case False
    with 2 show ?thesis by (simp add: monomials_ok_def)
  next
    case True
    let ?c = "residue_negated type (coefficient m)"
    let ?t = "scaled_term type (factors m) ?c"
    let ?y = "term_value (factors m) (coefficient m)"
    have "same_residue type (uint ?c * factors_value (factors m)) (- uint (coefficient m) * factors_value (factors m))"
      using uint_negated_mod [OF "2.prems"(3)] by (intro residue_intros) (simp add: same_residue_def)
    then have t: "denotes type ?t (- ?y)"
      using 2 by (intro denotes_residue [OF scaled_term_sound]) (simp_all add: monomials_ok_def term_value_def)
    let ?minuend = "case acc of Some s \<Rightarrow> s | None \<Rightarrow> literal_of type 0"
    have "denotes type ?minuend x"
      using "2.prems" denotes_residue [OF denotes_literal [of type 0]]
      by (cases acc) (simp_all add: denotes_option_simps)
    then have "denotes_option type (Some (Prim SubWrap type [?minuend, ?t])) (x - - ?y)"
      using t by (simp only: denotes_option_simps denotes_ring)
    from "2.IH"(2) [OF _ refl refl _ _ _ this] True "2.prems" show ?thesis
      by (simp add: monomials_ok_def add.assoc Let_def)
  qed
qed simp

lemma sum_split: "(\<Sum>x \<leftarrow> filter (\<lambda>x. \<not> P x) xs. f x) + (\<Sum>x \<leftarrow> filter P xs. f x) = (\<Sum>x \<leftarrow> xs. f x :: int)"
  by (induction xs) auto

lemma render_sound:
  assumes "monomials_ok (poly_type p) (monomials p)" and "admitted" and "is_supported_int (poly_type p)"
  shows "denotes (poly_type p) (render p) (poly_value p)"
proof -
  let ?T = "poly_type p" and ?c = "poly_constant p"
  let ?acc = "render_negative ?T (monomials p) (render_positive ?T (monomials p) None)"
  let ?x = "\<Sum>m \<leftarrow> monomials p. term_value (factors m) (coefficient m)"
  have "denotes_option ?T (render_positive ?T (monomials p) None)
      (0 + (\<Sum>m \<leftarrow> filter (\<lambda>m. \<not> is_negative ?T (coefficient m)) (monomials p). term_value (factors m) (coefficient m)))"
    using assms by (intro render_positive_sound) (simp_all add: denotes_option_simps)
  from render_negative_sound [OF assms this] have acc: "denotes_option ?T ?acc ?x"
    by (simp add: sum_split)
  have c: "denotes ?T (literal_of ?T ?c) (uint ?c)" using assms by (simp add: denotes_literal)
  have "denotes ?T (literal_of ?T (residue_negated ?T ?c)) (- uint ?c)"
    using assms uint_negated_mod by (intro denotes_residue [OF denotes_literal]) (simp_all add: same_residue_def)
  then have minus: "denotes ?T s y \<Longrightarrow>
      denotes ?T (Prim SubWrap ?T [s, literal_of ?T (residue_negated ?T ?c)]) (y + uint ?c)" for s y
    using denotes_ring(2) by fastforce
  show ?thesis
  proof (cases ?acc)
    case None
    then have "same_residue ?T (0 + uint ?c) (?x + uint ?c)"
      using acc by (intro residue_intros) (simp add: denotes_option_simps)
    then show ?thesis
      using None c denotes_residue by (auto simp: render_def Let_def poly_value_def)
  next
    case (Some s)
    then have "denotes ?T s ?x" using acc by (simp add: denotes_option_simps)
    then show ?thesis
      using Some c minus denotes_ring(1) by (auto simp: render_def Let_def poly_value_def)
  qed
qed

text \<open>The polynomial of a term, and the term the polynomial renders to, denote the term's value.\<close>

lemma read_polynomial_sound:
  assumes "read_polynomial t type limits = Inr p" and "typed t type"
  shows "poly_type p = type" and "monomials_ok type (monomials p)" and "same_residue type (poly_value p) (val t)"
proof -
  from assms(1) obtain w s where run: "read_term type limits t 0 0 = Inr (w, s)" and p: "p = finish_work w"
    by (auto simp: read_polynomial_def)
  note w = read_term_sound [OF run assms(2), unfolded reads_as_def]
  then show "poly_type p = type" and "monomials_ok type (monomials p)" and "same_residue type (poly_value p) (val t)"
    by (simp_all add: p finish_work_ok finish_work_value) (simp add: finish_work_def)
qed

lemma normalize_ring_sound:
  assumes "normalize_ring op type operands limits steps = Inr (t, steps')"
    and "typed (Prim op type operands) type"
  shows "typed t type \<and> val t = val (Prim op type operands)"
proof -
  from assms(1) obtain w s where run: "read_term type limits (Prim op type operands) 0 steps = Inr (w, s)"
    and t: "t = render (finish_work w)"
    by (auto simp: normalize_ring_def)
  note w = read_term_sound [OF run assms(2), unfolded reads_as_def]
  moreover have "poly_type (finish_work w) = work_type w" by (simp add: finish_work_def)
  ultimately have "denotes type t (work_value w)"
    using render_sound [of "finish_work w"] typed_admitted [OF assms(2)] typed_supported [OF assms(2)]
    by (simp add: t finish_work_ok finish_work_value)
  then have "typed t type" "same_residue type (val t) (val (Prim op type operands))"
    using w by (auto simp: denotes_def intro: residue_trans)
  then show ?thesis
    using representable_unique [OF typed_representable typed_representable] assms(2)
    by (auto simp: same_residue_def)
qed

end

section \<open>The kernel's terms\<close>

definition typed_at ::
  "'u kmodel \<Rightarrow> kcontext \<Rightarrow> ktype list \<Rightarrow> 'u kvalue list \<Rightarrow> kterm \<Rightarrow> int_type \<Rightarrow> bool" where
  "typed_at S \<Gamma> L env t type \<longleftrightarrow> reads S \<Gamma> L env \<and> has_type \<Gamma> L t (Int_Type type)"

definition number_at :: "'u kmodel \<Rightarrow> kcontext \<Rightarrow> 'u kvalue list \<Rightarrow> kterm \<Rightarrow> wide" where
  "number_at S \<Gamma> env t = the_int (value_at S \<Gamma> env t)"

lemma has_type_binary:
  "op \<noteq> Convert \<Longrightarrow> op \<noteq> NotOp \<Longrightarrow> op \<noteq> Select \<Longrightarrow>
     has_type \<Gamma> L (Prim op type [a, b]) \<tau> \<longleftrightarrow>
       is_supported_int type \<and> \<tau> = result_type op type \<and>
       has_type \<Gamma> L a (Int_Type type) \<and> has_type \<Gamma> L b (Int_Type type)"
  by (auto elim!: has_type_Prim intro!: has_type.type_prim simp: operand_types_simps)

lemma has_type_supported_int: "has_type \<Gamma> L t (Int_Type type) \<Longrightarrow> reads S \<Gamma> L env \<Longrightarrow> is_supported_int type"
  using reads_int by (fastforce simp: is_representable_def)

lemma number_at_representable: "typed_at S \<Gamma> L env t type \<Longrightarrow> is_representable type (number_at S \<Gamma> env t)"
  using reads_int [of S \<Gamma> L env t type] by (auto simp: typed_at_def number_at_def)

interpretation kernel_ring: ring_reading "reads S \<Gamma> L env" "typed_at S \<Gamma> L env" "number_at S \<Gamma> env"
  for S :: "'u kmodel" and \<Gamma> L env
proof
  fix t type assume t: "typed_at S \<Gamma> L env t type"
  then show "reads S \<Gamma> L env" and "is_representable type (number_at S \<Gamma> env t)" and "supported_domains t"
    using has_type_supported_domains by (auto simp: typed_at_def number_at_representable)
next
  fix type' type v
  show "typed_at S \<Gamma> L env (Literal type' v) type \<longleftrightarrow>
      reads S \<Gamma> L env \<and> type' = type \<and> is_representable type v"
    by (auto simp: typed_at_def has_type_Literal_iff)
next
  fix type v
  show "number_at S \<Gamma> env (Literal type v) = v" by (simp add: number_at_def)
next
  fix op type' a b type
  assume "is_arithmetic op"
  then have op: "op \<noteq> Convert" "op \<noteq> NotOp" "op \<noteq> Select" "result_type op type' = Int_Type type'"
    by (auto simp: is_arithmetic_def result_type_def is_representability_def)
  show "typed_at S \<Gamma> L env (Prim op type' [a, b]) type \<longleftrightarrow>
      type' = type \<and> typed_at S \<Gamma> L env a type \<and> typed_at S \<Gamma> L env b type"
    using has_type_supported_int by (auto simp: typed_at_def has_type_binary op)
next
  fix type a b
  assume "is_supported_int type"
  note wrap = wrap_into_mod [OF this]
  show "number_at S \<Gamma> env (Prim AddWrap type [a, b]) mod 2 ^ width type =
      (number_at S \<Gamma> env a + number_at S \<Gamma> env b) mod 2 ^ width type"
    and "number_at S \<Gamma> env (Prim SubWrap type [a, b]) mod 2 ^ width type =
      (number_at S \<Gamma> env a - number_at S \<Gamma> env b) mod 2 ^ width type"
    and "number_at S \<Gamma> env (Prim MulWrap type [a, b]) mod 2 ^ width type =
      number_at S \<Gamma> env a * number_at S \<Gamma> env b mod 2 ^ width type"
    by (simp_all add: number_at_def wrap)
qed

text \<open>The locale's notions for the kernel's terms.\<close>

abbreviation monomials_at ::
  "'u kmodel \<Rightarrow> kcontext \<Rightarrow> ktype list \<Rightarrow> 'u kvalue list \<Rightarrow> int_type \<Rightarrow> monomial list \<Rightarrow> bool" where
  "monomials_at S \<Gamma> L env \<equiv> ring_reading.monomials_ok (typed_at S \<Gamma> L env)"

abbreviation keys_at ::
  "'u kmodel \<Rightarrow> kcontext \<Rightarrow> ktype list \<Rightarrow> 'u kvalue list \<Rightarrow> int_type \<Rightarrow> (kterm list, u64) omap \<Rightarrow> bool" where
  "keys_at S \<Gamma> L env \<equiv> ring_reading.keys_ok (typed_at S \<Gamma> L env)"

abbreviation poly_at :: "'u kmodel \<Rightarrow> kcontext \<Rightarrow> 'u kvalue list \<Rightarrow> polynomial \<Rightarrow> int" where
  "poly_at S \<Gamma> env \<equiv> ring_reading.poly_value (number_at S \<Gamma> env)"

abbreviation work_at :: "'u kmodel \<Rightarrow> kcontext \<Rightarrow> 'u kvalue list \<Rightarrow> work \<Rightarrow> int" where
  "work_at S \<Gamma> env \<equiv> ring_reading.work_value (number_at S \<Gamma> env)"

abbreviation denotes_at ::
  "'u kmodel \<Rightarrow> kcontext \<Rightarrow> ktype list \<Rightarrow> 'u kvalue list \<Rightarrow> int_type \<Rightarrow> kterm \<Rightarrow> int \<Rightarrow> bool" where
  "denotes_at S \<Gamma> L env \<equiv> ring_reading.denotes (typed_at S \<Gamma> L env) (number_at S \<Gamma> env)"

end
