(* ===== verification/Norm_Facts.thy ===== *)
theory Norm_Facts
  imports Poly_Facts
begin

text \<open>
  Normalization keeps types and values: the normal form of every primitive, the unfolding of a
  definition, and \<open>normalize\<close> itself.
\<close>

section \<open>Terms of a type with a value\<close>

definition means ::
  "'u kmodel \<Rightarrow> kcontext \<Rightarrow> ktype list \<Rightarrow> 'u kvalue list \<Rightarrow> kterm \<Rightarrow> ktype \<Rightarrow> 'u kvalue \<Rightarrow> bool" where
  "means S \<Gamma> L env t \<tau> v \<longleftrightarrow> has_type \<Gamma> L t \<tau> \<and> value_at S \<Gamma> env t = v"

abbreviation means_int ::
  "'u kmodel \<Rightarrow> kcontext \<Rightarrow> ktype list \<Rightarrow> 'u kvalue list \<Rightarrow> kterm \<Rightarrow> int_type \<Rightarrow> wide \<Rightarrow> bool" where
  "means_int S \<Gamma> L env t type n \<equiv> means S \<Gamma> L env t (Int_Type type) (IntV n)"

lemma meansI: "has_type \<Gamma> L t \<tau> \<Longrightarrow> means S \<Gamma> L env t \<tau> (value_at S \<Gamma> env t)"
  by (simp add: means_def)

lemma means_int_exists:
  "reads S \<Gamma> L env \<Longrightarrow> has_type \<Gamma> L t (Int_Type type) \<Longrightarrow>
     \<exists>n. means_int S \<Gamma> L env t type n \<and> is_representable type n"
  using reads_int by (fastforce simp: means_def)

lemma means_representable:
  "reads S \<Gamma> L env \<Longrightarrow> means_int S \<Gamma> L env t type n \<Longrightarrow> is_representable type n"
  using means_int_exists by (fastforce simp: means_def)

lemma means_literal:
  "means_int S \<Gamma> L env (Literal type' v) type n \<longleftrightarrow> type' = type \<and> v = n \<and> is_representable type v"
  by (auto simp: means_def has_type_Literal_iff)

lemma means_typed_at:
  "reads S \<Gamma> L env \<Longrightarrow> means_int S \<Gamma> L env t type n \<longleftrightarrow> typed_at S \<Gamma> L env t type \<and> number_at S \<Gamma> env t = n"
  using means_int_exists by (fastforce simp: means_def typed_at_def number_at_def)

lemma means_boolean: "means_int S \<Gamma> L env (Literal kBoolean (if b then 1 else 0)) kBoolean (truth_value b)"
  by (simp add: means_literal kBoolean_representable truth_value_def)

lemma means_binary:
  assumes "means_int S \<Gamma> L env a type m" and "means_int S \<Gamma> L env b type n" and "is_supported_int type"
    and "op \<noteq> Convert" "op \<noteq> NotOp" "op \<noteq> Select"
  shows "means S \<Gamma> L env (Prim op type [a, b]) (result_type op type) (IntV (prim_value op type [m, n]))"
  using assms by (simp add: means_def has_type_binary)

lemma means_not:
  "means_int S \<Gamma> L env c kBoolean n \<Longrightarrow> means_int S \<Gamma> L env (Prim NotOp kBoolean [c]) kBoolean (truth_value (n = 0))"
  using has_type.type_prim [of kBoolean NotOp \<Gamma> L "[c]"] kBoolean_supported
  by (simp add: means_def operand_types_simps result_type_def is_representability_def)

lemma means_select:
  assumes "means_int S \<Gamma> L env c kBoolean k" and "means_int S \<Gamma> L env a type m"
    and "means_int S \<Gamma> L env b type n" and "is_supported_int type"
  shows "means_int S \<Gamma> L env (Prim Select type [c, a, b]) type (if k = 0 then n else m)"
  using has_type.type_prim [of type Select \<Gamma> L "[c, a, b]"] assms
  by (simp add: means_def operand_types_simps result_type_def is_representability_def)

lemma means_convert:
  assumes "means_int S \<Gamma> L env a source m" and "is_supported_int type"
  shows "means_int S \<Gamma> L env (Prim Convert type [a]) type (wrap_into type m)"
  using assms by (auto simp: means_def intro: has_type.type_convert)

text \<open>What the constructors of a typed primitive give back.\<close>

lemma has_type_not:
  "has_type \<Gamma> L (Prim NotOp type [c]) \<tau> \<Longrightarrow>
     type = kBoolean \<and> \<tau> = Int_Type kBoolean \<and> has_type \<Gamma> L c (Int_Type kBoolean)"
  by (auto elim!: has_type_Prim simp: operand_types_simps result_type_def is_representability_def)

lemma has_type_select:
  "has_type \<Gamma> L (Prim Select type [c, a, b]) \<tau> \<Longrightarrow>
     \<tau> = Int_Type type \<and> has_type \<Gamma> L c (Int_Type kBoolean) \<and> has_type \<Gamma> L a (Int_Type type) \<and>
     has_type \<Gamma> L b (Int_Type type)"
  by (auto elim!: has_type_Prim simp: operand_types_simps result_type_def is_representability_def)

lemma has_type_convert:
  "has_type \<Gamma> L (Prim Convert type [a]) \<tau> \<Longrightarrow>
     \<tau> = Int_Type type \<and> (\<exists>source. has_type \<Gamma> L a (Int_Type source))"
  by (auto elim!: has_type_Prim)

lemma has_type_prim_supported: "has_type \<Gamma> L (Prim op type ts) \<tau> \<Longrightarrow> is_supported_int type"
  by (auto elim!: has_type_Prim)

section \<open>Primitives\<close>

lemma negate_sound:
  assumes r: "reads S \<Gamma> L env" and c: "means_int S \<Gamma> L env c kBoolean n"
  shows "means_int S \<Gamma> L env (negate c) kBoolean (truth_value (n = 0))"
proof (cases c rule: negate.cases)
  case (1 type v)
  then have "v = n" using c by (simp add: means_literal)
  then show ?thesis using 1 means_boolean [of S \<Gamma> L env "n = 0"] by simp
next
  case (2 op type a)
  show ?thesis
  proof (cases "op = NotOp")
    case True
    then have a: "has_type \<Gamma> L a (Int_Type kBoolean)" using c 2 by (auto simp: means_def dest: has_type_not)
    then obtain k where k: "means_int S \<Gamma> L env a kBoolean k" "k = 0 \<or> k = 1"
      using means_int_exists [OF r a] by (auto simp: kBoolean_representable)
    then have "n = truth_value (k = 0)" using c 2 True by (simp add: means_def)
    then have "truth_value (n = 0) = k" using k(2) by auto
    then show ?thesis using 2 True k(1) by simp
  next
    case False
    then show ?thesis using 2 means_not [OF c] by simp
  qed
qed (use means_not [OF c] in simp_all)

lemma literal_payload_Some: "literal_payload t = Some v \<longleftrightarrow> (\<exists>type. t = Literal type v)"
  by (cases t) auto

lemma wrapped_literal:
  "is_representable type v \<Longrightarrow> value_of type (bits_of type v) = v"
  using value_of_bits_of [of type v] wrap_into_self [of type v] by (simp add: is_representable_def)

lemma literal_value_sound:
  "literal_value t type = Some v \<Longrightarrow> means_int S \<Gamma> L env t type n \<Longrightarrow> v = n"
  by (cases t) (auto simp: means_literal wrapped_literal split: if_splits)

lemma lowest_minimum: "is_supported_int type \<Longrightarrow> lowest type = minimum_value type"
  by (simp add: lowest_def minimum_value_eq uint_half)

lemma highest_maximum: "is_supported_int type \<Longrightarrow> highest type = maximum_value type"
  by (simp add: highest_def maximum_value_eq uint_half uint_residue_mask)

lemma less_result [simp]: "result_type Less type = Int_Type kBoolean"
  by (simp add: result_type_def)

lemma less_term_sound:
  assumes r: "reads S \<Gamma> L env" and s: "is_supported_int type"
    and a: "means_int S \<Gamma> L env a type m" and b: "means_int S \<Gamma> L env b type n"
  shows "means_int S \<Gamma> L env (less_term type a b) kBoolean (truth_value (m < n))"
proof -
  have m: "is_representable type m" and n: "is_representable type n"
    using means_representable [OF r] a b by auto
  let ?left = "map_option (\<lambda>v. value_of type (bits_of type v)) (literal_payload a)"
  let ?right = "map_option (\<lambda>v. value_of type (bits_of type v)) (literal_payload b)"
  have left: "x = m" if "?left = Some x" for x
    using that a by (auto simp: literal_payload_Some means_literal wrapped_literal)
  have right: "x = n" if "?right = Some x" for x
    using that b by (auto simp: literal_payload_Some means_literal wrapped_literal)
  have bounds: "minimum_value type \<le> m" "n \<le> maximum_value type"
    using m n by (auto simp: is_representable_def)
  have prim: "means_int S \<Gamma> L env (Prim Less type [a, b]) kBoolean (truth_value (m < n))"
    using means_binary [OF a b s, of Less] by simp
  have zero: "means_int S \<Gamma> L env (Literal kBoolean 0) kBoolean (truth_value (m < n))" if "\<not> m < n"
    using that means_boolean [of S \<Gamma> L env False] by simp
  show ?thesis
  proof (cases "?left \<noteq> None \<and> ?right \<noteq> None")
    case True
    then have "less_term type a b = Literal kBoolean (if m < n then 1 else 0)"
      using left right by (auto simp: less_term_def Let_def)
    then show ?thesis using means_boolean [of S \<Gamma> L env "m < n"] by simp
  next
    case False
    have "a = b \<Longrightarrow> \<not> m < n" using a b by (simp add: means_def)
    moreover have "?right = Some (lowest type) \<Longrightarrow> \<not> m < n"
      using right bounds by (auto simp: lowest_minimum [OF s])
    moreover have "?left = Some (highest type) \<Longrightarrow> \<not> m < n"
      using left bounds by (auto simp: highest_maximum [OF s])
    moreover have "(case (x, y) of (Some i, Some j) \<Rightarrow> f i j | _ \<Rightarrow> t) = t"
      if "\<not> (x \<noteq> None \<and> y \<noteq> None)" for x y :: "wide option" and f :: "wide \<Rightarrow> wide \<Rightarrow> kterm" and t
      using that by (cases x; cases y) simp_all
    from this [OF False] have "less_term type a b =
        (if a = b then Literal kBoolean 0 else if ?right = Some (lowest type) then Literal kBoolean 0
         else if ?left = Some (highest type) then Literal kBoolean 0 else Prim Less type [a, b])"
      unfolding less_term_def Let_def .
    ultimately show ?thesis using zero prim by presburger
  qed
qed

lemma representability_sound:
  assumes r: "reads S \<Gamma> L env" and s: "is_supported_int type" and op: "is_representability op"
    and a: "means_int S \<Gamma> L env a type m" and b: "means_int S \<Gamma> L env b type n"
  shows "means_int S \<Gamma> L env (representability op type a b) kBoolean (prim_value op type [m, n])"
proof (cases "literal_value a type \<noteq> None \<and> literal_value b type \<noteq> None")
  case True
  then have lit: "literal_value a type = Some m" "literal_value b type = Some n"
    using literal_value_sound a b by auto
  have bounds: "- (2 ^ 63) \<le> m" "m < 2 ^ 64" "- (2 ^ 63) \<le> n" "n < 2 ^ 64"
    using representable_bounds [OF means_representable [OF r a]]
      representable_bounds [OF means_representable [OF r b]] by auto
  have fits: "in_wide x" if "is_representable type x" for x
    using representable_bounds [OF that] by (intro in_wide_small) auto
  let ?exact = "if op = AddFits then wide_add m n else if op = SubFits then wide_sub m n else wide_mul m n"
  let ?x = "if op = AddFits then m + n else if op = SubFits then m - n else m * n"
  have "?exact = (if in_wide ?x then Some ?x else None)"
    by (auto simp: wide_add_def wide_sub_def wide_mul_def)
  then have "(case ?exact of Some e \<Rightarrow> if is_representable type e then 1 else 0 | None \<Rightarrow> 0) =
      (if is_representable type ?x then 1 else (0 :: wide))"
    using fits by auto
  then have "representability op type a b = Literal kBoolean (if is_representable type ?x then 1 else 0)"
    by (simp add: representability_def lit Let_def)
  moreover have "prim_value op type [m, n] = truth_value (is_representable type ?x)"
    using op by (auto simp: is_representability_def)
  ultimately show ?thesis using means_boolean [of S \<Gamma> L env "is_representable type ?x"] by simp
next
  case False
  then have "representability op type a b =
      (if op \<noteq> SubFits \<and> compare b a = Ord_Less then Prim op type [b, a] else Prim op type [a, b])"
    unfolding representability_def by (auto split: option.split)
  moreover have "prim_value op type [n, m] = prim_value op type [m, n]" if "op \<noteq> SubFits"
    using that op by (auto simp: is_representability_def ac_simps)
  moreover have "result_type op type = Int_Type kBoolean" using op by (simp add: result_type_def)
  moreover have "op \<noteq> Convert" "op \<noteq> NotOp" "op \<noteq> Select" using op by (auto simp: is_representability_def)
  ultimately show ?thesis using means_binary [OF a b s, of op] means_binary [OF b a s, of op] by auto
qed

lemma conversion_sound:
  assumes r: "reads S \<Gamma> L env" and s: "is_supported_int type" and a: "means_int S \<Gamma> L env a source m"
  shows "means_int S \<Gamma> L env (conversion type a) type (wrap_into type m)"
proof (cases a)
  case (Literal t v)
  then have "v = m" "is_representable t v" "t = source" using a by (auto simp: means_literal)
  then show ?thesis
    using Literal wrap_into_representable [OF s, of m]
    by (simp add: wrapped_literal means_literal is_representable_def)
qed (use means_convert [OF a s] in simp_all)

lemma normalize_select_sound:
  assumes r: "reads S \<Gamma> L env" and s: "is_supported_int type"
    and c: "means_int S \<Gamma> L env c kBoolean k" and a: "means_int S \<Gamma> L env a type m"
    and b: "means_int S \<Gamma> L env b type n"
  shows "means_int S \<Gamma> L env (normalize_select type c a b) type (if k = 0 then n else m)"
proof -
  have k: "k = 0 \<or> k = 1" using means_representable [OF r c] by (simp add: kBoolean_representable)
  have select: "means_int S \<Gamma> L env (Prim Select type [c, a, b]) type (if k = 0 then n else m)"
    by (rule means_select [OF c a b s])
  have same: "means_int S \<Gamma> L env a type (if k = 0 then n else m)" if "a = b"
    using that a b by (auto simp: means_def)
  show ?thesis
  proof (cases "\<exists>t v. c = Literal t v")
    case True
    then have "c = Literal kBoolean k" using c by (auto simp: means_literal)
    then show ?thesis using k a b by (auto simp: normalize_select_def)
  next
    case False
    show ?thesis
    proof (cases "\<exists>t x. c = Prim NotOp t [x] \<and> a \<noteq> b")
      case True
      then obtain t x where x: "c = Prim NotOp t [x]" "a \<noteq> b" by blast
      then have "has_type \<Gamma> L x (Int_Type kBoolean)" using c by (auto simp: means_def dest: has_type_not)
      then obtain j where j: "means_int S \<Gamma> L env x kBoolean j" using means_int_exists [OF r] by blast
      then have "k = truth_value (j = 0)" using c x by (simp add: means_def)
      then show ?thesis using x means_select [OF j b a s] by (auto simp: normalize_select_def)
    next
      case no: False
      have "normalize_select type c a b = (if a = b then a else Prim Select type [c, a, b])"
      proof (cases c)
        case (Prim op t xs)
        then show ?thesis using no by (auto simp: normalize_select_def split: list.split)
      qed (use False in \<open>simp_all add: normalize_select_def\<close>)
      then show ?thesis using select same by simp
    qed
  qed
qed

lemma reads_sum:
  assumes r: "reads S \<Gamma> L env" and a: "means_int S \<Gamma> L env a type m" and b: "means_int S \<Gamma> L env b type n"
    and lhs: "read_term type limits a d s = Inr (lhs, s1)" and rhs: "read_term type limits b d s1 = Inr (rhs, s2)"
    and run: "work_sum type limits lhs rhs (residue_mask type) = Inr w"
  shows "monomials_at S \<Gamma> L env type (monomials (finish_work w))"
    and "poly_type (finish_work w) = type"
    and "same_residue type (poly_at S \<Gamma> env (finish_work w)) (m - n)"
    and "uint (poly_constant (finish_work w)) < 2 ^ width type"
proof -
  have ta: "typed_at S \<Gamma> L env a type" "number_at S \<Gamma> env a = m"
    and tb: "typed_at S \<Gamma> L env b type" "number_at S \<Gamma> env b = n"
    using a b by (simp_all add: means_typed_at [OF r])
  have s: "is_supported_int type" using kernel_ring.typed_supported [OF ta(1)] .
  note lr = kernel_ring.read_term_sound [OF lhs ta(1), unfolded kernel_ring.reads_as_def]
    kernel_ring.read_term_sound [OF rhs tb(1), unfolded kernel_ring.reads_as_def]
  then have keys: "keys_at S \<Gamma> L env type (work_terms lhs)"
    "keys_at S \<Gamma> L env type (work_terms rhs)" by blast+
  note sum = kernel_ring.work_sum_sound [OF run s keys]
  have minus_one: "same_residue type (uint (residue_mask type)) (0 - 1)"
    by (simp add: uint_residue_mask [OF s] same_residue_def mod_diff_left_eq [symmetric])
  have "same_residue type (work_at S \<Gamma> env lhs + uint (residue_mask type) * work_at S \<Gamma> env rhs)
      (m + (0 - 1) * n)"
    using lr ta(2) tb(2) minus_one by (intro residue_intros) auto
  with sum show "same_residue type (poly_at S \<Gamma> env (finish_work w)) (m - n)"
    unfolding kernel_ring.finish_work_value by (auto intro: residue_trans)
  show "monomials_at S \<Gamma> L env type (monomials (finish_work w))"
    using sum kernel_ring.finish_work_ok by blast
  show "poly_type (finish_work w) = type" using sum lr by (simp add: finish_work_def)
  show "uint (poly_constant (finish_work w)) < 2 ^ width type"
    using run by (auto simp: work_sum_def finish_work_def uint_masked [OF s])
qed

lemma representable_zero_iff:
  "is_representable type x \<Longrightarrow> same_residue type x d \<Longrightarrow> x = 0 \<longleftrightarrow> same_residue type d 0"
  using representable_unique [of type x 0] representable_zero [of type]
  by (auto simp: same_residue_def is_representable_def)

lemma representable_difference:
  "is_representable type m \<Longrightarrow> is_representable type n \<Longrightarrow> same_residue type (m - n) 0 \<longleftrightarrow> m = n"
  using representable_unique [of type m n]
  by (auto simp: same_residue_def mod_eq_dvd_iff)

lemma normalize_equality_sound:
  assumes r: "reads S \<Gamma> L env" and s: "is_supported_int type" and op: "op = Equal \<or> op = NotEqual"
    and a: "means_int S \<Gamma> L env a type m" and b: "means_int S \<Gamma> L env b type n"
    and run: "normalize_equality op type a b limits steps = Inr (t, steps')"
  shows "means_int S \<Gamma> L env t kBoolean (prim_value op type [m, n])"
proof -
  from run obtain lhs s1 rhs s2 w where reads: "read_term type limits a 0 steps = Inr (lhs, s1)"
      "read_term type limits b 0 s1 = Inr (rhs, s2)"
      "work_sum type limits lhs rhs (residue_mask type) = Inr w"
    by (auto simp: normalize_equality_def)
  define p where "p = finish_work w"
  note p = reads_sum [OF r a b reads, folded p_def]
  have mn: "is_representable type m" "is_representable type n" using a b means_representable [OF r] by auto
  define equal where "equal = (if monomials p \<noteq> []
    then Prim Equal type
      [if compare (render p) (render (negated_polynomial p)) \<noteq> Ord_Greater then render p
       else render (negated_polynomial p), literal_of type 0]
    else Literal kBoolean (if poly_constant p = 0 then 1 else 0))"
  have t: "t = (if op = Equal then equal else negate equal)"
    using run reads by (auto simp: normalize_equality_def equal_def p_def Let_def)
  have "means_int S \<Gamma> L env equal kBoolean (truth_value (m = n))"
  proof (cases "monomials p = []")
    case True
    then have "same_residue type (uint (poly_constant p)) (m - n)"
      using p(3) by (simp add: kernel_ring.poly_value_def)
    then have "uint (poly_constant p) = 0 \<longleftrightarrow> same_residue type (m - n) 0"
      using p(4) by (auto simp: same_residue_def)
    then have "poly_constant p = 0 \<longleftrightarrow> m = n"
      by (simp add: representable_difference [OF mn] unsigned_eq_0_iff)
    then show ?thesis using True means_boolean [of S \<Gamma> L env "m = n"] by (simp add: equal_def)
  next
    case False
    define u where "u = (if compare (render p) (render (negated_polynomial p)) \<noteq> Ord_Greater
      then render p else render (negated_polynomial p))"
    have positive: "denotes_at S \<Gamma> L env type (render p) (m - n)"
      using kernel_ring.render_sound [where S = S and \<Gamma> = \<Gamma> and L = L and env = env and p = p] p r s by (auto intro: kernel_ring.denotes_residue)
    have "denotes_at S \<Gamma> L env type (render (negated_polynomial p))
        (poly_at S \<Gamma> env (negated_polynomial p))"
      using kernel_ring.render_sound [where S = S and \<Gamma> = \<Gamma> and L = L and env = env and p = "negated_polynomial p"] p(1,2) r s
      by (simp add: negated_polynomial_def kernel_ring.monomials_ok_def)
    moreover have "same_residue type (poly_at S \<Gamma> env (negated_polynomial p)) (- (m - n))"
      using kernel_ring.negated_polynomial_value [where p = p and S = S and \<Gamma> = \<Gamma> and env = env] s
      unfolding p(2) by (intro residue_trans [OF _ residue_uminus [OF p(3)]])
    ultimately have negative: "denotes_at S \<Gamma> L env type (render (negated_polynomial p)) (- (m - n))"
      by (rule kernel_ring.denotes_residue)
    obtain x where u: "means_int S \<Gamma> L env u type x" and x: "same_residue type x (m - n) \<or> same_residue type x (- (m - n))"
      using positive negative by (auto simp: u_def kernel_ring.denotes_def means_typed_at [OF r])
    have "same_residue type (- (m - n)) 0 \<longleftrightarrow> same_residue type (m - n) 0"
      by (auto simp: same_residue_def mod_eq_dvd_iff dvd_diff_commute)
    then have "x = 0 \<longleftrightarrow> m = n"
      using x representable_zero_iff [OF means_representable [OF r u]] representable_difference [OF mn] by auto
    moreover have "means_int S \<Gamma> L env (literal_of type 0) type 0"
      using s by (simp add: literal_of_def means_literal wrap_into_self representable_zero)
    ultimately show ?thesis
      using False means_binary [OF u _ s, of "literal_of type 0" 0 Equal]
      by (simp add: equal_def result_type_def u_def)
  qed
  then show ?thesis using op t negate_sound [OF r, of equal "truth_value (m = n)"] by auto
qed

lemma normalize_division_sound:
  assumes r: "reads S \<Gamma> L env" and s: "is_supported_int type" and op: "op = Quotient \<or> op = Remainder"
    and a: "means_int S \<Gamma> L env a type m" and b: "means_int S \<Gamma> L env b type n"
    and run: "normalize_division op type a b limits steps = Inr (t, steps')"
  shows "means_int S \<Gamma> L env t type (prim_value op type [m, n])"
proof -
  have mn: "is_representable type m" "is_representable type n" using a b means_representable [OF r] by auto
  have zero: "means_int S \<Gamma> L env (Literal type 0) type 0" using s by (simp add: means_literal representable_zero)
  have self: "wrap_into type x = x" if "is_representable type x" for x using that by (rule wrap_into_self)
  have z: "wrap_into type 0 = 0" by (rule self) (rule representable_zero [OF s])
  have dividend: "x = m" if "literal_value a type = Some x" for x using that a by (rule literal_value_sound)
  have divisor: "x = n" if "literal_value b type = Some x" for x using that b by (rule literal_value_sound)
  have prim: "means_int S \<Gamma> L env (Prim op type [a, b]) type (prim_value op type [m, n])"
    using means_binary [OF a b s, of op] op by (auto simp: result_type_def is_representability_def)
  consider (div0) "literal_value b type = Some 0"
    | (both) "n \<noteq> 0" "literal_value a type = Some m" "literal_value b type = Some n"
    | (zero) "literal_value a type = Some 0" "literal_value b type = None"
    | (one) "literal_value b type = Some 1" "literal_value a type = None"
    | (minus) "literal_value b type = Some (- 1)" "literal_value a type = None"
    | (none) "t = Prim op type [a, b]"
    using run dividend divisor op
    by (cases "literal_value a type"; cases "literal_value b type")
      (auto simp: normalize_division_def Let_def split: if_splits)
  then show ?thesis
  proof cases
    case div0
    then have "n = 0" "t = (if op = Quotient then Literal type 0 else a)"
      using run divisor [of 0] by (auto simp: normalize_division_def)
    then show ?thesis using op zero a z by auto
  next
    case both
    have wide: "in_wide m" "in_wide n"
      using representable_bounds [OF mn(1)] representable_bounds [OF mn(2)] by (simp_all add: in_wide_def)
    have "\<bar>m\<bar> < 2 ^ 127" using representable_bounds [OF mn(1)] by simp
    then have "divide m n = m sdiv n" "remainder m n = m smod n"
      using divide_exact [OF wide both(1)] remainder_eq [OF wide both(1)] by auto
    then have "t = Literal type (if op = Quotient then wrap_into type (m sdiv n) else m smod n)"
      using run both by (auto simp: normalize_division_def Let_def)
    moreover have "is_representable type (m smod n)" by (rule smod_representable [OF mn])
    ultimately show ?thesis
      using op wrap_into_representable [OF s] by (auto simp: means_literal)
  next
    case zero
    then have "m = 0" "t = Literal type 0" using dividend [of 0] run by (auto simp: normalize_division_def Let_def)
    then show ?thesis
      using op \<open>means_int S \<Gamma> L env (Literal type 0) type 0\<close> z
      by (auto simp: signed_divide_int_def signed_modulo_int_def)
  next
    case one
    then have "n = 1" "t = (if op = Quotient then a else Literal type 0)"
      using divisor [of 1] run by (auto simp: normalize_division_def Let_def)
    then show ?thesis
      using op a zero self [OF mn(1)] by (auto simp: signed_modulo_int_def signed_divide_int_def mult_sgn_abs)
  next
    case minus
    then have n: "n = - 1" using divisor [of "- 1"] by simp
    have m: "m sdiv - 1 = - m" "m smod - 1 = 0"
      by (simp_all add: signed_divide_int_def signed_modulo_int_def mult_sgn_abs)
    show ?thesis
    proof (cases "op = Quotient")
      case True
      then have run': "normalize_ring SubWrap type [Literal type 0, a] limits steps = Inr (t, steps')"
        using run minus by (simp add: normalize_division_def Let_def)
      have "means S \<Gamma> L env (Prim SubWrap type [Literal type 0, a]) (result_type SubWrap type)
          (IntV (prim_value SubWrap type [0, m]))"
        by (rule means_binary [OF zero a s]) simp_all
      then have sub: "means_int S \<Gamma> L env (Prim SubWrap type [Literal type 0, a]) type (wrap_into type (- m))"
        by (simp add: result_type_def is_representability_def)
      then show ?thesis
        using kernel_ring.normalize_ring_sound [OF run', where S = S and \<Gamma> = \<Gamma> and L = L and env = env] True n m
        by (simp add: means_typed_at [OF r])
    next
      case False
      then have "t = Literal type 0" using run minus op by (simp add: normalize_division_def Let_def)
      then show ?thesis using False op zero n m by simp
    qed
  next
    case none
    then show ?thesis using prim by simp
  qed
qed

text \<open>The operands of a typed primitive, with their values.\<close>

lemma length_Suc_0 [simp]: "length xs = Suc 0 \<longleftrightarrow> (\<exists>x. xs = [x])"
  by (cases xs) auto

lemma arity_binary: "op \<noteq> Convert \<Longrightarrow> op \<noteq> NotOp \<Longrightarrow> op \<noteq> Select \<Longrightarrow> arity op = 2"
  by (cases op) simp_all

lemma has_type_prim_arity: "has_type \<Gamma> L (Prim op type ts) \<tau> \<Longrightarrow> length ts = arity op"
  by (auto elim!: has_type_Prim dest: list_all2_lengthD)

lemma typed_binary:
  assumes r: "reads S \<Gamma> L env" and t: "has_type \<Gamma> L (Prim op type ts) \<tau>"
    and op: "op \<noteq> Convert" "op \<noteq> NotOp" "op \<noteq> Select"
  obtains a b m n where "ts = [a, b]" "means_int S \<Gamma> L env a type m" "means_int S \<Gamma> L env b type n"
    "\<tau> = result_type op type" "value_at S \<Gamma> env (Prim op type ts) = IntV (prim_value op type [m, n])"
proof -
  obtain a b where ts: "ts = [a, b]"
    using has_type_prim_arity [OF t] arity_binary [OF op] by (auto simp: numeral_2_eq_2 length_Suc_conv)
  then have ab: "has_type \<Gamma> L a (Int_Type type)" "has_type \<Gamma> L b (Int_Type type)" "\<tau> = result_type op type"
    using t by (auto simp: has_type_binary op)
  obtain m n where mn: "means_int S \<Gamma> L env a type m" "means_int S \<Gamma> L env b type n"
    using means_int_exists [OF r] ab by blast
  have "value_at S \<Gamma> env (Prim op type ts) = IntV (prim_value op type [m, n])"
    using mn by (simp add: ts means_def)
  with ts ab mn show ?thesis by (intro that)
qed

lemma normalize_primitive_sound:
  assumes r: "reads S \<Gamma> L env" and t: "has_type \<Gamma> L (Prim op type ts) \<tau>"
    and run: "normalize_primitive op type ts limits steps = Inr (u, steps')"
  shows "means S \<Gamma> L env u \<tau> (value_at S \<Gamma> env (Prim op type ts))"
proof -
  have s: "is_supported_int type" using t by (rule has_type_prim_supported)
  have arity: "length ts = arity op" using t by (rule has_type_prim_arity)
  consider "op = NotOp" | "op = Select" | "op = Convert"
    | (binary) "op \<noteq> Convert" "op \<noteq> NotOp" "op \<noteq> Select" by blast
  then show ?thesis
  proof cases
    case 1
    then obtain c where c: "ts = [c]" using arity by auto
    then have typed: "has_type \<Gamma> L c (Int_Type kBoolean)" "\<tau> = Int_Type kBoolean"
      using t 1 by (auto dest: has_type_not)
    then obtain n where n: "means_int S \<Gamma> L env c kBoolean n" using means_int_exists [OF r] by blast
    have "u = negate c" using run 1 c s by (simp add: normalize_primitive_def is_arithmetic_def)
    then show ?thesis using negate_sound [OF r n] n typed 1 c by (simp add: means_def)
  next
    case 2
    then obtain c a b where ts: "ts = [c, a, b]" using arity by (auto simp: numeral_3_eq_3 length_Suc_conv)
    then have typed: "has_type \<Gamma> L c (Int_Type kBoolean)" "has_type \<Gamma> L a (Int_Type type)"
      "has_type \<Gamma> L b (Int_Type type)" "\<tau> = Int_Type type"
      using t 2 by (auto dest: has_type_select)
    then obtain k m n where v: "means_int S \<Gamma> L env c kBoolean k" "means_int S \<Gamma> L env a type m"
      "means_int S \<Gamma> L env b type n" using means_int_exists [OF r] by meson
    have "u = normalize_select type c a b" using run 2 ts s by (simp add: normalize_primitive_def is_arithmetic_def)
    then show ?thesis using normalize_select_sound [OF r s v] v typed 2 ts by (simp add: means_def)
  next
    case 3
    then obtain a where a: "ts = [a]" using arity by auto
    then obtain source where typed: "has_type \<Gamma> L a (Int_Type source)" "\<tau> = Int_Type type"
      using t 3 by (auto dest: has_type_convert)
    then obtain m where m: "means_int S \<Gamma> L env a source m" using means_int_exists [OF r] by blast
    have "u = conversion type a" using run 3 a s by (simp add: normalize_primitive_def is_arithmetic_def)
    then show ?thesis using conversion_sound [OF r s m] m typed 3 a by (simp add: means_def)
  next
    case binary
    obtain a b m n where ts: "ts = [a, b]" and a: "means_int S \<Gamma> L env a type m"
      and b: "means_int S \<Gamma> L env b type n" and \<tau>: "\<tau> = result_type op type"
      and v: "value_at S \<Gamma> env (Prim op type ts) = IntV (prim_value op type [m, n])"
      by (rule typed_binary [OF r t binary])
    note less = less_term_sound [OF r s a b] less_term_sound [OF r s b a]
    note negated = negate_sound [OF r less(1)] negate_sound [OF r less(2)]
    show ?thesis
    proof (cases "is_arithmetic op")
      case True
      then have "normalize_ring op type ts limits steps = Inr (u, steps')"
        using run arity s by (simp add: normalize_primitive_def)
      moreover have "\<tau> = Int_Type type"
        using \<tau> True by (auto simp: is_arithmetic_def result_type_def is_representability_def)
      moreover have "means_int S \<Gamma> L env (Prim op type ts) type (prim_value op type [m, n])"
        using t v calculation(2) by (simp add: means_def)
      ultimately show ?thesis
        using kernel_ring.normalize_ring_sound [of op type ts limits steps u steps' S \<Gamma> L env] v
        by (simp add: means_typed_at [OF r])
    next
      case False
      have eq: "means_int S \<Gamma> L env u kBoolean (prim_value op type [m, n])"
        if "op = Equal \<or> op = NotEqual"
        using that run ts s False by (intro normalize_equality_sound [OF r s that a b, of limits steps u steps'])
          (auto simp: normalize_primitive_def)
      have fits: "means_int S \<Gamma> L env u kBoolean (prim_value op type [m, n])" if "is_representability op"
      proof -
        have "u = representability op type a b"
          using that run ts s False by (auto simp: normalize_primitive_def is_representability_def)
        then show ?thesis using representability_sound [OF r s that a b] by simp
      qed
      have div: "means_int S \<Gamma> L env u type (prim_value op type [m, n])" if "op = Quotient \<or> op = Remainder"
        using that run ts s False by (intro normalize_division_sound [OF r s that a b, of limits steps u steps'])
          (auto simp: normalize_primitive_def)
      show ?thesis
        unfolding v \<tau> using run ts s False binary eq fits div less negated
        by (cases op) (auto simp: normalize_primitive_def result_type_def is_representability_def
            is_arithmetic_def not_less not_le)
    qed
  qed
qed

section \<open>Unfolding\<close>

text \<open>
  Terms \<open>us\<close> that stand, under \<open>L\<close> and \<open>env\<close>, for what \<open>ts\<close> are under \<open>M\<close> and \<open>env'\<close>: the same
  types and the same values. A node over the one then is a node over the other.
\<close>

definition stand_for ::
  "'u kmodel \<Rightarrow> kcontext \<Rightarrow> ktype list \<Rightarrow> 'u kvalue list \<Rightarrow> kterm list \<Rightarrow>
     ktype list \<Rightarrow> 'u kvalue list \<Rightarrow> kterm list \<Rightarrow> bool" where
  "stand_for S \<Gamma> L env us M env' ts \<longleftrightarrow>
     (\<forall>\<tau>s. list_all2 (has_type \<Gamma> M) ts \<tau>s \<longrightarrow>
        list_all2 (has_type \<Gamma> L) us \<tau>s \<and> map (value_at S \<Gamma> env) us = map (value_at S \<Gamma> env') ts)"

lemma stand_for_ints:
  assumes "map (value_at S \<Gamma> env) us = map (value_at S \<Gamma> env') ts"
  shows "map (\<lambda>t. the_int (value_at S \<Gamma> env t)) us = map (\<lambda>t. the_int (value_at S \<Gamma> env' t)) ts"
  using arg_cong [OF assms, of "map the_int"] by (simp only: map_map comp_def)

lemma stand_for_call:
  assumes t: "has_type \<Gamma> M (Call callee ts) \<tau>" and us: "stand_for S \<Gamma> L env us M env' ts"
  shows "means S \<Gamma> L env (Call callee us) \<tau> (value_at S \<Gamma> env' (Call callee ts))"
proof -
  from t obtain d where d: "lookup \<Gamma> callee = Some d" "\<tau> = result d" "list_all2 (has_type \<Gamma> M) ts (parameters d)"
    by (auto elim: has_type_Call)
  with us have "list_all2 (has_type \<Gamma> L) us (parameters d)" "map (value_at S \<Gamma> env) us = map (value_at S \<Gamma> env') ts"
    by (auto simp: stand_for_def)
  with d show ?thesis by (auto simp: means_def simp del: map_eq_conv intro: has_type.type_call)
qed

lemma stand_for_prim:
  assumes t: "has_type \<Gamma> M (Prim op type ts) \<tau>" and us: "stand_for S \<Gamma> L env us M env' ts"
  shows "means S \<Gamma> L env (Prim op type us) \<tau> (value_at S \<Gamma> env' (Prim op type ts))"
proof -
  have result: ?thesis if "list_all2 (has_type \<Gamma> M) ts \<tau>s"
    and "list_all2 (has_type \<Gamma> L) us \<tau>s \<Longrightarrow> has_type \<Gamma> L (Prim op type us) \<tau>" for \<tau>s
  proof -
    from us that(1) have us': "list_all2 (has_type \<Gamma> L) us \<tau>s"
      and eq: "map (value_at S \<Gamma> env) us = map (value_at S \<Gamma> env') ts"
      by (auto simp: stand_for_def)
    show ?thesis using that(2) [OF us'] by (simp only: means_def eval.simps stand_for_ints [OF eq])
  qed
  show ?thesis
  proof (cases "op = Convert")
    case True
    then obtain a source where a: "ts = [a]" "has_type \<Gamma> M a (Int_Type source)" "\<tau> = Int_Type type"
      "is_supported_int type"
      using t by (auto elim!: has_type_Prim)
    then show ?thesis
      using True by (intro result [of "[Int_Type source]"]) (auto simp: list_all2_Cons2 intro: has_type.type_convert)
  next
    case False
    then show ?thesis
      using t by (intro result [of "operand_types op type"]) (auto elim!: has_type_Prim intro: has_type.type_prim)
  qed
qed

lemma stand_for_projection:
  assumes t: "has_type \<Gamma> M (Projection domain k ts) \<tau>" and us: "stand_for S \<Gamma> L env us M env' ts"
  shows "means S \<Gamma> L env (Projection domain k us) \<tau> (value_at S \<Gamma> env' (Projection domain k ts))"
proof -
  from t obtain i ps t where d: "domain = Value_Type i ps" "ts = [t]" "k < length ps" "is_supported domain"
    "\<tau> = ps ! k" and "list_all2 (has_type \<Gamma> M) ts [domain]"
    by (auto elim!: has_type_Projection)
  with us have "list_all2 (has_type \<Gamma> L) us [domain]" "map (value_at S \<Gamma> env) us = map (value_at S \<Gamma> env') ts"
    by (auto simp: stand_for_def)
  with d show ?thesis by (auto simp: means_def list_all2_Cons2 intro: has_type.type_projection)
qed

lemma stand_for_element:
  assumes t: "has_type \<Gamma> M (Element domain ts) \<tau>" and us: "stand_for S \<Gamma> L env us M env' ts"
  shows "means S \<Gamma> L env (Element domain us) \<tau> (value_at S \<Gamma> env' (Element domain ts))"
proof -
  from t obtain n t j type where d: "domain = Indexed_Type [\<tau>] n" "ts = [t, j]" "is_supported domain"
    and "list_all2 (has_type \<Gamma> M) ts [domain, Int_Type type]"
    by (auto elim!: has_type_Element)
  with us have "list_all2 (has_type \<Gamma> L) us [domain, Int_Type type]"
    "map (value_at S \<Gamma> env) us = map (value_at S \<Gamma> env') ts"
    by (auto simp: stand_for_def)
  with d show ?thesis by (auto simp: means_def list_all2_Cons2 intro: has_type.type_element)
qed

lemma stand_for_Nil: "stand_for S \<Gamma> L env [] M env' []"
  by (simp add: stand_for_def)

lemma stand_for_Cons:
  assumes "\<And>\<tau>. has_type \<Gamma> M t \<tau> \<Longrightarrow> means S \<Gamma> L env u \<tau> (value_at S \<Gamma> env' t)"
    and "stand_for S \<Gamma> L env us M env' ts"
  shows "stand_for S \<Gamma> L env (u # us) M env' (t # ts)"
  using assms by (auto simp: stand_for_def means_def list_all2_Cons1 simp del: map_eq_conv)

lemma substitute_sound:
  "substitute t args limits depth = Inr u \<Longrightarrow> list_all2 (has_type \<Gamma> L) args M \<Longrightarrow> has_type \<Gamma> M t \<tau> \<Longrightarrow>
     means S \<Gamma> L env u \<tau> (value_at S \<Gamma> (map (value_at S \<Gamma> env) args) t)"
  "substitute_list ts args limits depth = Inr us \<Longrightarrow> list_all2 (has_type \<Gamma> L) args M \<Longrightarrow>
     stand_for S \<Gamma> L env us M (map (value_at S \<Gamma> env) args) ts"
proof (induction t args limits depth and ts args limits depth arbitrary: u \<tau> and us
    rule: substitute_substitute_list.induct)
  case (1 i args limits depth)
  then show ?case
    by (auto elim!: has_type_Var simp: means_def list_all2_conv_all_nth split: if_splits)
next
  case (2 type v args limits depth)
  then show ?case by (auto simp: means_def has_type_Literal_iff)
next
  case (3 callee ts args limits depth)
  then show ?case by (auto simp del: eval.simps intro: stand_for_call)
next
  case (4 op type ts args limits depth)
  then show ?case by (auto simp del: eval.simps intro: stand_for_prim)
next
  case (5 domain index ts args limits depth)
  then show ?case by (auto simp del: eval.simps intro: stand_for_projection)
next
  case (6 domain ts args limits depth)
  then show ?case by (auto simp del: eval.simps intro: stand_for_element)
next
  case (7 args limits depth)
  then show ?case by (simp add: stand_for_Nil)
next
  case (8 t ts args limits depth)
  then show ?case by (auto intro!: stand_for_Cons)
qed

section \<open>Normalization\<close>

lemma normalize_impl_sound:
  "normalize_impl \<Gamma> limits t steps depth = Inr (u, steps') \<Longrightarrow> reads S \<Gamma> L env \<Longrightarrow> has_type \<Gamma> L t \<tau> \<Longrightarrow>
     means S \<Gamma> L env u \<tau> (value_at S \<Gamma> env t)"
  "normalize_list \<Gamma> limits ts steps depth = Inr (us, steps') \<Longrightarrow> reads S \<Gamma> L env \<Longrightarrow>
     stand_for S \<Gamma> L env us L env ts"
proof (induction \<Gamma> limits t steps depth and \<Gamma> limits ts steps depth arbitrary: u steps' \<tau> and us steps'
    rule: normalize_impl_normalize_list.induct)
  case (1 \<Gamma> limits i steps depth)
  then show ?case by (auto intro: meansI)
next
  case (2 \<Gamma> limits type v steps depth)
  then show ?case by (auto intro: meansI)
next
  case (3 \<Gamma> limits callee ts steps depth)
  from "3.prems"(3) obtain d where d: "lookup \<Gamma> callee = Some d" "\<tau> = result d"
    and ts: "list_all2 (has_type \<Gamma> L) ts (parameters d)" by (auto elim: has_type_Call)
  then have n: "length (parameters d) = length ts" by (simp add: list_all2_lengthD)
  from "3.prems"(1) d n obtain us s1 v where us: "normalize_list \<Gamma> limits ts steps (Suc depth) = Inr (us, s1)"
    and v: "substitute (body d) us limits (Suc depth) = Inr v"
    and u: "normalize_impl \<Gamma> limits v (s1 + 1) (Suc depth) = Inr (u, steps')"
    and ok: "begin_normalize limits steps depth = Inr ()"
    by (auto split: if_splits)
  have args: "list_all2 (has_type \<Gamma> L) us (parameters d)" "map (value_at S \<Gamma> env) us = map (value_at S \<Gamma> env) ts"
    using "3.IH"(1) [OF ok d(1) _ us "3.prems"(2)] n ts by (auto simp: stand_for_def simp del: map_eq_conv)
  have \<Gamma>: "built \<Gamma>" using "3.prems"(2) by (simp add: reads_def)
  have "d \<in> set \<Gamma>" "def_id d = callee" using lookup_Some [OF d(1)] by auto
  then have "value_at S \<Gamma> env (Call callee ts) = value_at S \<Gamma> (map (value_at S \<Gamma> env) us) (body d)"
    using functions_of_body [OF \<Gamma>, of d S] args(2) by (auto simp del: map_eq_conv)
  moreover have body: "means S \<Gamma> L env v (result d) (value_at S \<Gamma> (map (value_at S \<Gamma> env) us) (body d))"
    using substitute_sound(1) [OF v args(1) built_typed(1) [OF \<Gamma> \<open>d \<in> set \<Gamma>\<close>]] .
  moreover have "means S \<Gamma> L env u (result d) (value_at S \<Gamma> env v)"
    using "3.IH"(2) [OF ok d(1) _ us _ v u "3.prems"(2)] n body by (auto simp: means_def)
  ultimately show ?case using d by (simp add: means_def)
next
  case (4 \<Gamma> limits op type ts steps depth)
  from "4.prems"(1) obtain us s1 where us: "normalize_list \<Gamma> limits ts steps (Suc depth) = Inr (us, s1)"
    and u: "normalize_primitive op type us limits (s1 + 1) = Inr (u, steps')"
    and ok: "begin_normalize limits steps depth = Inr ()"
    by auto
  have "means S \<Gamma> L env (Prim op type us) \<tau> (value_at S \<Gamma> env (Prim op type ts))"
    by (rule stand_for_prim [OF "4.prems"(3) "4.IH" [OF ok us "4.prems"(2)]])
  then show ?case
    using normalize_primitive_sound [OF "4.prems"(2) _ u] by (auto simp: means_def)
next
  case (5 \<Gamma> limits domain index ts steps depth)
  then show ?case by (auto simp del: eval.simps split: if_splits intro: stand_for_projection)
next
  case (6 \<Gamma> limits domain ts steps depth)
  then show ?case by (auto simp del: eval.simps split: if_splits intro: stand_for_element)
next
  case (7 \<Gamma> limits steps depth)
  then show ?case by (simp add: stand_for_Nil)
next
  case (8 \<Gamma> limits t ts steps depth)
  then show ?case by (auto intro!: stand_for_Cons)
qed

lemma normalize_sound:
  "normalize \<Gamma> t limits = Inr u \<Longrightarrow> reads S \<Gamma> L env \<Longrightarrow> has_type \<Gamma> L t \<tau> \<Longrightarrow>
     means S \<Gamma> L env u \<tau> (value_at S \<Gamma> env t)"
  by (auto simp: normalize_def dest: normalize_impl_sound(1))

end
