(* ===== verification/Linear_Facts.thy ===== *)
theory Linear_Facts
  imports Kernel_Linear Poly_Facts
begin

text \<open>
  Integer assignments, the expressions and constraints they satisfy, and the certificates: what
  \<open>refutes\<close> accepts has no integer solution.
\<close>

section \<open>Solutions\<close>

definition terms_value :: "(nat \<Rightarrow> int) \<Rightarrow> (nat \<times> wide) list \<Rightarrow> int" where
  "terms_value \<sigma> ts = omap_sum (\<lambda>i c. c * \<sigma> i) ts"

lemma terms_value_simps [simp]:
  "terms_value \<sigma> [] = 0"
  "terms_value \<sigma> ((i, c) # ts) = c * \<sigma> i + terms_value \<sigma> ts"
  "terms_value \<sigma> (ts @ us) = terms_value \<sigma> ts + terms_value \<sigma> us"
  by (simp_all add: terms_value_def)

definition constraint_value :: "(nat \<Rightarrow> int) \<Rightarrow> linear_constraint \<Rightarrow> int" where
  "constraint_value \<sigma> c = terms_value \<sigma> (lin_terms c) + lin_constant c"

definition satisfies :: "(nat \<Rightarrow> int) \<Rightarrow> linear_constraint \<Rightarrow> bool" where
  "satisfies \<sigma> c \<longleftrightarrow> constraint_value \<sigma> c \<le> 0"

definition solves :: "(nat \<Rightarrow> int) \<Rightarrow> arithmetic_system \<Rightarrow> bool" where
  "solves \<sigma> sys \<longleftrightarrow>
     (\<forall>c \<in> set (constraints sys). satisfies \<sigma> c) \<and>
     (\<forall>(c, d) \<in> set (disjunctions sys). satisfies \<sigma> c \<or> satisfies \<sigma> d)"

section \<open>Maps from variables\<close>

text \<open>Two variables are the same key exactly when they are equal.\<close>

lemma terms_value_put:
  "terms_value \<sigma> (omap_put (<) i c ts) =
     terms_value \<sigma> ts + c * \<sigma> i - (case omap_find (<) i ts of None \<Rightarrow> 0 | Some d \<Rightarrow> d * \<sigma> i)"
  unfolding terms_value_def by (subst omap_sum_put) (auto simp: not_less split: option.split)

lemma terms_value_erase:
  "terms_value \<sigma> (omap_erase (<) i ts) =
     terms_value \<sigma> ts - (case omap_find (<) i ts of None \<Rightarrow> 0 | Some d \<Rightarrow> d * \<sigma> i)"
  unfolding terms_value_def by (subst omap_sum_erase) (auto simp: not_less split: option.split)

lemma terms_value_emplace_zero: "terms_value \<sigma> (omap_emplace (<) i 0 ts) = terms_value \<sigma> ts"
  by (simp add: omap_emplace_def terms_value_put split: option.split)

lemma find_emplace_variable:
  "omap_find (<) i (omap_emplace (<) (i :: nat) c ts) = Some (case omap_find (<) i ts of Some d \<Rightarrow> d | None \<Rightarrow> c)"
  by (rule omap_find_emplace_same) simp

lemma find_absent: "i \<notin> fst ` set ts \<Longrightarrow> omap_find (<) (i :: nat) ts = None"
  using omap_find_Some [of "(<)" i ts] by (cases "omap_find (<) i ts") force+

section \<open>Certificates\<close>

lemma add_multiple_value:
  "add_multiple multiplier ts acc = Inr acc' \<Longrightarrow>
     terms_value \<sigma> acc' = terms_value \<sigma> acc + multiplier * terms_value \<sigma> ts"
proof (induction multiplier ts acc rule: add_multiple.induct)
  case (2 multiplier i c ts acc)
  let ?acc = "omap_emplace (<) i 0 acc"
  let ?entry = "case omap_find (<) i ?acc of Some v \<Rightarrow> v | None \<Rightarrow> 0"
  from "2.prems" have run: "add_multiple multiplier ts (omap_put (<) i (?entry + c * multiplier) ?acc) = Inr acc'"
    and wide: "wide_mul c multiplier = Some (c * multiplier)" "wide_add ?entry (c * multiplier) = Some (?entry + c * multiplier)"
    by (auto simp: Let_def wide_mul_def wide_add_def split: option.splits if_splits)
  have "terms_value \<sigma> (omap_put (<) i (?entry + c * multiplier) ?acc) = terms_value \<sigma> acc + c * multiplier * \<sigma> i"
    by (simp add: terms_value_put find_emplace_variable terms_value_emplace_zero algebra_simps)
  with "2.IH" [OF wide(1) refl refl wide(2) run] show ?case by (simp add: algebra_simps)
qed simp

lemma combine_value:
  "combine active ms previous coefs k = Inr (coefs', k') \<Longrightarrow>
     \<forall>c \<in> set active. satisfies \<sigma> c \<Longrightarrow>
     terms_value \<sigma> coefs' + k' \<le> terms_value \<sigma> coefs + k"
proof (induction active ms previous coefs k rule: combine.induct)
  case (2 active position multiplier ms previous coefs k)
  let ?c = "active ! position"
  from "2.prems"(1) obtain acc where acc: "add_multiple multiplier (lin_terms ?c) coefs = Inr acc"
    and ok: "\<not> (length active \<le> position \<or> multiplier \<le> 0 \<or> (case previous of Some p \<Rightarrow> position \<le> p | None \<Rightarrow> False))"
    and wide: "wide_mul (lin_constant ?c) multiplier = Some (lin_constant ?c * multiplier)"
      "wide_add k (lin_constant ?c * multiplier) = Some (k + lin_constant ?c * multiplier)"
    and run: "combine active ms (Some position) acc (k + lin_constant ?c * multiplier) = Inr (coefs', k')"
    by (auto simp: wide_mul_def wide_add_def split: option.splits if_splits)
  have "satisfies \<sigma> ?c" using ok "2.prems"(2) by simp
  then have "multiplier * constraint_value \<sigma> ?c \<le> 0"
    using ok by (simp add: satisfies_def mult_le_0_iff)
  then have "terms_value \<sigma> acc + (k + lin_constant ?c * multiplier) \<le> terms_value \<sigma> coefs + k"
    using add_multiple_value [OF acc, of \<sigma>] by (simp add: constraint_value_def algebra_simps)
  with "2.IH" [OF ok acc wide run "2.prems"(2)] show ?case by linarith
qed simp

lemma contradiction_sound:
  assumes "contradiction active multipliers = Inr ()"
  shows "\<exists>c \<in> set active. \<not> satisfies \<sigma> c"
proof (rule ccontr)
  assume "\<not> ?thesis"
  then have all: "\<forall>c \<in> set active. satisfies \<sigma> c" by blast
  from assms obtain coefs k where run: "combine active multipliers None [] 0 = Inr (coefs, k)"
    and zero: "find (\<lambda>(i, c). c \<noteq> 0) coefs = None" and positive: "0 < k"
    by (auto simp: contradiction_def split: if_splits option.splits prod.splits)
  have "terms_value \<sigma> ts = 0" if "\<forall>(i, c) \<in> set ts. c = 0" for ts
    using that by (induction ts) auto
  then have "terms_value \<sigma> coefs = 0" using zero by (auto simp: find_None_iff)
  with combine_value [OF run all] positive show False by simp
qed

lemma opposite_terms_value: "terms_value \<sigma> (opposite_terms ts) = - terms_value \<sigma> ts"
  by (induction ts) (auto simp: opposite_terms_def)

lemma check_certificate_sound:
  "check_certificate sys limits active c depth nodes = Inr nodes' \<Longrightarrow> solves \<sigma> sys \<Longrightarrow>
     \<exists>c \<in> set active. \<not> satisfies \<sigma> c"
proof (induction sys limits active c depth nodes arbitrary: nodes' rule: check_certificate.induct)
  case (1 sys limits active multipliers depth nodes)
  then show ?case by (auto intro: contradiction_sound)
next
  case (2 sys limits active terms k p q depth nodes)
  from "2.prems"(1) obtain n1 ts n2 where
    n1: "certificate_limits limits depth nodes = Inr n1"
    and ts: "split_form (length (variables sys)) terms None = Inr ts"
    and wide: "wide_add (- sint k) 1 = Some (- sint k + 1)"
    and p: "check_certificate sys limits (active @ [\<lparr>lin_terms = ts, lin_constant = sint k\<rparr>]) p (Suc depth) n1 = Inr n2"
    and q: "check_certificate sys limits
      (active @ [\<lparr>lin_terms = opposite_terms ts, lin_constant = - sint k + 1\<rparr>]) q (Suc depth) n2 = Inr nodes'"
    by (auto simp: wide_add_def split: option.splits if_splits)
  let ?below = "\<lparr>lin_terms = ts, lin_constant = sint k\<rparr>"
  let ?above = "\<lparr>lin_terms = opposite_terms ts, lin_constant = - sint k + 1\<rparr>"
  have "satisfies \<sigma> ?below \<or> satisfies \<sigma> ?above"
    by (auto simp: satisfies_def constraint_value_def opposite_terms_value)
  moreover have "\<exists>c \<in> set (active @ [?below]). \<not> satisfies \<sigma> c"
    by (rule "2.IH"(1) [OF n1 ts wide p "2.prems"(2)])
  moreover have "\<exists>c \<in> set (active @ [?above]). \<not> satisfies \<sigma> c"
    by (rule "2.IH"(2) [OF n1 ts wide p q "2.prems"(2)])
  ultimately show ?case by auto
next
  case (3 sys limits active disjunction p q depth nodes)
  from "3.prems"(1) obtain n1 n2 where
    n1: "certificate_limits limits depth nodes = Inr n1"
    and i: "\<not> length (disjunctions sys) \<le> disjunction"
    and p: "check_certificate sys limits (active @ [fst (disjunctions sys ! disjunction)]) p (Suc depth) n1 = Inr n2"
    and q: "check_certificate sys limits (active @ [snd (disjunctions sys ! disjunction)]) q (Suc depth) n2 = Inr nodes'"
    by (auto split: if_splits)
  have "disjunctions sys ! disjunction \<in> set (disjunctions sys)" using i by simp
  then have "satisfies \<sigma> (fst (disjunctions sys ! disjunction)) \<or> satisfies \<sigma> (snd (disjunctions sys ! disjunction))"
    using "3.prems"(2) by (auto simp: solves_def split: prod.splits)
  moreover have "\<exists>c \<in> set (active @ [fst (disjunctions sys ! disjunction)]). \<not> satisfies \<sigma> c"
    by (rule "3.IH"(1) [OF n1 i p "3.prems"(2)])
  moreover have "\<exists>c \<in> set (active @ [snd (disjunctions sys ! disjunction)]). \<not> satisfies \<sigma> c"
    by (rule "3.IH"(2) [OF n1 i p q "3.prems"(2)])
  ultimately show ?case by auto
qed

lemma refutes_sound: "refutes sys c limits = Inr () \<Longrightarrow> \<not> solves \<sigma> sys"
  using check_certificate_sound [of sys limits "constraints sys" c 0 0 _ \<sigma>]
  unfolding refutes_def bind_ok_eq_Inr by (force simp: solves_def)

section \<open>Expressions\<close>

definition expr_value :: "(nat \<Rightarrow> int) \<Rightarrow> expression \<Rightarrow> int" where
  "expr_value \<sigma> e = terms_value \<sigma> (expr_terms e) + expr_constant e"

definition terms_below :: "nat \<Rightarrow> (nat \<times> wide) list \<Rightarrow> bool" where
  "terms_below n ts \<longleftrightarrow> (\<forall>i \<in> fst ` set ts. i < n)"

abbreviation expr_below :: "nat \<Rightarrow> expression \<Rightarrow> bool" where
  "expr_below n e \<equiv> terms_below n (expr_terms e)"

lemma terms_below_simps [simp]:
  "terms_below n []"
  "terms_below n ((i, c) # ts) \<longleftrightarrow> i < n \<and> terms_below n ts"
  by (auto simp: terms_below_def)

lemma terms_below_mono: "terms_below m ts \<Longrightarrow> m \<le> n \<Longrightarrow> terms_below n ts"
  by (auto simp: terms_below_def)

lemma terms_below_subset:
  "fst ` set us \<subseteq> insert i (fst ` set ts) \<Longrightarrow> terms_below n ts \<Longrightarrow> i < n \<Longrightarrow> terms_below n us"
  unfolding terms_below_def by blast

lemma terms_below_omap:
  "terms_below n ts \<Longrightarrow> i < n \<Longrightarrow> terms_below n (omap_put (<) i c ts)"
  "terms_below n ts \<Longrightarrow> i < n \<Longrightarrow> terms_below n (omap_emplace (<) i c ts)"
  "terms_below n ts \<Longrightarrow> i < n \<Longrightarrow> terms_below n (omap_erase (<) i ts)"
  by (rule terms_below_subset [OF keys_omap_put] terms_below_subset [OF keys_omap_emplace]
      terms_below_subset [OF order_trans [OF keys_omap_erase subset_insertI]]; assumption)+

lemma terms_value_agree:
  "terms_below n ts \<Longrightarrow> (\<And>i. i < n \<Longrightarrow> \<tau> i = \<sigma> i) \<Longrightarrow> terms_value \<tau> ts = terms_value \<sigma> ts"
  by (induction ts) auto

lemma expr_value_agree:
  "expr_below n e \<Longrightarrow> (\<And>i. i < n \<Longrightarrow> \<tau> i = \<sigma> i) \<Longrightarrow> expr_value \<tau> e = expr_value \<sigma> e"
  using terms_value_agree [of n "expr_terms e" \<tau> \<sigma>] by (simp add: expr_value_def)

lemma expr_value_constructors [simp]:
  "expr_value \<sigma> empty_expression = 0"
  "expr_value \<sigma> (single_variable i) = \<sigma> i"
  "expr_value \<sigma> (constant_expression c) = c"
  "expr_below n empty_expression"
  "expr_below n (single_variable i) \<longleftrightarrow> i < n"
  "expr_below n (constant_expression c)"
  by (simp_all add: expr_value_def empty_expression_def single_variable_def constant_expression_def)

lemma expr_value_emplace:
  "i \<notin> fst ` set (expr_terms e) \<Longrightarrow> expr_value \<sigma> (emplace_term i c e) = expr_value \<sigma> e + c * \<sigma> i"
  using find_absent [of i "expr_terms e"]
  by (simp add: expr_value_def emplace_term_def omap_emplace_def terms_value_put)

lemma expr_below_emplace: "expr_below n e \<Longrightarrow> i < n \<Longrightarrow> expr_below n (emplace_term i c e)"
  by (simp add: emplace_term_def terms_below_omap)

lemma unchecked_neg_Inr [simp]: "unchecked_neg c = Inr n \<longleftrightarrow> in_wide n \<and> n = - c"
  by (auto simp: unchecked_neg_def wide_neg_def)

lemma or_overflow_Inr [simp]: "or_overflow e r = Inr c \<longleftrightarrow> r = Some c"
  by (cases r) (simp_all add: or_overflow_def)

lemma negated_terms_sound:
  "negated_terms ts = Inr us \<Longrightarrow> terms_value \<sigma> us = - terms_value \<sigma> ts \<and> map fst us = map fst ts"
  by (induction ts arbitrary: us) auto

lemma terms_below_map: "map fst us = map fst ts \<Longrightarrow> terms_below n us \<longleftrightarrow> terms_below n ts"
  by (metis terms_below_def list.set_map)

lemma negated_sound:
  assumes "negated e = Inr d"
  shows "expr_value \<sigma> d = - expr_value \<sigma> e" and "expr_below n e \<Longrightarrow> expr_below n d"
proof -
  obtain ts where "negated_terms (expr_terms e) = Inr ts" "d = \<lparr>expr_terms = ts, expr_constant = - expr_constant e\<rparr>"
    using assms by (auto simp: negated_def)
  with negated_terms_sound [of "expr_terms e" ts \<sigma>] terms_below_map [of ts "expr_terms e" n]
  show "expr_value \<sigma> d = - expr_value \<sigma> e" and "expr_below n e \<Longrightarrow> expr_below n d"
    by (simp_all add: expr_value_def)
qed

lemma subtract_terms_sound:
  "subtract_terms ts acc = Inr us \<Longrightarrow>
     terms_value \<sigma> us = terms_value \<sigma> acc - terms_value \<sigma> ts \<and>
     (terms_below n acc \<and> terms_below n ts \<longrightarrow> terms_below n us)"
proof (induction ts acc rule: subtract_terms.induct)
  case (2 i c ts acc)
  let ?acc = "omap_emplace (<) i 0 acc"
  define entry where "entry = (case omap_find (<) i ?acc of Some v \<Rightarrow> v | None \<Rightarrow> 0)"
  define next_acc where "next_acc = (if entry - c = 0 then omap_erase (<) i ?acc else omap_put (<) i (entry - c) ?acc)"
  have run: "subtract_terms ts next_acc = Inr us" and neg: "unchecked_neg c = Inr (- c)"
    and add: "or_overflow coefficient_overflow (wide_add entry (- c)) = Inr (entry - c)"
    using "2.prems" by (auto simp: Let_def entry_def next_acc_def)
  have "terms_value \<sigma> next_acc = terms_value \<sigma> acc - c * \<sigma> i"
    by (simp add: next_acc_def entry_def terms_value_put terms_value_erase find_emplace_variable
        terms_value_emplace_zero algebra_simps)
  moreover have "terms_below n acc \<Longrightarrow> i < n \<Longrightarrow> terms_below n next_acc"
    by (simp add: next_acc_def terms_below_omap)
  moreover have "terms_value \<sigma> us = terms_value \<sigma> next_acc - terms_value \<sigma> ts \<and>
      (terms_below n next_acc \<and> terms_below n ts \<longrightarrow> terms_below n us)"
    using "2.IH" [OF refl entry_def neg add] run by (simp add: next_acc_def)
  ultimately show ?case by auto
qed simp

lemma subtract_sound:
  assumes "subtract d e = Inr f"
  shows "expr_value \<sigma> f = expr_value \<sigma> d - expr_value \<sigma> e"
    and "expr_below n d \<Longrightarrow> expr_below n e \<Longrightarrow> expr_below n f"
proof -
  obtain ts where "subtract_terms (expr_terms e) (expr_terms d) = Inr ts"
    "f = \<lparr>expr_terms = ts, expr_constant = expr_constant d - expr_constant e\<rparr>"
    using assms by (auto simp: subtract_def)
  with subtract_terms_sound [of "expr_terms e" "expr_terms d" ts \<sigma> n]
  show "expr_value \<sigma> f = expr_value \<sigma> d - expr_value \<sigma> e"
    and "expr_below n d \<Longrightarrow> expr_below n e \<Longrightarrow> expr_below n f"
    by (simp_all add: expr_value_def)
qed

lemma scaled_terms_sound:
  "scaled_terms k ts = Inr us \<Longrightarrow> terms_value \<sigma> us = k * terms_value \<sigma> ts \<and>
     (terms_below n ts \<longrightarrow> terms_below n us)"
  by (induction k ts arbitrary: us rule: scaled_terms.induct) (auto simp: algebra_simps split: if_splits)

lemma scaled_sound:
  assumes "scaled e k = Inr d"
  shows "expr_value \<sigma> d = k * expr_value \<sigma> e" and "expr_below n e \<Longrightarrow> expr_below n d"
proof -
  obtain ts where "scaled_terms k (expr_terms e) = Inr ts" "d = \<lparr>expr_terms = ts, expr_constant = expr_constant e * k\<rparr>"
    using assms by (auto simp: scaled_def)
  with scaled_terms_sound [of k "expr_terms e" ts \<sigma> n]
  show "expr_value \<sigma> d = k * expr_value \<sigma> e" and "expr_below n e \<Longrightarrow> expr_below n d"
    by (simp_all add: expr_value_def algebra_simps)
qed

abbreviation constraint_below :: "nat \<Rightarrow> linear_constraint \<Rightarrow> bool" where
  "constraint_below n c \<equiv> terms_below n (lin_terms c)"

lemma terms_value_filter: "terms_value \<sigma> (filter (\<lambda>(i, c). c \<noteq> 0) ts) = terms_value \<sigma> ts"
  by (induction ts) auto

lemma finish_sound:
  assumes "finish e x = Inr c"
  shows "constraint_value \<sigma> c = expr_value \<sigma> e + x" and "expr_below n e \<Longrightarrow> constraint_below n c"
  using assms by (auto simp: finish_def constraint_value_def expr_value_def terms_value_filter terms_below_def)

lemma linear_sound:
  assumes "linear d e x = Inr c"
  shows "constraint_value \<sigma> c = expr_value \<sigma> d - expr_value \<sigma> e + x"
    and "expr_below n d \<Longrightarrow> expr_below n e \<Longrightarrow> constraint_below n c"
  using assms subtract_sound finish_sound by (auto simp: linear_def)

end
