(* ===== verification/Build_Facts.thy ===== *)
theory Build_Facts
  imports Norm_Facts Linear_Facts
begin

text \<open>
  What the builder of arithmetic systems relies on: the monomials of a polynomial are distinct
  and can be read back from their rendering, and its bounds are those of the machine types.
\<close>

section \<open>Monomials have distinct factors\<close>

lemma factor_less_cless: "factor_less = (\<lambda>x y. factor_compare x y = Ord_Less)"
  by (intro ext) (rule factor_less_compare)

lemma ordered_emplace:
  "factor_order.ordered m \<Longrightarrow> factor_order.ordered (omap_emplace factor_less k v m)"
  by (auto simp: omap_emplace_def factor_less_cless intro: factor_order.ordered_put split: option.split)

lemma accumulate_ordered:
  assumes "accumulate type limits w fs c = Inr w'" and "factor_order.ordered (work_terms w)"
  shows "factor_order.ordered (work_terms w')"
proof -
  have "factor_order.ordered (omap_put factor_less fs v (omap_emplace factor_less fs 0 (work_terms w)))"
    and "factor_order.ordered (omap_erase factor_less fs (omap_emplace factor_less fs 0 (work_terms w)))" for v
    using ordered_emplace [OF assms(2)]
    by (auto simp: factor_less_cless intro: factor_order.ordered_put factor_order.ordered_erase)
  then show ?thesis using assms by (auto simp: accumulate_def Let_def split: if_splits)
qed

lemma add_terms_ordered:
  "add_terms type limits scale added into = Inr w \<Longrightarrow> factor_order.ordered (work_terms into) \<Longrightarrow>
     factor_order.ordered (work_terms w)"
  by (induction type limits scale added into rule: add_terms.induct) (auto dest: accumulate_ordered)

lemma work_sum_ordered:
  "work_sum type limits into added scale = Inr w \<Longrightarrow> factor_order.ordered (work_terms into) \<Longrightarrow>
     factor_order.ordered (work_terms w)"
  by (auto simp: work_sum_def dest: add_terms_ordered)

lemma product_row_ordered:
  "product_row type limits lf lc right acc steps = Inr (w, s) \<Longrightarrow> factor_order.ordered (work_terms acc) \<Longrightarrow>
     factor_order.ordered (work_terms w)"
  by (induction type limits lf lc right acc steps rule: product_row.induct)
    (auto split: if_splits dest: accumulate_ordered)

lemma product_rows_ordered:
  "product_rows type limits left right acc steps = Inr (w, s) \<Longrightarrow> factor_order.ordered (work_terms acc) \<Longrightarrow>
     factor_order.ordered (work_terms w)"
proof (induction left arbitrary: acc steps)
  case (Cons t left)
  then show ?case by (cases t) (auto dest!: product_row_ordered)
qed simp

lemma ordered_single: "factor_order.ordered [(fs, c)]"
  by (simp add: factor_order.ordered_def)

lemma read_term_ordered:
  "read_term type limits t depth steps = Inr (w, steps') \<Longrightarrow> factor_order.ordered (work_terms w)"
proof (induction type limits t depth steps arbitrary: w steps' rule: read_term.induct)
  case (2 type limits op t a b depth steps)
  then show ?case
    by (auto simp: opaque_def ordered_single work_product_def factor_order.ordered_Nil split: if_splits
        dest!: work_sum_ordered product_rows_ordered)
qed (auto simp: opaque_def ordered_single factor_order.ordered_Nil split: if_splits)

lemma ordered_distinct: "factor_order.ordered m \<Longrightarrow> distinct (map fst m)"
proof (induction m)
  case (Cons e m)
  have "fst e \<notin> fst ` set m"
    using Cons.prems factor_order.less_irrefl by (fastforce simp: factor_order.ordered_def)
  with Cons show ?case by (simp add: factor_order.ordered_def)
qed simp

lemma read_polynomial_distinct:
  assumes "read_polynomial t type limits = Inr p"
  shows "distinct (map factors (monomials p))"
proof -
  obtain w s where "read_term type limits t 0 0 = Inr (w, s)" and p: "p = finish_work w"
    using assms by (auto simp: read_polynomial_def split: if_splits)
  then have "distinct (map fst (work_terms w))" by (intro ordered_distinct read_term_ordered)
  moreover have "map factors (monomials p) = map fst (work_terms w)"
    by (auto simp: p finish_work_def)
  ultimately show ?thesis by simp
qed

lemma read_polynomial_supported: "read_polynomial t type limits = Inr p \<Longrightarrow> is_supported_int type"
  by (auto simp: read_polynomial_def split: if_splits)

text \<open>Factors that are not ring arithmetic can be read back from their product.\<close>

definition no_product :: "int_type \<Rightarrow> kterm \<Rightarrow> bool" where
  "no_product type t \<longleftrightarrow> (\<forall>a b. t \<noteq> Prim MulWrap type [a, b])"

lemma render_factors_snoc:
  "fs \<noteq> [] \<Longrightarrow> render_factors type (fs @ [f]) = Prim MulWrap type [render_factors type fs, f]"
  by (simp add: render_factors_def)

lemma render_factors_single: "render_factors type [f] = f"
  by (simp add: render_factors_def)

lemma render_factors_inj:
  "fs \<noteq> [] \<Longrightarrow> gs \<noteq> [] \<Longrightarrow> \<forall>f \<in> set fs. no_product type f \<Longrightarrow> \<forall>g \<in> set gs. no_product type g \<Longrightarrow>
     render_factors type fs = render_factors type gs \<Longrightarrow> fs = gs"
proof (induction fs arbitrary: gs rule: rev_induct)
  case (snoc f fs)
  obtain g gs' where gs: "gs = gs' @ [g]" using snoc.prems(2) by (cases gs rule: rev_cases) auto
  show ?case
  proof (cases "fs = []")
    case True
    have "gs' = []"
    proof (rule ccontr)
      assume "gs' \<noteq> []"
      then have "f = Prim MulWrap type [render_factors type gs', g]"
        using snoc.prems(5) True gs by (simp add: render_factors_snoc render_factors_single)
      then show False using snoc.prems(3) by (simp add: no_product_def)
    qed
    then show ?thesis using True snoc.prems gs by (simp add: render_factors_single)
  next
    case False
    then have "gs' \<noteq> []"
      using snoc.prems gs by (auto simp: render_factors_snoc render_factors_single no_product_def)
    then have "render_factors type fs = render_factors type gs'" "f = g"
      using False snoc.prems(5) gs by (simp_all add: render_factors_snoc)
    then show ?thesis using snoc.IH [of gs'] False \<open>gs' \<noteq> []\<close> snoc.prems gs by simp
  qed
qed simp

section \<open>Machine bounds\<close>

lemma modulus_pos: "0 < modulus type"
  by (simp add: modulus_def)

lemma lowest_of_minimum: "is_supported_int type \<Longrightarrow> lowest_of type = minimum_value type"
  by (simp add: lowest_of_def modulus_def minimum_value_eq half_modulus [OF supported_width(1)])

lemma highest_of_maximum: "is_supported_int type \<Longrightarrow> highest_of type = maximum_value type"
  by (simp add: highest_of_def modulus_def maximum_value_eq half_modulus [OF supported_width(1)])

lemma representable_iff_bounds:
  "is_supported_int type \<Longrightarrow> is_representable type v \<longleftrightarrow> lowest_of type \<le> v \<and> v \<le> highest_of type"
  by (simp add: is_representable_def lowest_of_minimum highest_of_maximum)

lemma linear_mask_eq: "linear_mask type = residue_mask type"
  by (simp add: linear_mask_def residue_mask_def)

lemma centered_residue: "is_supported_int type \<Longrightarrow> same_residue type (centered type c) (uint c)"
  by (simp add: same_residue_def centered_def Let_def modulus_def linear_mask_eq uint_masked)

end
