(* ===== verification/System_Facts.thy ===== *)
theory System_Facts
  imports Build_Facts
begin

text \<open>
  The builder of arithmetic systems. Whatever the terms it reads are worth, there is an
  assignment of its variables that satisfies every constraint it states: the facts are
  accounted for exactly and nothing false is added. What the builder asks of terms is a locale
  over the one the polynomials ask; the kernel's terms interpret it.
\<close>

section \<open>Maps that are only added to\<close>

lemma set_put_absent: "omap_find lt k m = None \<Longrightarrow> set (omap_put lt k v m) = insert (k, v) (set m)"
  by (induction lt k v m rule: omap_put.induct) (auto split: if_splits)

lemma set_emplace: "set (omap_emplace lt k v m) \<subseteq> insert (k, v) (set m)"
  by (auto simp: omap_emplace_def set_put_absent split: option.splits)

section \<open>Ranges of sums and products\<close>

text \<open>The bounds of its variables bound a sum.\<close>

lemma extremes_sound:
  "extremes bounds ts least greatest = Some (low, high) \<Longrightarrow>
     (\<And>i l h. i \<in> fst ` set ts \<Longrightarrow> bounds i = Some (l, h) \<Longrightarrow> l \<le> \<sigma> i \<and> \<sigma> i \<le> h) \<Longrightarrow> least \<le> k \<Longrightarrow> k \<le> greatest \<Longrightarrow>
     low \<le> terms_value \<sigma> ts + k \<and> terms_value \<sigma> ts + k \<le> high"
proof (induction ts arbitrary: least greatest k)
  case (Cons t ts)
  obtain i c where t: "t = (i, c)" by (cases t)
  obtain l h where b: "bounds i = Some (l, h)" using Cons.prems(1) t by (cases "bounds i") auto
  let ?first = "c * (if 0 \<le> c then l else h)" and ?second = "c * (if 0 \<le> c then h else l)"
  have rest: "extremes bounds ts (least + ?first) (greatest + ?second) = Some (low, high)"
    using Cons.prems(1) b t by (auto split: option.splits if_splits)
  have "l \<le> \<sigma> i \<and> \<sigma> i \<le> h" using Cons.prems(2) [of i] b t by simp
  then have "?first \<le> c * \<sigma> i" "c * \<sigma> i \<le> ?second"
    by (auto intro: mult_left_mono mult_left_mono_neg)
  then have "least + ?first \<le> c * \<sigma> i + k" "c * \<sigma> i + k \<le> greatest + ?second"
    using Cons.prems(3,4) by simp_all
  with Cons.IH [OF rest, of "c * \<sigma> i + k"] Cons.prems(2) show ?case by (simp add: t ac_simps)
qed simp

text \<open>A product lies between the products of the bounds of its factors.\<close>

lemma product_between:
  fixes x y :: int
  assumes "l \<le> x" and "x \<le> h" and "k \<le> y" and "y \<le> m"
    and "lo \<le> l * k" "lo \<le> l * m" "lo \<le> h * k" "lo \<le> h * m"
  shows "lo \<le> x * y"
proof (cases "0 \<le> y")
  case True
  then have "l * y \<le> x * y" using assms(1) by (simp add: mult_right_mono)
  moreover have "l * k \<le> l * y \<or> l * m \<le> l * y"
    using assms(3,4) by (cases "0 \<le> l") (auto intro: mult_left_mono mult_left_mono_neg)
  ultimately show ?thesis using assms(5,6) by auto
next
  case False
  then have "h * y \<le> x * y" using assms(2) by (simp add: mult_right_mono_neg)
  moreover have "h * k \<le> h * y \<or> h * m \<le> h * y"
    using assms(3,4) by (cases "0 \<le> h") (auto intro: mult_left_mono mult_left_mono_neg)
  ultimately show ?thesis using assms(7,8) by auto
qed

lemma product_fits_sound:
  assumes "product_fits type (l, h) (k, m)" and "is_supported_int type"
    and "l \<le> x \<and> x \<le> h" and "k \<le> y \<and> y \<le> m"
  shows "is_representable type (x * y)"
proof -
  have fits: "lowest_of type \<le> a * b \<and> a * b \<le> highest_of type"
    if "a = l \<or> a = h" "b = k \<or> b = m" for a b
    using assms(1) that by (auto simp: product_fits_def split: option.splits)
  have "lowest_of type \<le> x * y"
    using assms(3,4) fits by (intro product_between [of l x h k y m]) auto
  moreover have "- highest_of type \<le> (- x) * y"
    using assms(3,4) fits by (intro product_between [of "- h" "- x" "- l" k y m]) auto
  ultimately show ?thesis using assms(2) by (simp add: representable_iff_bounds)
qed

section \<open>Truncating division\<close>

text \<open>Quotient and remainder by truncation, as the constraints of a division describe them.\<close>

lemma smod_bounds:
  fixes a d :: int
  shows "d \<noteq> 0 \<Longrightarrow> \<bar>a smod d\<bar> < \<bar>d\<bar>" and "0 \<le> a \<Longrightarrow> 0 \<le> a smod d" and "a \<le> 0 \<Longrightarrow> a smod d \<le> 0"
    and "0 \<le> a \<Longrightarrow> 0 \<le> d \<Longrightarrow> a smod d \<le> a"
proof -
  have m: "a smod d = sgn a * (\<bar>a\<bar> mod \<bar>d\<bar>)" by (simp add: signed_modulo_int_def)
  have n: "0 \<le> \<bar>a\<bar> mod \<bar>d\<bar>" if "d \<noteq> 0" using that by simp
  show "\<bar>a smod d\<bar> < \<bar>d\<bar>" if "d \<noteq> 0"
    using that unfolding m by (simp add: abs_mult sgn_if)
  show "0 \<le> a smod d" if "0 \<le> a" using that n unfolding m by (cases "d = 0") (auto simp: sgn_if)
  show "a smod d \<le> 0" if "a \<le> 0" using that n unfolding m by (cases "d = 0") (auto simp: sgn_if)
  show "a smod d \<le> a" if "0 \<le> a" "0 \<le> d"
    using that zmod_le_nonneg_dividend [of a d] unfolding m by (cases "a = 0") (simp_all add: sgn_if)
qed

text \<open>Rounding down, and what evaluates it where the long division is exact.\<close>

lemma floor_divide_exact:
  assumes "in_wide a" and "in_wide b" and "b \<noteq> 0" and "a \<noteq> - (2 ^ 127)"
  shows "floor_divide a b = a div b"
proof -
  have q: "divide a b = a sdiv b" "remainder a b = a smod b"
    using assms by (simp_all add: divide_exact remainder_eq in_wide_def abs_less_iff)
  have a: "a = b * (a sdiv b) + a smod b" using mult_sdiv_smod_eq [of b a] by (simp add: mult.commute)
  note r = smod_bounds(1) [OF assms(3), of a] smod_bounds(2,3) [of a b]
  show ?thesis
  proof (cases "a smod b \<noteq> 0 \<and> (a < 0) \<noteq> (b < 0)")
    case True
    moreover have "a div b = a sdiv b - 1"
    proof (cases "0 < b")
      case True
      then show ?thesis using \<open>_ \<and> _\<close> a r
        by (intro int_div_pos_eq [of _ _ _ "a smod b + b"]) (auto simp: algebra_simps)
    next
      case False
      then show ?thesis using \<open>_ \<and> _\<close> a r
        by (intro int_div_neg_eq [of _ _ _ "a smod b + b"]) (auto simp: algebra_simps)
    qed
    ultimately show ?thesis by (simp add: floor_divide_def q)
  next
    case False
    moreover have "a div b = a sdiv b"
    proof (cases "0 < b")
      case True
      then show ?thesis using False a r by (intro int_div_pos_eq [of _ _ _ "a smod b"]) auto
    next
      case neg: False
      then show ?thesis using False a r by (intro int_div_neg_eq [of _ _ _ "a smod b"]) auto
    qed
    ultimately show ?thesis by (auto simp: floor_divide_def Let_def q)
  qed
qed

lemma floor_divide_code [code]:
  "floor_divide a b =
     (if in_wide a \<and> in_wide b \<and> b \<noteq> 0 \<and> a \<noteq> - (2 ^ 127) then a div b
      else let q = divide a b in if remainder a b \<noteq> 0 \<and> (a < 0) \<noteq> (b < 0) then q - 1 else q)"
  using floor_divide_exact [of a b] by (simp add: floor_divide_def)

lemma sdiv_by_large:
  assumes a: "is_representable type a" and d: "is_representable type d" and large: "\<not> (- 1 \<le> d \<and> d \<le> 1)"
  shows "wrap_into type (a sdiv d) = a sdiv d"
proof (rule wrap_into_self)
  have "\<bar>a sdiv d\<bar> = \<bar>a\<bar> div \<bar>d\<bar>"
    using large by (auto simp: signed_divide_int_def abs_mult sgn_if pos_imp_zdiv_nonneg_iff)
  moreover have "\<bar>a\<bar> div \<bar>d\<bar> \<le> \<bar>a\<bar> div 2" using large by (intro zdiv_mono2) auto
  ultimately have half: "\<bar>a sdiv d\<bar> \<le> \<bar>a\<bar> div 2" by simp
  show "is_representable type (a sdiv d)"
  proof (cases "signedness type = Signed")
    case True
    define M :: int where "M = 2 ^ (width type - 1)"
    have rep: "is_representable type x \<longleftrightarrow> - M \<le> x \<and> x \<le> M - 1" for x
      using a True by (auto simp: is_representable_def minimum_value_eq maximum_value_eq M_def)
    have "0 < M" by (simp add: M_def)
    moreover have "\<bar>a\<bar> \<le> M" using rep [of a] a by linarith
    ultimately have "\<bar>a\<bar> div 2 \<le> M - 1" by presburger
    then show ?thesis using half unfolding rep by linarith
  next
    case False
    then have "0 \<le> a" "0 \<le> d" using a d by (auto simp: is_representable_def minimum_value_eq)
    moreover from this have "0 \<le> a sdiv d"
      using large by (simp add: signed_divide_int_def sgn_if pos_imp_zdiv_nonneg_iff)
    ultimately show ?thesis using a half False by (auto simp: is_representable_def minimum_value_eq)
  qed
qed

section \<open>The interface\<close>

locale arithmetic_reading = ring_reading admitted typed val
  for admitted :: bool and typed :: "kterm \<Rightarrow> int_type \<Rightarrow> bool" and val :: "kterm \<Rightarrow> int" +
  fixes \<Gamma> :: kcontext and L :: "ktype list"
  assumes normal_form: "normalize \<Gamma> t limits = Inr u \<Longrightarrow> typed t type \<Longrightarrow> typed u type \<and> val u = val t"
    and type_read: "type_of \<Gamma> L t limits = Inr (Int_Type type) \<Longrightarrow> admitted \<Longrightarrow> typed t type"
    and val_prim: "val (Prim op type ts) = prim_value op type (map val ts)"
    and typed_binary: "op \<noteq> Convert \<Longrightarrow> op \<noteq> NotOp \<Longrightarrow> op \<noteq> Select \<Longrightarrow>
      typed (Prim op type' [a, b]) type \<longleftrightarrow>
        result_type op type' = Int_Type type \<and> typed a type' \<and> typed b type'"
    and typed_convert: "typed (Prim Convert type' [a]) type \<Longrightarrow> type' = type"
    and typed_not: "typed (Prim NotOp type' [a]) type \<Longrightarrow> type = kBoolean \<and> typed a kBoolean"
begin

section \<open>Invariant of the builder\<close>

text \<open>
  An assignment is good for a builder when it solves the system so far and gives every variable
  read for a term that term's value; what the builder remembers is true of it.
\<close>

definition value_variable :: "int_type \<Rightarrow> kterm \<Rightarrow> arithmetic_variable" where
  "value_variable type t = \<lparr>role = ValueRole, var_type = type, var_term = t, var_lowest = 0, var_highest = 0\<rparr>"

definition system_below :: "nat \<Rightarrow> arithmetic_system \<Rightarrow> bool" where
  "system_below n sys \<longleftrightarrow>
     (\<forall>c \<in> set (constraints sys). constraint_below n c) \<and>
     (\<forall>(c, d) \<in> set (disjunctions sys). constraint_below n c \<and> constraint_below n d)"

definition variables_ok :: "(nat \<Rightarrow> int) \<Rightarrow> arithmetic_variable list \<Rightarrow> bool" where
  "variables_ok \<sigma> vs \<longleftrightarrow>
     (\<forall>i < length vs. role (vs ! i) = ValueRole \<longrightarrow>
        typed (var_term (vs ! i)) (var_type (vs ! i)) \<and> \<sigma> i = val (var_term (vs ! i)))"

definition index_ok :: "arithmetic_variable list \<Rightarrow> (typed_term, nat) omap \<Rightarrow> bool" where
  "index_ok vs m \<longleftrightarrow>
     (\<forall>(k, i) \<in> set m. i < length vs \<and> vs ! i = value_variable (tt_type k) (tt_term k))"

definition cache_ok :: "(nat \<Rightarrow> int) \<Rightarrow> nat \<Rightarrow> (typed_term, expression) omap \<Rightarrow> bool" where
  "cache_ok \<sigma> n m \<longleftrightarrow>
     (\<forall>(k, e) \<in> set m. typed (tt_term k) (tt_type k) \<and> expr_below n e \<and> expr_value \<sigma> e = val (tt_term k))"

definition ranges_ok :: "(nat \<Rightarrow> int) \<Rightarrow> nat \<Rightarrow> (nat, wide \<times> wide) omap \<Rightarrow> bool" where
  "ranges_ok \<sigma> n m \<longleftrightarrow> (\<forall>(i, r) \<in> set m. i < n \<and> fst r \<le> \<sigma> i \<and> \<sigma> i \<le> snd r)"

abbreviation vars :: "builder \<Rightarrow> arithmetic_variable list" where
  "vars s \<equiv> variables (system s)"

definition good :: "(nat \<Rightarrow> int) \<Rightarrow> builder \<Rightarrow> bool" where
  "good \<sigma> s \<longleftrightarrow>
     solves \<sigma> (system s) \<and> system_below (length (vars s)) (system s) \<and> variables_ok \<sigma> (vars s) \<and>
     index_ok (vars s) (variable_of s) \<and> cache_ok \<sigma> (length (vars s)) (values_of s) \<and>
     ranges_ok \<sigma> (length (vars s)) (ranges s)"

text \<open>A later state keeps the variables of an earlier one, and their values.\<close>

definition grows :: "(nat \<Rightarrow> int) \<Rightarrow> builder \<Rightarrow> (nat \<Rightarrow> int) \<Rightarrow> builder \<Rightarrow> bool" where
  "grows \<sigma> s \<tau> s' \<longleftrightarrow>
     length (vars s) \<le> length (vars s') \<and>
     (\<forall>i < length (vars s). \<tau> i = \<sigma> i \<and> vars s' ! i = vars s ! i)"

lemma grows_refl [simp]: "grows \<sigma> s \<sigma> s"
  by (simp add: grows_def)

lemma grows_trans [trans]: "grows \<sigma> s \<tau> s' \<Longrightarrow> grows \<tau> s' \<upsilon> s'' \<Longrightarrow> grows \<sigma> s \<upsilon> s''"
  by (auto simp: grows_def)

lemma grows_expression:
  "grows \<sigma> s \<tau> s' \<Longrightarrow> expr_below (length (vars s)) e \<Longrightarrow>
     expr_below (length (vars s')) e \<and> expr_value \<tau> e = expr_value \<sigma> e"
  using expr_value_agree [of "length (vars s)" e \<tau> \<sigma>] by (auto simp: grows_def intro: terms_below_mono)

lemma grows_variable:
  "grows \<sigma> s \<tau> s' \<Longrightarrow> i < length (vars s) \<Longrightarrow> i < length (vars s') \<and> vars s' ! i = vars s ! i \<and> \<tau> i = \<sigma> i"
  by (auto simp: grows_def)

lemma good_variable:
  "good \<sigma> s \<Longrightarrow> i < length (vars s) \<Longrightarrow> vars s ! i = value_variable type t \<Longrightarrow> typed t type \<and> \<sigma> i = val t"
  by (auto simp: good_def variables_ok_def value_variable_def)

lemma good_solves: "good \<sigma> s \<Longrightarrow> solves \<sigma> (system s)"
  by (simp add: good_def)

lemma good_empty: "good \<sigma> empty_builder"
  by (simp add: good_def empty_builder_def solves_def system_below_def variables_ok_def index_ok_def
      cache_ok_def ranges_ok_def)

text \<open>What constraints add. The variables stay as they are.\<close>

definition states :: "(nat \<Rightarrow> int) \<Rightarrow> builder \<Rightarrow> builder \<Rightarrow> bool" where
  "states \<sigma> s s' \<longleftrightarrow> good \<sigma> s' \<and> vars s' = vars s"

lemma states_trans [trans]: "states \<sigma> s s' \<Longrightarrow> states \<sigma> s' s'' \<Longrightarrow> states \<sigma> s s''"
  by (simp add: states_def)

lemma states_good: "states \<sigma> s s' \<Longrightarrow> good \<sigma> s'"
  by (simp add: states_def)

lemma states_vars: "states \<sigma> s s' \<Longrightarrow> vars s' = vars s"
  by (simp add: states_def)

lemma states_grows: "states \<sigma> s s' \<Longrightarrow> grows \<sigma> s \<sigma> s'"
  by (simp add: states_def grows_def)

lemma states_push_constraint:
  "good \<sigma> s \<Longrightarrow> constraint_below (length (vars s)) c \<Longrightarrow> satisfies \<sigma> c \<Longrightarrow> states \<sigma> s (push_constraint c s)"
  by (auto simp: states_def good_def push_constraint_def solves_def system_below_def)

lemma states_push_disjunction:
  "good \<sigma> s \<Longrightarrow> constraint_below (length (vars s)) c \<Longrightarrow> constraint_below (length (vars s)) d \<Longrightarrow>
     satisfies \<sigma> c \<or> satisfies \<sigma> d \<Longrightarrow> states \<sigma> s (push_disjunction c d s)"
  by (auto simp: states_def good_def push_disjunction_def solves_def system_below_def)

lemma satisfies_finish: "finish e x = Inr c \<Longrightarrow> satisfies \<sigma> c \<longleftrightarrow> expr_value \<sigma> e + x \<le> 0"
  by (simp add: satisfies_def finish_sound)

lemma satisfies_linear:
  "linear d e x = Inr c \<Longrightarrow> satisfies \<sigma> c \<longleftrightarrow> expr_value \<sigma> d - expr_value \<sigma> e + x \<le> 0"
  by (simp add: satisfies_def linear_sound)

abbreviation known :: "builder \<Rightarrow> expression \<Rightarrow> bool" where
  "known s e \<equiv> expr_below (length (vars s)) e"

lemma constrain_states:
  "constrain e x s = Inr s' \<Longrightarrow> good \<sigma> s \<Longrightarrow> known s e \<Longrightarrow> expr_value \<sigma> e + x \<le> 0 \<Longrightarrow> states \<sigma> s s'"
  by (auto simp: constrain_def satisfies_finish finish_sound intro: states_push_constraint)

lemma before_states:
  "before d e x s = Inr s' \<Longrightarrow> good \<sigma> s \<Longrightarrow> known s d \<Longrightarrow> known s e \<Longrightarrow>
     expr_value \<sigma> d + x \<le> expr_value \<sigma> e \<Longrightarrow> states \<sigma> s s'"
  by (auto simp: before_def subtract_sound intro!: constrain_states)

lemma equal_states:
  assumes "equal d e s = Inr s'" and "good \<sigma> s" and "known s d" and "known s e"
    and "expr_value \<sigma> d = expr_value \<sigma> e"
  shows "states \<sigma> s s'"
proof -
  obtain s1 where s1: "before d e 0 s = Inr s1" "before e d 0 s1 = Inr s'"
    using assms(1) by (auto simp: equal_def)
  have "states \<sigma> s s1" using assms by (intro before_states [OF s1(1)]) simp_all
  moreover from this have "states \<sigma> s1 s'"
    using s1 assms by (intro before_states [OF s1(2)]) (simp_all add: states_def)
  ultimately show ?thesis by (rule states_trans)
qed

lemma differ_states:
  "differ d e s = Inr s' \<Longrightarrow> good \<sigma> s \<Longrightarrow> known s d \<Longrightarrow> known s e \<Longrightarrow>
     expr_value \<sigma> d \<noteq> expr_value \<sigma> e \<Longrightarrow> states \<sigma> s s'"
  by (auto simp: differ_def satisfies_linear linear_sound intro!: states_push_disjunction)

lemma bound_states:
  assumes "bound e type s = Inr s'" and "good \<sigma> s" and "known s e"
    and "lowest_of type \<le> expr_value \<sigma> e" and "expr_value \<sigma> e \<le> highest_of type"
  shows "states \<sigma> s s'"
proof -
  obtain d s1 where s1: "negated e = Inr d" "constrain d (lowest_of type) s = Inr s1"
    "constrain e (- highest_of type) s1 = Inr s'"
    using assms(1) by (auto simp: bound_def)
  have "states \<sigma> s s1"
    using s1 assms by (intro constrain_states [OF s1(2)]) (simp_all add: negated_sound)
  moreover from this have "states \<sigma> s1 s'"
    using assms by (intro constrain_states [OF s1(3)]) (simp_all add: states_def)
  ultimately show ?thesis by (rule states_trans)
qed

lemma outside_states:
  "outside e type s = Inr s' \<Longrightarrow> good \<sigma> s \<Longrightarrow> known s e \<Longrightarrow>
     expr_value \<sigma> e < lowest_of type \<or> highest_of type < expr_value \<sigma> e \<Longrightarrow> states \<sigma> s s'"
  by (auto simp: outside_def satisfies_finish finish_sound negated_sound intro!: states_push_disjunction)

lemma either_states:
  "either d x e y s = Inr s' \<Longrightarrow> good \<sigma> s \<Longrightarrow> known s d \<Longrightarrow> known s e \<Longrightarrow>
     expr_value \<sigma> d + x \<le> 0 \<or> expr_value \<sigma> e + y \<le> 0 \<Longrightarrow> states \<sigma> s s'"
  by (auto simp: either_def satisfies_finish finish_sound intro!: states_push_disjunction)

lemma falsehood_impossible: "falsehood s = Inr s' \<Longrightarrow> \<not> good \<sigma> s'"
  by (auto simp: falsehood_def constrain_def good_def solves_def push_constraint_def satisfies_finish)

section \<open>Reading\<close>

text \<open>What each reader promises, of the operations it is given and of the whole.\<close>

definition value_spec :: "value_reader \<Rightarrow> bool" where
  "value_spec read \<longleftrightarrow>
     (\<forall>t type s e s' \<sigma>. read t type s = Inr (e, s') \<longrightarrow> typed t type \<longrightarrow> good \<sigma> s \<longrightarrow>
        (\<exists>\<tau>. good \<tau> s' \<and> grows \<sigma> s \<tau> s' \<and> known s' e \<and> expr_value \<tau> e = val t))"

definition variable_spec :: "variable_reader \<Rightarrow> bool" where
  "variable_spec read \<longleftrightarrow>
     (\<forall>type fs s i s' \<sigma>. read type fs s = Inr (i, s') \<longrightarrow> fs \<noteq> [] \<longrightarrow> factors_ok type fs \<longrightarrow> good \<sigma> s \<longrightarrow>
        (\<exists>\<tau>. good \<tau> s' \<and> grows \<sigma> s \<tau> s' \<and> i < length (vars s') \<and>
           vars s' ! i = value_variable type (render_factors type fs)))"

definition conversion_spec :: "conversion_definer \<Rightarrow> bool" where
  "conversion_spec define_it \<longleftrightarrow>
     (\<forall>i type a s s' \<sigma>. define_it i type a s = Inr s' \<longrightarrow> i < length (vars s) \<longrightarrow>
        vars s ! i = value_variable type (Prim Convert type [a]) \<longrightarrow> good \<sigma> s \<longrightarrow>
        (\<exists>\<tau>. good \<tau> s' \<and> grows \<sigma> s \<tau> s'))"

definition division_spec :: "division_definer \<Rightarrow> bool" where
  "division_spec define_it \<longleftrightarrow>
     (\<forall>type a b s s' \<sigma>. define_it type a b s = Inr s' \<longrightarrow> typed a type \<longrightarrow> typed b type \<longrightarrow> good \<sigma> s \<longrightarrow>
        (\<exists>\<tau>. good \<tau> s' \<and> grows \<sigma> s \<tau> s'))"

lemma value_specE:
  assumes "value_spec read" and "read t type s = Inr (e, s')" and "typed t type" and "good \<sigma> s"
  obtains \<tau> where "good \<tau> s'" and "grows \<sigma> s \<tau> s'" and "known s' e" and "expr_value \<tau> e = val t"
  using assms unfolding value_spec_def by blast

lemma variable_specE:
  assumes "variable_spec read" and "read type fs s = Inr (i, s')" and "fs \<noteq> []" and "factors_ok type fs"
    and "good \<sigma> s"
  obtains \<tau> where "good \<tau> s'" and "grows \<sigma> s \<tau> s'" and "i < length (vars s')"
    and "vars s' ! i = value_variable type (render_factors type fs)"
  using assms unfolding variable_spec_def by blast

text \<open>A new variable may be given any value, a value variable that of its term.\<close>

lemma push_variable_good:
  assumes "push_variable v s = Inr (i, s')" and "good \<sigma> s"
    and "role v = ValueRole \<Longrightarrow> typed (var_term v) (var_type v) \<and> x = val (var_term v)"
  shows "i = length (vars s)" and "vars s' = vars s @ [v]" and "good (\<sigma>(i := x)) s'"
    and "grows \<sigma> s (\<sigma>(i := x)) s'" and "variable_of s' = variable_of s" and "ranges s' = ranges s"
proof -
  let ?n = "length (vars s)" and ?\<tau> = "\<sigma>(length (vars s) := x)"
  from assms(1) have i: "i = ?n" and s': "s' = s\<lparr>system := (system s)\<lparr>variables := vars s @ [v]\<rparr>\<rparr>"
    by (auto simp: push_variable_def Let_def split: if_splits)
  then show "i = ?n" and vs: "vars s' = vars s @ [v]" and "variable_of s' = variable_of s"
    and "ranges s' = ranges s" by simp_all
  have old: "satisfies ?\<tau> c \<longleftrightarrow> satisfies \<sigma> c" if "constraint_below ?n c" for c
    using terms_value_agree [OF that, of ?\<tau> \<sigma>] by (simp add: satisfies_def constraint_value_def)
  have g: "solves \<sigma> (system s)" "system_below ?n (system s)" "variables_ok \<sigma> (vars s)"
    "index_ok (vars s) (variable_of s)" "cache_ok \<sigma> ?n (values_of s)" "ranges_ok \<sigma> ?n (ranges s)"
    using assms(2) by (simp_all add: good_def)
  have "solves ?\<tau> (system s')"
    using g(1,2) old by (fastforce simp: s' solves_def system_below_def)
  moreover have "system_below (Suc ?n) (system s')"
    using g(2) by (auto simp: s' system_below_def intro: terms_below_mono)
  moreover have "variables_ok ?\<tau> (vars s')"
    using g(3) assms(3) by (auto simp: vs variables_ok_def nth_append less_Suc_eq)
  moreover have "index_ok (vars s') (variable_of s')"
    using g(4) by (auto simp: s' index_ok_def nth_append)
  moreover have "cache_ok ?\<tau> (Suc ?n) (values_of s')"
    using g(5) expr_value_agree [of ?n _ ?\<tau> \<sigma>]
    by (fastforce simp: s' cache_ok_def intro: terms_below_mono)
  moreover have "ranges_ok ?\<tau> (Suc ?n) (ranges s')"
    using g(6) by (fastforce simp: s' ranges_ok_def)
  ultimately show "good (\<sigma>(i := x)) s'" by (simp add: good_def i vs)
  show "grows \<sigma> s (\<sigma>(i := x)) s'" by (simp add: grows_def vs i nth_append)
qed

lemma register_variable_good:
  assumes "register_variable type t s = Inr (i, s')" and "good \<sigma> s" and "typed t type"
  shows "\<exists>\<tau>. good \<tau> s' \<and> grows \<sigma> s \<tau> s' \<and> i < length (vars s') \<and> vars s' ! i = value_variable type t"
proof -
  obtain s1 where push: "push_variable (value_variable type t) s = Inr (i, s1)"
    and bound: "bound (single_variable i) type
      (s1\<lparr>variable_of := omap_emplace typed_term_less (TypedTerm type t) i (variable_of s1)\<rparr>) = Inr s'"
    using assms(1) by (auto simp: register_variable_def value_variable_def)
  let ?\<tau> = "\<sigma>(i := val t)" and ?m = "omap_emplace typed_term_less (TypedTerm type t) i (variable_of s1)"
  let ?s = "s1\<lparr>variable_of := ?m\<rparr>"
  note p = push_variable_good [OF push assms(2), of "val t"]
  have s1: "good ?\<tau> s1" "vars s1 = vars s @ [value_variable type t]" "i = length (vars s)"
    "grows \<sigma> s ?\<tau> s1"
    using p assms(3) by (simp_all add: value_variable_def)
  have "index_ok (vars s1) ?m"
    using s1 set_emplace [of typed_term_less "TypedTerm type t" i "variable_of s1"]
    by (fastforce simp: good_def index_ok_def)
  then have good: "good ?\<tau> ?s" using s1(1) by (simp add: good_def)
  have "is_representable type (val t)" by (rule typed_representable [OF assms(3)])
  then have "lowest_of type \<le> val t" "val t \<le> highest_of type"
    using typed_supported [OF assms(3)] by (simp_all add: representable_iff_bounds)
  then have "states ?\<tau> ?s s'" using good s1 by (intro bound_states [OF bound]) simp_all
  then show ?thesis
    using s1 by (intro exI [of _ ?\<tau>]) (simp add: states_def grows_def nth_append)
qed

text \<open>A term the builder has read is found again, and under no other index.\<close>

lemma find_variable:
  assumes "omap_find typed_term_less (TypedTerm type t) (variable_of s) = Some i"
    and "good \<sigma> s" and "supported_domains t"
  shows "i < length (vars s) \<and> vars s ! i = value_variable type t"
proof -
  obtain k where k: "(k, i) \<in> set (variable_of s)" "\<not> typed_term_less (TypedTerm type t) k"
    "\<not> typed_term_less k (TypedTerm type t)"
    using omap_find_Some [OF assms(1)] by blast
  then have i: "i < length (vars s)" "vars s ! i = value_variable (tt_type k) (tt_term k)"
    using assms(2) by (auto simp: good_def index_ok_def)
  have "supported_domains (tt_term k)"
    using good_variable [OF assms(2) i] typed_domains by blast
  then have "k = TypedTerm type t"
    using k assms(3) typed_term_less_identity [of k "TypedTerm type t"] by simp
  then show ?thesis using i by simp
qed

lemma find_value:
  assumes "omap_find typed_term_less (TypedTerm type t) (values_of s) = Some e"
    and "good \<sigma> s" and "supported_domains t"
  shows "known s e \<and> expr_value \<sigma> e = val t"
proof -
  obtain k where k: "(k, e) \<in> set (values_of s)" "\<not> typed_term_less (TypedTerm type t) k"
    "\<not> typed_term_less k (TypedTerm type t)"
    using omap_find_Some [OF assms(1)] by blast
  then have e: "typed (tt_term k) (tt_type k)" "known s e" "expr_value \<sigma> e = val (tt_term k)"
    using assms(2) by (auto simp: good_def cache_ok_def)
  then have "k = TypedTerm type t"
    using k assms(3) typed_domains typed_term_less_identity [of k "TypedTerm type t"] by simp
  then show ?thesis using e by simp
qed

lemma cache_value_good:
  assumes "good \<sigma> s" and "typed t type" and "known s e" and "expr_value \<sigma> e = val t"
  shows "good \<sigma> (cache_value (TypedTerm type t) e s)" and "vars (cache_value k e s) = vars s"
  using assms set_emplace [of typed_term_less "TypedTerm type t" e "values_of s"]
  by (fastforce simp: good_def cache_value_def cache_ok_def)+

subsection \<open>Conversions\<close>

lemma state_conversion_good:
  assumes run: "state_conversion i target from [a] operand s = Inr s'" and good: "good \<sigma> s"
    and i: "i < length (vars s)" "vars s ! i = value_variable target (Prim Convert target [a])"
    and a: "typed a from" and operand: "known s operand" "expr_value \<sigma> operand = val a"
  shows "\<exists>\<tau>. good \<tau> s' \<and> grows \<sigma> s \<tau> s'"
proof -
  have conv: "typed (Prim Convert target [a]) target" "\<sigma> i = wrap_into target (val a)"
    using good_variable [OF good i] by (simp_all add: val_prim)
  note target = typed_supported [OF conv(1)] and source = typed_supported [OF a]
  show ?thesis
  proof (cases "lowest_of target \<le> lowest_of from \<and> highest_of from \<le> highest_of target")
    case True
    let ?s = "s\<lparr>ranges := omap_emplace (<) i (lowest_of from, highest_of from) (ranges s)\<rparr>"
    have range: "lowest_of from \<le> val a" "val a \<le> highest_of from"
      using typed_representable [OF a] source by (simp_all add: representable_iff_bounds)
    then have "is_representable target (val a)" using True target by (simp add: representable_iff_bounds)
    then have "\<sigma> i = val a" using conv(2) by (simp add: wrap_into_self)
    moreover from this have "ranges_ok \<sigma> (length (vars s)) (ranges ?s)"
      using good i range set_emplace [of "(<)" i "(lowest_of from, highest_of from)" "ranges s"]
      by (fastforce simp: good_def ranges_ok_def)
    then have "good \<sigma> ?s" using good by (simp add: good_def)
    ultimately have "states \<sigma> ?s s'"
      using run True i operand
      by (intro equal_states [of "single_variable i" operand]) (simp_all add: state_conversion_def Let_def)
    then show ?thesis by (intro exI [of _ \<sigma>]) (simp add: states_def grows_def)
  next
    case False
    define v where "v = \<lparr>role = WrapRole, var_type = target, var_term = Prim Convert target [a],
      var_lowest = - floor_divide (highest_of target - lowest_of from) (modulus target),
      var_highest = floor_divide (highest_of from - lowest_of target) (modulus target)\<rparr>"
    obtain w s1 where push: "push_variable v s = Inr (w, s1)"
      and eq: "equal (single_variable i) (emplace_term w (- modulus target) operand) s1 = Inr s'"
      using run False by (auto simp: state_conversion_def Let_def v_def)
    define x where "x = (val a - \<sigma> i) div modulus target"
    let ?\<tau> = "\<sigma>(w := x)"
    note p = push_variable_good [OF push good, of x]
    have s1: "w = length (vars s)" "vars s1 = vars s @ [v]" "good ?\<tau> s1" "grows \<sigma> s ?\<tau> s1"
      using p by (simp_all add: v_def)
    have "modulus target dvd val a - \<sigma> i"
      using wrap_into_mod [OF target, of "val a", symmetric] conv(2) by (simp add: modulus_def mod_eq_dvd_iff)
    then have x: "modulus target * x = val a - \<sigma> i" by (simp add: x_def)
    have new: "w \<notin> fst ` set (expr_terms operand)"
      using operand(1) s1(1) by (auto simp: terms_below_def)
    have "expr_value ?\<tau> operand = val a"
      using grows_expression [OF s1(4) operand(1)] operand(2) by simp
    then have "expr_value ?\<tau> (emplace_term w (- modulus target) operand) = \<sigma> i"
      using x by (simp add: expr_value_emplace [OF new])
    moreover have "known s1 (emplace_term w (- modulus target) operand)"
      using grows_expression [OF s1(4) operand(1)] s1(1,2) by (simp add: expr_below_emplace)
    ultimately have "states ?\<tau> s1 s'"
      using s1 i by (intro equal_states [OF eq]) simp_all
    then show ?thesis
      using s1(4) by (intro exI [of _ ?\<tau>]) (auto simp: states_good intro: grows_trans states_grows)
  qed
qed

lemma conversion_body_spec:
  assumes "value_spec read"
  shows "conversion_spec (conversion_body read \<Gamma> L limits)"
proof -
  have "\<exists>\<tau>. good \<tau> s' \<and> grows \<sigma> s \<tau> s'"
    if run: "conversion_body read \<Gamma> L limits i target a s = Inr s'" and i: "i < length (vars s)"
      and v: "vars s ! i = value_variable target (Prim Convert target [a])" and good: "good \<sigma> s"
    for i target a s s' \<sigma>
  proof -
    obtain ty where ty: "type_of \<Gamma> L a limits = Inr ty"
      using run by (auto simp: conversion_body_def)
    then obtain src operand s1 where source: "type_of \<Gamma> L a limits = Inr (Int_Type src)"
      and operand: "read a src s = Inr (operand, s1)"
      and conv: "state_conversion i target src [a] operand s1 = Inr s'"
      using run by (cases ty) (auto simp: conversion_body_def)
    have "admitted" using typed_admitted good_variable [OF good i v] by blast
    then have a: "typed a src" using type_read [OF source] by simp
    from value_specE [OF assms operand a good] obtain \<tau> where \<tau>: "good \<tau> s1" "grows \<sigma> s \<tau> s1"
      "known s1 operand" "expr_value \<tau> operand = val a" .
    have "i < length (vars s1)" "vars s1 ! i = value_variable target (Prim Convert target [a])"
      using grows_variable [OF \<tau>(2) i] v by simp_all
    with state_conversion_good [OF conv \<tau>(1) _ _ a \<tau>(3,4)] \<tau>(2) show ?thesis
      by (blast intro: grows_trans)
  qed
  then show ?thesis unfolding conversion_spec_def by blast
qed

subsection \<open>Divisions\<close>

lemma same_sign_states:
  assumes "same_sign dividend rest s = Inr s'" and "good \<sigma> s" and "known s dividend" and "known s rest"
    and "0 \<le> expr_value \<sigma> dividend \<Longrightarrow> 0 \<le> expr_value \<sigma> rest"
    and "expr_value \<sigma> dividend \<le> 0 \<Longrightarrow> expr_value \<sigma> rest \<le> 0"
  shows "states \<sigma> s s'"
proof -
  obtain r d s1 where r: "negated rest = Inr r" and s1: "either dividend 1 r 0 s = Inr s1"
    and d: "negated dividend = Inr d" and s2: "either d 0 rest 0 s1 = Inr s'"
    using assms(1) by (auto simp: same_sign_def)
  have "states \<sigma> s s1"
    using assms(2-5) r
    by (intro either_states [OF s1]) (cases "0 \<le> expr_value \<sigma> dividend"; simp add: negated_sound)+
  moreover from this have "states \<sigma> s1 s'"
    using assms(3,4,6) d
    by (intro either_states [OF s2])
      (cases "expr_value \<sigma> dividend \<le> 0"; simp add: negated_sound states_def)+
  ultimately show ?thesis by (rule states_trans)
qed

text \<open>The variables of a quotient and its remainder, and what the constraints say of them.\<close>

definition division_variables :: "int_type \<Rightarrow> kterm \<Rightarrow> kterm \<Rightarrow> nat \<Rightarrow> nat \<Rightarrow> builder \<Rightarrow> bool" where
  "division_variables type a b q r s \<longleftrightarrow>
     q < length (vars s) \<and> vars s ! q = value_variable type (Prim Quotient type [a, b]) \<and>
     r < length (vars s) \<and> vars s ! r = value_variable type (Prim Remainder type [a, b])"

lemma division_values:
  assumes "good \<sigma> s" and "division_variables type a b q r s"
  shows "q \<noteq> r" and "\<sigma> q = wrap_into type (val a sdiv val b)" and "\<sigma> r = val a smod val b"
  using assms good_variable [OF assms(1), of q] good_variable [OF assms(1), of r]
  by (auto simp: division_variables_def val_prim value_variable_def)

lemma divide_by_constant_good:
  assumes run: "divide_by_constant type q r dividend d s = Inr s'" and good: "good \<sigma> s"
    and vars: "division_variables type a b q r s" and a: "typed a type" and b: "typed b type" "val b = d"
    and dividend: "known s dividend" "expr_value \<sigma> dividend = val a"
  shows "states \<sigma> s s'"
proof (cases "- 1 \<le> d \<and> d \<le> 1")
  case True
  then show ?thesis using run good by (simp add: divide_by_constant_def states_def)
next
  case False
  let ?rest = "single_variable r" and ?largest = "(if d < 0 then - d else d) - 1"
  let ?identity = "emplace_term r 1 (emplace_term q d empty_expression)"
  obtain s1 s2 where s1: "equal dividend ?identity s = Inr s1" and s2: "constrain ?rest (- ?largest) s1 = Inr s2"
    and s3: "(if signedness type \<noteq> Signed then Inr s2
         else bind_ok (negated ?rest) (\<lambda>opposite.
              bind_ok (constrain opposite (- ?largest) s2) (same_sign dividend ?rest))) = Inr s'"
    using run False unfolding divide_by_constant_def Let_def by auto
  note v = division_values [OF good vars]
  have known: "q < length (vars s)" "r < length (vars s)" using vars by (simp_all add: division_variables_def)
  have "\<sigma> q = val a sdiv d"
    using sdiv_by_large [OF typed_representable [OF a] typed_representable [OF b(1)]] False b v by simp
  then have identity: "expr_value \<sigma> ?identity = val a"
    using v b mult_sdiv_smod_eq [of d "val a"]
    by (simp add: expr_value_emplace emplace_term_def empty_expression_def omap_emplace_def expr_value_def ac_simps)
  have rest: "\<bar>\<sigma> r\<bar> \<le> ?largest" using smod_bounds(1) [of d "val a"] False v b by auto
  have one: "states \<sigma> s s1"
    using good dividend identity known
    by (intro equal_states [OF s1]) (simp_all add: expr_below_emplace)
  then have two: "states \<sigma> s1 s2"
    using rest known by (intro constrain_states [OF s2]) (simp_all add: states_def)
  note so_far = states_trans [OF one two]
  show ?thesis
  proof (cases "signedness type = Signed")
    case True
    then obtain opposite s4 where o: "negated ?rest = Inr opposite"
      and s4: "constrain opposite (- ?largest) s2 = Inr s4" and s5: "same_sign dividend ?rest s4 = Inr s'"
      using s3 by auto
    have three: "states \<sigma> s2 s4"
      using so_far rest known o by (intro constrain_states [OF s4]) (auto simp: states_def negated_sound)
    have "states \<sigma> s4 s'"
      using states_trans [OF so_far three] dividend v smod_bounds(2,3) [of "val a" "val b"] known
      by (intro same_sign_states [OF s5]) (simp_all add: states_def)
    then show ?thesis using states_trans so_far three by blast
  next
    case False
    then show ?thesis using s3 so_far by simp
  qed
qed

lemma divide_by_unknown_good:
  assumes run: "divide_by_unknown type r dividend divisor s = Inr s'" and good: "good \<sigma> s"
    and vars: "division_variables type a b q r s" and a: "typed a type" and b: "typed b type"
    and dividend: "known s dividend" "expr_value \<sigma> dividend = val a"
    and divisor: "known s divisor" "expr_value \<sigma> divisor = val b"
  shows "states \<sigma> s s'"
proof -
  let ?rest = "single_variable r"
  obtain excess s1 where excess: "subtract ?rest divisor = Inr excess"
    and s1: "either divisor 0 excess 1 s = Inr s1"
    and s2: "(if signedness type \<noteq> Signed
           then bind_ok (subtract ?rest dividend) (\<lambda>within. constrain within 0 s1)
           else bind_ok (negated ?rest) (\<lambda>opposite.
                bind_ok (subtract opposite divisor) (\<lambda>shortfall.
                bind_ok (either divisor 0 shortfall 1 s1) (same_sign dividend ?rest)))) = Inr s'"
    using run unfolding divide_by_unknown_def Let_def by auto
  have r: "\<sigma> r = val a smod val b" "r < length (vars s)"
    using division_values [OF good vars] vars by (simp_all add: division_variables_def)
  have rest: "val b \<le> 0 \<or> \<bar>\<sigma> r\<bar> < val b"
    using smod_bounds(1) [of "val b" "val a"] r by (cases "val b \<le> 0") simp_all
  have one: "states \<sigma> s s1"
  proof (rule either_states [OF s1 good divisor(1)])
    show "known s excess" using divisor r excess by (simp add: subtract_sound)
    show "expr_value \<sigma> divisor + 0 \<le> 0 \<or> expr_value \<sigma> excess + 1 \<le> 0"
      using rest divisor excess by (simp add: subtract_sound) linarith
  qed
  show ?thesis
  proof (cases "signedness type = Signed")
    case True
    then obtain opposite shortfall s3 where o: "negated ?rest = Inr opposite"
      and sh: "subtract opposite divisor = Inr shortfall"
      and s3: "either divisor 0 shortfall 1 s1 = Inr s3" and s4: "same_sign dividend ?rest s3 = Inr s'"
      using s2 by auto
    have two: "states \<sigma> s1 s3"
    proof (rule either_states [OF s3])
      show "good \<sigma> s1" "known s1 divisor" using one divisor by (simp_all add: states_def)
      show "known s1 shortfall" using one divisor r o sh by (simp add: states_def negated_sound subtract_sound)
      show "expr_value \<sigma> divisor + 0 \<le> 0 \<or> expr_value \<sigma> shortfall + 1 \<le> 0"
        using rest divisor o sh by (simp add: negated_sound subtract_sound) linarith
    qed
    have "states \<sigma> s3 s'"
      using states_trans [OF one two] dividend r smod_bounds(2,3) [of "val a" "val b"]
      by (intro same_sign_states [OF s4]) (simp_all add: states_def)
    then show ?thesis using states_trans one two by blast
  next
    case False
    then obtain within where w: "subtract ?rest dividend = Inr within" "constrain within 0 s1 = Inr s'"
      using s2 by auto
    have "0 \<le> val a" "0 \<le> val b"
      using False typed_representable [OF a] typed_representable [OF b]
      by (auto simp: is_representable_def minimum_value_eq)
    then have "\<sigma> r \<le> val a" using smod_bounds(4) r by simp
    then have "states \<sigma> s1 s'"
      using one r dividend w by (intro constrain_states [OF w(2)]) (simp_all add: states_def subtract_sound)
    then show ?thesis using states_trans one by blast
  qed
qed

lemma division_factor:
  assumes "op = Quotient \<or> op = Remainder" and "typed a type" and "typed b type"
  shows "factors_ok type [Prim op type [a, b]]" and "typed (Prim op type [a, b]) type"
proof -
  have "op \<noteq> Convert" "op \<noteq> NotOp" "op \<noteq> Select" "result_type op type = Int_Type type" "\<not> is_arithmetic op"
    using assms(1) by (auto simp: result_type_def is_representability_def is_arithmetic_def)
  then show "factors_ok type [Prim op type [a, b]]" and "typed (Prim op type [a, b]) type"
    using assms by (auto simp: factors_ok_def factor_ok_def typed_binary)
qed

lemma division_body_spec:
  assumes read: "value_spec read" and variable: "variable_spec read_variable"
  shows "division_spec (division_body read read_variable)"
proof -
  have "\<exists>\<tau>. good \<tau> s' \<and> grows \<sigma> s \<tau> s'"
    if run: "division_body read read_variable type a b s = Inr s'" and a: "typed a type" and b: "typed b type"
      and good: "good \<sigma> s" for type a b s s' \<sigma>
  proof (cases "omap_find typed_term_less (TypedTerm type (Prim Quotient type [a, b])) (divisions s)")
    case (Some x)
    then show ?thesis using run good by (intro exI [of _ \<sigma>]) (simp add: division_body_def)
  next
    case None
    let ?s = "insert_division (TypedTerm type (Prim Quotient type [a, b])) s"
    obtain q s1 r s2 dividend s3 where
      q: "read_variable type [Prim Quotient type [a, b]] ?s = Inr (q, s1)" and
      r: "read_variable type [Prim Remainder type [a, b]] s1 = Inr (r, s2)" and
      dividend: "read a type s2 = Inr (dividend, s3)" and
      rest: "(case literal_value b type of
               Some divisor \<Rightarrow> divide_by_constant type q r dividend divisor s3
             | None \<Rightarrow> bind_ok (read b type s3) (\<lambda>(divisor, s).
                 divide_by_unknown type r dividend divisor s)) = Inr s'"
      using run None unfolding division_body_def Let_def by auto
    have s: "good \<sigma> ?s" "vars ?s = vars s" using good by (simp_all add: insert_division_def good_def)
    obtain \<tau>1 where \<tau>1: "good \<tau>1 s1" "grows \<sigma> ?s \<tau>1 s1" "q < length (vars s1)"
      "vars s1 ! q = value_variable type (Prim Quotient type [a, b])"
      using variable_specE [OF variable q _ _ s(1)] division_factor(1) [of Quotient a type b] a b
      by (auto simp: render_factors_single)
    obtain \<tau>2 where \<tau>2: "good \<tau>2 s2" "grows \<tau>1 s1 \<tau>2 s2" "r < length (vars s2)"
      "vars s2 ! r = value_variable type (Prim Remainder type [a, b])"
      using variable_specE [OF variable r _ _ \<tau>1(1)] division_factor(1) [of Remainder a type b] a b
      by (auto simp: render_factors_single)
    obtain \<tau>3 where \<tau>3: "good \<tau>3 s3" "grows \<tau>2 s2 \<tau>3 s3" "known s3 dividend" "expr_value \<tau>3 dividend = val a"
      using value_specE [OF read dividend a \<tau>2(1)] .
    have "grows \<sigma> s \<tau>1 s1" using \<tau>1(2) s(2) by (simp add: grows_def)
    then have so_far: "grows \<sigma> s \<tau>3 s3" using \<tau>2(2) \<tau>3(2) by (blast intro: grows_trans)
    have dv: "division_variables type a b q r s3"
      using grows_variable [OF grows_trans [OF \<tau>2(2) \<tau>3(2)] \<tau>1(3)] grows_variable [OF \<tau>3(2) \<tau>2(3)] \<tau>1(4) \<tau>2(4)
      by (simp add: division_variables_def)
    show ?thesis
    proof (cases "literal_value b type")
      case (Some d)
      then have "val b = d"
        using typed_representable [OF b] b by (cases b) (auto simp: typed_literal val_literal wrapped_literal split: if_splits)
      then have "states \<tau>3 s3 s'"
        using divide_by_constant_good [OF _ \<tau>3(1) dv a b _ \<tau>3(3,4)] rest Some by simp
      then show ?thesis using so_far by (blast intro: states_good grows_trans states_grows)
    next
      case None
      then obtain divisor s4 where d: "read b type s3 = Inr (divisor, s4)"
        and run4: "divide_by_unknown type r dividend divisor s4 = Inr s'" using rest by auto
      obtain \<tau>4 where \<tau>4: "good \<tau>4 s4" "grows \<tau>3 s3 \<tau>4 s4" "known s4 divisor" "expr_value \<tau>4 divisor = val b"
        using value_specE [OF read d b \<tau>3(1)] .
      have "division_variables type a b q r s4"
        using dv grows_variable [OF \<tau>4(2)] by (simp add: division_variables_def)
      then have "states \<tau>4 s4 s'"
        using divide_by_unknown_good [OF run4 \<tau>4(1) _ a b _ _ \<tau>4(3,4)]
          grows_expression [OF \<tau>4(2) \<tau>3(3)] \<tau>3(4) by simp
      then show ?thesis using so_far \<tau>4(2) by (blast intro: states_good grows_trans states_grows)
    qed
  qed
  then show ?thesis unfolding division_spec_def by blast
qed

subsection \<open>Variables\<close>

lemma defining_primitive_Some:
  "defining_primitive type t = Some (Inl a) \<Longrightarrow> t = Prim Convert type [a]"
  "defining_primitive type t = Some (Inr (a, b)) \<Longrightarrow>
     \<exists>op. (op = Quotient \<or> op = Remainder) \<and> t = Prim op type [a, b]"
  by (cases "(type, t)" rule: defining_primitive.cases; auto split: if_splits)+

lemma typed_render: "fs \<noteq> [] \<Longrightarrow> factors_ok type fs \<Longrightarrow> typed (render_factors type fs) type"
  using render_factors_sound [of fs type] by (simp add: denotes_def)

lemma variable_body_spec:
  assumes convert: "conversion_spec convert" and divided: "division_spec divided"
  shows "variable_spec (variable_body convert divided)"
proof -
  have "\<exists>\<tau>. good \<tau> s' \<and> grows \<sigma> s \<tau> s' \<and> i < length (vars s') \<and>
      vars s' ! i = value_variable type (render_factors type fs)"
    if run: "variable_body convert divided type fs s = Inr (i, s')" and fs: "fs \<noteq> []" "factors_ok type fs"
      and good: "good \<sigma> s" for type fs s i s' \<sigma>
  proof (cases "omap_find typed_term_less (TypedTerm type (render_factors type fs)) (variable_of s)")
    case (Some j)
    then show ?thesis
      using run find_variable [OF Some good] typed_domains [OF typed_render [OF fs]] good
      by (intro exI [of _ \<sigma>]) (simp add: variable_body_def Let_def)
  next
    case None
    let ?t = "render_factors type fs"
    obtain s1 where s1: "register_variable type ?t s = Inr (i, s1)"
      and rest: "(if length fs \<noteq> 1 then Inr s1
                else case defining_primitive type ?t of
                  Some (Inl a) \<Rightarrow> convert i type a s1
                | Some (Inr (a, b)) \<Rightarrow> divided type a b s1
                | None \<Rightarrow> Inr s1) = Inr s'"
      using run None by (auto simp: variable_body_def Let_def)
    obtain \<tau> where \<tau>: "good \<tau> s1" "grows \<sigma> s \<tau> s1" "i < length (vars s1)" "vars s1 ! i = value_variable type ?t"
      using register_variable_good [OF s1 good typed_render [OF fs]] by blast
    have "\<exists>\<upsilon>. good \<upsilon> s' \<and> grows \<tau> s1 \<upsilon> s'"
    proof (cases "length fs \<noteq> 1 \<or> defining_primitive type ?t = None")
      case True
      then have "s' = s1" using rest by (auto split: if_splits)
      then show ?thesis using \<tau>(1) by (intro exI [of _ \<tau>]) simp
    next
      case False
      then obtain primitive where p: "defining_primitive type ?t = Some primitive" by blast
      show ?thesis
      proof (cases primitive)
        case (Inl a)
        then have "?t = Prim Convert type [a]" "convert i type a s1 = Inr s'"
          using p rest False defining_primitive_Some(1) by auto
        then show ?thesis using convert \<tau> unfolding conversion_spec_def by metis
      next
        case (Inr ab)
        then obtain a b where ab: "primitive = Inr (a, b)" by (cases ab) simp
        then have run: "divided type a b s1 = Inr s'" using p rest False by auto
        obtain op where op: "op = Quotient \<or> op = Remainder" "?t = Prim op type [a, b]"
          using defining_primitive_Some(2) p ab by blast
        then have "typed a type" "typed b type"
          using typed_render [OF fs] typed_binary [of op type a b type] by auto
        then show ?thesis using divided run \<tau>(1) unfolding division_spec_def by blast
      qed
    qed
    then show ?thesis using \<tau> grows_variable by (metis grows_trans)
  qed
  then show ?thesis unfolding variable_spec_def by blast
qed

subsection \<open>Values\<close>

text \<open>The variables an expression names are those of the monomials read so far.\<close>

definition reads_monomials :: "int_type \<Rightarrow> kterm list set \<Rightarrow> builder \<Rightarrow> expression \<Rightarrow> bool" where
  "reads_monomials type done s e \<longleftrightarrow>
     (\<forall>i \<in> fst ` set (expr_terms e). \<exists>fs \<in> done. fs \<noteq> [] \<and> factors_ok type fs \<and>
        i < length (vars s) \<and> vars s ! i = value_variable type (render_factors type fs))"

lemma factors_no_product: "factors_ok type fs \<Longrightarrow> \<forall>f \<in> set fs. no_product type f"
  by (auto simp: factors_ok_def factor_ok_def no_product_def is_arithmetic_def)

lemma fresh_monomial:
  assumes "reads_monomials type done s e" and "fs \<notin> done" and "fs \<noteq> []" and "factors_ok type fs"
    and "vars s ! i = value_variable type (render_factors type fs)"
  shows "i \<notin> fst ` set (expr_terms e)"
proof
  assume "i \<in> fst ` set (expr_terms e)"
  then obtain gs where gs: "gs \<in> done" "gs \<noteq> []" "factors_ok type gs"
    "vars s ! i = value_variable type (render_factors type gs)"
    using assms(1) unfolding reads_monomials_def by blast
  then have "render_factors type fs = render_factors type gs"
    using assms(5) by (simp add: value_variable_def)
  then have "fs = gs" using assms(3,4) gs factors_no_product by (intro render_factors_inj) auto
  then show False using gs(1) assms(2) by blast
qed

lemma set_emplace_term: "fst ` set (expr_terms (emplace_term i c e)) \<subseteq> insert i (fst ` set (expr_terms e))"
  using keys_omap_emplace [of "(<)" i c "expr_terms e"] by (simp add: emplace_term_def)

lemma reads_monomials_known: "reads_monomials type done s e \<Longrightarrow> known s e"
  by (auto simp: reads_monomials_def terms_below_def)

lemma reads_monomials_emplace:
  assumes "reads_monomials type done s e" and "fs \<noteq> []" and "factors_ok type fs"
    and "i < length (vars s)" and "vars s ! i = value_variable type (render_factors type fs)"
  shows "reads_monomials type (insert fs done) s (emplace_term i c e)"
  unfolding reads_monomials_def
proof
  fix j assume "j \<in> fst ` set (expr_terms (emplace_term i c e))"
  then have "j = i \<or> j \<in> fst ` set (expr_terms e)" using set_emplace_term [of i c e] by blast
  then show "\<exists>gs \<in> insert fs done. gs \<noteq> [] \<and> factors_ok type gs \<and> j < length (vars s) \<and>
      vars s ! j = value_variable type (render_factors type gs)"
    using assms(2-5) bspec [OF assms(1) [unfolded reads_monomials_def], of j] by (elim disjE) simp_all
qed

lemma each_monomial_good:
  assumes read: "variable_spec (read :: variable_reader)"
  shows "each_monomial (read type) type ms e s = Inr (e', s') \<Longrightarrow> good \<sigma> s \<Longrightarrow>
     monomials_ok type ms \<Longrightarrow> distinct (map factors ms) \<Longrightarrow> factors ` set ms \<inter> done = {} \<Longrightarrow>
     is_supported_int type \<Longrightarrow> reads_monomials type done s e \<Longrightarrow>
     \<exists>\<tau>. good \<tau> s' \<and> grows \<sigma> s \<tau> s' \<and> known s' e' \<and> expr_constant e' = expr_constant e \<and>
       same_residue type (expr_value \<tau> e')
         (expr_value \<sigma> e + (\<Sum>m \<leftarrow> ms. term_value (factors m) (coefficient m)))"
proof (induction ms arbitrary: e s \<sigma> "done")
  case Nil
  then show ?case by (auto intro: reads_monomials_known)
next
  case (Cons m ms)
  let ?fs = "factors m" and ?c = "centered type (coefficient m)"
  obtain i s1 where i: "read type ?fs s = Inr (i, s1)"
    and rest: "each_monomial (read type) type ms (emplace_term i ?c e) s1 = Inr (e', s')"
    using Cons.prems(1) by auto
  have fs: "?fs \<noteq> []" "factors_ok type ?fs" using Cons.prems(3) by (simp_all add: monomials_ok_def)
  obtain \<tau> where \<tau>: "good \<tau> s1" "grows \<sigma> s \<tau> s1" "i < length (vars s1)"
    "vars s1 ! i = value_variable type (render_factors type ?fs)"
    using variable_specE [OF read i fs Cons.prems(2)] .
  have old: "reads_monomials type done s1 e"
    using Cons.prems(7) grows_variable [OF \<tau>(2)] unfolding reads_monomials_def by (metis (no_types, lifting))
  have new: "i \<notin> fst ` set (expr_terms e)"
    using Cons.prems(5) by (intro fresh_monomial [OF old _ fs \<tau>(4)]) auto
  have "reads_monomials type (insert ?fs done) s1 (emplace_term i ?c e)"
    by (rule reads_monomials_emplace [OF old fs \<tau>(3,4)])
  moreover have "factors ` set ms \<inter> insert ?fs done = {}"
    using Cons.prems(4,5) by auto
  ultimately obtain \<upsilon> where \<upsilon>: "good \<upsilon> s'" "grows \<tau> s1 \<upsilon> s'" "known s' e'"
    "expr_constant e' = expr_constant (emplace_term i ?c e)"
    "same_residue type (expr_value \<upsilon> e') (expr_value \<tau> (emplace_term i ?c e) +
       (\<Sum>m \<leftarrow> ms. term_value (factors m) (coefficient m)))"
    using Cons.IH [OF rest \<tau>(1) _ _ _ Cons.prems(6), of "insert ?fs done"] Cons.prems(3,4)
    by (auto simp: monomials_ok_def)
  have "\<tau> i = val (render_factors type ?fs)" using good_variable [OF \<tau>(1,3,4)] by blast
  then have "same_residue type (\<tau> i) (factors_value ?fs)"
    using render_factors_sound [OF fs] by (simp add: denotes_def)
  then have step: "same_residue type (?c * \<tau> i) (term_value ?fs (coefficient m))"
    unfolding term_value_def using centered_residue [OF Cons.prems(6)] by (intro residue_intros)
  have "expr_value \<tau> (emplace_term i ?c e) = expr_value \<sigma> e + ?c * \<tau> i"
    using expr_value_emplace [OF new] grows_expression [OF \<tau>(2) reads_monomials_known [OF Cons.prems(7)]] by simp
  then have "same_residue type (expr_value \<tau> (emplace_term i ?c e) + (\<Sum>m \<leftarrow> ms. term_value (factors m) (coefficient m)))
      (expr_value \<sigma> e + term_value ?fs (coefficient m) + (\<Sum>m \<leftarrow> ms. term_value (factors m) (coefficient m)))"
    by (simp only:) (intro residue_intros step)
  then have "same_residue type (expr_value \<upsilon> e') (expr_value \<sigma> e + (\<Sum>m \<leftarrow> m # ms. term_value (factors m) (coefficient m)))"
    using residue_trans [OF \<upsilon>(5)] by (simp add: add.assoc)
  then show ?case using \<upsilon> \<tau>(2) grows_trans by (fastforce simp: emplace_term_def)
qed

lemma wrapped_value_good:
  assumes run: "wrapped_value t type e s = Inr (e', s')" and good: "good \<sigma> s" and t: "typed t type"
    and e: "known s e" "same_residue type (expr_value \<sigma> e) (val t)"
  shows "\<exists>\<tau>. good \<tau> s' \<and> grows \<sigma> s \<tau> s' \<and> known s' e' \<and> expr_value \<tau> e' = val t"
proof -
  obtain least greatest where range: "wrap_range e type s = Inr (least, greatest)"
    using run by (auto simp: wrapped_value_def)
  define v where
    "v = \<lparr>role = WrapRole, var_type = type, var_term = t, var_lowest = least, var_highest = greatest\<rparr>"
  obtain w s1 where push: "push_variable v s = Inr (w, s1)"
    and e': "e' = emplace_term w (- modulus type) e" and bound: "bound e' type s1 = Inr s'"
    using run range by (auto simp: wrapped_value_def Let_def v_def)
  define x where "x = (expr_value \<sigma> e - val t) div modulus type"
  let ?\<tau> = "\<sigma>(w := x)"
  note p = push_variable_good [OF push good, of x]
  have s1: "w = length (vars s)" "vars s1 = vars s @ [v]" "good ?\<tau> s1" "grows \<sigma> s ?\<tau> s1"
    using p by (simp_all add: v_def)
  have "modulus type dvd expr_value \<sigma> e - val t"
    using e(2) by (simp add: same_residue_def modulus_def mod_eq_dvd_iff)
  then have x: "modulus type * x = expr_value \<sigma> e - val t" by (simp add: x_def)
  have new: "w \<notin> fst ` set (expr_terms e)" using e(1) s1(1) by (auto simp: terms_below_def)
  note old = grows_expression [OF s1(4) e(1)]
  have "expr_value ?\<tau> e' = val t" using x old by (simp add: e' expr_value_emplace [OF new])
  moreover have "known s1 e'" using old s1(1,2) by (simp add: e' expr_below_emplace)
  moreover have "lowest_of type \<le> val t" "val t \<le> highest_of type"
    using typed_representable [OF t] typed_supported [OF t] by (simp_all add: representable_iff_bounds)
  ultimately have "states ?\<tau> s1 s'" using s1 by (intro bound_states [OF bound]) simp_all
  then show ?thesis
    using s1(4) \<open>expr_value ?\<tau> e' = val t\<close> \<open>known s1 e'\<close>
    by (intro exI [of _ ?\<tau>]) (auto simp: states_def grows_def)
qed

lemma polynomial_value_good:
  assumes read: "variable_spec read_variable"
    and run: "(if monomials p = [] then Inr (constant_expression (value_of type (poly_constant p)), s)
        else if is_single p
        then bind_ok (read_variable type (factors (hd (monomials p))) s) (\<lambda>(i, s).
               Inr (single_variable i, s))
        else bind_ok (each_monomial (read_variable type) type (monomials p) empty_expression s)
               (\<lambda>(e, s). wrapped_value n type (e\<lparr>expr_constant := centered type (poly_constant p)\<rparr>) s)) =
      Inr (e, s')"
    and good: "good \<sigma> s" and n: "typed n type" and ms: "monomials_ok type (monomials p)"
    and p: "same_residue type (poly_value p) (val n)" and distinct: "distinct (map factors (monomials p))"
  shows "\<exists>\<tau>. good \<tau> s' \<and> grows \<sigma> s \<tau> s' \<and> known s' e \<and> expr_value \<tau> e = val n"
proof -
  note supported = typed_supported [OF n] and rep = typed_representable [OF n]
  consider (literal) "monomials p = []" | (single) "monomials p \<noteq> []" "is_single p"
    | (sum) "monomials p \<noteq> []" "\<not> is_single p" by blast
  then show ?thesis
  proof cases
    case literal
    then have "value_of type (poly_constant p) = val n"
      using p rep unfolding value_of_bits [OF supported]
      by (intro wrap_into_unique) (simp_all add: poly_value_def same_residue_def)
    then show ?thesis using literal run good by (intro exI [of _ \<sigma>]) auto
  next
    case single
    then obtain m where m: "monomials p = [m]" "coefficient m = 1" "poly_constant p = 0"
      by (cases "monomials p") (auto simp: is_single_def)
    then have fs: "factors m \<noteq> []" "factors_ok type (factors m)" using ms by (simp_all add: monomials_ok_def)
    obtain i where i: "read_variable type (factors m) s = Inr (i, s')" "e = single_variable i"
      using run single m by auto
    obtain \<tau> where \<tau>: "good \<tau> s'" "grows \<sigma> s \<tau> s'" "i < length (vars s')"
      "vars s' ! i = value_variable type (render_factors type (factors m))"
      using variable_specE [OF read i(1) fs good] .
    have "same_residue type (val (render_factors type (factors m))) (factors_value (factors m))"
      using render_factors_sound [OF fs] by (simp add: denotes_def)
    then have "same_residue type (val (render_factors type (factors m))) (val n)"
      using p m by (auto simp: poly_value_def term_value_def intro: residue_trans)
    then have "val (render_factors type (factors m)) = val n"
      using representable_unique [OF typed_representable [OF typed_render [OF fs]] rep]
      by (simp add: same_residue_def)
    then show ?thesis using \<tau> i(2) good_variable [OF \<tau>(1,3,4)] by auto
  next
    case sum
    then obtain d s1 where d: "each_monomial (read_variable type) type (monomials p) empty_expression s = Inr (d, s1)"
      and w: "wrapped_value n type (d\<lparr>expr_constant := centered type (poly_constant p)\<rparr>) s1 = Inr (e, s')"
      using run by auto
    let ?d = "d\<lparr>expr_constant := centered type (poly_constant p)\<rparr>"
    have "reads_monomials type {} s empty_expression" by (simp add: reads_monomials_def empty_expression_def)
    then obtain \<tau> where \<tau>: "good \<tau> s1" "grows \<sigma> s \<tau> s1" "known s1 d" "expr_constant d = 0"
      "same_residue type (expr_value \<tau> d) (\<Sum>m \<leftarrow> monomials p. term_value (factors m) (coefficient m))"
      using each_monomial_good [OF read d good ms distinct _ supported, of "{}"]
      by (auto simp: empty_expression_def expr_value_def)
    have "expr_value \<tau> ?d = expr_value \<tau> d + centered type (poly_constant p)"
      using \<tau>(4) by (simp add: expr_value_def)
    then have "same_residue type (expr_value \<tau> ?d) (poly_value p)"
      unfolding poly_value_def using \<tau>(5) centered_residue [OF supported] by (simp add: residue_intros)
    then have "same_residue type (expr_value \<tau> ?d) (val n)" using p by (rule residue_trans)
    then show ?thesis
      using wrapped_value_good [OF w \<tau>(1) n] \<tau>(2,3) by (fastforce intro: grows_trans)
  qed
qed

lemma value_body_spec:
  assumes read: "variable_spec read_variable"
  shows "value_spec (value_body read_variable \<Gamma> limits)"
proof -
  have "\<exists>\<tau>. good \<tau> s' \<and> grows \<sigma> s \<tau> s' \<and> known s' e \<and> expr_value \<tau> e = val t"
    if run: "value_body read_variable \<Gamma> limits t type s = Inr (e, s')" and t: "typed t type"
      and good: "good \<sigma> s" for t type s e s' \<sigma>
  proof -
    obtain n where n: "normalize \<Gamma> t limits = Inr n" using run by (auto simp: value_body_def)
    have normal: "typed n type" "val n = val t" using normal_form [OF n t] by simp_all
    note supported = typed_supported [OF t]
    show ?thesis
    proof (cases "omap_find typed_term_less (TypedTerm type n) (values_of s)")
      case (Some cached)
      then show ?thesis
        using run n good normal find_value [OF Some good typed_domains [OF normal(1)]]
        by (intro exI [of _ \<sigma>]) (simp add: value_body_def)
    next
      case None
      then obtain p s1 where p: "read_polynomial n type limits = Inr p"
        and e: "(if monomials p = [] then Inr (constant_expression (value_of type (poly_constant p)), s)
              else if is_single p
              then bind_ok (read_variable type (factors (hd (monomials p))) s) (\<lambda>(i, s).
                     Inr (single_variable i, s))
              else bind_ok (each_monomial (read_variable type) type (monomials p) empty_expression s)
                     (\<lambda>(e, s). wrapped_value n type
                        (e\<lparr>expr_constant := centered type (poly_constant p)\<rparr>) s)) = Inr (e, s1)"
        and s': "s' = cache_value (TypedTerm type n) e s1"
        using run n by (auto simp: value_body_def)
      note poly = read_polynomial_sound [OF p normal(1)]
      have "\<exists>\<tau>. good \<tau> s1 \<and> grows \<sigma> s \<tau> s1 \<and> known s1 e \<and> expr_value \<tau> e = val n"
        by (rule polynomial_value_good [OF read e good normal(1) poly(2,3) read_polynomial_distinct [OF p]])
      then obtain \<tau> where \<tau>: "good \<tau> s1" "grows \<sigma> s \<tau> s1" "known s1 e" "expr_value \<tau> e = val n" by blast
      note c = cache_value_good [OF \<tau>(1) normal(1) \<tau>(3,4)]
      show ?thesis using c \<tau> normal(2) s' by (intro exI [of _ \<tau>]) (simp add: grows_def)
    qed
  qed
  then show ?thesis unfolding value_spec_def by blast
qed

lemma readers_spec:
  "value_spec (value_in fuel \<Gamma> L limits)" "variable_spec (variable fuel \<Gamma> L limits)"
  "conversion_spec (define_conversion fuel \<Gamma> L limits)" "division_spec (define_division fuel \<Gamma> L limits)"
proof (induction fuel)
  case 0
  case 1 then show ?case by (simp add: value_spec_def)
  case 2 then show ?case by (simp add: variable_spec_def)
  case 3 then show ?case by (simp add: conversion_spec_def)
  case 4 then show ?case by (simp add: division_spec_def)
next
  case (Suc fuel)
  case 1 then show ?case using value_body_spec [OF Suc(2)] by simp
  case 2 then show ?case using variable_body_spec [OF Suc(3,4)] by simp
  case 3 then show ?case using conversion_body_spec [OF Suc(1)] by simp
  case 4 then show ?case using division_body_spec [OF Suc(1,2)] by simp
qed

lemma read_value_good:
  assumes "read_value \<Gamma> L limits t type s = Inr (e, s')" and "typed t type" and "good \<sigma> s"
  obtains \<tau> where "good \<tau> s'" and "grows \<sigma> s \<tau> s'" and "known s' e" and "expr_value \<tau> e = val t"
  using value_specE [OF readers_spec(1)] assms unfolding read_value_def by metis

text \<open>Two values read one after the other.\<close>

lemma read_two:
  assumes "read_value \<Gamma> L limits a type s = Inr (d, s1)" and "read_value \<Gamma> L limits b type s1 = Inr (e, s2)"
    and "typed a type" and "typed b type" and "good \<sigma> s"
  obtains \<tau> where "good \<tau> s2" and "grows \<sigma> s \<tau> s2" and "known s2 d" and "expr_value \<tau> d = val a"
    and "known s2 e" and "expr_value \<tau> e = val b"
proof -
  obtain \<tau> where \<tau>: "good \<tau> s1" "grows \<sigma> s \<tau> s1" "known s1 d" "expr_value \<tau> d = val a"
    using read_value_good [OF assms(1,3,5)] .
  obtain \<upsilon> where \<upsilon>: "good \<upsilon> s2" "grows \<tau> s1 \<upsilon> s2" "known s2 e" "expr_value \<upsilon> e = val b"
    using read_value_good [OF assms(2,4) \<tau>(1)] .
  show thesis
    using that [OF \<upsilon>(1) grows_trans [OF \<tau>(2) \<upsilon>(2)] _ _ \<upsilon>(3,4)] grows_expression [OF \<upsilon>(2) \<tau>(3)] \<tau>(4) by simp
qed

section \<open>Facts\<close>

lemma static_range_sound:
  assumes "static_range e s = Some (low, high)" and "good \<sigma> s" and "known s e"
  shows "low \<le> expr_value \<sigma> e \<and> expr_value \<sigma> e \<le> high"
proof -
  have bounds: "l \<le> \<sigma> i \<and> \<sigma> i \<le> h" if "i \<in> fst ` set (expr_terms e)" "static_bounds s i = Some (l, h)" for i l h
  proof (cases "omap_find (<) i (ranges s)")
    case None
    have i: "i < length (vars s)" using assms(3) that(1) by (auto simp: terms_below_def)
    then have "role (vars s ! i) = ValueRole" "lowest_of (var_type (vars s ! i)) = l" "highest_of (var_type (vars s ! i)) = h"
      using that(2) None by (auto simp: static_bounds_def Let_def split: if_splits)
    moreover from this have v: "typed (var_term (vars s ! i)) (var_type (vars s ! i))" "\<sigma> i = val (var_term (vars s ! i))"
      using assms(2) i by (auto simp: good_def variables_ok_def)
    ultimately show ?thesis
      using typed_representable [OF v(1)] representable_iff_bounds [OF typed_supported [OF v(1)]] by simp
  next
    case (Some r)
    then obtain j where "(j, r) \<in> set (ranges s)" "\<not> i < j" "\<not> j < i"
      using omap_find_Some [OF Some] by blast
    moreover from this have "j = i" by simp
    moreover have "ranges_ok \<sigma> (length (vars s)) (ranges s)" using assms(2) by (simp add: good_def)
    ultimately have "fst r \<le> \<sigma> i \<and> \<sigma> i \<le> snd r"
      unfolding ranges_ok_def by (metis (no_types, lifting) case_prodD)
    moreover have "r = (l, h)" using that(2) Some by (simp add: static_bounds_def Let_def split: if_splits)
    ultimately show ?thesis by simp
  qed
  have "low \<le> terms_value \<sigma> (expr_terms e) + expr_constant e \<and> terms_value \<sigma> (expr_terms e) + expr_constant e \<le> high"
    using assms(1) bounds unfolding static_range_def by (rule extremes_sound) simp_all
  then show ?thesis by (simp add: expr_value_def)
qed

definition exact_result :: "prim_op \<Rightarrow> int \<Rightarrow> int \<Rightarrow> int" where
  "exact_result op x y = (if op = AddFits then x + y else if op = SubFits then x - y else x * y)"

lemma representability_value:
  "is_representability op \<Longrightarrow>
     prim_value op type [x, y] = truth_value (is_representable type (exact_result op x y))"
  by (auto simp: is_representability_def exact_result_def)

lemma unbounded_good:
  assumes run: "unbounded \<Gamma> L limits op type a b s = Inr (r, s')" and t: "typed a type" "typed b type"
    and good: "good \<sigma> s"
  shows "\<exists>\<tau>. good \<tau> s' \<and> grows \<sigma> s \<tau> s' \<and>
    (\<forall>e. r = Some e \<longrightarrow> known s' e \<and> expr_value \<tau> e = exact_result op (val a) (val b))"
proof -
  obtain lhs s1 rhs where l: "read_value \<Gamma> L limits a type s = Inr (lhs, s1)"
    and r: "read_value \<Gamma> L limits b type s1 = Inr (rhs, s')"
    and e: "(if op = AddFits
       then bind_ok (negated rhs) (\<lambda>opposite. bind_ok (subtract lhs opposite) (\<lambda>e. Inr (Some e, s')))
       else if op = SubFits then bind_ok (subtract lhs rhs) (\<lambda>e. Inr (Some e, s'))
       else if expr_terms lhs = [] then bind_ok (scaled rhs (expr_constant lhs)) (\<lambda>e. Inr (Some e, s'))
       else if expr_terms rhs = [] then bind_ok (scaled lhs (expr_constant rhs)) (\<lambda>e. Inr (Some e, s'))
       else Inr (None, s')) = Inr (r, s')"
    using run unfolding unbounded_def by (auto split: if_splits)
  obtain \<tau> where \<tau>: "good \<tau> s'" "grows \<sigma> s \<tau> s'" "known s' lhs" "expr_value \<tau> lhs = val a"
    "known s' rhs" "expr_value \<tau> rhs = val b"
    using read_two [OF l r t good] .
  have fixed: "expr_constant d = expr_value \<tau> d" if "expr_terms d = []" for d
    using that by (simp add: expr_value_def)
  have "known s' d \<and> expr_value \<tau> d = exact_result op (val a) (val b)" if "r = Some d" for d
    using e that \<tau> fixed [of lhs] fixed [of rhs]
    by (auto simp: exact_result_def negated_sound subtract_sound scaled_sound split: if_splits)
  then show ?thesis using \<tau>(1,2) by blast
qed

lemma product_always_fits_good:
  assumes run: "product_always_fits \<Gamma> L limits op type a b s = Inr (always, s')"
    and t: "typed a type" "typed b type" and good: "good \<sigma> s"
  shows "\<exists>\<tau>. good \<tau> s' \<and> grows \<sigma> s \<tau> s' \<and>
    (always \<longrightarrow> op = MulFits \<and> is_representable type (val a * val b))"
proof (cases "op = MulFits")
  case False
  then show ?thesis using run good by (intro exI [of _ \<sigma>]) (simp add: product_always_fits_def)
next
  case True
  then obtain lhs s1 rhs s2 where l: "read_value \<Gamma> L limits a type s = Inr (lhs, s1)"
    and r': "read_value \<Gamma> L limits b type s1 = Inr (rhs, s2)"
    and e': "(case (static_range lhs s2, static_range rhs s2) of
               (Some left, Some right) \<Rightarrow> Inr (product_fits type left right, s2)
             | _ \<Rightarrow> Inr (False, s2)) = (Inr (always, s') :: core_error + bool \<times> builder)"
    using run unfolding product_always_fits_def by auto
  have "s2 = s'" using e' by (simp split: option.splits)
  note r = r' [unfolded this] and e = e' [unfolded this]
  obtain \<tau> where \<tau>: "good \<tau> s'" "grows \<sigma> s \<tau> s'" "known s' lhs" "expr_value \<tau> lhs = val a"
    "known s' rhs" "expr_value \<tau> rhs = val b"
    using read_two [OF l r t good] .
  have "is_representable type (val a * val b)" if fits: always
  proof -
    obtain l h k m where "static_range lhs s' = Some (l, h)" "static_range rhs s' = Some (k, m)"
      and "product_fits type (l, h) (k, m)"
      using e fits by (auto split: option.splits)
    then show ?thesis
      using product_fits_sound [OF _ typed_supported [OF t(1)]] static_range_sound [OF _ \<tau>(1)] \<tau> by metis
  qed
  then show ?thesis using \<tau>(1,2) True by blast
qed

text \<open>Comparisons of two expressions.\<close>

lemma truth_comparison_states:
  assumes "truth_comparison op held d e s = Inr s'" and "is_comparison op"
    and "good \<sigma> s" and "known s d" and "known s e"
    and "(prim_value op type [expr_value \<sigma> d, expr_value \<sigma> e] \<noteq> 0) = held"
  shows "states \<sigma> s s'"
  using assms
  by (cases op; cases held)
    (auto simp: truth_comparison_def truth_value_def elim!: before_states equal_states differ_states split: if_splits)

definition truth_spec :: "(builder \<Rightarrow> core_error + builder) \<Rightarrow> bool" where
  "truth_spec state \<longleftrightarrow>
     (\<forall>s s' \<sigma>. state s = Inr s' \<longrightarrow> good \<sigma> s \<longrightarrow> (\<exists>\<tau>. good \<tau> s' \<and> grows \<sigma> s \<tau> s'))"

lemma truth_specI:
  "(\<And>s s' \<sigma>. state s = Inr s' \<Longrightarrow> good \<sigma> s \<Longrightarrow> \<exists>\<tau>. good \<tau> s' \<and> grows \<sigma> s \<tau> s') \<Longrightarrow> truth_spec state"
  by (simp add: truth_spec_def)

lemma truth_specE:
  assumes "truth_spec state" and "state s = Inr s'" and "good \<sigma> s"
  obtains \<tau> where "good \<tau> s'" and "grows \<sigma> s \<tau> s'"
  using assms unfolding truth_spec_def by blast

lemma truth_boolean_spec:
  assumes "typed c kBoolean" and "(val c \<noteq> 0) = held"
  shows "truth_spec (truth_boolean \<Gamma> L limits c held)"
proof (rule truth_specI)
  fix s s' \<sigma> assume run: "truth_boolean \<Gamma> L limits c held s = Inr s'" and good: "good \<sigma> s"
  obtain e s1 where e: "read_value \<Gamma> L limits c kBoolean s = Inr (e, s1)"
    and eq: "equal e (constant_expression (if held then 1 else 0)) s1 = Inr s'"
    using run unfolding truth_boolean_def by auto
  obtain \<tau> where \<tau>: "good \<tau> s1" "grows \<sigma> s \<tau> s1" "known s1 e" "expr_value \<tau> e = val c"
    using read_value_good [OF e assms(1) good] .
  have "val c = (if held then 1 else 0)"
    using assms typed_representable [OF assms(1)] by (auto simp: kBoolean_representable)
  then have "states \<tau> s1 s'" using \<tau> by (intro equal_states [OF eq]) simp_all
  then show "\<exists>\<tau>. good \<tau> s' \<and> grows \<sigma> s \<tau> s'" using \<tau>(2) states_good states_grows grows_trans by blast
qed

lemma truth_representability_spec:
  assumes op: "is_representability op" and t: "typed a type" "typed b type"
    and held: "(val (Prim op type [a, b]) \<noteq> 0) = held"
  shows "truth_spec (truth_representability \<Gamma> L limits op type a b held)"
proof (rule truth_specI)
  fix s s' \<sigma> assume run: "truth_representability \<Gamma> L limits op type a b held s = Inr s'" and good: "good \<sigma> s"
  have not: "op \<noteq> Convert" "op \<noteq> NotOp" "op \<noteq> Select" using op by (auto simp: is_representability_def)
  note supported = typed_supported [OF t(1)]
  have fits: "is_representable type (exact_result op (val a) (val b)) = held"
    using held op by (simp add: val_prim representability_value)
  obtain r s1 where r: "unbounded \<Gamma> L limits op type a b s = Inr (r, s1)"
    using run by (auto simp: truth_representability_def)
  obtain \<tau> where \<tau>: "good \<tau> s1" "grows \<sigma> s \<tau> s1"
    "\<And>e. r = Some e \<Longrightarrow> known s1 e \<and> expr_value \<tau> e = exact_result op (val a) (val b)"
    using unbounded_good [OF r t good] by blast
  show "\<exists>\<tau>. good \<tau> s' \<and> grows \<sigma> s \<tau> s'"
  proof (cases r)
    case (Some e)
    then have e: "(if held then bound e type s1 else outside e type s1) = Inr s'"
      using run r by (simp add: truth_representability_def)
    have "states \<tau> s1 s'"
    proof (cases held)
      case True
      then show ?thesis
        using e \<tau>(1) \<tau>(3) [OF Some] fits supported by (intro bound_states [of e]) (auto simp: representable_iff_bounds)
    next
      case False
      then show ?thesis
        using e \<tau>(1) \<tau>(3) [OF Some] fits supported by (intro outside_states [of e]) (auto simp: representable_iff_bounds)
    qed
    then show ?thesis using \<tau>(2) states_good states_grows grows_trans by blast
  next
    case None
    then obtain always s2 where al: "product_always_fits \<Gamma> L limits op type a b s1 = Inr (always, s2)"
      and rest: "(if always then (if held then Inr s2 else falsehood s2)
             else truth_boolean \<Gamma> L limits (Prim op type [a, b]) held s2) = Inr s'"
      using run r by (auto simp: truth_representability_def)
    obtain \<upsilon> where \<upsilon>: "good \<upsilon> s2" "grows \<tau> s1 \<upsilon> s2"
      "always \<longrightarrow> op = MulFits \<and> is_representable type (val a * val b)"
      using product_always_fits_good [OF al t \<tau>(1)] by blast
    note so_far = grows_trans [OF \<tau>(2) \<upsilon>(2)]
    show ?thesis
    proof (cases always)
      case True
      then have held using fits \<upsilon>(3) by (simp add: exact_result_def)
      then show ?thesis using rest True \<upsilon>(1) so_far by auto
    next
      case False
      have "typed (Prim op type [a, b]) kBoolean"
        using typed_binary [OF not] t op by (simp add: result_type_def)
      then have "truth_spec (truth_boolean \<Gamma> L limits (Prim op type [a, b]) held)"
        using held by (rule truth_boolean_spec)
      then show ?thesis
        using rest False \<upsilon>(1) so_far by (auto elim!: truth_specE intro: grows_trans)
    qed
  qed
qed

lemma truth_prim_spec:
  assumes c: "typed (Prim op type [a, b]) kBoolean" "(val (Prim op type [a, b]) \<noteq> 0) = held"
  shows "truth_spec (truth \<Gamma> L limits (Prim op type [a, b]) held)"
proof -
  consider "is_comparison op" | "\<not> is_comparison op" "is_representability op"
    | "\<not> is_comparison op" "\<not> is_representability op" by blast
  then show ?thesis
  proof cases
    case 1
    then have "op \<noteq> Convert" "op \<noteq> NotOp" "op \<noteq> Select" by auto
    then have t: "typed a type" "typed b type" using c(1) typed_binary by auto
    show ?thesis
    proof (rule truth_specI)
      fix s s' \<sigma> assume run: "truth \<Gamma> L limits (Prim op type [a, b]) held s = Inr s'" and good: "good \<sigma> s"
      obtain lhs s1 rhs s2 where l: "read_value \<Gamma> L limits a type s = Inr (lhs, s1)"
        and r: "read_value \<Gamma> L limits b type s1 = Inr (rhs, s2)"
        and e: "truth_comparison op held lhs rhs s2 = Inr s'"
        using run 1 by auto
      obtain \<tau> where \<tau>: "good \<tau> s2" "grows \<sigma> s \<tau> s2" "known s2 lhs" "expr_value \<tau> lhs = val a"
        "known s2 rhs" "expr_value \<tau> rhs = val b"
        using read_two [OF l r t good] .
      have "states \<tau> s2 s'"
        using truth_comparison_states [OF e 1 \<tau>(1,3,5), of type] c(2) \<tau>(4,6) by (simp add: val_prim)
      then show "\<exists>\<tau>. good \<tau> s' \<and> grows \<sigma> s \<tau> s'" using \<tau>(2) states_good states_grows grows_trans by blast
    qed
  next
    case 2
    then have "op \<noteq> Convert" "op \<noteq> NotOp" "op \<noteq> Select" by (auto simp: is_representability_def)
    then have t: "typed a type" "typed b type" using c(1) typed_binary by auto
    have "truth \<Gamma> L limits (Prim op type [a, b]) held = truth_representability \<Gamma> L limits op type a b held"
      using 2 by (intro ext) simp
    then show ?thesis using truth_representability_spec [OF 2(2) t c(2)] by simp
  next
    case 3
    have "truth \<Gamma> L limits (Prim op type [a, b]) held = truth_boolean \<Gamma> L limits (Prim op type [a, b]) held"
      using 3 by (intro ext) simp
    then show ?thesis using truth_boolean_spec [OF c] by simp
  qed
qed

lemma truth_cases:
  obtains (lit) type v where "t = Literal type v" | (negation) type a where "t = Prim NotOp type [a]"
  | (binary) op type a b where "t = Prim op type [a, b]"
  | (other) "\<And>held. truth \<Gamma> L limits t held = truth_boolean \<Gamma> L limits t held"
proof (cases t rule: negate.cases)
  case (2 op type a)
  have "op \<noteq> NotOp \<Longrightarrow> truth \<Gamma> L limits t held = truth_boolean \<Gamma> L limits t held" for held
    using 2 by (intro ext) simp
  then show thesis using that(2,4) 2 by blast
next
  case "3_4"
  then obtain op type a b ts where t: "t = Prim op type (a # b # ts)" by blast
  have "ts \<noteq> [] \<Longrightarrow> truth \<Gamma> L limits t held = truth_boolean \<Gamma> L limits t held" for held
    using t by (intro ext) (cases ts; simp)
  then show thesis using that(3,4) t by blast
qed (use that in \<open>auto intro!: that(4) ext\<close>)

lemma truth_sound:
  "typed t kBoolean \<Longrightarrow> (val t \<noteq> 0) = held \<Longrightarrow> truth_spec (truth \<Gamma> L limits t held)"
proof (induction t arbitrary: held rule: measure_induct_rule [where f = size])
  case (less t)
  show ?case
  proof (cases t rule: truth_cases [where limits = limits])
    case (lit type v)
    then show ?thesis using less.prems(2) by (auto simp: truth_spec_def val_literal)
  next
    case (negation type a)
    then have "typed a kBoolean" "(val a \<noteq> 0) = (\<not> held)"
      using less.prems typed_not [of type a kBoolean] by (auto simp: val_prim)
    then have "truth_spec (truth \<Gamma> L limits a (\<not> held))" using less.IH negation by simp
    moreover have "truth \<Gamma> L limits t held = truth \<Gamma> L limits a (\<not> held)"
      using negation by (intro ext) simp
    ultimately show ?thesis by simp
  next
    case (binary op type a b)
    then show ?thesis using truth_prim_spec less.prems by blast
  next
    case other
    then show ?thesis using truth_boolean_spec [OF less.prems] by simp
  qed
qed

section \<open>The system of an arithmetic step\<close>

text \<open>An equality of two sides of the type, stated or refuted according to what \<open>relate\<close> adds.\<close>

lemma state_equality_spec:
  assumes t: "typed lhs type" "typed rhs type"
    and boolean: "\<And>v t. type = kBoolean \<Longrightarrow> v = val lhs \<and> val t = val rhs \<or> v = val rhs \<and> val t = val lhs \<Longrightarrow>
      is_representable kBoolean v \<Longrightarrow> is_representable kBoolean (val t) \<Longrightarrow> (val t \<noteq> 0) = literal_holds v"
    and relate: "\<And>s d e s' \<sigma>. relate d e s = Inr s' \<Longrightarrow> good \<sigma> s \<Longrightarrow> known s d \<Longrightarrow> known s e \<Longrightarrow>
      expr_value \<sigma> d = val lhs \<Longrightarrow> expr_value \<sigma> e = val rhs \<Longrightarrow> states \<sigma> s s'"
  shows "truth_spec (state_equality \<Gamma> L limits type lhs rhs literal_holds relate)"
proof -
  have sides: "truth_spec (read_sides \<Gamma> L limits type lhs rhs relate)"
  proof (rule truth_specI)
    fix s s' \<sigma> assume run: "read_sides \<Gamma> L limits type lhs rhs relate s = Inr s'" and good: "good \<sigma> s"
    obtain d s1 e s2 where l: "read_value \<Gamma> L limits lhs type s = Inr (d, s1)"
      and r: "read_value \<Gamma> L limits rhs type s1 = Inr (e, s2)" and rel: "relate d e s2 = Inr s'"
      using run by (auto simp: read_sides_def)
    obtain \<tau> where \<tau>: "good \<tau> s2" "grows \<sigma> s \<tau> s2" "known s2 d" "expr_value \<tau> d = val lhs"
      "known s2 e" "expr_value \<tau> e = val rhs"
      using read_two [OF l r t good] .
    then have "states \<tau> s2 s'" using relate [OF rel] by simp
    then show "\<exists>\<tau>. good \<tau> s' \<and> grows \<sigma> s \<tau> s'" using \<tau>(2) states_good states_grows grows_trans by blast
  qed
  show ?thesis
  proof (rule truth_specI)
    fix s s' \<sigma> assume run: "state_equality \<Gamma> L limits type lhs rhs literal_holds relate s = Inr s'"
      and good: "good \<sigma> s"
    show "\<exists>\<tau>. good \<tau> s' \<and> grows \<sigma> s \<tau> s'"
    proof (cases "type = kBoolean")
      case False
      then have "read_sides \<Gamma> L limits type lhs rhs relate s = Inr s'"
        using run by (simp add: state_equality_def)
      from truth_specE [OF sides this good] show ?thesis by blast
    next
      case True
      obtain l r where n: "normalize \<Gamma> lhs limits = Inr l" "normalize \<Gamma> rhs limits = Inr r"
        and rest: "(case (literal_payload r, literal_payload l) of
               (Some v, _) \<Rightarrow> truth \<Gamma> L limits l (literal_holds v) s
             | (None, Some v) \<Rightarrow> truth \<Gamma> L limits r (literal_holds v) s
             | (None, None) \<Rightarrow> read_sides \<Gamma> L limits type lhs rhs relate s) = Inr s'"
        using run True by (auto simp: state_equality_def)
      have l: "typed l type" "val l = val lhs" and r: "typed r type" "val r = val rhs"
        using normal_form [OF n(1) t(1)] normal_form [OF n(2) t(2)] by simp_all
      have payload: "v = val t \<and> is_representable kBoolean (val t)"
        if "literal_payload t = Some v" "typed t type" for t v
        using that True by (auto simp: literal_payload_Some typed_literal val_literal)
      have "truth_spec (truth \<Gamma> L limits l (literal_holds v))" if "literal_payload r = Some v" for v
        using l r payload [OF that r(1)] True boolean typed_representable [OF l(1)] by (intro truth_sound) auto
      moreover have "truth_spec (truth \<Gamma> L limits r (literal_holds v))" if "literal_payload l = Some v" for v
        using l r payload [OF that l(1)] True boolean typed_representable [OF r(1)] by (intro truth_sound) auto
      ultimately obtain state where "truth_spec state" "state s = Inr s'"
        using rest sides by (cases "literal_payload r"; cases "literal_payload l") auto
      from truth_specE [OF this good] show ?thesis by blast
    qed
  qed
qed

fun states_truth :: "kprop \<Rightarrow> bool" where
  "states_truth (Eq (Int_Type type) lhs rhs) \<longleftrightarrow> typed lhs type \<and> typed rhs type \<and> val lhs = val rhs"
| "states_truth p \<longleftrightarrow> True"

fun states_falsehood :: "kprop \<Rightarrow> bool" where
  "states_falsehood (Eq (Int_Type type) lhs rhs) \<longleftrightarrow> typed lhs type \<and> typed rhs type \<and> val lhs \<noteq> val rhs"
| "states_falsehood p \<longleftrightarrow> True"

lemma fact_spec: "states_truth p \<Longrightarrow> truth_spec (fact \<Gamma> L limits p)"
proof (induction p rule: states_truth.induct)
  case (1 type lhs rhs)
  have "truth_spec (state_equality \<Gamma> L limits type lhs rhs (\<lambda>v. v \<noteq> 0) equal)"
    using 1 by (intro state_equality_spec) (auto intro: equal_states)
  moreover have "fact \<Gamma> L limits (Eq (Int_Type type) lhs rhs) =
      state_equality \<Gamma> L limits type lhs rhs (\<lambda>v. v \<noteq> 0) equal" by (intro ext) simp
  ultimately show ?case by simp
qed (simp_all add: truth_spec_def)

lemma refuted_spec: "states_falsehood p \<Longrightarrow> truth_spec (refuted \<Gamma> L limits p)"
proof (induction p rule: states_falsehood.induct)
  case (1 type lhs rhs)
  have "truth_spec (state_equality \<Gamma> L limits type lhs rhs (\<lambda>v. v = 0) differ)"
    using 1 by (intro state_equality_spec) (auto simp: kBoolean_representable intro: differ_states)
  moreover have "refuted \<Gamma> L limits (Eq (Int_Type type) lhs rhs) =
      state_equality \<Gamma> L limits type lhs rhs (\<lambda>v. v = 0) differ" by (intro ext) simp
  ultimately show ?case by simp
qed (auto simp: truth_spec_def)

lemma add_facts_spec: "\<forall>p \<in> set ps. states_truth p \<Longrightarrow> truth_spec (add_facts \<Gamma> L limits ps)"
proof (induction ps)
  case Nil
  show ?case by (auto simp: truth_spec_def)
next
  case (Cons p ps)
  show ?case
  proof (rule truth_specI)
    fix s s' \<sigma> assume run: "add_facts \<Gamma> L limits (p # ps) s = Inr s'" and good: "good \<sigma> s"
    then obtain s1 where s1: "fact \<Gamma> L limits p s = Inr s1" "add_facts \<Gamma> L limits ps s1 = Inr s'" by auto
    obtain \<tau> where \<tau>: "good \<tau> s1" "grows \<sigma> s \<tau> s1"
      using truth_specE [OF fact_spec s1(1) good] Cons.prems by auto
    obtain \<upsilon> where "good \<upsilon> s'" "grows \<tau> s1 \<upsilon> s'"
      using truth_specE [OF Cons.IH s1(2) \<tau>(1)] Cons.prems by auto
    then show "\<exists>\<tau>. good \<tau> s' \<and> grows \<sigma> s \<tau> s'" using \<tau>(2) grows_trans by blast
  qed
qed

lemma arithmetic_system_solved:
  assumes run: "arithmetic_system_of \<Gamma> facts goal limits L = Inr sys"
    and facts: "\<forall>p \<in> set facts. states_truth p" and goal: "states_falsehood goal"
  shows "\<exists>\<sigma>. solves \<sigma> sys"
proof -
  obtain s s' where s: "add_facts \<Gamma> L limits facts empty_builder = Inr s"
    and s': "refuted \<Gamma> L limits goal s = Inr s'" and sys: "sys = system s'"
    using run by (auto simp: arithmetic_system_of_def split: if_splits)
  obtain \<tau> where "good \<tau> s" using truth_specE [OF add_facts_spec [OF facts] s good_empty] by blast
  then obtain \<upsilon> where "good \<upsilon> s'" using truth_specE [OF refuted_spec [OF goal] s'] by blast
  then show ?thesis using sys good_solves by blast
qed

end

section \<open>The kernel's terms\<close>

interpretation kernel_arithmetic:
  arithmetic_reading "reads S \<Gamma> L env" "typed_at S \<Gamma> L env" "number_at S \<Gamma> env" \<Gamma> L
  for S :: "'u kmodel" and \<Gamma> L env
proof
  fix t limits u type assume "normalize \<Gamma> t limits = Inr u" "typed_at S \<Gamma> L env t type"
  moreover from this(2) have "reads S \<Gamma> L env" "has_type \<Gamma> L t (Int_Type type)" by (simp_all add: typed_at_def)
  ultimately show "typed_at S \<Gamma> L env u type \<and> number_at S \<Gamma> env u = number_at S \<Gamma> env t"
    using normalize_sound by (fastforce simp: means_def typed_at_def number_at_def)
next
  fix t limits type assume "type_of \<Gamma> L t limits = Inr (Int_Type type)" "reads S \<Gamma> L env"
  then show "typed_at S \<Gamma> L env t type" by (auto simp: typed_at_def dest: type_of_sound)
next
  fix op type ts
  show "number_at S \<Gamma> env (Prim op type ts) = prim_value op type (map (number_at S \<Gamma> env) ts)"
    by (simp add: number_at_def [abs_def])
next
  fix op type' a b type assume "op \<noteq> Convert" "op \<noteq> NotOp" "op \<noteq> Select"
  then show "typed_at S \<Gamma> L env (Prim op type' [a, b]) type \<longleftrightarrow>
      result_type op type' = Int_Type type \<and> typed_at S \<Gamma> L env a type' \<and> typed_at S \<Gamma> L env b type'"
    using has_type_supported_int by (auto simp: typed_at_def has_type_binary)
next
  fix type' a type assume "typed_at S \<Gamma> L env (Prim Convert type' [a]) type"
  then show "type' = type" by (auto simp: typed_at_def dest: has_type_convert)
next
  fix type' a type assume "typed_at S \<Gamma> L env (Prim NotOp type' [a]) type"
  then show "type = kBoolean \<and> typed_at S \<Gamma> L env a kBoolean" by (auto simp: typed_at_def dest: has_type_not)
qed

lemma number_at_eq:
  assumes "reads S \<Gamma> L env" and "has_type \<Gamma> L t (Int_Type type)" and "has_type \<Gamma> L u (Int_Type type)"
  shows "number_at S \<Gamma> env t = number_at S \<Gamma> env u \<longleftrightarrow> value_at S \<Gamma> env t = value_at S \<Gamma> env u"
  using reads_int [OF assms(1,2)] reads_int [OF assms(1,3)] by (auto simp: number_at_def)

text \<open>
  Where the facts hold and the goal does not, the system has a solution; a refuted system leaves
  no such structure.
\<close>

lemma linear_arithmetic_solved:
  assumes r: "reads S \<Gamma> L env" and system: "arithmetic_system_of \<Gamma> facts goal limits L = Inr sys"
    and facts: "\<forall>p \<in> set facts. wf_prop \<Gamma> L p \<and> holds S (functions_of S \<Gamma>) env p"
    and goal: "wf_prop \<Gamma> L goal" and not: "\<not> holds S (functions_of S \<Gamma>) env goal"
  shows "\<exists>\<sigma>. solves \<sigma> sys"
proof -
  have "arithmetic_reading.states_truth (typed_at S \<Gamma> L env) (number_at S \<Gamma> env) p" if "p \<in> set facts" for p
    using bspec [OF facts that] r
    by (cases p rule: kernel_arithmetic.states_truth.cases) (auto simp: typed_at_def number_at_eq)
  moreover have "arithmetic_reading.states_falsehood (typed_at S \<Gamma> L env) (number_at S \<Gamma> env) goal"
    using goal not r
    by (cases goal rule: kernel_arithmetic.states_falsehood.cases) (auto simp: typed_at_def number_at_eq)
  ultimately show ?thesis using kernel_arithmetic.arithmetic_system_solved [OF system] by blast
qed

lemma linear_arithmetic_sound:
  assumes "reads S \<Gamma> L env" and "arithmetic_system_of \<Gamma> facts goal limits L = Inr sys"
    and "refutes sys certificate limits' = Inr ()"
    and "\<forall>p \<in> set facts. wf_prop \<Gamma> L p \<and> holds S (functions_of S \<Gamma>) env p" and "wf_prop \<Gamma> L goal"
  shows "holds S (functions_of S \<Gamma>) env goal"
  using linear_arithmetic_solved [OF assms(1,2,4,5)] refutes_sound [OF assms(3)] by blast

end
