(* ===== verification/Soundness.thy ===== *)
theory Soundness
  imports System_Facts Kernel_Check
begin

text \<open>
  The proof checker is sound: what it accepts holds in every structure that respects the
  signatures, in every context \<open>Context::define\<close> admits. Each rule keeps soundness; the checker
  is sound by induction on the proof term.
\<close>

section \<open>Valid propositions\<close>

abbreviation depth_of :: "core_limits \<Rightarrow> nat" where
  "depth_of limits \<equiv> unat (max_term_depth limits)"

lemma depth_of_less: "depth_of limits < max_binders"
  using unsigned_less [of "max_term_depth limits"] by simp

lemma validate_side_sound: "validate_side \<Gamma> L limits type t = Inr u \<Longrightarrow> has_type \<Gamma> L t type"
  by (auto simp: validate_side_def dest: type_of_sound)

lemma validate_proposition_sound:
  "validate_proposition \<Gamma> L p limits depth = Inr u \<Longrightarrow>
     wf_prop \<Gamma> L p \<and> depth + binder_depth p \<le> depth_of limits"
proof (induction \<Gamma> L p limits depth arbitrary: u rule: validate_proposition.induct)
  case (1 \<Gamma> L \<tau> p limits depth)
  then show ?case by fastforce
next
  case (2 \<Gamma> L p q limits depth)
  then show ?case by fastforce
next
  case (3 \<Gamma> L p q limits depth)
  then show ?case by fastforce
next
  case (4 \<Gamma> L p q limits depth)
  then show ?case by fastforce
next
  case (6 \<Gamma> L type lhs rhs limits depth)
  then show ?case by (auto dest: validate_side_sound)
qed simp

section \<open>Sound checkers\<close>

text \<open>A premise holds where it was supposed, and the binders around it are still the outermost.\<close>

definition supposed :: "'u kmodel \<Rightarrow> kcontext \<Rightarrow> ktype list \<Rightarrow> 'u kvalue list \<Rightarrow> assumption \<Rightarrow> bool" where
  "supposed S \<Gamma> L env a \<longleftrightarrow>
     binders a \<le> length L \<and> wf_prop \<Gamma> (take (binders a) L) (assumed a) \<and>
     holds S (functions_of S \<Gamma>) (take (binders a) env) (assumed a)"

text \<open>What a checker may be asked: a well-formed goal whose binders the limits leave room for.\<close>

definition askable :: "kcontext \<Rightarrow> core_limits \<Rightarrow> nat \<Rightarrow> ktype list \<Rightarrow> kprop \<Rightarrow> bool" where
  "askable \<Gamma> limits depth L goal \<longleftrightarrow>
     wf_prop \<Gamma> L goal \<and> length L \<le> depth \<and> length L + binder_depth goal \<le> depth_of limits"

definition sound_at :: "'u kmodel \<Rightarrow> kcontext \<Rightarrow> core_limits \<Rightarrow> nat \<Rightarrow> subchecker \<Rightarrow> bool" where
  "sound_at S \<Gamma> limits depth checker \<longleftrightarrow>
     (\<forall>L A goal env. checker L A goal = Inr () \<longrightarrow> askable \<Gamma> limits depth L goal \<longrightarrow> reads S \<Gamma> L env \<longrightarrow>
        (\<forall>a \<in> set A. supposed S \<Gamma> L env a) \<longrightarrow> holds S (functions_of S \<Gamma>) env goal)"

lemma sound_atI:
  "(\<And>L A goal env. checker L A goal = Inr () \<Longrightarrow> askable \<Gamma> limits depth L goal \<Longrightarrow> reads S \<Gamma> L env \<Longrightarrow>
      \<forall>a \<in> set A. supposed S \<Gamma> L env a \<Longrightarrow> holds S (functions_of S \<Gamma>) env goal) \<Longrightarrow>
     sound_at S \<Gamma> limits depth checker"
  by (simp add: sound_at_def)

lemma sound_atD:
  "sound_at S \<Gamma> limits depth checker \<Longrightarrow> checker L A goal = Inr u \<Longrightarrow> askable \<Gamma> limits depth L goal \<Longrightarrow>
     reads S \<Gamma> L env \<Longrightarrow> \<forall>a \<in> set A. supposed S \<Gamma> L env a \<Longrightarrow> holds S (functions_of S \<Gamma>) env goal"
  by (simp add: sound_at_def)

lemma askable_Suc: "askable \<Gamma> limits depth L goal \<Longrightarrow> askable \<Gamma> limits (Suc depth) L goal"
  by (simp add: askable_def)

lemma askable_connective:
  "askable \<Gamma> limits depth L (Implies p q) \<longleftrightarrow> askable \<Gamma> limits depth L p \<and> askable \<Gamma> limits depth L q"
  "askable \<Gamma> limits depth L (And p q) \<longleftrightarrow> askable \<Gamma> limits depth L p \<and> askable \<Gamma> limits depth L q"
  "askable \<Gamma> limits depth L (Or p q) \<longleftrightarrow> askable \<Gamma> limits depth L p \<and> askable \<Gamma> limits depth L q"
  by (auto simp: askable_def)

lemma askable_valid:
  "validate_proposition \<Gamma> L p limits (Suc depth) = Inr u \<Longrightarrow> length L \<le> depth \<Longrightarrow>
     askable \<Gamma> limits (Suc depth) L p"
  using validate_proposition_sound [of \<Gamma> L p limits "Suc depth" u] by (simp add: askable_def)

lemma askable_depth: "askable \<Gamma> limits depth L goal \<Longrightarrow> length L \<le> depth"
  by (simp add: askable_def)

lemma reads_length: "reads S \<Gamma> L env \<Longrightarrow> length env = length L"
  by (auto simp: reads_def list_all2_lengthD)

lemma reads_snoc: "reads S \<Gamma> L env \<Longrightarrow> in_type S \<tau> v \<Longrightarrow> reads S \<Gamma> (L @ [\<tau>]) (env @ [v])"
  by (auto simp: reads_def list_all2_appendI)

lemma supposed_snoc:
  "supposed S \<Gamma> L env a \<Longrightarrow> length env = length L \<Longrightarrow> supposed S \<Gamma> (L @ [\<tau>]) (env @ [v]) a"
  by (simp add: supposed_def)

text \<open>A motive with one more binder, at a term of the binder's type.\<close>

lemma askable_motive:
  assumes "validate_proposition \<Gamma> (L @ [\<sigma>]) motive limits (Suc depth) = Inr u" and "length L \<le> depth"
    and "has_type \<Gamma> L t \<sigma>"
  shows "askable \<Gamma> limits (Suc depth) L (instantiate_prop motive t 0)"
    and "length env = length L \<Longrightarrow> holds S (functions_of S \<Gamma>) env (instantiate_prop motive t 0) \<longleftrightarrow>
      holds S (functions_of S \<Gamma>) (env @ [value_at S \<Gamma> env t]) motive"
proof -
  have m: "wf_prop \<Gamma> (L @ [\<sigma>]) motive" "Suc depth + binder_depth motive \<le> depth_of limits"
    using validate_proposition_sound [OF assms(1)] by simp_all
  then have b: "length L + binder_depth motive \<le> max_binders"
    using assms(2) depth_of_less [of limits] by linarith
  show "askable \<Gamma> limits (Suc depth) L (instantiate_prop motive t 0)"
    using wf_prop_instantiate_0 [OF m(1) assms(3) b] m(2) assms(2) by (simp add: askable_def)
  show "length env = length L \<Longrightarrow> holds S (functions_of S \<Gamma>) env (instantiate_prop motive t 0) \<longleftrightarrow>
      holds S (functions_of S \<Gamma>) (env @ [value_at S \<Gamma> env t]) motive"
    by (rule holds_instantiate_0 [OF m(1) assms(3) _ b])
qed

section \<open>Rules\<close>

lemma proof_depth_sound: "sound_at S \<Gamma> limits depth rule \<Longrightarrow> sound_at S \<Gamma> limits depth (proof_depth limits depth rule)"
  by (auto simp: sound_at_def proof_depth_def)

lemma conditional_rule_sound:
  assumes p: "sound_at S \<Gamma> limits (Suc depth) p" and q: "sound_at S \<Gamma> limits (Suc depth) q"
  shows "sound_at S \<Gamma> limits depth (conditional_rule \<Gamma> limits depth type c a b motive p q)"
proof (rule sound_atI)
  fix L A goal env
  assume run: "conditional_rule \<Gamma> limits depth type c a b motive p q L A goal = Inr ()"
    and ask: "askable \<Gamma> limits depth L goal" and r: "reads S \<Gamma> L env" and A: "\<forall>h \<in> set A. supposed S \<Gamma> L env h"
  have "\<exists>it. type = Int_Type it" using run by (cases type) (simp_all add: conditional_rule_def)
  then obtain it where it: "type = Int_Type it" by blast
  let ?selected = "Prim Select it [c, a, b]"
  from run it have ty: "type_of \<Gamma> L ?selected limits = Inr type"
    and motive: "validate_proposition \<Gamma> (L @ [type]) motive limits (Suc depth) = Inr ()"
    and goal: "instantiate_prop motive ?selected 0 = goal"
    and left: "p L A (Implies (predicate c True) (instantiate_prop motive a 0)) = Inr ()"
    and right: "q L A (Implies (predicate c False) (instantiate_prop motive b 0)) = Inr ()"
    by (simp_all add: conditional_rule_def Let_def)
  have sel: "has_type \<Gamma> L ?selected type" by (rule type_of_sound [OF ty])
  then have t: "has_type \<Gamma> L c (Int_Type kBoolean)" "has_type \<Gamma> L a type" "has_type \<Gamma> L b type"
    using has_type_select [OF sel [unfolded it]] it by simp_all
  note L = askable_depth [OF ask] and n = reads_length [OF r]
  have ask_case: "askable \<Gamma> limits (Suc depth) L (Implies (predicate c pos) (instantiate_prop motive t 0))"
    if "has_type \<Gamma> L t type" for t pos
    using askable_motive(1) [OF motive L that] wf_predicate [OF t(1)] by (simp add: askable_def)
  have cases: "holds S (functions_of S \<Gamma>) env (Implies (predicate c True) (instantiate_prop motive a 0))"
    "holds S (functions_of S \<Gamma>) env (Implies (predicate c False) (instantiate_prop motive b 0))"
    using sound_atD [OF p left ask_case [OF t(2)] r A] sound_atD [OF q right ask_case [OF t(3)] r A] .
  obtain k where k: "value_at S \<Gamma> env c = IntV k" "k = 0 \<or> k = 1" using reads_bool [OF r t(1)] by auto
  have motives: "holds S (functions_of S \<Gamma>) env (instantiate_prop motive t 0) \<longleftrightarrow>
      holds S (functions_of S \<Gamma>) (env @ [value_at S \<Gamma> env t]) motive" if "has_type \<Gamma> L t type" for t
    by (rule askable_motive(2) [OF motive L that n])
  obtain m m' where "value_at S \<Gamma> env a = IntV m" "value_at S \<Gamma> env b = IntV m'"
    using reads_int [OF r] t(2,3) it by blast
  then have "value_at S \<Gamma> env ?selected = (if k = 0 then value_at S \<Gamma> env b else value_at S \<Gamma> env a)"
    using k by simp
  then show "holds S (functions_of S \<Gamma>) env goal"
    using cases k motives [OF sel] motives [OF t(2)] motives [OF t(3)] goal
    by (auto simp: holds_predicate [OF r t(1)])
qed

lemma check_facts_sound:
  assumes evidence: "\<forall>(p, e) \<in> set facts. sound_at S \<Gamma> limits (Suc depth) e"
    and run: "check_facts \<Gamma> limits depth facts L A = Inr ps" and L: "length L \<le> depth"
    and r: "reads S \<Gamma> L env" and A: "\<forall>h \<in> set A. supposed S \<Gamma> L env h"
  shows "\<forall>p \<in> set ps. wf_prop \<Gamma> L p \<and> holds S (functions_of S \<Gamma>) env p"
  using evidence run
proof (induction facts arbitrary: ps)
  case (Cons fact facts)
  obtain p e where f: "fact = (p, e)" by (cases fact)
  then obtain qs where v: "validate_proposition \<Gamma> L p limits (Suc depth) = Inr ()" and e: "e L A p = Inr ()"
    and qs: "check_facts \<Gamma> limits depth facts L A = Inr qs" and ps: "ps = p # qs"
    using Cons.prems(2) by auto
  have ask: "askable \<Gamma> limits (Suc depth) L p" by (rule askable_valid [OF v L])
  have "sound_at S \<Gamma> limits (Suc depth) e" using Cons.prems(1) f by simp
  from sound_atD [OF this e ask r A] ask have "wf_prop \<Gamma> L p \<and> holds S (functions_of S \<Gamma>) env p"
    by (simp add: askable_def)
  then show ?case using Cons.IH [OF _ qs] Cons.prems(1) ps by simp
qed simp

lemma case_refuted: "(case x of Inl e \<Rightarrow> Inl (f e) | Inr _ \<Rightarrow> Inr ()) = Inr u \<longleftrightarrow> x = Inr ()"
  by (cases x) simp_all

lemma arithmetic_rule_sound:
  assumes "\<forall>(p, e) \<in> set facts. sound_at S \<Gamma> limits (Suc depth) e"
  shows "sound_at S \<Gamma> limits depth (arithmetic_rule \<Gamma> limits depth facts certificate)"
proof (rule sound_atI)
  fix L A goal env
  assume run: "arithmetic_rule \<Gamma> limits depth facts certificate L A goal = Inr ()"
    and ask: "askable \<Gamma> limits depth L goal" and r: "reads S \<Gamma> L env" and A: "\<forall>h \<in> set A. supposed S \<Gamma> L env h"
  obtain ps sys where ps: "check_facts \<Gamma> limits depth facts L A = Inr ps"
    and sys: "arithmetic_system_of \<Gamma> ps goal limits L = Inr sys"
    and c: "refutes sys certificate limits = Inr ()"
    using run by (auto simp: arithmetic_rule_def case_refuted)
  show "holds S (functions_of S \<Gamma>) env goal"
    using linear_arithmetic_sound [OF r sys c check_facts_sound [OF assms ps askable_depth [OF ask] r A]] ask
    by (simp add: askable_def)
qed

lemma forall_elimination_sound:
  assumes p: "sound_at S \<Gamma> limits (Suc depth) p"
  shows "sound_at S \<Gamma> limits depth (forall_elimination \<Gamma> limits depth quantified argument p)"
proof (rule sound_atI)
  fix L A goal env
  assume run: "forall_elimination \<Gamma> limits depth quantified argument p L A goal = Inr ()"
    and ask: "askable \<Gamma> limits depth L goal" and r: "reads S \<Gamma> L env" and A: "\<forall>h \<in> set A. supposed S \<Gamma> L env h"
  have v: "validate_proposition \<Gamma> L quantified limits (Suc depth) = Inr ()"
    using run by (simp add: forall_elimination_def)
  have "\<exists>\<tau> q. quantified = Forall \<tau> q" using run by (cases quantified) (simp_all add: forall_elimination_def)
  then obtain \<tau> q where q: "quantified = Forall \<tau> q" by blast
  have e: "p L A quantified = Inr ()" and ty: "type_of \<Gamma> L argument limits = Inr \<tau>"
    and goal: "instantiate_prop q argument 0 = goal"
    using run q by (auto simp: forall_elimination_def)
  note ask_q = askable_valid [OF v askable_depth [OF ask]]
  have t: "has_type \<Gamma> L argument \<tau>" by (rule type_of_sound [OF ty])
  have "holds S (functions_of S \<Gamma>) env (Forall \<tau> q)" using sound_atD [OF p e ask_q r A] q by simp
  moreover have "in_type S \<tau> (value_at S \<Gamma> env argument)" by (rule reads_in_type [OF r t])
  ultimately have "holds S (functions_of S \<Gamma>) (env @ [value_at S \<Gamma> env argument]) q" by simp
  moreover have "wf_prop \<Gamma> (L @ [\<tau>]) q" "length L + binder_depth q \<le> max_binders"
    using ask_q q depth_of_less [of limits] by (auto simp: askable_def)
  ultimately show "holds S (functions_of S \<Gamma>) env goal"
    using holds_instantiate_0 [OF _ t reads_length [OF r]] goal by blast
qed

lemma implication_elimination_sound:
  assumes p: "sound_at S \<Gamma> limits (Suc depth) p" and q: "sound_at S \<Gamma> limits (Suc depth) q"
  shows "sound_at S \<Gamma> limits depth (implication_elimination \<Gamma> limits depth implication p q)"
proof (rule sound_atI)
  fix L A goal env
  assume run: "implication_elimination \<Gamma> limits depth implication p q L A goal = Inr ()"
    and ask: "askable \<Gamma> limits depth L goal" and r: "reads S \<Gamma> L env" and A: "\<forall>h \<in> set A. supposed S \<Gamma> L env h"
  have v: "validate_proposition \<Gamma> L implication limits (Suc depth) = Inr ()"
    using run by (simp add: implication_elimination_def)
  have "\<exists>a b. implication = Implies a b"
    using run by (cases implication) (simp_all add: implication_elimination_def)
  then obtain a b where i: "implication = Implies a b" by blast
  have e: "p L A implication = Inr ()" "q L A a = Inr ()" "b = goal"
    using run i by (auto simp: implication_elimination_def)
  note ask_i = askable_valid [OF v askable_depth [OF ask]]
  then have "askable \<Gamma> limits (Suc depth) L a" using i by (simp add: askable_connective)
  from sound_atD [OF p e(1) ask_i r A] sound_atD [OF q e(2) this r A]
  show "holds S (functions_of S \<Gamma>) env goal" using i e(3) by simp
qed

lemma conjunction_elimination_sound:
  assumes p: "sound_at S \<Gamma> limits (Suc depth) p"
  shows "sound_at S \<Gamma> limits depth (conjunction_elimination \<Gamma> limits depth conjunction right p)"
proof (rule sound_atI)
  fix L A goal env
  assume run: "conjunction_elimination \<Gamma> limits depth conjunction right p L A goal = Inr ()"
    and ask: "askable \<Gamma> limits depth L goal" and r: "reads S \<Gamma> L env" and A: "\<forall>h \<in> set A. supposed S \<Gamma> L env h"
  have v: "validate_proposition \<Gamma> L conjunction limits (Suc depth) = Inr ()"
    using run by (simp add: conjunction_elimination_def)
  have "\<exists>a b. conjunction = And a b"
    using run by (cases conjunction) (simp_all add: conjunction_elimination_def)
  then obtain a b where i: "conjunction = And a b" by blast
  have e: "p L A conjunction = Inr ()" "(if right then b else a) = goal"
    using run i by (auto simp: conjunction_elimination_def Let_def)
  from sound_atD [OF p e(1) askable_valid [OF v askable_depth [OF ask]] r A]
  show "holds S (functions_of S \<Gamma>) env goal" using i e(2) by auto
qed

lemma disjunction_elimination_sound:
  assumes p: "sound_at S \<Gamma> limits (Suc depth) p" and q1: "sound_at S \<Gamma> limits (Suc depth) q1"
    and q2: "sound_at S \<Gamma> limits (Suc depth) q2"
  shows "sound_at S \<Gamma> limits depth (disjunction_elimination \<Gamma> limits depth disjunction p q1 q2)"
proof (rule sound_atI)
  fix L A goal env
  assume run: "disjunction_elimination \<Gamma> limits depth disjunction p q1 q2 L A goal = Inr ()"
    and ask: "askable \<Gamma> limits depth L goal" and r: "reads S \<Gamma> L env" and A: "\<forall>h \<in> set A. supposed S \<Gamma> L env h"
  have v: "validate_proposition \<Gamma> L disjunction limits (Suc depth) = Inr ()"
    using run by (simp add: disjunction_elimination_def)
  have "\<exists>a b. disjunction = Or a b"
    using run by (cases disjunction) (simp_all add: disjunction_elimination_def)
  then obtain a b where i: "disjunction = Or a b" by blast
  have e: "p L A disjunction = Inr ()" "q1 L A (Implies a goal) = Inr ()" "q2 L A (Implies b goal) = Inr ()"
    using run i by (auto simp: disjunction_elimination_def)
  note ask_d = askable_valid [OF v askable_depth [OF ask]]
  then have "askable \<Gamma> limits (Suc depth) L (Implies a goal)" "askable \<Gamma> limits (Suc depth) L (Implies b goal)"
    using i askable_Suc [OF ask] by (simp_all add: askable_connective)
  from sound_atD [OF p e(1) ask_d r A] sound_atD [OF q1 e(2) this(1) r A] sound_atD [OF q2 e(3) this(2) r A]
  show "holds S (functions_of S \<Gamma>) env goal" using i by auto
qed

lemma equality_elimination_sound:
  assumes p: "sound_at S \<Gamma> limits (Suc depth) p" and q: "sound_at S \<Gamma> limits (Suc depth) q"
  shows "sound_at S \<Gamma> limits depth (equality_elimination \<Gamma> limits depth type lhs rhs motive p q)"
proof (rule sound_atI)
  fix L A goal env
  assume run: "equality_elimination \<Gamma> limits depth type lhs rhs motive p q L A goal = Inr ()"
    and ask: "askable \<Gamma> limits depth L goal" and r: "reads S \<Gamma> L env" and A: "\<forall>h \<in> set A. supposed S \<Gamma> L env h"
  from run have v: "validate_proposition \<Gamma> L (Eq type lhs rhs) limits (Suc depth) = Inr ()"
    and eq: "p L A (Eq type lhs rhs) = Inr ()"
    and motive: "validate_proposition \<Gamma> (L @ [type]) motive limits (Suc depth) = Inr ()"
    and ev: "q L A (instantiate_prop motive rhs 0) = Inr ()" and goal: "instantiate_prop motive lhs 0 = goal"
    by (auto simp: equality_elimination_def simp del: validate_proposition.simps)
  note L = askable_depth [OF ask] and n = reads_length [OF r]
  note ask_eq = askable_valid [OF v L]
  have t: "has_type \<Gamma> L lhs type" "has_type \<Gamma> L rhs type" using ask_eq by (simp_all add: askable_def)
  have "value_at S \<Gamma> env lhs = value_at S \<Gamma> env rhs" using sound_atD [OF p eq ask_eq r A] by simp
  moreover have "holds S (functions_of S \<Gamma>) env (instantiate_prop motive rhs 0)"
    by (rule sound_atD [OF q ev askable_motive(1) [OF motive L t(2)] r A])
  ultimately show "holds S (functions_of S \<Gamma>) env goal"
    using askable_motive(2) [OF motive L t(1) n] askable_motive(2) [OF motive L t(2) n] goal by auto
qed

text \<open>A hypothesis is raised over the binders introduced since it was supposed.\<close>

lemma hypothesis_rule_sound: "sound_at S \<Gamma> limits depth (hypothesis_rule index)"
proof (rule sound_atI)
  fix L A goal env
  assume run: "hypothesis_rule index L A goal = Inr ()"
    and ask: "askable \<Gamma> limits depth L goal" and r: "reads S \<Gamma> L env" and A: "\<forall>h \<in> set A. supposed S \<Gamma> L env h"
  let ?h = "A ! (length A - 1 - index)"
  let ?k = "binders ?h"
  let ?amount = "of_nat (length L) - of_nat ?k :: u32"
  from run have i: "index < length A" and goal: "shift_prop (assumed ?h) (unat ?amount) 0 = goal"
    by (auto simp: hypothesis_rule_def Let_def split: if_splits)
  then have h: "supposed S \<Gamma> L env ?h" using A by simp
  have k: "?k \<le> length L" using h by (simp add: supposed_def)
  have bound: "length L + binder_depth goal \<le> max_binders"
    using ask depth_of_less [of limits] by (auto simp: askable_def)
  have "length L < 2 ^ 32" using ask depth_of_less [of limits] by (auto simp: askable_def)
  then have "unat ?amount = length L - ?k"
    using k by (simp add: unat_sub_if' unat_of_nat take_bit_nat_eq_self)
  then have shift: "shift_prop (assumed ?h) (length (drop ?k env)) (length ([] :: 'a kvalue list)) = goal"
    using goal reads_length [OF r] by simp
  have "holds S (functions_of S \<Gamma>) (take ?k env @ drop ?k env @ []) goal \<longleftrightarrow>
      holds S (functions_of S \<Gamma>) (take ?k env @ []) (assumed ?h)"
    unfolding shift [symmetric]
  proof (rule holds_shift)
    show "wf_prop \<Gamma> (take ?k L @ []) (assumed ?h)" using h by (simp add: supposed_def)
    show "length (take ?k env) = length (take ?k L)" using reads_length [OF r] by simp
    have "binder_depth (assumed ?h) = binder_depth goal" unfolding shift [symmetric] by simp
    then show "length (take ?k env) + length (drop ?k env) + length ([] :: 'a kvalue list) + binder_depth (assumed ?h)
        \<le> max_binders"
      using bound reads_length [OF r] k by simp
  qed simp
  then show "holds S (functions_of S \<Gamma>) env goal" using h by (simp add: supposed_def)
qed

lemma forall_introduction_sound:
  assumes p: "sound_at S \<Gamma> limits (Suc depth) p"
  shows "sound_at S \<Gamma> limits depth (forall_introduction \<tau> p)"
proof (rule sound_atI)
  fix L A goal env
  assume run: "forall_introduction \<tau> p L A goal = Inr ()"
    and ask: "askable \<Gamma> limits depth L goal" and r: "reads S \<Gamma> L env" and A: "\<forall>h \<in> set A. supposed S \<Gamma> L env h"
  have "\<exists>\<sigma> q. goal = Forall \<sigma> q" using run by (cases goal) (simp_all add: forall_introduction_def)
  then obtain \<sigma> q where q: "goal = Forall \<sigma> q" by blast
  then have e: "p (L @ [\<sigma>]) A q = Inr ()" using run by (auto simp: forall_introduction_def)
  have "holds S (functions_of S \<Gamma>) (env @ [v]) q" if v: "in_type S \<sigma> v" for v
  proof (rule sound_atD [OF p e _ reads_snoc [OF r v]])
    show "askable \<Gamma> limits (Suc depth) (L @ [\<sigma>]) q" using ask q by (simp add: askable_def)
    show "\<forall>h \<in> set A. supposed S \<Gamma> (L @ [\<sigma>]) (env @ [v]) h"
      using A supposed_snoc [OF _ reads_length [OF r]] by blast
  qed
  then show "holds S (functions_of S \<Gamma>) env goal" using q by simp
qed

lemma implication_introduction_sound:
  assumes p: "sound_at S \<Gamma> limits (Suc depth) p"
  shows "sound_at S \<Gamma> limits depth (implication_introduction premise p)"
proof (rule sound_atI)
  fix L A goal env
  assume run: "implication_introduction premise p L A goal = Inr ()"
    and ask: "askable \<Gamma> limits depth L goal" and r: "reads S \<Gamma> L env" and A: "\<forall>h \<in> set A. supposed S \<Gamma> L env h"
  have "\<exists>a b. goal = Implies a b" using run by (cases goal) (simp_all add: implication_introduction_def)
  then obtain a b where q: "goal = Implies a b" by blast
  let ?h = "\<lparr>assumed = a, binders = length L\<rparr>"
  have e: "p L (A @ [?h]) b = Inr ()" using run q by (auto simp: implication_introduction_def)
  have ask_b: "askable \<Gamma> limits (Suc depth) L b" using askable_Suc [OF ask] q by (simp add: askable_connective)
  have "holds S (functions_of S \<Gamma>) env b" if "holds S (functions_of S \<Gamma>) env a"
  proof (rule sound_atD [OF p e ask_b r])
    have "supposed S \<Gamma> L env ?h"
      using that ask q reads_length [OF r] by (simp add: supposed_def askable_def)
    then show "\<forall>h \<in> set (A @ [?h]). supposed S \<Gamma> L env h" using A by simp
  qed
  then show "holds S (functions_of S \<Gamma>) env goal" using q by simp
qed

lemma conjunction_introduction_sound:
  assumes p: "sound_at S \<Gamma> limits (Suc depth) p" and q: "sound_at S \<Gamma> limits (Suc depth) q"
  shows "sound_at S \<Gamma> limits depth (conjunction_introduction p q)"
proof (rule sound_atI)
  fix L A goal env
  assume run: "conjunction_introduction p q L A goal = Inr ()"
    and ask: "askable \<Gamma> limits depth L goal" and r: "reads S \<Gamma> L env" and A: "\<forall>h \<in> set A. supposed S \<Gamma> L env h"
  have "\<exists>a b. goal = And a b" using run by (cases goal) (simp_all add: conjunction_introduction_def)
  then obtain a b where g: "goal = And a b" by blast
  then have e: "p L A a = Inr ()" "q L A b = Inr ()" using run by (auto simp: conjunction_introduction_def)
  have "askable \<Gamma> limits (Suc depth) L a" "askable \<Gamma> limits (Suc depth) L b"
    using askable_Suc [OF ask] g by (simp_all add: askable_connective)
  from sound_atD [OF p e(1) this(1) r A] sound_atD [OF q e(2) this(2) r A]
  show "holds S (functions_of S \<Gamma>) env goal" using g by simp
qed

lemma disjunction_introduction_sound:
  assumes p: "sound_at S \<Gamma> limits (Suc depth) p"
  shows "sound_at S \<Gamma> limits depth (disjunction_introduction right p)"
proof (rule sound_atI)
  fix L A goal env
  assume run: "disjunction_introduction right p L A goal = Inr ()"
    and ask: "askable \<Gamma> limits depth L goal" and r: "reads S \<Gamma> L env" and A: "\<forall>h \<in> set A. supposed S \<Gamma> L env h"
  have "\<exists>a b. goal = Or a b" using run by (cases goal) (simp_all add: disjunction_introduction_def)
  then obtain a b where g: "goal = Or a b" by blast
  then have e: "p L A (if right then b else a) = Inr ()" using run by (simp add: disjunction_introduction_def)
  have "askable \<Gamma> limits (Suc depth) L (if right then b else a)"
    using askable_Suc [OF ask] g by (simp add: askable_connective)
  from sound_atD [OF p e this r A]
  show "holds S (functions_of S \<Gamma>) env goal" using g by (cases right) simp_all
qed

lemma falsity_elimination_sound:
  assumes p: "sound_at S \<Gamma> limits (Suc depth) p"
  shows "sound_at S \<Gamma> limits depth (\<lambda>L A goal. p L A Falsity)"
proof (rule sound_atI)
  fix L A goal env
  assume run: "p L A Falsity = Inr ()"
    and ask: "askable \<Gamma> limits depth L goal" and r: "reads S \<Gamma> L env" and A: "\<forall>h \<in> set A. supposed S \<Gamma> L env h"
  have "askable \<Gamma> limits (Suc depth) L Falsity" using ask by (simp add: askable_def)
  from sound_atD [OF p run this r A] show "holds S (functions_of S \<Gamma>) env goal" by simp
qed

lemma reflexivity_rule_sound: "sound_at S \<Gamma> limits depth (reflexivity_rule \<Gamma> limits)"
proof (rule sound_atI)
  fix L A goal env
  assume run: "reflexivity_rule \<Gamma> limits L A goal = Inr ()"
    and ask: "askable \<Gamma> limits depth L goal" and r: "reads S \<Gamma> L env"
  have "\<exists>\<tau> lhs rhs. goal = Eq \<tau> lhs rhs" using run by (cases goal) (simp_all add: reflexivity_rule_def)
  then obtain \<tau> lhs rhs where g: "goal = Eq \<tau> lhs rhs" by blast
  then obtain n where n: "normalize \<Gamma> lhs limits = Inr n" "normalize \<Gamma> rhs limits = Inr n"
    using run by (auto simp: reflexivity_rule_def)
  have t: "has_type \<Gamma> L lhs \<tau>" "has_type \<Gamma> L rhs \<tau>" using ask g by (simp_all add: askable_def)
  from normalize_sound [OF n(1) r t(1)] normalize_sound [OF n(2) r t(2)]
  show "holds S (functions_of S \<Gamma>) env goal" using g by (simp add: means_def)
qed

section \<open>Unsigned induction\<close>

text \<open>Below the greatest value, the successor does not wrap.\<close>

lemma unsigned_successor:
  assumes "is_supported_int type" and "signedness type = Unsigned" and "0 \<le> n" and "n < maximum_value type"
  shows "wrap_into type (n + 1) = n + 1"
  using assms by (intro wrap_into_self) (simp add: is_representable_def minimum_value_eq)

lemma unsigned_induct:
  assumes s: "is_supported_int type" and u: "signedness type = Unsigned"
    and base: "P 0" and step: "\<And>n. is_representable type n \<Longrightarrow> n < maximum_value type \<Longrightarrow> P n \<Longrightarrow> P (n + 1)"
    and v: "is_representable type v"
  shows "P v"
proof -
  have "0 \<le> v" using v u by (auto simp: is_representable_def minimum_value_eq)
  then show ?thesis using v
  proof (induction v rule: int_ge_induct)
    case base
    show ?case by (rule assms(3))
  next
    case (step n)
    then have "is_representable type n" "n < maximum_value type"
      using s u by (auto simp: is_representable_def minimum_value_eq)
    then show ?case using step.IH assms(4) by blast
  qed
qed

lemma induction_step_holds:
  assumes r: "reads S \<Gamma> L env" and p: "wf_prop \<Gamma> (L @ [Int_Type type]) p"
    and s: "is_supported_int type" "signedness type = Unsigned"
    and bound: "length L + binder_depth p + 2 \<le> max_binders"
  shows "wf_prop \<Gamma> L (induction_step type p)"
    and "holds S (functions_of S \<Gamma>) env (induction_step type p) \<Longrightarrow> is_representable type n \<Longrightarrow>
      n < maximum_value type \<Longrightarrow> holds S (functions_of S \<Gamma>) (env @ [IntV n]) p \<Longrightarrow>
      holds S (functions_of S \<Gamma>) (env @ [IntV (n + 1)]) p"
proof -
  let ?M = "L @ [Int_Type type]"
  let ?successor = "Prim AddWrap type [Var 0, Literal type 1]"
  let ?below = "Prim Less type [Var 0, Literal type (maximum_value type)]"
  let ?next = "instantiate_prop (shift_prop p 1 1) ?successor 0"
  have unfolded: "induction_step type p =
      Forall (Int_Type type) (Implies (predicate ?below True) (Implies p ?next))"
    by (simp add: induction_step_def Let_def)
  have rep: "is_representable type 1" "is_representable type (maximum_value type)"
    using s supported_width(1) [OF s(1)]
    by (auto simp: is_representable_def minimum_value_eq maximum_value_eq self_le_power)
  have var: "has_type \<Gamma> ?M (Var 0) (Int_Type type)"
    using has_type.type_var [of 0 ?M \<Gamma>] s by (simp add: is_supported_Int)
  have below: "has_type \<Gamma> ?M ?below (Int_Type kBoolean)"
    using has_type_binary [of Less \<Gamma> ?M type] var rep s(1) by (simp add: has_type_Literal_iff)
  have successor: "has_type \<Gamma> ?M ?successor (Int_Type type)"
    using has_type_binary [of AddWrap \<Gamma> ?M type] var rep s(1)
    by (simp add: has_type_Literal_iff result_type_def is_representability_def)
  have shifted: "wf_prop \<Gamma> (?M @ [Int_Type type]) (shift_prop p 1 1)"
    using wf_prop_shift [of \<Gamma> L "[Int_Type type]" p "[Int_Type type]"] p bound by simp
  have nextp: "wf_prop \<Gamma> ?M ?next"
    using wf_prop_instantiate_0 [OF shifted successor] bound by simp
  show "wf_prop \<Gamma> L (induction_step type p)"
    unfolding unfolded using wf_predicate [OF below] p nextp s by (simp add: is_supported_Int)
  assume step: "holds S (functions_of S \<Gamma>) env (induction_step type p)" and n: "is_representable type n"
    and less: "n < maximum_value type" and pn: "holds S (functions_of S \<Gamma>) (env @ [IntV n]) p"
  let ?env = "env @ [IntV n]"
  have r': "reads S \<Gamma> ?M ?env" using n by (intro reads_snoc [OF r]) simp
  have "value_at S \<Gamma> ?env ?below = IntV 1" using less by simp
  then have "holds S (functions_of S \<Gamma>) ?env ?next"
    using step n pn by (simp add: unfolded holds_predicate [OF r' below])
  then have "holds S (functions_of S \<Gamma>) (?env @ [value_at S \<Gamma> ?env ?successor]) (shift_prop p 1 1)"
    using holds_instantiate_0 [OF shifted successor reads_length [OF r']] bound by simp
  moreover have "0 \<le> n" using n s by (auto simp: is_representable_def minimum_value_eq)
  then have "value_at S \<Gamma> ?env ?successor = IntV (n + 1)"
    using unsigned_successor [OF s _ less] by simp
  ultimately have "holds S (functions_of S \<Gamma>) (env @ [IntV n] @ [IntV (n + 1)]) (shift_prop p 1 1)" by simp
  moreover have "holds S (functions_of S \<Gamma>) (env @ [IntV n] @ [IntV (n + 1)])
      (shift_prop p (length [IntV n :: 'a kvalue]) (length [IntV (n + 1) :: 'a kvalue])) \<longleftrightarrow>
      holds S (functions_of S \<Gamma>) (env @ [IntV (n + 1)]) p"
    using p reads_length [OF r] bound
      holds_shift [of \<Gamma> L "[Int_Type type]" p env "[IntV (n + 1)]" "[IntV n]" S "functions_of S \<Gamma>"] by simp
  ultimately show "holds S (functions_of S \<Gamma>) (env @ [IntV (n + 1)]) p" by simp
qed

lemma induction_rule_sound:
  assumes p: "sound_at S \<Gamma> limits (Suc depth) p" and q: "sound_at S \<Gamma> limits (Suc depth) q"
  shows "sound_at S \<Gamma> limits depth (induction_rule \<tau> p q)"
proof (rule sound_atI)
  fix L A goal env
  assume run: "induction_rule \<tau> p q L A goal = Inr ()"
    and ask: "askable \<Gamma> limits depth L goal" and r: "reads S \<Gamma> L env" and A: "\<forall>h \<in> set A. supposed S \<Gamma> L env h"
  have "\<exists>\<sigma> b. goal = Forall \<sigma> b" using run by (cases goal) (simp_all add: induction_rule_def)
  then obtain \<sigma> b where "goal = Forall \<sigma> b" by blast
  moreover from this have "\<exists>type. \<sigma> = Int_Type type" using run by (cases \<sigma>) (auto simp: induction_rule_def)
  ultimately obtain type b where g: "goal = Forall (Int_Type type) b" by blast
  have u: "signedness type = Unsigned" and e: "p L A (induction_base type b) = Inr ()"
    "q L A (induction_step type b) = Inr ()"
    using run g by (auto simp: induction_rule_def split: if_splits)
  have s: "is_supported_int type" and b: "wf_prop \<Gamma> (L @ [Int_Type type]) b"
    using ask g by (simp_all add: askable_def is_supported_Int)
  have bound: "length L + binder_depth b + 2 \<le> max_binders"
    using ask g depth_of_less [of limits] by (simp add: askable_def)
  have zero: "has_type \<Gamma> L (Literal type 0) (Int_Type type)"
    using s by (simp add: has_type_Literal_iff representable_zero)
  have "askable \<Gamma> limits (Suc depth) L (induction_base type b)"
    using wf_prop_instantiate_0 [OF b zero] ask g bound by (simp add: askable_def induction_base_def)
  from sound_atD [OF p e(1) this r A]
  have base: "holds S (functions_of S \<Gamma>) (env @ [IntV 0]) b"
    using holds_instantiate_0 [OF b zero reads_length [OF r]] bound by (simp add: induction_base_def)
  note step = induction_step_holds [OF r b s u bound]
  have "binder_depth (induction_step type b) = Suc (binder_depth b)"
    by (simp add: induction_step_def Let_def)
  then have "askable \<Gamma> limits (Suc depth) L (induction_step type b)"
    using step(1) ask g by (simp add: askable_def)
  from step(2) [OF sound_atD [OF q e(2) this r A]]
  have "holds S (functions_of S \<Gamma>) (env @ [IntV n]) b" if "is_representable type n" for n
    using unsigned_induct [OF s u, of "\<lambda>n. holds S (functions_of S \<Gamma>) (env @ [IntV n]) b"] base that by blast
  then show "holds S (functions_of S \<Gamma>) env goal" using g by (auto simp: in_type_int)
qed

section \<open>The checker\<close>

lemma check_under_sound:
  "sound_at S \<Gamma> limits depth (check_under \<Gamma> limits p depth)"
  "sound_at S \<Gamma> limits depth (snd (fact_checker \<Gamma> limits f depth))"
proof (induction p and f arbitrary: depth and depth)
  case (LinearArithmetic facts certificate)
  then have "\<forall>(p, e) \<in> set (map (\<lambda>f. fact_checker \<Gamma> limits f (Suc depth)) facts).
      sound_at S \<Gamma> limits (Suc depth) e" by (auto simp: split_beta)
  then show ?case by (simp add: proof_depth_sound arithmetic_rule_sound)
qed (simp_all add: proof_depth_sound conditional_rule_sound forall_elimination_sound
    implication_elimination_sound conjunction_elimination_sound disjunction_elimination_sound
    equality_elimination_sound hypothesis_rule_sound induction_rule_sound forall_introduction_sound
    implication_introduction_sound conjunction_introduction_sound disjunction_introduction_sound
    falsity_elimination_sound reflexivity_rule_sound)

lemma check_accepts:
  "check \<Gamma> goal evidence limits = Inr acceptance \<Longrightarrow>
     accepted acceptance = goal \<and> wf_prop \<Gamma> [] goal \<and> binder_depth goal \<le> depth_of limits"
  using validate_proposition_sound [of \<Gamma> "[]" goal limits 0] by (auto simp: check_def)

lemma check_sound:
  assumes "check \<Gamma> goal evidence limits = Inr acceptance" and "built \<Gamma>" and "wf_model S"
  shows "holds S (functions_of S \<Gamma>) [] (accepted acceptance)"
proof -
  have "check_under \<Gamma> limits evidence 0 [] [] goal = Inr ()" and a: "acceptance = Acceptance goal"
    using assms(1) by (auto simp: check_def)
  moreover have "askable \<Gamma> limits 0 [] goal"
    using check_accepts [OF assms(1)] by (simp add: askable_def)
  moreover have "reads S \<Gamma> [] []" using assms(2,3) by (simp add: reads_def)
  ultimately show ?thesis
    using sound_atD [OF check_under_sound(1) [of S \<Gamma> limits 0 evidence]] a by fastforce
qed

section \<open>A structure\<close>

text \<open>
  The structure without objects: no abstract value, no indexed domain. It respects every
  signature, so the kernel is consistent.
\<close>

definition empty_model :: "unit kmodel" where
  "empty_model = \<lparr>carrier = (\<lambda>_. {}), observation = (\<lambda>_ _ _. IntV 0), component = (\<lambda>_ _ _. IntV 0)\<rparr>"

lemma wf_empty_model: "wf_model empty_model"
  by (simp add: wf_model_def empty_model_def)

end
