(* ===== verification/Evidence_Facts.thy ===== *)
theory Evidence_Facts
  imports Evidence_Shape Soundness
begin

text \<open>
  What verdicts and shaped evidence rest on: a proven obligation is true where its trusted premises
  are, what is made available follows from the premises supposed, and the motive of a rewrite,
  filled with what it replaces, is the goal again.
\<close>

section \<open>Verdicts\<close>

lemma relative_to_simps [simp]:
  "relative_to [] goal = goal" "relative_to (p # ps) goal = Implies (tp_proposition p) (relative_to ps goal)"
  by (simp_all add: relative_to_def)

lemma holds_relative_to:
  "holds S E env (relative_to ps goal) \<longleftrightarrow>
     ((\<forall>p \<in> set ps. holds S E env (tp_proposition p)) \<longrightarrow> holds S E env goal)"
  by (induction ps) auto

lemma is_proven_iff:
  "is_proven (proven acceptance ob ps) \<longleftrightarrow> accepted acceptance = relative_to ps (ob_goal ob)"
  by (simp add: is_proven_def proven_def unresolved_def)

lemma proven_premises: "is_proven (proven acceptance ob ps) \<Longrightarrow> vd_premises (proven acceptance ob ps) = ps"
  by (simp add: is_proven_iff) (simp add: proven_def)

lemma proven_holds:
  assumes "check \<Gamma> p evidence limits = Inr acceptance" "built \<Gamma>" "wf_model S" "is_proven (proven acceptance ob ps)"
    and "\<forall>q \<in> set (vd_premises (proven acceptance ob ps)). holds S (functions_of S \<Gamma>) [] (tp_proposition q)"
  shows "holds S (functions_of S \<Gamma>) [] (ob_goal ob)"
  using check_sound [OF assms(1-3)] assms(4,5) proven_premises [OF assms(4)]
  by (simp add: is_proven_iff holds_relative_to)

section \<open>What is available\<close>

lemma reachable_holds: "holds S E env p \<Longrightarrow> e \<in> set (reachable p t) \<Longrightarrow> holds S E env (fst e)"
  by (induction p t rule: reachable.induct) auto

text \<open>Whatever is closed under the sides of conjunctions and under detachment holds what \<open>chain\<close> adds.\<close>

lemma chain_from_holds:
  assumes "\<forall>e \<in> set available. holds S E env (fst e)"
  shows "\<forall>e \<in> set (chain_from i progress used available). holds S E env (fst e)"
  using assms
proof (induction i progress used available rule: chain_from.induct)
  case (1 i progress used available)
  show ?case
  proof (cases "(\<forall>j \<in> set used. j < length available) \<and> i < length available")
    case False
    then show ?thesis using 1 by (subst chain_from.simps) auto
  next
    case b: True
    show ?thesis
    proof (cases "implication_of (fst (available ! i))")
      case None
      then have "chain_from i progress used available = chain_from (Suc i) progress used available"
        using b by (subst chain_from.simps) auto
      then show ?thesis using "1.IH"(2) "1.prems" b None by simp
    next
      case (Some pq)
      obtain p q where pq: "pq = (p, q)" by fastforce
      show ?thesis
      proof (cases "i \<in> set used \<or> find (\<lambda>e. fst e = p) available = None")
        case True
        then have "chain_from i progress used available = chain_from (Suc i) progress used available"
          using b Some pq by (subst chain_from.simps) auto
        then show ?thesis
          using "1.IH"(3) [OF _ _ Some pq [symmetric]] "1.IH"(4) [OF _ _ Some pq [symmetric]] "1.prems" b True by auto
      next
        case False
        then obtain e where e: "i \<notin> set used" "find (\<lambda>e. fst e = p) available = Some e" by auto
        let ?new = "reachable q (ImplicationElimination (fst (available ! i)) (snd (available ! i)) (snd e))"
        have "holds S E env p" using find_mem [OF e(2)] "1.prems" by blast
        moreover have "available ! i \<in> set available" using b by simp
        then have "holds S E env (Implies p q)" using "1.prems" Some pq by fastforce
        ultimately have "\<forall>e \<in> set (available @ ?new). holds S E env (fst e)"
          using "1.prems" reachable_holds [of S E env q] by auto
        then have "\<forall>e \<in> set (chain_from (Suc i) True (i # used) (available @ ?new)). holds S E env (fst e)"
          using "1.IH"(5) [OF _ _ Some pq [symmetric] e] b by simp
        moreover have "chain_from i progress used available = chain_from (Suc i) True (i # used) (available @ ?new)"
          using b Some pq e by (subst chain_from.simps) simp
        ultimately show ?thesis by simp
      qed
    qed
  qed
qed

lemma in_scope_holds:
  assumes "\<forall>(p, b) \<in> set hyps. holds S E env (shift_prop p (levels - b) 0)" and "(q, e) \<in> set (in_scope hyps levels)"
  shows "holds S E env q"
proof -
  let ?start = "concat (map (\<lambda>(i, p, b). reachable (shift_prop p (levels - b) 0) (Hypothesis i))
       (zip [0..<length hyps] (rev hyps)))"
  have "\<forall>e \<in> set ?start. holds S E env (fst e)"
  proof
    fix r
    assume "r \<in> set ?start"
    then obtain z where "z \<in> set (zip [0..<length hyps] (rev hyps))"
        "r \<in> set ((\<lambda>(i, p, b). reachable (shift_prop p (levels - b) 0) (Hypothesis i)) z)"
      unfolding set_concat set_map by blast
    moreover obtain i p b where "z = (i, p, b)" by (cases z) auto
    ultimately have z: "(i, p, b) \<in> set (zip [0..<length hyps] (rev hyps))"
        "r \<in> set (reachable (shift_prop p (levels - b) 0) (Hypothesis i))" by simp_all
    have "(p, b) \<in> set hyps" using set_zip_rightD [OF z(1)] by simp
    then show "holds S E env (fst r)" using assms(1) reachable_holds z(2) by fastforce
  qed
  then have "\<forall>e \<in> set (in_scope hyps levels). holds S E env (fst e)"
    unfolding in_scope_def chain_def by (rule chain_from_holds)
  then show ?thesis using assms(2) by fastforce
qed

section \<open>Motives\<close>

fun scoped_prop :: "nat \<Rightarrow> kprop \<Rightarrow> bool" where
  "scoped_prop n (Eq type lhs rhs) \<longleftrightarrow> scoped n lhs \<and> scoped n rhs"
| "scoped_prop n (Forall binder p) \<longleftrightarrow> scoped_prop (Suc n) p"
| "scoped_prop n (Implies p q) \<longleftrightarrow> scoped_prop n p \<and> scoped_prop n q"
| "scoped_prop n (And p q) \<longleftrightarrow> scoped_prop n p \<and> scoped_prop n q"
| "scoped_prop n (Or p q) \<longleftrightarrow> scoped_prop n p \<and> scoped_prop n q"
| "scoped_prop n Falsity \<longleftrightarrow> True"

text \<open>While no index leaves 32 bits, raising twice is raising once by the sum, and loses nothing.\<close>

lemma raise_raise:
  "scoped n t \<Longrightarrow> n + a + 1 \<le> 2 ^ 32 \<Longrightarrow> raise_term 1 a (raise_term a 0 t) = raise_term (a + 1) 0 t"
  by (induction t) (auto simp: algebra_simps)

lemma raise_Suc:
  "scoped n t \<Longrightarrow> n + a + 1 \<le> 2 ^ 32 \<Longrightarrow> raise_term 1 0 (raise_term a 0 t) = raise_term (a + 1) 0 t"
  by (induction t) (auto simp: algebra_simps)

lemma raise_zero: "scoped n t \<Longrightarrow> n \<le> 2 ^ 32 \<Longrightarrow> raise_term 0 c t = t"
  by (induction t) (auto simp: map_idI)

lemma scoped_raise: "scoped n t \<Longrightarrow> n + a \<le> 2 ^ 32 \<Longrightarrow> scoped (n + a) (raise_term a c t)"
  by (induction t) auto

lemma raise_list_inject:
  "map (raise_term 1 c) ts = map (raise_term 1 c) us \<Longrightarrow>
     (\<And>t u. t \<in> set ts \<Longrightarrow> u \<in> set us \<Longrightarrow> raise_term 1 c t = raise_term 1 c u \<Longrightarrow> t = u) \<Longrightarrow> ts = us"
  by (induction ts arbitrary: us) auto

lemma raise_inject:
  "scoped n t \<Longrightarrow> scoped n u \<Longrightarrow> n + 1 \<le> 2 ^ 32 \<Longrightarrow> raise_term 1 c t = raise_term 1 c u \<Longrightarrow> t = u"
proof (induction t arbitrary: u)
  case (Call f ts)
  then obtain us where u: "u = Call f us" by (cases u) (auto split: if_splits)
  have "ts = us" using Call u by (intro raise_list_inject [of c ts us]) auto
  then show ?case using u by simp
next
  case (Prim op type ts)
  then obtain us where u: "u = Prim op type us" by (cases u) (auto split: if_splits)
  have "ts = us" using Prim u by (intro raise_list_inject [of c ts us]) auto
  then show ?case using u by simp
next
  case (Projection domain i ts)
  then obtain us where u: "u = Projection domain i us" by (cases u) (auto split: if_splits)
  have "ts = us" using Projection u by (intro raise_list_inject [of c ts us]) auto
  then show ?case using u by simp
next
  case (Element domain ts)
  then obtain us where u: "u = Element domain us" by (cases u) (auto split: if_splits)
  have "ts = us" using Element u by (intro raise_list_inject [of c ts us]) auto
  then show ?case using u by simp
next
  case (Var i)
  then show ?case by (cases u) (auto split: if_splits)
next
  case (Literal type v)
  then show ?case by (cases u) (auto split: if_splits)
qed

lemma instantiate_raised:
  "scoped n t \<Longrightarrow> n + 1 \<le> 2 ^ 32 \<Longrightarrow> instantiate_term (raise_term 1 d t) u d = t"
  by (induction t) (auto simp: map_idI)

lemma scoped_mono: "scoped m t \<Longrightarrow> m \<le> n \<Longrightarrow> scoped n t"
  by (induction t) auto

lemma fill_hit:
  assumes "m + d \<le> n" "n + 1 \<le> 2 ^ 32" "scoped m target" "scoped n t"
    and "raise_term 1 d t = raise_term (d + 1) 0 target"
  shows "instantiate_term (abstract_term (raise_term (d + 1) 0 target) d (raise_term 1 d t)) target d = t"
proof -
  have "raise_term (d + 1) 0 target = raise_term 1 d (raise_term d 0 target)"
    using raise_raise [of m target d] assms(1-3) by simp
  moreover have "scoped n (raise_term d 0 target)"
    using scoped_mono [OF scoped_raise [of m target d 0]] assms(1-3) by simp
  ultimately have t: "t = raise_term d 0 target" using raise_inject assms(2,4,5) by metis
  have "abstract_term (raise_term (d + 1) 0 target) d (raise_term 1 d t) = Var d"
    by (subst abstract_term.simps) (simp only: assms(5) if_True refl)
  moreover have "shift_term target d 0 = t"
    using t raise_zero [of m target 0] assms(1-3) by (auto simp: shift_term_def)
  ultimately show ?thesis by simp
qed

lemma abstract_leaf:
  "t \<noteq> target \<Longrightarrow> (\<forall>f ts. t \<noteq> Call f ts) \<Longrightarrow> (\<forall>op type ts. t \<noteq> Prim op type ts) \<Longrightarrow> abstract_term target d t = t"
  by (subst abstract_term.simps) (cases t; simp)

lemma fill_leaf:
  assumes "m + d \<le> n" "n + 1 \<le> 2 ^ 32" "scoped m target" "scoped n t"
    and "\<forall>f ts. t \<noteq> Call f ts" "\<forall>op type ts. t \<noteq> Prim op type ts"
  shows "instantiate_term (abstract_term (raise_term (d + 1) 0 target) d (raise_term 1 d t)) target d = t"
proof (cases "raise_term 1 d t = raise_term (d + 1) 0 target")
  case True
  then show ?thesis by (rule fill_hit [OF assms(1-4)])
next
  case False
  have "abstract_term (raise_term (d + 1) 0 target) d (raise_term 1 d t) = raise_term 1 d t"
    using False by (rule abstract_leaf) (use assms(5,6) in \<open>cases t; auto\<close>)+
  then show ?thesis using instantiate_raised [OF assms(4,2)] by simp
qed

lemma fill_term:
  assumes "m + d \<le> n" "n + 1 \<le> 2 ^ 32" "scoped m target"
  shows "scoped n t \<Longrightarrow>
     instantiate_term (abstract_term (raise_term (d + 1) 0 target) d (raise_term 1 d t)) target d = t"
proof (induction t)
  case (Call f ts)
  show ?case
  proof (cases "raise_term 1 d (Call f ts) = raise_term (d + 1) 0 target")
    case True
    then show ?thesis by (rule fill_hit [OF assms Call.prems])
  next
    case False
    then show ?thesis
      using Call.IH Call.prems by (subst abstract_term.simps) (simp add: map_idI)
  qed
next
  case (Prim op type ts)
  show ?case
  proof (cases "raise_term 1 d (Prim op type ts) = raise_term (d + 1) 0 target")
    case True
    then show ?thesis by (rule fill_hit [OF assms Prim.prems])
  next
    case False
    then show ?thesis
      using Prim.IH Prim.prems by (subst abstract_term.simps) (simp add: map_idI)
  qed
qed (rule fill_leaf [OF assms]; simp)+

lemma fill_prop:
  assumes "scoped m target"
  shows "scoped_prop n p \<Longrightarrow> m + d \<le> n \<Longrightarrow> n + connectives p + 1 \<le> 2 ^ 32 \<Longrightarrow>
     instantiate_prop (abstract_prop (raise_term (d + 1) 0 target) d (raise_prop 1 d p)) target d = p"
proof (induction p arbitrary: n d)
  case (Eq type lhs rhs)
  then show ?case using fill_term [of m d n target] assms by (simp add: shift_term_def)
next
  case (Forall type p)
  have "shift_term (raise_term (d + 1) 0 target) 1 0 = raise_term (d + 1 + 1) 0 target"
    using raise_Suc [of m target "d + 1"] assms Forall.prems by (simp add: shift_term_def)
  then show ?case using Forall.IH [of "Suc n" "d + 1"] Forall.prems by simp
qed auto

lemma rewrite_context_filled:
  assumes "rewrite_context goal target = Some motive" and "scoped_prop n goal" "scoped n target"
    and "n + connectives goal + 1 \<le> 2 ^ 32"
  shows "instantiate_prop motive target 0 = goal"
  using fill_prop [OF assms(3,2), of 0] assms(1,4)
  by (auto simp: rewrite_context_def shift_term_def shift_prop_def split: if_splits)

end
