(* ===== verification/Fuel_Facts.thy ===== *)
theory Fuel_Facts
  imports Kernel_Check Poly_Facts
begin

text \<open>
  The reader of arithmetic systems ends. Normal forms call no definition, and reading one never
  goes deeper than its conversions and divisions nest, so the fuel the model gives the reader
  is enough: no run of the kernel is cut short by the model.
\<close>

section \<open>Terms without calls\<close>

fun call_free :: "kterm \<Rightarrow> bool" where
  "call_free (Var i) \<longleftrightarrow> True"
| "call_free (Literal type v) \<longleftrightarrow> True"
| "call_free (Call callee ts) \<longleftrightarrow> False"
| "call_free (Prim op type ts) \<longleftrightarrow> list_all call_free ts"
| "call_free (Projection domain k ts) \<longleftrightarrow> list_all call_free ts"
| "call_free (Element domain ts) \<longleftrightarrow> list_all call_free ts"

definition tame :: "nat \<Rightarrow> kterm \<Rightarrow> bool" where
  "tame n t \<longleftrightarrow> call_free t \<and> nesting t \<le> n"

lemma foldr_max_le: "foldr max xs 0 \<le> (n :: nat) \<longleftrightarrow> (\<forall>x \<in> set xs. x \<le> n)"
  by (induction xs) auto

abbreviation nests :: "prim_op \<Rightarrow> bool" where
  "nests op \<equiv> op = Convert \<or> op = Quotient \<or> op = Remainder"

lemma tame_simps [simp]:
  "tame n (Var i)"
  "tame n (Literal type v)"
  "\<not> tame n (Call callee ts)"
  "\<not> nests op \<Longrightarrow> tame n (Prim op type ts) \<longleftrightarrow> list_all (tame n) ts"
  "nests op \<Longrightarrow> tame (Suc n) (Prim op type ts) \<longleftrightarrow> list_all (tame n) ts"
  "nests op \<Longrightarrow> \<not> tame 0 (Prim op type ts)"
  "tame n (Projection domain k ts) \<longleftrightarrow> list_all (tame n) ts"
  "tame n (Element domain ts) \<longleftrightarrow> list_all (tame n) ts"
  by (auto simp: tame_def foldr_max_le list_all_iff)

lemma tame_mono: "tame m t \<Longrightarrow> m \<le> n \<Longrightarrow> tame n t"
  by (simp add: tame_def)

lemma tame_nesting: "call_free t \<Longrightarrow> tame (nesting t) t"
  by (simp add: tame_def)

lemma tame_operands: "tame n (Prim op type ts) \<Longrightarrow> list_all (tame n) ts"
proof (cases "nests op")
  case True
  assume t: "tame n (Prim op type ts)"
  then obtain m where "n = Suc m" using True by (cases n) auto
  then show ?thesis using t True tame_mono [of m _ n] by (auto simp: list_all_iff)
qed simp

section \<open>Ring normal forms are built from their factors\<close>

text \<open>
  A predicate on terms that ring arithmetic of a type neither needs more for nor gives less of.
\<close>

locale ring_closed =
  fixes P :: "kterm \<Rightarrow> bool" and type :: int_type
  assumes closed_literal: "P (Literal type v)"
    and closed_ring: "is_arithmetic op \<Longrightarrow> P (Prim op type [a, b]) \<longleftrightarrow> P a \<and> P b"
begin

definition keys_closed :: "(kterm list, u64) omap \<Rightarrow> bool" where
  "keys_closed m \<longleftrightarrow> (\<forall>fs \<in> fst ` set m. fs \<noteq> [] \<and> list_all P fs)"

lemma keys_closed_put:
  "keys_closed m \<Longrightarrow> fs \<noteq> [] \<Longrightarrow> list_all P fs \<Longrightarrow> keys_closed (omap_put factor_less fs c m)"
  using keys_omap_put [of factor_less fs c m] unfolding keys_closed_def by blast

lemma keys_closed_emplace:
  "keys_closed m \<Longrightarrow> fs \<noteq> [] \<Longrightarrow> list_all P fs \<Longrightarrow> keys_closed (omap_emplace factor_less fs c m)"
  using keys_omap_emplace [of factor_less fs c m] unfolding keys_closed_def by blast

lemma keys_closed_erase: "keys_closed m \<Longrightarrow> keys_closed (omap_erase factor_less fs m)"
  using keys_omap_erase [of factor_less fs m] unfolding keys_closed_def by blast

lemma accumulate_closed:
  assumes "accumulate T limits w fs c = Inr w'" and "keys_closed (work_terms w)" and "list_all P fs"
  shows "keys_closed (work_terms w') \<and> work_type w' = work_type w"
proof (cases "fs = [] \<or> c AND residue_mask T = 0")
  case True
  then show ?thesis using assms by (auto simp: accumulate_def Let_def split: if_splits)
next
  case False
  then have "keys_closed (omap_emplace factor_less fs 0 (work_terms w))"
    using assms by (simp add: keys_closed_emplace)
  then show ?thesis
    using assms False keys_closed_put keys_closed_erase
    by (auto simp: accumulate_def Let_def split: if_splits)
qed

lemma keys_closed_simps [simp]:
  "keys_closed []"
  "keys_closed ((fs, c) # m) \<longleftrightarrow> fs \<noteq> [] \<and> list_all P fs \<and> keys_closed m"
  by (auto simp: keys_closed_def)

lemma add_terms_closed:
  "add_terms T limits scale added into = Inr w \<Longrightarrow> keys_closed added \<Longrightarrow> keys_closed (work_terms into) \<Longrightarrow>
     keys_closed (work_terms w) \<and> work_type w = work_type into"
proof (induction added arbitrary: into)
  case (Cons t added)
  obtain fs c where t: "t = (fs, c)" by (cases t)
  then obtain w1 where w1: "accumulate T limits into fs (c * scale) = Inr w1"
    and rest: "add_terms T limits scale added w1 = Inr w"
    using Cons.prems(1) by auto
  show ?case using accumulate_closed [OF w1] Cons.IH [OF rest] Cons.prems t by simp
qed simp

lemma work_sum_closed:
  "work_sum T limits into added scale = Inr w \<Longrightarrow> keys_closed (work_terms added) \<Longrightarrow>
     keys_closed (work_terms into) \<Longrightarrow> keys_closed (work_terms w) \<and> work_type w = work_type into"
  by (auto simp: work_sum_def dest: add_terms_closed)

lemma merge_factors_closed: "list_all P (merge_factors xs ys) \<longleftrightarrow> list_all P xs \<and> list_all P ys"
  by (induction xs ys rule: merge_factors.induct) auto

definition each_closed :: "(kterm list \<times> u64) list \<Rightarrow> bool" where
  "each_closed m \<longleftrightarrow> (\<forall>(fs, c) \<in> set m. list_all P fs)"

lemma each_closed_simps [simp]:
  "each_closed []"
  "each_closed ((fs, c) # m) \<longleftrightarrow> list_all P fs \<and> each_closed m"
  by (auto simp: each_closed_def)

lemma each_term_closed: "keys_closed (work_terms w) \<Longrightarrow> each_closed (each_term w)"
  by (fastforce simp: each_term_def each_closed_def keys_closed_def)

lemma product_row_closed:
  "product_row T limits lf lc right acc steps = Inr (w, s) \<Longrightarrow> list_all P lf \<Longrightarrow> each_closed right \<Longrightarrow>
     keys_closed (work_terms acc) \<Longrightarrow> keys_closed (work_terms w) \<and> work_type w = work_type acc"
proof (induction right arbitrary: acc steps)
  case (Cons t right)
  obtain fs c where t: "t = (fs, c)" by (cases t)
  then obtain s1 w1 where w1: "accumulate T limits acc (merge_factors lf fs) (lc * c) = Inr w1"
    and rest: "product_row T limits lf lc right w1 s1 = Inr (w, s)"
    using Cons.prems(1) by (auto split: if_splits)
  show ?case using accumulate_closed [OF w1] Cons.IH [OF rest] Cons.prems t by (simp add: merge_factors_closed)
qed simp

lemma product_rows_closed:
  "product_rows T limits left right acc steps = Inr (w, s) \<Longrightarrow> each_closed left \<Longrightarrow> each_closed right \<Longrightarrow>
     keys_closed (work_terms acc) \<Longrightarrow> keys_closed (work_terms w) \<and> work_type w = work_type acc"
proof (induction left arbitrary: acc steps)
  case (Cons t left)
  then show ?case by (cases t) (fastforce dest: product_row_closed)
qed simp

lemma opaque_closed: "P t \<Longrightarrow> keys_closed (work_terms (opaque T t))"
  by (simp add: opaque_def)

lemma read_term_closed:
  "read_term T limits t depth steps = Inr (w, steps') \<Longrightarrow> T = type \<Longrightarrow> P t \<Longrightarrow>
     keys_closed (work_terms w) \<and> work_type w = type"
proof (induction T limits t depth steps arbitrary: w steps' rule: read_term.induct)
  case (2 T limits op t a b depth steps)
  show ?case
  proof (cases "is_arithmetic op \<and> t = T")
    case False
    then show ?thesis using "2.prems" by (auto simp: opaque_def)
  next
    case True
    then have P: "P a" "P b" using closed_ring [of op a b] "2.prems"(2,3) by auto
    obtain s1 lhs s2 rhs s3 where s1: "begin_read limits depth steps = Inr s1"
      and a: "read_term T limits a (Suc depth) s1 = Inr (lhs, s2)"
      and b: "read_term T limits b (Suc depth) s2 = Inr (rhs, s3)"
      and run: "(if op = AddWrap then bind_ok (work_sum T limits lhs rhs 1) (\<lambda>w. Inr (w, s3))
              else if op = SubWrap
              then bind_ok (work_sum T limits lhs rhs (residue_mask T)) (\<lambda>w. Inr (w, s3))
              else work_product T limits lhs rhs s3) = Inr (w, steps')"
      using "2.prems"(1) True by auto
    have "keys_closed (work_terms lhs) \<and> work_type lhs = type" "keys_closed (work_terms rhs)"
      using "2.IH"(1) [OF s1 True a "2.prems"(2) P(1)] "2.IH"(2) [OF s1 True a refl b "2.prems"(2) P(2)] by simp_all
    note parts = this
    show ?thesis
    proof (cases "op = AddWrap \<or> op = SubWrap")
      case True
      then obtain c where "work_sum T limits lhs rhs c = Inr w" using run by (cases "op = AddWrap") auto
      from work_sum_closed [OF this] parts show ?thesis by simp
    next
      case False
      then have "product_rows T limits (each_term lhs) (each_term rhs)
          \<lparr>work_type = T, work_terms = [], work_constant = 0\<rparr> s3 = Inr (w, steps')"
        using run by (simp add: work_product_def)
      from product_rows_closed [OF this] parts "2.prems"(2) show ?thesis by (simp add: each_term_closed)
    qed
  qed
qed (auto simp: opaque_def split: if_splits)

lemma render_factors_closed: "fs \<noteq> [] \<Longrightarrow> list_all P fs \<Longrightarrow> P (render_factors type fs)"
proof -
  have arith: "is_arithmetic MulWrap" by (simp add: is_arithmetic_def)
  have "P x \<Longrightarrow> list_all P fs \<Longrightarrow> P (foldl (\<lambda>product f. Prim MulWrap type [product, f]) x fs)" for x fs
    by (induction fs arbitrary: x) (auto simp: closed_ring [OF arith])
  then show "fs \<noteq> [] \<Longrightarrow> list_all P fs \<Longrightarrow> P (render_factors type fs)"
    by (cases fs) (auto simp: render_factors_def)
qed

lemma scaled_term_closed: "fs \<noteq> [] \<Longrightarrow> list_all P fs \<Longrightarrow> P (scaled_term type fs c)"
  using closed_ring [of MulWrap]
  by (simp add: scaled_term_def literal_of_def closed_literal render_factors_closed is_arithmetic_def)

definition option_closed :: "kterm option \<Rightarrow> bool" where
  "option_closed acc \<longleftrightarrow> (\<forall>t. acc = Some t \<longrightarrow> P t)"

definition monomials_closed :: "monomial list \<Rightarrow> bool" where
  "monomials_closed ms \<longleftrightarrow> (\<forall>m \<in> set ms. factors m \<noteq> [] \<and> list_all P (factors m))"

lemma monomials_closed_Cons [simp]:
  "monomials_closed (m # ms) \<longleftrightarrow> factors m \<noteq> [] \<and> list_all P (factors m) \<and> monomials_closed ms"
  by (simp add: monomials_closed_def)

lemma sum_closed:
  "P a \<Longrightarrow> P b \<Longrightarrow> P (Prim AddWrap type [a, b])" "P a \<Longrightarrow> P b \<Longrightarrow> P (Prim SubWrap type [a, b])"
  by (subst closed_ring; simp add: is_arithmetic_def)+

lemma option_closed_simps [simp]:
  "option_closed None"
  "option_closed (Some t) \<longleftrightarrow> P t"
  by (simp_all add: option_closed_def)

lemma render_positive_closed:
  "monomials_closed ms \<Longrightarrow> option_closed acc \<Longrightarrow> option_closed (render_positive type ms acc)"
proof (induction ms arbitrary: acc)
  case (Cons m ms)
  let ?t = "scaled_term type (factors m) (coefficient m)"
  have "P ?t" using Cons.prems(1) by (simp add: scaled_term_closed)
  then have "option_closed (Some (case acc of Some s \<Rightarrow> Prim AddWrap type [s, ?t] | None \<Rightarrow> ?t))"
    using Cons.prems(2) by (cases acc) (simp_all add: sum_closed)
  then show ?case using Cons by (simp add: Let_def)
qed simp

lemma render_negative_closed:
  "monomials_closed ms \<Longrightarrow> option_closed acc \<Longrightarrow> option_closed (render_negative type ms acc)"
proof (induction ms arbitrary: acc)
  case (Cons m ms)
  let ?t = "scaled_term type (factors m) (residue_negated type (coefficient m))"
  let ?minuend = "case acc of Some s \<Rightarrow> s | None \<Rightarrow> literal_of type 0"
  have "P ?t" using Cons.prems(1) by (simp add: scaled_term_closed)
  moreover have "P ?minuend" using Cons.prems(2) by (cases acc) (simp_all add: literal_of_def closed_literal)
  ultimately have "option_closed (Some (Prim SubWrap type [?minuend, ?t]))" by (simp add: sum_closed)
  then show ?case using Cons by (simp add: Let_def)
qed simp

lemma render_closed:
  assumes "monomials_closed (monomials p)" and "poly_type p = type"
  shows "P (render p)"
proof -
  have "option_closed (render_negative type (monomials p) (render_positive type (monomials p) None))"
    using assms by (intro render_negative_closed render_positive_closed) (auto simp: option_closed_def)
  then show ?thesis
    unfolding render_def Let_def assms(2)
    by (auto simp: closed_literal literal_of_def sum_closed split: option.split)
qed

lemma finish_closed: "keys_closed (work_terms w) \<Longrightarrow> monomials_closed (monomials (finish_work w))"
  by (auto simp: keys_closed_def monomials_closed_def finish_work_def)

lemma negated_closed: "monomials_closed (monomials p) \<Longrightarrow> monomials_closed (monomials (negated_polynomial p))"
  by (simp add: monomials_closed_def negated_polynomial_def)

lemma read_polynomial_closed:
  assumes "read_polynomial t type limits = Inr p" and "P t"
  shows "monomials_closed (monomials p)"
proof -
  obtain w s where w: "read_term type limits t 0 0 = Inr (w, s)" and p: "p = finish_work w"
    using assms(1) by (auto simp: read_polynomial_def split: if_splits)
  then show ?thesis using read_term_closed [OF w refl assms(2)] by (simp add: finish_closed)
qed

lemma normalize_ring_closed:
  assumes "normalize_ring op type ts limits steps = Inr (u, steps')" and "P (Prim op type ts)"
  shows "P u"
proof -
  obtain w where w: "read_term type limits (Prim op type ts) 0 steps = Inr (w, steps')"
    and u: "u = render (finish_work w)"
    using assms(1) by (auto simp: normalize_ring_def)
  show ?thesis
    using read_term_closed [OF w refl assms(2)] u
    by (auto intro!: render_closed finish_closed) (simp add: finish_work_def)
qed

lemma normalize_equality_closed:
  assumes run: "normalize_equality op type a b limits steps = Inr (u, steps')" and P: "P a" "P b"
  obtains t where "P t" and "u = Prim Equal type [t, literal_of type 0] \<or>
      u = negate (Prim Equal type [t, literal_of type 0])"
  | c where "u = Literal kBoolean c"
proof -
  obtain lhs s1 rhs w where l: "read_term type limits a 0 steps = Inr (lhs, s1)"
    and r: "read_term type limits b 0 s1 = Inr (rhs, steps')"
    and w: "work_sum type limits lhs rhs (residue_mask type) = Inr w"
    and u: "u = (let p = finish_work w;
           equal = (if monomials p \<noteq> []
             then (let positive = render p; opposite = render (negated_polynomial p)
                   in Prim Equal type
                        [if compare positive opposite \<noteq> Ord_Greater then positive else opposite,
                         literal_of type 0])
             else Literal kBoolean (if poly_constant p = 0 then 1 else 0))
       in if op = Equal then equal else negate equal)"
    using run by (auto simp: normalize_equality_def Let_def)
  have "keys_closed (work_terms w) \<and> work_type w = type"
    using work_sum_closed [OF w] read_term_closed [OF l refl P(1)] read_term_closed [OF r refl P(2)] by simp
  then have "P (render (finish_work w))" "P (render (negated_polynomial (finish_work w)))"
    by (auto intro!: render_closed finish_closed negated_closed) (simp_all add: finish_work_def negated_polynomial_def)
  then show thesis using that u by (auto simp: Let_def split: if_splits)
qed

end

interpretation tame_ring: ring_closed "tame n" type for n type
  by unfold_locales (auto simp: is_arithmetic_def)

section \<open>Normal forms nest no deeper\<close>

lemma negate_tame: "tame n t \<Longrightarrow> tame n (negate t)"
  by (cases t rule: negate.cases) auto

lemma less_term_tame: "tame n a \<Longrightarrow> tame n b \<Longrightarrow> tame n (less_term type a b)"
  by (simp add: less_term_def Let_def split: option.split)

lemma representability_tame:
  "is_representability op \<Longrightarrow> tame n a \<Longrightarrow> tame n b \<Longrightarrow> tame n (representability op type a b)"
  by (auto simp: representability_def Let_def is_representability_def split: option.split)

lemma conversion_tame: "tame n (Prim Convert type [a]) \<Longrightarrow> tame n (conversion type a)"
  by (cases a) auto

lemma normalize_select_tame:
  "tame n c \<Longrightarrow> tame n a \<Longrightarrow> tame n b \<Longrightarrow> tame n (normalize_select type c a b)"
  by (cases c rule: negate.cases) (auto simp: normalize_select_def split: list.split)

lemma normalize_equality_tame:
  assumes "normalize_equality op type a b limits steps = Inr (u, steps')" and "tame n a" and "tame n b"
  shows "tame n u"
proof (rule tame_ring.normalize_equality_closed [OF assms])
  fix t assume "tame n t" and "u = Prim Equal type [t, literal_of type 0] \<or>
      u = negate (Prim Equal type [t, literal_of type 0])"
  then show "tame n u" by (auto simp: literal_of_def intro!: negate_tame)
next
  fix c assume "u = Literal kBoolean c"
  then show "tame n u" by simp
qed

lemma normalize_division_tame:
  assumes run: "normalize_division op type a b limits steps = Inr (u, steps')"
    and t: "tame n (Prim op type [a, b])"
  shows "tame n u"
proof -
  have a: "tame n a" using tame_operands [OF t] by simp
  then have "tame n (Prim SubWrap type [Literal type 0, a])" by simp
  then have "normalize_ring SubWrap type [Literal type 0, a] limits steps = Inr (u, steps') \<Longrightarrow> tame n u"
    using tame_ring.normalize_ring_closed by blast
  then show ?thesis
    using run a t by (auto simp: normalize_division_def Let_def split: if_splits option.splits)
qed

lemma normalize_primitive_tame:
  assumes run: "normalize_primitive op type ts limits steps = Inr (u, steps')" and t: "tame n (Prim op type ts)"
  shows "tame n u"
proof (cases "length ts \<noteq> arity op \<or> \<not> is_supported_int type")
  case True
  then show ?thesis using run t by (auto simp: normalize_primitive_def)
next
  case False
  note ts = tame_operands [OF t]
  have nth: "k < arity op \<Longrightarrow> tame n (ts ! k)" for k using ts False by (simp add: list_all_length)
  show ?thesis
  proof (cases "is_arithmetic op")
    case True
    then have "normalize_ring op type ts limits steps = Inr (u, steps')"
      using run False by (simp add: normalize_primitive_def)
    then show ?thesis using tame_ring.normalize_ring_closed t by blast
  next
    case no_ring: False
    show ?thesis
    proof (cases "op = NotOp \<or> op = Select \<or> op = Convert")
      case True
      then show ?thesis
        using run False no_ring nth ts t
        by (auto simp: normalize_primitive_def negate_tame normalize_select_tame conversion_tame length_Suc_conv)
    next
      case binary: False
      then have "length ts = 2" using False by (cases op) simp_all
      then obtain a b where ab: "ts = [a, b]" by (auto simp: length_Suc_conv numeral_2_eq_2)
      then have "tame n a" "tame n b" using ts by simp_all
      then show ?thesis
        using run False no_ring binary t ab normalize_equality_tame normalize_division_tame
        by (cases op)
          (auto simp: normalize_primitive_def negate_tame less_term_tame representability_tame is_arithmetic_def
            is_representability_def)
    qed
  qed
qed

lemma call_free_tame: "call_free t \<longleftrightarrow> (\<exists>n. tame n t)"
  by (auto simp: tame_def)

lemma list_tame: "list_all call_free ts \<Longrightarrow> \<exists>n. list_all (tame n) ts"
proof (induction ts)
  case (Cons t ts)
  then obtain m n where "tame m t" "list_all (tame n) ts" by (auto simp: call_free_tame)
  then have "tame (max m n) t" "list_all (tame (max m n)) ts"
    by (auto simp: list_all_iff intro: tame_mono)
  then show ?case by auto
qed simp

lemma tame_Prim: "list_all (tame n) ts \<Longrightarrow> tame (Suc n) (Prim op type ts)"
  using tame_mono [of n _ "Suc n"] by (cases "nests op") (auto simp: list_all_iff)

lemma normalize_impl_call_free:
  "normalize_impl \<Gamma> limits t steps depth = Inr (u, steps') \<Longrightarrow> call_free u"
  "normalize_list \<Gamma> limits ts steps depth = Inr (us, steps') \<Longrightarrow> list_all call_free us"
proof (induction \<Gamma> limits t steps depth and \<Gamma> limits ts steps depth arbitrary: u steps' and us steps'
    rule: normalize_impl_normalize_list.induct)
  case (3 \<Gamma> limits callee ts steps depth)
  then show ?case by (auto split: option.splits)
next
  case (4 \<Gamma> limits op type ts steps depth)
  then obtain us s1 where us: "list_all call_free us"
    and u: "normalize_primitive op type us limits (s1 + 1) = Inr (u, steps')" by auto
  obtain n where "list_all (tame n) us" using list_tame [OF us] by blast
  then show ?case using normalize_primitive_tame [OF u tame_Prim] call_free_tame by blast
qed (auto split: if_splits)

lemma normalize_impl_tame:
  "normalize_impl \<Gamma> limits t steps depth = Inr (u, steps') \<Longrightarrow> tame n t \<Longrightarrow> tame n u"
  "normalize_list \<Gamma> limits ts steps depth = Inr (us, steps') \<Longrightarrow> list_all (tame n) ts \<Longrightarrow> list_all (tame n) us"
proof (induction \<Gamma> limits t steps depth and \<Gamma> limits ts steps depth arbitrary: n u steps' and n us steps'
    rule: normalize_impl_normalize_list.induct)
  case (4 \<Gamma> limits op type ts steps depth)
  obtain us s1 where us: "normalize_list \<Gamma> limits ts steps (Suc depth) = Inr (us, s1)"
    and u: "normalize_primitive op type us limits (s1 + 1) = Inr (u, steps')"
    and ok: "begin_normalize limits steps depth = Inr ()" using "4.prems"(1) by auto
  have "tame n (Prim op type us)"
  proof (cases "nests op")
    case True
    then obtain m where m: "n = Suc m" using "4.prems"(2) by (cases n) auto
    then show ?thesis using "4.IH" [OF ok us, of m] "4.prems"(2) True by simp
  next
    case False
    then show ?thesis using "4.IH" [OF ok us, of n] "4.prems"(2) by simp
  qed
  then show ?case by (rule normalize_primitive_tame [OF u])
qed (auto split: if_splits)

lemma normalize_call_free: "normalize \<Gamma> t limits = Inr u \<Longrightarrow> call_free u"
  by (auto simp: normalize_def dest: normalize_impl_call_free)

lemma normalize_tame: "normalize \<Gamma> t limits = Inr u \<Longrightarrow> tame n t \<Longrightarrow> tame n u"
  by (auto simp: normalize_def dest: normalize_impl_tame)

section \<open>Errors of the code\<close>

text \<open>Typing, substitution and normalization either return or report a \<open>CoreError\<close>.\<close>

definition core_only :: "core_error + 'a \<Rightarrow> bool" where
  "core_only m \<longleftrightarrow> (\<forall>e. m = Inl e \<longrightarrow> (\<exists>kind detail. e = CoreError kind detail))"

named_theorems core_only_intros

lemma core_only_simps [simp]:
  "core_only (Inr x)"
  "core_only (Inl e) \<longleftrightarrow> (\<exists>kind detail. e = CoreError kind detail)"
  by (simp_all add: core_only_def)

lemma core_only_bind [core_only_intros]:
  "core_only m \<Longrightarrow> (\<And>x. m = Inr x \<Longrightarrow> core_only (f x)) \<Longrightarrow> core_only (bind_ok m f)"
  by (cases m) auto

lemma core_only_if [core_only_intros]: "(b \<Longrightarrow> core_only m) \<Longrightarrow> (\<not> b \<Longrightarrow> core_only n) \<Longrightarrow> core_only (if b then m else n)"
  by simp

lemma core_only_prod [core_only_intros]:
  "(\<And>x y. p = (x, y) \<Longrightarrow> core_only (f x y)) \<Longrightarrow> core_only (case p of (x, y) \<Rightarrow> f x y)"
  by (cases p) simp

lemma core_only_option [core_only_intros]:
  "(x = None \<Longrightarrow> core_only m) \<Longrightarrow> (\<And>y. x = Some y \<Longrightarrow> core_only (f y)) \<Longrightarrow>
     core_only (case x of None \<Rightarrow> m | Some y \<Rightarrow> f y)"
  by (cases x) auto

lemma core_only_steps [core_only_intros]:
  "core_only (spend limits amount steps)"
  "core_only (begin_read limits depth steps)"
  "core_only (accumulate type limits w fs c)"
  "core_only (depth_ok limits depth detail)"
  "core_only (validate_type \<tau>)"
  "core_only (begin_normalize limits steps depth)"
  by (auto simp: spend_def begin_read_def accumulate_def depth_ok_def validate_type_def begin_normalize_def Let_def)

lemma core_only_add_terms [core_only_intros]: "core_only (add_terms type limits scale added into)"
  by (induction type limits scale added into rule: add_terms.induct) (auto intro!: core_only_intros)

lemma core_only_work_sum [core_only_intros]: "core_only (work_sum type limits into added scale)"
  by (auto simp: work_sum_def intro!: core_only_intros)

lemma core_only_product_row [core_only_intros]: "core_only (product_row type limits lf lc right acc steps)"
  by (induction type limits lf lc right acc steps rule: product_row.induct) (auto intro!: core_only_intros)

lemma core_only_product_rows [core_only_intros]: "core_only (product_rows type limits left right acc steps)"
  by (induction type limits left right acc steps rule: product_rows.induct) (auto intro!: core_only_intros)

lemma core_only_read_term [core_only_intros]: "core_only (read_term type limits t depth steps)"
  by (induction type limits t depth steps rule: read_term.induct)
    (auto simp: work_product_def intro!: core_only_intros)

lemma core_only_read_polynomial [core_only_intros]: "core_only (read_polynomial t type limits)"
  by (auto simp: read_polynomial_def intro!: core_only_intros)

lemma core_only_normalize_ring [core_only_intros]: "core_only (normalize_ring op type ts limits steps)"
  by (auto simp: normalize_ring_def intro!: core_only_intros)

lemma core_only_normalize_primitive [core_only_intros]: "core_only (normalize_primitive op type ts limits steps)"
  by (cases op)
    (auto simp: normalize_primitive_def normalize_equality_def normalize_division_def Let_def
      intro!: core_only_intros split: option.split)

lemma core_only_substitute [core_only_intros]:
  "core_only (substitute t args limits depth)"
  "core_only (substitute_list ts args limits depth)"
  by (induction t args limits depth and ts args limits depth rule: substitute_substitute_list.induct)
    (auto intro!: core_only_intros)

lemma core_only_normalize_impl:
  "core_only (normalize_impl \<Gamma> limits t steps depth)"
  "core_only (normalize_list \<Gamma> limits ts steps depth)"
  by (induction \<Gamma> limits t steps depth and \<Gamma> limits ts steps depth rule: normalize_impl_normalize_list.induct)
    (auto simp del: bind_ok_eq_Inr intro!: core_only_intros)

lemma core_only_normalize [core_only_intros]: "core_only (normalize \<Gamma> t limits)"
  by (auto simp: normalize_def intro!: core_only_intros core_only_normalize_impl)

lemma core_only_type_of_impl:
  "core_only (type_of_impl \<Gamma> L limits t depth)"
  "(\<And>k e a. core_only (Inl (mismatch k e a) :: core_error + unit)) \<Longrightarrow>
     core_only (check_arguments \<Gamma> L limits mismatch index es ts depth)"
  by (induction \<Gamma> L limits t depth and \<Gamma> L limits mismatch index es ts depth
      rule: type_of_impl_check_arguments.induct)
    (auto simp: call_mismatch_def prim_mismatch_def intro!: core_only_intros split: list.split)

lemma core_only_type_of [core_only_intros]: "core_only (type_of \<Gamma> L t limits)"
  by (simp add: type_of_def core_only_type_of_impl)

section \<open>The reader ends\<close>

definition fuelled :: "core_error + 'a \<Rightarrow> bool" where
  "fuelled m \<longleftrightarrow> m \<noteq> Inl OutOfFuel"

named_theorems fuelled_intros

lemma fuelled_simps [simp]:
  "fuelled (Inr x)"
  "fuelled (Inl e) \<longleftrightarrow> e \<noteq> OutOfFuel"
  by (simp_all add: fuelled_def)

lemma core_only_fuelled: "core_only m \<Longrightarrow> fuelled m"
  by (auto simp: core_only_def fuelled_def)

lemma fuelled_bind [fuelled_intros]:
  "fuelled m \<Longrightarrow> (\<And>x. m = Inr x \<Longrightarrow> fuelled (f x)) \<Longrightarrow> fuelled (bind_ok m f)"
  by (cases m) auto

lemma fuelled_if [fuelled_intros]: "(b \<Longrightarrow> fuelled m) \<Longrightarrow> (\<not> b \<Longrightarrow> fuelled n) \<Longrightarrow> fuelled (if b then m else n)"
  by simp

lemma fuelled_prod [fuelled_intros]:
  "(\<And>x y. p = (x, y) \<Longrightarrow> fuelled (f x y)) \<Longrightarrow> fuelled (case p of (x, y) \<Rightarrow> f x y)"
  by (cases p) simp

lemma fuelled_option [fuelled_intros]:
  "(x = None \<Longrightarrow> fuelled m) \<Longrightarrow> (\<And>y. x = Some y \<Longrightarrow> fuelled (f y)) \<Longrightarrow>
     fuelled (case x of None \<Rightarrow> m | Some y \<Rightarrow> f y)"
  by (cases x) auto

lemma fuelled_steps [fuelled_intros]:
  "fuelled (unchecked_neg c)"
  "e \<noteq> OutOfFuel \<Longrightarrow> fuelled (or_overflow e r)"
  "fuelled (push_variable v s)"
  by (auto simp: unchecked_neg_def or_overflow_def push_variable_def Let_def split: option.split)

lemma fuelled_negated_terms [fuelled_intros]: "fuelled (negated_terms ts)"
  by (induction ts rule: negated_terms.induct) (auto simp del: bind_ok_eq_Inr intro!: fuelled_intros)

lemma fuelled_subtract_terms [fuelled_intros]: "fuelled (subtract_terms ts acc)"
  by (induction ts acc rule: subtract_terms.induct)
    (auto simp: Let_def linear_failure_def intro!: fuelled_intros)

lemma fuelled_scaled_terms [fuelled_intros]: "fuelled (scaled_terms k ts)"
  by (induction k ts rule: scaled_terms.induct) (auto simp: linear_failure_def intro!: fuelled_intros)

lemma fuelled_core [fuelled_intros]:
  "fuelled (normalize \<Gamma> t limits)" "fuelled (read_polynomial t type limits)" "fuelled (type_of \<Gamma> L t limits)"
  by (rule core_only_fuelled core_only_intros)+

lemma fuelled_expressions [fuelled_intros]:
  "fuelled (negated e)" "fuelled (subtract d e)" "fuelled (scaled e k)" "fuelled (finish e x)" "fuelled (linear d e x)"
  by (auto simp: negated_def subtract_def scaled_def finish_def linear_def linear_failure_def
      intro!: fuelled_intros)

lemma fuelled_constraints [fuelled_intros]:
  "fuelled (constrain e x s)" "fuelled (before d e x s)" "fuelled (equal d e s)" "fuelled (differ d e s)"
  "fuelled (bound e type s)" "fuelled (outside e type s)" "fuelled (either d x e y s)"
  by (auto simp: constrain_def before_def equal_def differ_def bound_def outside_def either_def linear_failure_def
      simp del: bind_ok_eq_Inr intro!: fuelled_intros)

lemma fuelled_divisions [fuelled_intros]:
  "fuelled (same_sign d e s)" "fuelled (divide_by_constant type q r d k s)" "fuelled (divide_by_unknown type r d e s)"
  by (auto simp: same_sign_def divide_by_constant_def divide_by_unknown_def Let_def
      simp del: bind_ok_eq_Inr intro!: fuelled_intros)

lemma fuelled_readers [fuelled_intros]:
  "fuelled (state_conversion i target src ts e s)" "fuelled (wrap_range e type s)"
  "fuelled (wrapped_value t type e s)" "fuelled (register_variable type t s)"
  by (auto simp: state_conversion_def wrap_range_def wrapped_value_def register_variable_def Let_def
      simp del: bind_ok_eq_Inr intro!: fuelled_intros)

text \<open>Reading the variables of the monomials one by one.\<close>

lemma fuelled_each_monomial:
  "(\<And>m s. m \<in> set ms \<Longrightarrow> fuelled (read (factors m) s)) \<Longrightarrow> fuelled (each_monomial read type ms e s)"
  by (induction ms arbitrary: e s) (auto simp del: bind_ok_eq_Inr intro!: fuelled_bind fuelled_prod)

text \<open>A division that is being defined is not defined again.\<close>

definition division_key :: "int_type \<Rightarrow> kterm \<Rightarrow> kterm \<Rightarrow> typed_term" where
  "division_key type a b = TypedTerm type (Prim Quotient type [a, b])"

definition division_known :: "int_type \<Rightarrow> kterm \<Rightarrow> kterm \<Rightarrow> builder \<Rightarrow> bool" where
  "division_known type a b s \<longleftrightarrow> omap_find typed_term_less (division_key type a b) (divisions s) \<noteq> None"

lemma typed_term_less_irrefl: "\<not> typed_term_less x x"
  using typed_term_order.less_irrefl by (simp add: typed_term_less_compare)

lemma division_known_inserted: "division_known type a b (insert_division (division_key type a b) s)"
  by (simp add: division_known_def insert_division_def omap_find_put_same typed_term_less_irrefl)

lemma define_division_known:
  "division_known type a b s \<Longrightarrow> 0 < fuel \<Longrightarrow> define_division fuel \<Gamma> L limits type a b s = Inr s"
  by (cases fuel) (auto simp: division_known_def division_key_def division_body_def Let_def)

lemma push_variable_divisions: "push_variable v s = Inr (i, s') \<Longrightarrow> divisions s' = divisions s"
  by (auto simp: push_variable_def Let_def split: if_splits)

lemma constrain_divisions: "constrain e x s = Inr s' \<Longrightarrow> divisions s' = divisions s"
  by (auto simp: constrain_def push_constraint_def)

lemma register_variable_divisions: "register_variable type t s = Inr (i, s') \<Longrightarrow> divisions s' = divisions s"
  by (auto simp: register_variable_def bound_def dest!: push_variable_divisions constrain_divisions)

lemma division_variable:
  assumes op: "op = Quotient \<or> op = Remainder" and known: "division_known type a b s" and fuel: "1 < fuel"
  shows "fuelled (variable fuel \<Gamma> L limits type [Prim op type [a, b]] s)"
    and "variable fuel \<Gamma> L limits type [Prim op type [a, b]] s = Inr (i, s') \<Longrightarrow> division_known type a b s'"
proof -
  obtain f where f: "fuel = Suc f" "0 < f" using fuel by (cases fuel) auto
  let ?t = "Prim op type [a, b]"
  have defining: "defining_primitive type ?t = Some (Inr (a, b))" using op by auto
  have registered: "define_division f \<Gamma> L limits type a b s1 = Inr s1"
    if "register_variable type ?t s = Inr (j, s1)" for j s1
    using define_division_known [OF _ f(2)] known register_variable_divisions [OF that]
    by (simp add: division_known_def)
  show "fuelled (variable fuel \<Gamma> L limits type [?t] s)"
    using f registered defining
    by (auto simp: variable_body_def render_factors_def Let_def simp del: bind_ok_eq_Inr defining_primitive.simps
        intro!: fuelled_intros)
  show "division_known type a b s'" if "variable fuel \<Gamma> L limits type [?t] s = Inr (i, s')"
    using that f registered defining known register_variable_divisions [of type ?t s]
    by (auto simp: variable_body_def render_factors_def Let_def division_known_def
        simp del: defining_primitive.simps split: option.splits)
qed

text \<open>The fuel of each reader for a term nesting \<open>k\<close> conversions and divisions.\<close>

definition fuel_enough :: "nat \<Rightarrow> kcontext \<Rightarrow> ktype list \<Rightarrow> core_limits \<Rightarrow> bool" where
  "fuel_enough k \<Gamma> L limits \<longleftrightarrow>
     (\<forall>target a i s. tame k a \<longrightarrow> fuelled (define_conversion (3 * k + 3) \<Gamma> L limits i target a s)) \<and>
     (\<forall>type a b s. tame k a \<longrightarrow> tame k b \<longrightarrow> fuelled (define_division (3 * k + 3) \<Gamma> L limits type a b s))"

lemma variable_fuelled:
  assumes "fs \<noteq> []" and "list_all (tame k) fs" and IH: "\<And>j. k = Suc j \<Longrightarrow> fuel_enough j \<Gamma> L limits"
  shows "fuelled (variable (3 * k + 1) \<Gamma> L limits type fs s)"
proof -
  have unfolded: "variable (3 * k + 1) \<Gamma> L limits =
      variable_body (define_conversion (3 * k) \<Gamma> L limits) (define_division (3 * k) \<Gamma> L limits)" by simp
  let ?t = "render_factors type fs"
  have t: "tame k ?t" using tame_ring.render_factors_closed assms(1,2) by blast
  have "fuelled (case defining_primitive type ?t of
      Some (Inl a) \<Rightarrow> define_conversion (3 * k) \<Gamma> L limits i type a s'
    | Some (Inr (a, b)) \<Rightarrow> define_division (3 * k) \<Gamma> L limits type a b s'
    | None \<Rightarrow> Inr s')" for i s'
  proof (cases "defining_primitive type ?t")
    case (Some primitive)
    have nest: "\<exists>op ts. nests op \<and> ?t = Prim op type ts \<and>
        ts = (case primitive of Inl a \<Rightarrow> [a] | Inr (a, b) \<Rightarrow> [a, b])"
      using Some by (cases "(type, ?t)" rule: defining_primitive.cases) (auto split: if_splits)
    then obtain j where j: "k = Suc j" using t by (cases k) auto
    have k: "3 * k = 3 * j + 3" using j by simp
    show ?thesis
      using IH [OF j] t nest Some unfolding k fuel_enough_def
      by (cases primitive) (auto simp: j split: prod.splits)
  qed simp
  then show ?thesis unfolding unfolded
    by (auto simp: variable_body_def Let_def simp del: bind_ok_eq_Inr intro!: fuelled_intros)
qed

lemma value_fuelled:
  assumes "\<And>n. normalize \<Gamma> t limits = Inr n \<Longrightarrow> tame k n"
    and IH: "\<And>j. k = Suc j \<Longrightarrow> fuel_enough j \<Gamma> L limits"
  shows "fuelled (value_in (3 * k + 2) \<Gamma> L limits t type s)"
proof -
  have unfolded: "value_in (3 * k + 2) \<Gamma> L limits = value_body (variable (3 * k + 1) \<Gamma> L limits) \<Gamma> limits"
    by (simp add: eval_nat_numeral)
  have read: "fuelled (variable (3 * k + 1) \<Gamma> L limits type (factors m) s')"
    if "normalize \<Gamma> t limits = Inr n" "read_polynomial n type limits = Inr p" "m \<in> set (monomials p)" for n p m s'
  proof (rule variable_fuelled [OF _ _ IH])
    show "factors m \<noteq> []" "list_all (tame k) (factors m)"
      using tame_ring.read_polynomial_closed [OF that(2) assms(1) [OF that(1)]] that(3)
      by (auto simp: tame_ring.monomials_closed_def)
  qed
  show ?thesis unfolding unfolded value_body_def
    by (auto simp del: bind_ok_eq_Inr intro!: fuelled_intros fuelled_each_monomial read)
qed

lemma fuel_enough_step:
  assumes IH: "\<And>j. k = Suc j \<Longrightarrow> fuel_enough j \<Gamma> L limits"
  shows "fuel_enough k \<Gamma> L limits"
proof -
  have read: "fuelled (value_in (3 * k + 2) \<Gamma> L limits a type s)" if "tame k a" for a type s
    by (rule value_fuelled [OF normalize_tame [OF _ that] IH])
  have "fuelled (define_conversion (3 * k + 3) \<Gamma> L limits i target a s)" if "tame k a" for i target a s
  proof -
    have "define_conversion (3 * k + 3) \<Gamma> L limits = conversion_body (value_in (3 * k + 2) \<Gamma> L limits) \<Gamma> L limits"
      by (simp add: eval_nat_numeral)
    then show ?thesis
      using read [OF that]
      by (auto simp: conversion_body_def linear_failure_def simp del: bind_ok_eq_Inr intro!: fuelled_intros
          split: ktype.split)
  qed
  moreover have "fuelled (define_division (3 * k + 3) \<Gamma> L limits type a b s)" if "tame k a" "tame k b" for type a b s
  proof -
    have unfolded: "define_division (3 * k + 3) \<Gamma> L limits =
        division_body (value_in (3 * k + 2) \<Gamma> L limits) (variable (3 * k + 2) \<Gamma> L limits)"
      by (simp add: eval_nat_numeral)
    define s0 where "s0 = insert_division (division_key type a b) s"
    have known: "division_known type a b s0" by (simp add: s0_def division_known_inserted)
    have fuel: "1 < 3 * k + 2" by simp
    have q: "fuelled (variable (3 * k + 2) \<Gamma> L limits type [Prim Quotient type [a, b]] s0)"
      by (rule division_variable(1) [OF _ known fuel]) simp
    have r: "fuelled (variable (3 * k + 2) \<Gamma> L limits type [Prim Remainder type [a, b]] s1)"
      if "variable (3 * k + 2) \<Gamma> L limits type [Prim Quotient type [a, b]] s0 = Inr (i, s1)" for i s1
      by (rule division_variable(1) [OF _ division_variable(2) [OF _ known fuel that] fuel]) simp_all
    show ?thesis unfolding unfolded division_body_def Let_def division_key_def [symmetric] s0_def [symmetric]
      by (auto simp del: bind_ok_eq_Inr intro!: fuelled_option fuelled_bind fuelled_prod fuelled_divisions q
          intro: r read that)
  qed
  ultimately show ?thesis by (auto simp: fuel_enough_def)
qed

lemma fuel_enough: "fuel_enough k \<Gamma> L limits"
  by (induction k) (auto intro: fuel_enough_step)

lemma read_value_fuelled [fuelled_intros]: "fuelled (read_value \<Gamma> L limits t type s)"
proof (cases "normalize \<Gamma> t limits")
  case (Inl e)
  then show ?thesis
    using fuelled_core(1) [of \<Gamma> t limits] by (simp add: read_value_def value_body_def)
next
  case (Inr n)
  have "fuelled (value_in (3 * nesting n + 2) \<Gamma> L limits t type s)"
    using Inr tame_nesting [OF normalize_call_free] by (intro value_fuelled fuel_enough) auto
  then show ?thesis using Inr by (simp add: read_value_def reading_fuel_def)
qed

section \<open>The builder and the checker end\<close>

lemma fuelled_truth_parts [fuelled_intros]:
  "fuelled (unbounded \<Gamma> L limits op type a b s)" "fuelled (product_always_fits \<Gamma> L limits op type a b s)"
  "fuelled (truth_boolean \<Gamma> L limits c held s)" "fuelled (falsehood s)"
  "fuelled (truth_comparison op held d e s)" "fuelled (read_sides \<Gamma> L limits type a b equal s)"
  "fuelled (read_sides \<Gamma> L limits type a b differ s)"
  by (auto simp: unbounded_def product_always_fits_def truth_boolean_def falsehood_def truth_comparison_def
      read_sides_def simp del: bind_ok_eq_Inr intro!: fuelled_intros split: prim_op.split)

lemma fuelled_truth [fuelled_intros]: "fuelled (truth \<Gamma> L limits t held s)"
  by (induction \<Gamma> L limits t held s rule: truth.induct)
    (auto simp: truth_representability_def simp del: bind_ok_eq_Inr intro!: fuelled_intros)

lemma fuelled_state_equality [fuelled_intros]:
  "(\<And>s. fuelled (read_sides \<Gamma> L limits type a b relate s)) \<Longrightarrow>
     fuelled (state_equality \<Gamma> L limits type a b literal_holds relate s)"
  by (auto simp: state_equality_def simp del: bind_ok_eq_Inr intro!: fuelled_intros)

lemma fuelled_facts [fuelled_intros]:
  "fuelled (fact \<Gamma> L limits p s)" "fuelled (refuted \<Gamma> L limits p s)" "fuelled (add_facts \<Gamma> L limits ps s)"
proof -
  show fact: "fuelled (fact \<Gamma> L limits p s)" for p s
    by (cases "(\<Gamma>, L, limits, p, s)" rule: fact.cases) (auto simp: linear_failure_def intro!: fuelled_intros)
  show "fuelled (refuted \<Gamma> L limits p s)"
    by (cases "(\<Gamma>, L, limits, p, s)" rule: refuted.cases) (auto simp: linear_failure_def intro!: fuelled_intros)
  show "fuelled (add_facts \<Gamma> L limits ps s)"
    by (induction ps arbitrary: s) (auto simp del: bind_ok_eq_Inr intro!: fuelled_intros fact)
qed

lemma arithmetic_system_fuelled: "fuelled (arithmetic_system_of \<Gamma> facts goal limits L)"
  by (auto simp: arithmetic_system_of_def linear_failure_def simp del: bind_ok_eq_Inr intro!: fuelled_intros)

text \<open>Every run of the checker reaches a verdict, or leaves what the model follows for a stated reason.\<close>

definition settled :: "rejection + 'a \<Rightarrow> bool" where
  "settled m \<longleftrightarrow> (\<forall>e. m = Inl (NoOutcome e) \<longrightarrow> e = UndefinedBehaviour \<or> e = IndexOverflow)"

named_theorems settled_intros

lemma settled_simps [simp]:
  "settled (Inr x)"
  "settled (Inl (Rejection kind detail))"
  by (simp_all add: settled_def)

lemma settled_bind [settled_intros]:
  "settled m \<Longrightarrow> (\<And>x. m = Inr x \<Longrightarrow> settled (f x)) \<Longrightarrow> settled (bind_ok m f)"
  by (cases m) (auto simp: settled_def)

lemma settled_if [settled_intros]: "(b \<Longrightarrow> settled m) \<Longrightarrow> (\<not> b \<Longrightarrow> settled n) \<Longrightarrow> settled (if b then m else n)"
  by simp

lemma settled_demand [settled_intros]: "settled (demand b kind detail)"
  by (simp add: demand_def)

lemma settled_or_reject [settled_intros]: "fuelled m \<Longrightarrow> settled (or_reject kind m)"
proof (cases m)
  case (Inl e)
  assume "fuelled m"
  with Inl show ?thesis by (cases e) (simp_all add: or_reject_def settled_def)
qed (simp add: or_reject_def)

lemma settled_validate [settled_intros]: "settled (validate_proposition \<Gamma> L p limits depth)"
  by (induction \<Gamma> L p limits depth rule: validate_proposition.induct)
    (auto simp: validate_side_def simp del: bind_ok_eq_Inr intro!: settled_intros fuelled_intros)

lemma wrong_introduction_settles [simp]: "settled (Inl (wrong_introduction goal))"
  by (cases goal) simp_all

abbreviation settles :: "subchecker \<Rightarrow> bool" where
  "settles checker \<equiv> (\<forall>L A goal. settled (checker L A goal))"

lemma check_facts_settled: "\<forall>(p, e) \<in> set facts. settles e \<Longrightarrow> settled (check_facts \<Gamma> limits depth facts L A)"
  by (induction facts) (auto simp del: bind_ok_eq_Inr intro!: settled_intros)

lemma arithmetic_rule_settles:
  "\<forall>(p, e) \<in> set facts. settles e \<Longrightarrow> settles (arithmetic_rule \<Gamma> limits depth facts certificate)"
  by (auto simp: arithmetic_rule_def simp del: bind_ok_eq_Inr
      intro!: settled_intros check_facts_settled arithmetic_system_fuelled split: sum.split)

lemma rules_settle:
  "settles p \<Longrightarrow> settles q \<Longrightarrow> settles (conditional_rule \<Gamma> limits depth type c a b motive p q)"
  "settles p \<Longrightarrow> settles (forall_elimination \<Gamma> limits depth quantified argument p)"
  "settles p \<Longrightarrow> settles q \<Longrightarrow> settles (implication_elimination \<Gamma> limits depth implication p q)"
  "settles p \<Longrightarrow> settles (conjunction_elimination \<Gamma> limits depth conjunction right p)"
  "settles p \<Longrightarrow> settles q \<Longrightarrow> settles r \<Longrightarrow> settles (disjunction_elimination \<Gamma> limits depth disjunction p q r)"
  "settles p \<Longrightarrow> settles q \<Longrightarrow> settles (equality_elimination \<Gamma> limits depth type lhs rhs motive p q)"
  "settles (hypothesis_rule index)"
  "settles p \<Longrightarrow> settles q \<Longrightarrow> settles (induction_rule \<tau> p q)"
  "settles p \<Longrightarrow> settles (forall_introduction \<tau> p)"
  "settles p \<Longrightarrow> settles (implication_introduction premise p)"
  "settles p \<Longrightarrow> settles q \<Longrightarrow> settles (conjunction_introduction p q)"
  "settles p \<Longrightarrow> settles (disjunction_introduction right p)"
  "settles (reflexivity_rule \<Gamma> limits)"
  by (auto simp: conditional_rule_def forall_elimination_def implication_elimination_def
      conjunction_elimination_def disjunction_elimination_def equality_elimination_def hypothesis_rule_def
      induction_rule_def forall_introduction_def implication_introduction_def conjunction_introduction_def
      disjunction_introduction_def reflexivity_rule_def Let_def
      simp del: bind_ok_eq_Inr validate_proposition.simps intro!: settled_intros fuelled_intros
      split: kprop.split ktype.split)

lemma proof_depth_settles: "settles rule \<Longrightarrow> settles (proof_depth limits depth rule)"
  by (auto simp: proof_depth_def simp del: bind_ok_eq_Inr intro!: settled_intros)

lemma check_under_settles:
  "settles (check_under \<Gamma> limits p depth)"
  "settles (snd (fact_checker \<Gamma> limits f depth))"
proof (induction p and f arbitrary: depth and depth)
  case (LinearArithmetic facts certificate)
  then have "\<forall>(p, e) \<in> set (map (\<lambda>f. fact_checker \<Gamma> limits f (Suc depth)) facts). settles e"
    by (auto simp: split_beta)
  then show ?case unfolding check_under.simps by (intro proof_depth_settles arithmetic_rule_settles)
next
  case (FalsityElimination p)
  then show ?case unfolding check_under.simps by (intro proof_depth_settles) blast
qed (unfold check_under.simps fact_checker.simps snd_conv, (intro proof_depth_settles rules_settle; assumption?)+)

lemma check_settled: "settled (check \<Gamma> goal evidence limits)"
  using check_under_settles(1)
  by (auto simp: check_def simp del: bind_ok_eq_Inr intro!: settled_intros)

end
