(* ===== verification/Bound_Facts.thy ===== *)
theory Bound_Facts
  imports Kernel_Check Typing_Facts Poly_Facts
begin

text \<open>
  The limits of the core: what typing and validation accept is exactly what is well typed and
  shallow enough, polynomials stay within the terms and the degree allowed, and a certificate is
  accepted only within the nodes allowed.
\<close>

section \<open>Depth\<close>

text \<open>The depth of the deepest subterm below a term.\<close>

fun height :: "kterm \<Rightarrow> nat" where
  "height (Var i) = 0"
| "height (Literal type v) = 0"
| "height (Call callee ts) = foldr max (map (\<lambda>t. Suc (height t)) ts) 0"
| "height (Prim op type ts) = foldr max (map (\<lambda>t. Suc (height t)) ts) 0"
| "height (Projection domain k ts) = foldr max (map (\<lambda>t. Suc (height t)) ts) 0"
| "height (Element domain ts) = foldr max (map (\<lambda>t. Suc (height t)) ts) 0"

lemma foldr_max_add_le:
  "depth + foldr max (map f ts) 0 \<le> (n :: nat) \<longleftrightarrow> depth \<le> n \<and> (\<forall>t \<in> set ts. depth + f t \<le> n)"
  by (induction ts) auto

section \<open>Typing is decided up to the depth allowed\<close>

lemma check_arguments_iff:
  assumes "\<And>t \<tau>. t \<in> set ts \<Longrightarrow> type_of_impl \<Gamma> L limits t depth = Inr \<tau> \<longleftrightarrow>
      has_type \<Gamma> L t \<tau> \<and> depth + height t \<le> unat (max_term_depth limits)"
    and "length es = length ts"
  shows "check_arguments \<Gamma> L limits mismatch k es ts depth = Inr () \<longleftrightarrow>
    list_all2 (has_type \<Gamma> L) ts es \<and> (\<forall>t \<in> set ts. depth + height t \<le> unat (max_term_depth limits))"
  using assms(2,1)
proof (induction es ts arbitrary: k rule: list_induct2)
  case (Cons e es t ts)
  have "type_of_impl \<Gamma> L limits t depth = Inr e \<longleftrightarrow>
      has_type \<Gamma> L t e \<and> depth + height t \<le> unat (max_term_depth limits)"
    by (rule Cons.prems) simp
  moreover have "check_arguments \<Gamma> L limits mismatch (Suc k) es ts depth = Inr () \<longleftrightarrow>
    list_all2 (has_type \<Gamma> L) ts es \<and> (\<forall>t \<in> set ts. depth + height t \<le> unat (max_term_depth limits))"
    using Cons.prems by (intro Cons.IH) simp
  ultimately show ?case by auto
qed simp

lemma type_of_impl_iff:
  "type_of_impl \<Gamma> L limits t depth = Inr \<tau> \<longleftrightarrow>
     has_type \<Gamma> L t \<tau> \<and> depth + height t \<le> unat (max_term_depth limits)"
proof (induction t arbitrary: depth \<tau>)
  case (Var i)
  show ?case by (auto elim!: has_type_Var intro: has_type_var_Suc)
next
  case (Literal type v)
  show ?case by (auto simp: has_type_Literal_iff is_supported_Int is_representable_def)
next
  case (Call callee ts)
  note args = check_arguments_iff [of ts, OF Call]
  show ?case
  proof (cases "lookup \<Gamma> callee")
    case (Some d)
    show ?thesis
    proof (cases "length (parameters d) = length ts")
      case True
      then show ?thesis
        using Some by (auto simp: args foldr_max_add_le Suc_le_eq elim!: has_type_Call intro: has_type.type_call)
    next
      case False
      then show ?thesis using Some by (auto elim!: has_type_Call dest: list_all2_lengthD)
    qed
  qed (auto elim!: has_type_Call)
next
  case (Prim op type ts)
  note args = check_arguments_iff [of ts, OF Prim]
  show ?case
  proof (cases "op = Convert")
    case True
    then show ?thesis
      by (auto simp: Prim.IH foldr_max_add_le Suc_le_eq length_Suc_conv is_supported_Int is_integer_iff
          elim!: has_type_Prim intro: has_type.type_convert split: list.splits)
  next
    case False
    show ?thesis
    proof (cases "length ts = arity op")
      case True
      then show ?thesis
        using False by (auto simp: args foldr_max_add_le Suc_le_eq is_supported_Int elim!: has_type_Prim
            intro: has_type.type_prim)
    next
      case arity: False
      then show ?thesis using False by (auto elim!: has_type_Prim dest: list_all2_lengthD)
    qed
  qed
next
  case (Projection domain k ts)
  show ?case
    by (cases domain)
      (auto simp: Projection foldr_max_add_le Suc_le_eq length_Suc_conv elim!: has_type_Projection
        intro: has_type.type_projection)
next
  case (Element domain ts)
  show ?case
  proof (cases "\<exists>e n. domain = Indexed_Type [e] n")
    case True
    then obtain e n where "domain = Indexed_Type [e] n" by blast
    then show ?thesis
      by (auto simp: Element foldr_max_add_le Suc_le_eq is_integer_iff elim!: has_type_Element
          intro: has_type.type_element split: list.splits)
  next
    case False
    then have "\<not> (is_supported domain \<and> is_indexed domain)"
      by (cases domain) (auto simp: is_supported_def length_Suc_conv split: if_splits)
    then show ?thesis using False by (auto elim!: has_type_Element)
  qed
qed

lemma type_of_iff:
  "type_of \<Gamma> L t limits = Inr \<tau> \<longleftrightarrow> has_type \<Gamma> L t \<tau> \<and> height t \<le> unat (max_term_depth limits)"
  by (simp add: type_of_def type_of_impl_iff)

text \<open>Every term of a proposition is typed from depth zero again.\<close>

fun terms_height :: "kprop \<Rightarrow> nat" where
  "terms_height (Eq type lhs rhs) = max (height lhs) (height rhs)"
| "terms_height (Forall \<tau> p) = terms_height p"
| "terms_height (Implies p q) = max (terms_height p) (terms_height q)"
| "terms_height (And p q) = max (terms_height p) (terms_height q)"
| "terms_height (Or p q) = max (terms_height p) (terms_height q)"
| "terms_height Falsity = 0"

fun prop_height :: "kprop \<Rightarrow> nat" where
  "prop_height (Forall \<tau> p) = Suc (prop_height p)"
| "prop_height (Implies p q) = Suc (max (prop_height p) (prop_height q))"
| "prop_height (And p q) = Suc (max (prop_height p) (prop_height q))"
| "prop_height (Or p q) = Suc (max (prop_height p) (prop_height q))"
| "prop_height _ = 0"

lemma validate_side_iff:
  "validate_side \<Gamma> L limits type t = Inr u \<longleftrightarrow> has_type \<Gamma> L t type \<and> height t \<le> unat (max_term_depth limits)"
  by (auto simp: validate_side_def type_of_iff)

lemma validate_proposition_iff:
  "validate_proposition \<Gamma> L p limits depth = Inr () \<longleftrightarrow>
     wf_prop \<Gamma> L p \<and> depth + prop_height p \<le> unat (max_term_depth limits) \<and>
     terms_height p \<le> unat (max_term_depth limits)"
  by (induction \<Gamma> L p limits depth rule: validate_proposition.induct) (auto simp: validate_side_iff)

section \<open>Polynomials stay within their limits\<close>

lemma length_omap_put: "length m \<le> length (omap_put lt k v m)"
  by (induction lt k v m rule: omap_put.induct) auto

definition degree_ok :: "core_limits \<Rightarrow> (kterm list, u64) omap \<Rightarrow> bool" where
  "degree_ok limits m \<longleftrightarrow> (\<forall>fs \<in> fst ` set m. length fs \<le> max 1 (unat (max_monomial_degree limits)))"

definition within :: "core_limits \<Rightarrow> work \<Rightarrow> bool" where
  "within limits w \<longleftrightarrow>
     length (work_terms w) \<le> max 1 (unat (max_polynomial_terms limits)) \<and> degree_ok limits (work_terms w)"

lemma degree_ok_subset:
  "fst ` set n \<subseteq> insert fs (fst ` set m) \<Longrightarrow> degree_ok limits m \<Longrightarrow>
     length fs \<le> max 1 (unat (max_monomial_degree limits)) \<Longrightarrow> degree_ok limits n"
  unfolding degree_ok_def by blast

lemma degree_ok_omap:
  assumes "degree_ok limits m" and "length fs \<le> max 1 (unat (max_monomial_degree limits))"
  shows "degree_ok limits (omap_put factor_less fs c m)" and "degree_ok limits (omap_emplace factor_less fs c m)"
    and "degree_ok limits (omap_erase factor_less fs m)"
  by (rule degree_ok_subset [OF keys_omap_put assms] degree_ok_subset [OF keys_omap_emplace assms]
      degree_ok_subset [OF order_trans [OF keys_omap_erase subset_insertI] assms])+

lemma accumulate_within:
  assumes run: "accumulate type limits w fs c = Inr w'" and w: "within limits w"
    and fs: "length fs \<le> max 1 (unat (max_monomial_degree limits))"
  shows "within limits w'"
proof (cases "fs = [] \<or> c AND residue_mask type = 0")
  case True
  then show ?thesis using run w by (auto simp: accumulate_def Let_def within_def split: if_splits)
next
  case False
  let ?m = "omap_emplace factor_less fs 0 (work_terms w)"
  have "degree_ok limits ?m" using w fs by (simp add: within_def degree_ok_omap)
  then have "degree_ok limits (omap_put factor_less fs e ?m)" "degree_ok limits (omap_erase factor_less fs ?m)" for e
    using fs by (simp_all add: degree_ok_omap)
  then show ?thesis using run False by (auto simp: accumulate_def Let_def within_def split: if_splits)
qed

lemma degree_ok_simps [simp]:
  "degree_ok limits []"
  "degree_ok limits ((fs, c) # m) \<longleftrightarrow>
     length fs \<le> max 1 (unat (max_monomial_degree limits)) \<and> degree_ok limits m"
  by (auto simp: degree_ok_def)

lemma add_terms_within:
  "add_terms type limits scale added into = Inr w \<Longrightarrow> within limits into \<Longrightarrow> degree_ok limits added \<Longrightarrow> within limits w"
proof (induction added arbitrary: into)
  case (Cons t added)
  obtain fs c where t: "t = (fs, c)" by (cases t)
  then obtain w1 where w1: "accumulate type limits into fs (c * scale) = Inr w1"
    and rest: "add_terms type limits scale added w1 = Inr w"
    using Cons.prems(1) by auto
  show ?case
    using Cons.IH [OF rest accumulate_within [OF w1 Cons.prems(2)]] Cons.prems(3) t by simp
qed simp

lemma work_sum_within:
  "work_sum type limits into added scale = Inr w \<Longrightarrow> within limits into \<Longrightarrow> within limits added \<Longrightarrow> within limits w"
  by (auto simp: work_sum_def within_def dest!: add_terms_within)

lemma length_merge_factors [simp]: "length (merge_factors xs ys) = length xs + length ys"
  by (induction xs ys rule: merge_factors.induct) auto

lemma product_row_within:
  "product_row type limits lf lc right acc steps = Inr (w, s) \<Longrightarrow> within limits acc \<Longrightarrow> within limits w"
proof (induction right arbitrary: acc steps)
  case (Cons t right)
  obtain fs c where t: "t = (fs, c)" by (cases t)
  then obtain s1 w1 where w1: "accumulate type limits acc (merge_factors lf fs) (lc * c) = Inr w1"
    and degree: "length lf + length fs \<le> unat (max_monomial_degree limits)"
    and rest: "product_row type limits lf lc right w1 s1 = Inr (w, s)"
    using Cons.prems(1) by (auto split: if_splits)
  show ?case using Cons.IH [OF rest accumulate_within [OF w1 Cons.prems(2)]] degree by simp
qed simp

lemma product_rows_within:
  "product_rows type limits left right acc steps = Inr (w, s) \<Longrightarrow> within limits acc \<Longrightarrow> within limits w"
proof (induction left arbitrary: acc steps)
  case (Cons t left)
  obtain lf lc where t: "t = (lf, lc)" by (cases t)
  then obtain w1 s1 where w1: "product_row type limits lf lc right acc steps = Inr (w1, s1)"
    and rest: "product_rows type limits left right w1 s1 = Inr (w, s)"
    using Cons.prems(1) by auto
  show ?case by (rule Cons.IH [OF rest product_row_within [OF w1 Cons.prems(2)]])
qed simp

lemma opaque_within: "within limits (opaque type t)"
  by (simp add: opaque_def within_def)

lemma read_term_within: "read_term type limits t depth steps = Inr (w, steps') \<Longrightarrow> within limits w"
proof (induction type limits t depth steps arbitrary: w steps' rule: read_term.induct)
  case (2 type limits op t a b depth steps)
  show ?case
  proof (cases "is_arithmetic op \<and> t = type")
    case False
    then show ?thesis using "2.prems" by (auto simp: opaque_within)
  next
    case True
    obtain s1 lhs s2 rhs s3 where s1: "begin_read limits depth steps = Inr s1"
      and a: "read_term type limits a (Suc depth) s1 = Inr (lhs, s2)"
      and b: "read_term type limits b (Suc depth) s2 = Inr (rhs, s3)"
      and run: "(if op = AddWrap then bind_ok (work_sum type limits lhs rhs 1) (\<lambda>w. Inr (w, s3))
              else if op = SubWrap
              then bind_ok (work_sum type limits lhs rhs (residue_mask type)) (\<lambda>w. Inr (w, s3))
              else work_product type limits lhs rhs s3) = Inr (w, steps')"
      using "2.prems" True by auto
    have sides: "within limits lhs" "within limits rhs"
      using "2.IH"(1) [OF s1 True a] "2.IH"(2) [OF s1 True a refl b] by simp_all
    show ?thesis
    proof (cases "op = AddWrap \<or> op = SubWrap")
      case True
      then obtain c where "work_sum type limits lhs rhs c = Inr w" using run by (cases "op = AddWrap") auto
      from work_sum_within [OF this sides] show ?thesis .
    next
      case False
      then have "product_rows type limits (each_term lhs) (each_term rhs)
          \<lparr>work_type = type, work_terms = [], work_constant = 0\<rparr> s3 = Inr (w, steps')"
        using run by (simp add: work_product_def)
      from product_rows_within [OF this] show ?thesis by (simp add: within_def)
    qed
  qed
qed (auto simp: opaque_def within_def split: if_splits)

lemma read_polynomial_within:
  assumes "read_polynomial t type limits = Inr p"
  shows "length (monomials p) \<le> max 1 (unat (max_polynomial_terms limits))"
    and "m \<in> set (monomials p) \<Longrightarrow> length (factors m) \<le> max 1 (unat (max_monomial_degree limits))"
proof -
  obtain w s where w: "read_term type limits t 0 0 = Inr (w, s)" and p: "p = finish_work w"
    using assms by (auto simp: read_polynomial_def split: if_splits)
  note within = read_term_within [OF w, unfolded within_def]
  show "length (monomials p) \<le> max 1 (unat (max_polynomial_terms limits))"
    using within by (simp add: p finish_work_def)
  assume "m \<in> set (monomials p)"
  then obtain fs c where "(fs, c) \<in> set (work_terms w)" "factors m = fs" by (auto simp: p finish_work_def)
  then show "length (factors m) \<le> max 1 (unat (max_monomial_degree limits))"
    using within unfolding degree_ok_def by (metis image_eqI fst_conv)
qed

section \<open>Certificates stay within their limit\<close>

fun certificate_nodes :: "certificate \<Rightarrow> nat" where
  "certificate_nodes (FarkasSum ms) = 1"
| "certificate_nodes (IntegerSplit ts k p q) = Suc (certificate_nodes p + certificate_nodes q)"
| "certificate_nodes (DisjunctionCases d p q) = Suc (certificate_nodes p + certificate_nodes q)"

lemma check_certificate_nodes:
  "check_certificate sys limits active c depth nodes = Inr nodes' \<Longrightarrow>
     nodes' = nodes + certificate_nodes c \<and> nodes' \<le> unat (max_certificate_nodes limits)"
proof (induction sys limits active c depth nodes arbitrary: nodes' rule: check_certificate.induct)
  case (1 sys limits active ms depth nodes)
  then show ?case by (auto simp: certificate_limits_def)
next
  case (2 sys limits active ts k p q depth nodes)
  then show ?case by (fastforce simp: certificate_limits_def split: option.splits)
next
  case (3 sys limits active d p q depth nodes)
  then show ?case by (fastforce simp: certificate_limits_def)
qed

lemma refutes_nodes: "refutes sys c limits = Inr u \<Longrightarrow> certificate_nodes c \<le> unat (max_certificate_nodes limits)"
  by (auto simp: refutes_def dest: check_certificate_nodes)

section \<open>Components of supported types\<close>

text \<open>A type is validated with the nodes of its siblings counted; alone it needs no more.\<close>

lemma valid_type_less:
  "valid_type \<tau> depth nodes = Some r \<Longrightarrow> depth' \<le> depth \<Longrightarrow> nodes' \<le> nodes \<Longrightarrow>
     \<exists>k. r = nodes + k \<and> valid_type \<tau> depth' nodes' = Some (nodes' + k)"
  "valid_types \<tau>s depth nodes = Some r \<Longrightarrow> depth' \<le> depth \<Longrightarrow> nodes' \<le> nodes \<Longrightarrow>
     \<exists>k. r = nodes + k \<and> valid_types \<tau>s depth' nodes' = Some (nodes' + k)"
proof (induction \<tau> depth nodes and \<tau>s depth nodes arbitrary: r depth' nodes' and r depth' nodes'
    rule: valid_type_valid_types.induct)
  case (2 es n depth nodes)
  then have "valid_types es (Suc depth) (Suc nodes) = Some r" by (auto split: if_splits)
  from 2(1) [OF _ _ this, of "Suc depth'" "Suc nodes'"] 2(2-) show ?case
    by (auto split: if_splits)
next
  case (3 i ps depth nodes)
  then have "valid_types ps (Suc depth) (Suc nodes) = Some r" by (auto split: if_splits)
  from 3(1) [OF _ _ this, of "Suc depth'" "Suc nodes'"] 3(2-) show ?case
    by (auto split: if_splits)
next
  case (5 \<tau> \<tau>s depth nodes)
  obtain n where n: "valid_type \<tau> depth nodes = Some n" "valid_types \<tau>s depth n = Some r"
    using "5.prems"(1) by (auto split: option.splits)
  obtain k where k: "n = nodes + k" "valid_type \<tau> depth' nodes' = Some (nodes' + k)"
    using "5.IH"(1) [OF n(1) "5.prems"(2,3)] by blast
  obtain j where "r = n + j" "valid_types \<tau>s depth' (nodes' + k) = Some (nodes' + k + j)"
    using "5.IH"(2) [OF n(1,2) "5.prems"(2), of "nodes' + k"] k "5.prems"(3) by auto
  then show ?case using k by auto
qed (auto split: if_splits)

lemma valid_types_each: "valid_types \<tau>s depth nodes = Some r \<Longrightarrow> \<tau> \<in> set \<tau>s \<Longrightarrow> is_supported \<tau>"
proof (induction \<tau>s arbitrary: nodes)
  case (Cons \<sigma> \<tau>s)
  then obtain n where n: "valid_type \<sigma> depth nodes = Some n" "valid_types \<tau>s depth n = Some r"
    by (auto split: option.splits)
  have "is_supported \<sigma>" using valid_type_less(1) [OF n(1), of 0 0] by (auto simp: is_supported_def)
  then show ?case using Cons.IH [OF n(2)] Cons.prems(2) by auto
qed simp

lemma is_supported_components:
  "is_supported (Value_Type i ps) \<Longrightarrow> \<tau> \<in> set ps \<Longrightarrow> is_supported \<tau>"
  "is_supported (Indexed_Type es n) \<Longrightarrow> \<tau> \<in> set es \<Longrightarrow> is_supported \<tau>"
  using valid_types_each by (auto simp: is_supported_def split: if_splits)

end
