(* ===== verification/Context_Facts.thy ===== *)
theory Context_Facts
  imports Bound_Facts
begin

text \<open>
  Contexts and accepted evidence: what \<open>Context::define\<close> admits, that identities stay unique,
  that a later definition changes the typing and the value of nothing typed before it, and that
  accepted evidence nests no deeper than the limits allow.
\<close>

section \<open>Admission\<close>

lemma define_in_iff:
  "define_in \<Gamma> d = Inr \<Gamma>' \<longleftrightarrow>
     \<Gamma>' = \<Gamma> @ [d] \<and> lookup \<Gamma> (def_id d) = None \<and>
     (\<forall>\<tau> \<in> set (parameters d). is_supported \<tau>) \<and> is_supported (result d) \<and>
     has_type \<Gamma> (parameters d) (body d) (result d) \<and>
     height (body d) \<le> unat (max_term_depth default_limits)"
  by (auto simp: define_in_def validate_types_Inr type_of_impl_iff split: if_splits)

lemma lookup_defined:
  "define_in \<Gamma> d = Inr \<Gamma>' \<Longrightarrow> lookup \<Gamma>' i = (if i = def_id d then Some d else lookup \<Gamma> i)"
  by (auto simp: define_in_iff lookup_append split: option.split)

lemma lookup_ids: "lookup \<Gamma> i \<noteq> None \<longleftrightarrow> i \<in> def_id ` set \<Gamma>"
  by (induction \<Gamma>) (auto simp: lookup_append)

lemma built_distinct: "built \<Gamma> \<Longrightarrow> distinct (map def_id \<Gamma>)"
proof (induction rule: built.induct)
  case (built_define \<Gamma> d \<Gamma>')
  then have "\<Gamma>' = \<Gamma> @ [d]" "def_id d \<notin> def_id ` set \<Gamma>"
    by (auto simp: define_in_iff simp flip: lookup_ids)
  then show ?case using built_define.IH by simp
qed simp

text \<open>A context built on another extends it.\<close>

inductive extends :: "kcontext \<Rightarrow> kcontext \<Rightarrow> bool" for \<Gamma> where
  extends_refl: "extends \<Gamma> \<Gamma>"
| extends_define: "extends \<Gamma> \<Delta> \<Longrightarrow> define_in \<Delta> d = Inr \<Delta>' \<Longrightarrow> extends \<Gamma> \<Delta>'"

lemma extends_built: "extends \<Gamma> \<Delta> \<Longrightarrow> built \<Gamma> \<Longrightarrow> built \<Delta>"
  by (induction rule: extends.induct) (auto intro: built.intros)

lemma extends_append: "extends \<Gamma> \<Delta> \<Longrightarrow> \<exists>\<Theta>. \<Delta> = \<Gamma> @ \<Theta>"
  by (induction rule: extends.induct) (auto dest: define_in_Inr(1))

lemma extends_has_type: "extends \<Gamma> \<Delta> \<Longrightarrow> has_type \<Gamma> L t \<tau> \<Longrightarrow> has_type \<Delta> L t \<tau>"
  using extends_append has_type_weaken by blast

lemma extends_functions:
  assumes "extends \<Gamma> \<Delta>" and "lookup \<Gamma> f \<noteq> None"
  shows "functions_of S \<Delta> f = functions_of S \<Gamma> f \<and> lookup \<Delta> f = lookup \<Gamma> f"
  using assms
proof (induction rule: extends.induct)
  case (extends_define \<Delta> d \<Delta>')
  then have "lookup \<Delta> f \<noteq> None" by simp
  with extends_define show ?case
    by (auto simp: functions_of_snoc define_function_def define_in_iff lookup_append)
qed simp

lemma extends_eval:
  assumes "extends \<Gamma> \<Delta>" and "has_type \<Gamma> L t \<tau>"
  shows "eval S (functions_of S \<Delta>) env t = eval S (functions_of S \<Gamma>) env t"
  using assms extends_functions by (intro eval_functions_cong [OF assms(2)]) blast

lemma extends_wf_prop: "extends \<Gamma> \<Delta> \<Longrightarrow> wf_prop \<Gamma> L p \<Longrightarrow> wf_prop \<Delta> L p"
  by (induction \<Gamma> L p rule: wf_prop.induct) (auto intro: extends_has_type)

lemma extends_holds:
  "extends \<Gamma> \<Delta> \<Longrightarrow> wf_prop \<Gamma> L p \<Longrightarrow>
     holds S (functions_of S \<Delta>) env p \<longleftrightarrow> holds S (functions_of S \<Gamma>) env p"
  by (induction \<Gamma> L p arbitrary: env rule: wf_prop.induct) (auto simp: extends_eval)

section \<open>Accepted evidence is shallow\<close>

text \<open>The number of steps below the first on the longest branch; a fact's evidence is a step below.\<close>

fun proof_height :: "proof_term \<Rightarrow> nat" and fact_height :: "arithmetic_fact \<Rightarrow> nat" where
  "proof_height (ConditionalElimination type c a b motive p q) = Suc (max (proof_height p) (proof_height q))"
| "proof_height (LinearArithmetic facts certificate) = foldr max (map (\<lambda>f. Suc (fact_height f)) facts) 0"
| "proof_height (ForallElimination quantified p argument) = Suc (proof_height p)"
| "proof_height (ImplicationElimination implication p q) = Suc (max (proof_height p) (proof_height q))"
| "proof_height (ConjunctionElimination conjunction p right) = Suc (proof_height p)"
| "proof_height (DisjunctionElimination disjunction p q r) =
     Suc (max (proof_height p) (max (proof_height q) (proof_height r)))"
| "proof_height (FalsityElimination p) = Suc (proof_height p)"
| "proof_height (EqualityElimination type lhs rhs motive p q) = Suc (max (proof_height p) (proof_height q))"
| "proof_height (Hypothesis index) = 0"
| "proof_height (UnsignedInduction binder p q) = Suc (max (proof_height p) (proof_height q))"
| "proof_height (ForallIntroduction binder p) = Suc (proof_height p)"
| "proof_height (ImplicationIntroduction premise p) = Suc (proof_height p)"
| "proof_height (ConjunctionIntroduction p q) = Suc (max (proof_height p) (proof_height q))"
| "proof_height (DisjunctionIntroduction p right) = Suc (proof_height p)"
| "proof_height Reflexivity = 0"
| "fact_height (ArithmeticFact p evidence) = proof_height evidence"

text \<open>A rule that accepts has had every one of its subproofs accepted, for some goal.\<close>

definition succeeds :: "subchecker \<Rightarrow> bool" where
  "succeeds checker \<longleftrightarrow> (\<exists>L A goal. checker L A goal = Inr ())"

lemma succeedsI: "checker L A goal = Inr u \<Longrightarrow> succeeds checker"
  unfolding succeeds_def by (cases u) blast

lemma succeedsE: "succeeds checker \<Longrightarrow> (\<And>L A goal. checker L A goal = Inr () \<Longrightarrow> thesis) \<Longrightarrow> thesis"
  unfolding succeeds_def by blast

lemma check_facts_succeed:
  "check_facts \<Gamma> limits depth facts L A = Inr ps \<Longrightarrow> (p, evidence) \<in> set facts \<Longrightarrow> succeeds evidence"
  by (induction facts arbitrary: ps) (auto intro: succeedsI)

lemma proof_depth_succeeds:
  "succeeds (proof_depth limits depth rule) \<Longrightarrow> depth \<le> unat (max_term_depth limits) \<and> succeeds rule"
  by (auto simp: succeeds_def proof_depth_def)

lemma rules_run:
  "conditional_rule \<Gamma> limits depth type c a b motive p q L A goal = Inr u \<Longrightarrow> succeeds p \<and> succeeds q"
  "forall_elimination \<Gamma> limits depth quantified argument p L A goal = Inr u \<Longrightarrow> succeeds p"
  "implication_elimination \<Gamma> limits depth implication p q L A goal = Inr u \<Longrightarrow> succeeds p \<and> succeeds q"
  "conjunction_elimination \<Gamma> limits depth conjunction right p L A goal = Inr u \<Longrightarrow> succeeds p"
  "disjunction_elimination \<Gamma> limits depth disjunction p q r L A goal = Inr u \<Longrightarrow>
     succeeds p \<and> succeeds q \<and> succeeds r"
  "equality_elimination \<Gamma> limits depth type lhs rhs motive p q L A goal = Inr u \<Longrightarrow> succeeds p \<and> succeeds q"
  "induction_rule \<tau> p q L A goal = Inr u \<Longrightarrow> succeeds p \<and> succeeds q"
  "forall_introduction \<tau> p L A goal = Inr u \<Longrightarrow> succeeds p"
  "implication_introduction premise p L A goal = Inr u \<Longrightarrow> succeeds p"
  "conjunction_introduction p q L A goal = Inr u \<Longrightarrow> succeeds p \<and> succeeds q"
  "disjunction_introduction right p L A goal = Inr u \<Longrightarrow> succeeds p"
  "arithmetic_rule \<Gamma> limits depth facts certificate L A goal = Inr u \<Longrightarrow> \<forall>(p, evidence) \<in> set facts. succeeds evidence"
  by (auto simp: conditional_rule_def forall_elimination_def implication_elimination_def
      conjunction_elimination_def disjunction_elimination_def equality_elimination_def
      induction_rule_def forall_introduction_def implication_introduction_def conjunction_introduction_def
      disjunction_introduction_def arithmetic_rule_def Let_def simp del: validate_proposition.simps
      intro: succeedsI check_facts_succeed split: ktype.split_asm kprop.split_asm if_split_asm)

lemma rules_succeed:
  "succeeds (conditional_rule \<Gamma> limits depth type c a b motive p q) \<Longrightarrow> succeeds p \<and> succeeds q"
  "succeeds (forall_elimination \<Gamma> limits depth quantified argument p) \<Longrightarrow> succeeds p"
  "succeeds (implication_elimination \<Gamma> limits depth implication p q) \<Longrightarrow> succeeds p \<and> succeeds q"
  "succeeds (conjunction_elimination \<Gamma> limits depth conjunction right p) \<Longrightarrow> succeeds p"
  "succeeds (disjunction_elimination \<Gamma> limits depth disjunction p q r) \<Longrightarrow>
     succeeds p \<and> succeeds q \<and> succeeds r"
  "succeeds (equality_elimination \<Gamma> limits depth type lhs rhs motive p q) \<Longrightarrow> succeeds p \<and> succeeds q"
  "succeeds (induction_rule \<tau> p q) \<Longrightarrow> succeeds p \<and> succeeds q"
  "succeeds (forall_introduction \<tau> p) \<Longrightarrow> succeeds p"
  "succeeds (implication_introduction premise p) \<Longrightarrow> succeeds p"
  "succeeds (conjunction_introduction p q) \<Longrightarrow> succeeds p \<and> succeeds q"
  "succeeds (disjunction_introduction right p) \<Longrightarrow> succeeds p"
  "succeeds (arithmetic_rule \<Gamma> limits depth facts certificate) \<Longrightarrow> \<forall>(p, evidence) \<in> set facts. succeeds evidence"
  by (erule succeedsE, drule rules_run, assumption)+

lemma check_under_height:
  "succeeds (check_under \<Gamma> limits p depth) \<Longrightarrow> depth + proof_height p \<le> unat (max_term_depth limits)"
  "succeeds (snd (fact_checker \<Gamma> limits f depth)) \<Longrightarrow> depth + fact_height f \<le> unat (max_term_depth limits)"
proof (induction p and f arbitrary: depth and depth)
  case (LinearArithmetic facts certificate)
  have rule: "depth \<le> unat (max_term_depth limits)"
    "\<forall>(p, evidence) \<in> set (map (\<lambda>f. fact_checker \<Gamma> limits f (Suc depth)) facts). succeeds evidence"
    using proof_depth_succeeds [OF LinearArithmetic.prems [unfolded check_under.simps]] rules_succeed(12)
    by blast+
  have "Suc depth + fact_height f \<le> unat (max_term_depth limits)" if "f \<in> set facts" for f
    using rule(2) that by (intro LinearArithmetic.IH) (auto simp: split_beta)
  then show ?case using rule(1) by (auto simp: foldr_max_add_le)
next
  case (FalsityElimination p)
  then have "succeeds (check_under \<Gamma> limits p (Suc depth))"
    using proof_depth_succeeds unfolding check_under.simps by (fastforce simp: succeeds_def)
  then show ?case using FalsityElimination.IH by fastforce
qed (unfold check_under.simps fact_checker.simps snd_conv proof_height.simps fact_height.simps,
    (drule proof_depth_succeeds, (fastforce dest!: rules_succeed))+)

lemma check_height:
  "check \<Gamma> goal evidence limits = Inr a \<Longrightarrow> proof_height evidence \<le> unat (max_term_depth limits)"
  using check_under_height(1) [of \<Gamma> limits evidence 0] by (auto simp: check_def intro: succeedsI)

end
