(* ===== verification/Canonical_Facts.thy ===== *)
theory Canonical_Facts
  imports Bound_Facts
begin

text \<open>
  Polynomials are canonical: their monomials are sorted, no two have the same factors, and every
  coefficient is a non-zero residue of the type. This is what makes equal polynomials render to
  the same term.
\<close>

section \<open>Entries of a sorted map\<close>

context comparison
begin

lemma find_member: "ordered m \<Longrightarrow> (k, v) \<in> set m \<Longrightarrow> omap_find cless k m = Some v"
proof (induction m)
  case (Cons e m)
  obtain a b where e: "e = (a, b)" by (cases e)
  show ?case
  proof (cases "(k, v) = (a, b)")
    case True
    then show ?thesis using e by (simp add: cmp_refl)
  next
    case False
    then have "(k, v) \<in> set m" using Cons.prems(2) e by auto
    moreover from this have "cless a k" using Cons.prems(1) e by (force simp: ordered_def)
    ultimately show ?thesis using Cons less_asym [of a k] e by (simp add: ordered_def)
  qed
qed simp

lemma emplace_ordered: "ordered m \<Longrightarrow> ordered (omap_emplace cless k v m)"
  by (simp add: omap_emplace_def ordered_put split: option.split)

lemma find_put_emplace:
  "ordered m \<Longrightarrow> omap_find cless k' (omap_put cless k v (omap_emplace cless k u m)) =
     (if cmp k' k = Ord_Equal then Some v else omap_find cless k' m)"
  by (simp add: omap_emplace_def find_put ordered_put split: option.split)

lemma find_erase_emplace:
  "ordered m \<Longrightarrow> omap_find cless k' (omap_erase cless k (omap_emplace cless k u m)) =
     (if cmp k' k = Ord_Equal then None else omap_find cless k' m)"
  by (simp add: omap_emplace_def find_put find_erase ordered_put split: option.split)

end

section \<open>Works\<close>

definition residue :: "int_type \<Rightarrow> u64 \<Rightarrow> bool" where
  "residue type c \<longleftrightarrow> c \<noteq> 0 \<and> c AND residue_mask type = c"

lemma factor_less_order: "factor_less = (\<lambda>x y. factor_compare x y = Ord_Less)"
  by (intro ext factor_less_compare)

definition sorted_residues :: "int_type \<Rightarrow> (kterm list, u64) omap \<Rightarrow> bool" where
  "sorted_residues type m \<longleftrightarrow>
     factor_order.ordered m \<and> (\<forall>fs c. omap_find factor_less fs m = Some c \<longrightarrow> residue type c)"

lemma sorted_residues_Nil [simp]: "sorted_residues type []"
  by (simp add: sorted_residues_def factor_order.ordered_Nil)

definition canonical :: "int_type \<Rightarrow> work \<Rightarrow> bool" where
  "canonical type w \<longleftrightarrow> work_type w = type \<and> sorted_residues type (work_terms w)"

lemma canonical_simps [simp]:
  "canonical type \<lparr>work_type = type, work_terms = [], work_constant = c\<rparr>"
  "canonical type (w\<lparr>work_constant := c\<rparr>) \<longleftrightarrow> canonical type w"
  by (simp_all add: canonical_def)

lemma accumulate_canonical:
  assumes "accumulate type limits w fs c = Inr w'" and "canonical type w"
  shows "canonical type w'"
proof (cases "fs = [] \<or> c AND residue_mask type = 0")
  case True
  then show ?thesis using assms by (auto simp: accumulate_def Let_def split: if_splits)
next
  case False
  let ?m = "omap_emplace factor_less fs 0 (work_terms w)"
  note o = assms(2) [unfolded canonical_def sorted_residues_def, THEN conjunct2, THEN conjunct1]
  note m = factor_order.emplace_ordered [OF o, folded factor_less_order]
  have "sorted_residues type (omap_put factor_less fs e ?m)" if "residue type e" for e
    using assms(2) that factor_order.ordered_put [OF m] factor_order.find_put_emplace [OF o]
    by (auto simp: canonical_def sorted_residues_def factor_less_order)
  moreover have "sorted_residues type (omap_erase factor_less fs ?m)"
    using assms(2) factor_order.ordered_erase [OF m] factor_order.find_erase_emplace [OF o]
    by (auto simp: canonical_def sorted_residues_def factor_less_order split: if_splits)
  ultimately show ?thesis
    using assms False
    by (auto simp: accumulate_def Let_def residue_def canonical_def and.assoc split: if_splits)
qed

lemma add_terms_canonical:
  "add_terms type limits scale added into = Inr w \<Longrightarrow> canonical type into \<Longrightarrow>
     canonical type w"
  by (induction added arbitrary: into) (fastforce dest: accumulate_canonical)+

lemma product_row_canonical:
  "product_row type limits lf lc right acc steps = Inr (w, s) \<Longrightarrow> canonical type acc \<Longrightarrow>
     canonical type w"
  by (induction right arbitrary: acc steps) (fastforce dest: accumulate_canonical split: if_splits)+

lemma product_rows_canonical:
  "product_rows type limits left right acc steps = Inr (w, s) \<Longrightarrow> canonical type acc \<Longrightarrow>
     canonical type w"
  by (induction left arbitrary: acc steps) (fastforce dest: product_row_canonical)+

lemma residue_one: "is_supported_int type \<Longrightarrow> residue type 1"
  by (simp add: residue_def residue_mask_eq is_supported_int_iff take_bit_of_1 flip: take_bit_eq_mask)

lemma opaque_canonical: "is_supported_int type \<Longrightarrow> canonical type (opaque type t)"
  using residue_one by (auto simp: canonical_def sorted_residues_def opaque_def factor_order.ordered_def split: if_splits)

lemma read_term_canonical:
  "read_term type limits t depth steps = Inr (w, s) \<Longrightarrow> is_supported_int type \<Longrightarrow> canonical type w"
proof (induction type limits t depth steps arbitrary: w s rule: read_term.induct)
  case (2 type limits op t a b depth steps)
  show ?case
  proof (cases "is_arithmetic op \<and> t = type")
    case False
    then show ?thesis using "2.prems" by (auto simp: opaque_canonical)
  next
    case True
    obtain s1 lhs s2 rhs s3 where s1: "begin_read limits depth steps = Inr s1"
      and a: "read_term type limits a (Suc depth) s1 = Inr (lhs, s2)"
      and b: "read_term type limits b (Suc depth) s2 = Inr (rhs, s3)"
      and run: "(if op = AddWrap then bind_ok (work_sum type limits lhs rhs 1) (\<lambda>w. Inr (w, s3))
              else if op = SubWrap
              then bind_ok (work_sum type limits lhs rhs (residue_mask type)) (\<lambda>w. Inr (w, s3))
              else work_product type limits lhs rhs s3) = Inr (w, s)"
      using "2.prems" True by auto
    have "canonical type lhs" by (rule "2.IH"(1) [OF s1 True a "2.prems"(2)])
    then show ?thesis
      using run by (auto simp: work_sum_def work_product_def dest!: add_terms_canonical
          dest: product_rows_canonical split: if_splits)
  qed
qed (auto simp: opaque_canonical split: if_splits)

text \<open>A canonical polynomial.\<close>

definition canonical_polynomial :: "polynomial \<Rightarrow> bool" where
  "canonical_polynomial p \<longleftrightarrow>
     sorted_wrt factor_less (map factors (monomials p)) \<and>
     (\<forall>m \<in> set (monomials p). residue (poly_type p) (coefficient m))"

lemma sorted_wrt_distinct: "sorted_wrt R xs \<Longrightarrow> (\<And>x. \<not> R x x) \<Longrightarrow> distinct xs"
  by (induction xs) auto

lemma read_polynomial_canonical:
  assumes "read_polynomial t type limits = Inr p"
  shows "canonical_polynomial p" and "distinct (map factors (monomials p))"
proof -
  obtain w s where w: "read_term type limits t 0 0 = Inr (w, s)" and p: "p = finish_work w"
    and sup: "is_supported_int type"
    using assms by (auto simp: read_polynomial_def split: if_splits)
  note c = read_term_canonical [OF w sup, unfolded canonical_def sorted_residues_def]
  have fs: "map factors (monomials p) = map fst (work_terms w)" by (auto simp: p finish_work_def)
  have "residue type v" if "(k, v) \<in> set (work_terms w)" for k v
    using c that factor_order.find_member [of "work_terms w" k v] by (simp add: factor_less_order)
  then have "\<forall>m \<in> set (monomials p). residue (poly_type p) (coefficient m)"
    using c by (auto simp: p finish_work_def)
  then show "canonical_polynomial p"
    using c by (simp add: canonical_polynomial_def fs factor_order.ordered_def factor_less_order)
  then show "distinct (map factors (monomials p))"
    using sorted_wrt_distinct factor_less_irrefl unfolding canonical_polynomial_def by blast
qed

end
