(* ===== verification/Examples.thy ===== *)
theory Examples
  imports Soundness Fuel_Facts Context_Facts Canonical_Facts
begin

text \<open>
  Concrete inputs: a theorem about bytes that arithmetic proves, the system it becomes, its
  certificate, a context with one definition, and a structure whose objects all observe the same
  values.
\<close>

section \<open>Limits small enough to evaluate\<close>

definition small_limits :: core_limits where
  "small_limits =
     \<lparr>max_normalization_steps = 64, max_term_depth = 16, max_polynomial_terms = 8,
      max_monomial_degree = 8, max_arithmetic_facts = 8, max_certificate_nodes = 8\<rparr>"

section \<open>Ten is below twenty\<close>

abbreviation byte :: int_type where
  "byte \<equiv> IntType 8 Unsigned"

abbreviation word64 :: int_type where
  "word64 \<equiv> IntType 64 Unsigned"

definition below :: "kterm \<Rightarrow> kterm \<Rightarrow> kprop" where
  "below a b = Eq (Int_Type kBoolean) (Prim Less byte [a, b]) (Literal kBoolean 1)"

definition byte_fact :: kprop where
  "byte_fact = below (Var 0) (Literal byte 10)"

definition byte_claim :: kprop where
  "byte_claim = below (Var 0) (Literal byte 20)"

definition byte_theorem :: kprop where
  "byte_theorem = Forall (Int_Type byte) (Implies byte_fact byte_claim)"

definition byte_certificate :: certificate where
  "byte_certificate = FarkasSum [(2, 1), (3, 1)]"

definition byte_step :: proof_term where
  "byte_step = LinearArithmetic [ArithmeticFact byte_fact (Hypothesis 0)] byte_certificate"

definition byte_proof :: proof_term where
  "byte_proof = ForallIntroduction (Int_Type byte) (ImplicationIntroduction byte_fact byte_step)"

definition byte_system :: arithmetic_system where
  "byte_system =
     \<lparr>variables = [\<lparr>role = ValueRole, var_type = byte, var_term = Var 0, var_lowest = 0, var_highest = 0\<rparr>],
      constraints =
        [\<lparr>lin_terms = [(0, - 1)], lin_constant = 0\<rparr>, \<lparr>lin_terms = [(0, 1)], lin_constant = - 255\<rparr>,
         \<lparr>lin_terms = [(0, 1)], lin_constant = - 9\<rparr>, \<lparr>lin_terms = [(0, - 1)], lin_constant = 20\<rparr>],
      disjunctions = []\<rparr>"

lemma byte_system_built:
  "arithmetic_system_of [] [byte_fact] byte_claim small_limits [Int_Type byte] = Inr byte_system"
  by code_simp

lemma byte_system_refuted: "refutes byte_system byte_certificate small_limits = Inr ()"
  by code_simp

lemma byte_theorem_valid: "validate_proposition [] [] byte_theorem small_limits 0 = Inr ()"
  by code_simp

lemma byte_proof_checked: "check_under [] small_limits byte_proof 0 [] [] byte_theorem = Inr ()"
  unfolding byte_proof_def byte_theorem_def by code_simp

lemma byte_theorem_accepted: "check [] byte_theorem byte_proof small_limits = Inr (Acceptance byte_theorem)"
  by (simp add: check_def byte_theorem_valid byte_proof_checked)

section \<open>A context\<close>

definition increment :: kdefinition where
  "increment = \<lparr>def_id = 0, def_name = ''increment'', parameters = [Int_Type byte], result = Int_Type byte,
     body = Prim AddWrap byte [Var 0, Literal byte 1]\<rparr>"

lemma increment_defined: "define_in [] increment = Inr [increment]"
  by code_simp

lemma increment_built: "built [increment]"
  using built_define [OF built_empty increment_defined] .

section \<open>A structure with objects\<close>

text \<open>One object of every abstract and indexed type, which observes zeros and itself.\<close>

fun default_value :: "ktype \<Rightarrow> unit kvalue" where
  "default_value (Int_Type type) = IntV 0"
| "default_value \<tau> = ObjV ()"

definition one_object :: "unit kmodel" where
  "one_object =
     \<lparr>carrier = (\<lambda>_. UNIV), observation = (\<lambda>d k _. default_value (projections d ! k)),
      component = (\<lambda>d _ _. default_value (element d ! 0))\<rparr>"

lemma default_value_in_type: "is_supported \<tau> \<Longrightarrow> in_type one_object \<tau> (default_value \<tau>)"
  by (cases \<tau>) (simp_all add: is_supported_Int representable_zero one_object_def)

lemma wf_one_object: "wf_model one_object"
  unfolding wf_model_def
proof (intro conjI allI impI)
  fix i ps k u assume "is_supported (Value_Type i ps) \<and> k < length ps \<and> u \<in> carrier one_object (Value_Type i ps)"
  then have "is_supported (ps ! k)" using is_supported_components(1) nth_mem by blast
  then show "in_type one_object (ps ! k) (observation one_object (Value_Type i ps) k u)"
    using default_value_in_type by (simp add: one_object_def)
next
  fix e n u j assume "is_supported (Indexed_Type [e] n) \<and> u \<in> carrier one_object (Indexed_Type [e] n)"
  then have "is_supported e" using is_supported_components(2) by auto
  then show "in_type one_object e (component one_object (Indexed_Type [e] n) u j)"
    using default_value_in_type by (simp add: one_object_def)
qed

section \<open>Reading bytes\<close>

lemma reads_byte: "is_representable byte n \<Longrightarrow> reads one_object [] [Int_Type byte] [IntV n]"
  by (simp add: reads_def built_empty wf_one_object)

lemma byte_supported: "is_supported_int byte" "is_supported_int word64"
  by (simp_all add: is_supported_int_iff)

lemma byte_literal: "is_representable byte n \<longleftrightarrow> 0 \<le> n \<and> n \<le> 255"
  by (simp add: is_representable_def minimum_value_eq maximum_value_eq is_supported_int_iff)

lemma byte_variable: "has_type \<Gamma> [Int_Type byte] (Var 0) (Int_Type byte)"
  using has_type.type_var [of 0 "[Int_Type byte]" \<Gamma>] by (simp add: is_supported_Int byte_supported)

lemma wf_below: "is_representable byte n \<Longrightarrow> wf_prop \<Gamma> [Int_Type byte] (below (Var 0) (Literal byte n))"
  using has_type_binary [of Less \<Gamma> "[Int_Type byte]" byte] byte_variable
  by (simp add: below_def has_type_Literal_iff byte_supported kBoolean_representable)

lemma byte_props_wf: "wf_prop \<Gamma> [Int_Type byte] byte_fact" "wf_prop \<Gamma> [Int_Type byte] byte_claim"
  by (simp_all add: byte_fact_def byte_claim_def wf_below byte_literal)

lemma byte_props_hold:
  "holds S E [IntV n] byte_fact \<longleftrightarrow> n < 10" "holds S E [IntV n] byte_claim \<longleftrightarrow> n < 20"
  by (simp_all add: byte_fact_def byte_claim_def below_def)

text \<open>Without the fact the claim does not follow: its negation has a solution.\<close>

definition byte_open_system :: arithmetic_system where
  "byte_open_system =
     \<lparr>variables = [\<lparr>role = ValueRole, var_type = byte, var_term = Var 0, var_lowest = 0, var_highest = 0\<rparr>],
      constraints =
        [\<lparr>lin_terms = [(0, - 1)], lin_constant = 0\<rparr>, \<lparr>lin_terms = [(0, 1)], lin_constant = - 255\<rparr>,
         \<lparr>lin_terms = [(0, - 1)], lin_constant = 20\<rparr>],
      disjunctions = []\<rparr>"

lemma byte_open_system_built:
  "arithmetic_system_of [] [] byte_claim small_limits [Int_Type byte] = Inr byte_open_system"
  by code_simp

text \<open>A call of the definition, and what it normalizes to.\<close>

lemma increment_normalized:
  "normalize [increment] (Call 0 [Literal byte 255]) small_limits = Inr (Literal byte 0)"
  by code_simp

lemma increment_call_typed: "has_type [increment] L (Call 0 [Literal byte 255]) (Int_Type byte)"
  using has_type.type_call [of "[increment]" 0 increment L "[Literal byte 255]"]
  by (simp add: increment_def has_type_Literal_iff byte_literal)

end
