(* ===== verification/Evidence_Examples.thy ===== *)
theory Evidence_Examples
  imports Evidence_Facts Examples
begin

text \<open>Verdicts, available premises and motives at concrete inputs.\<close>

definition unit_equality :: "wide \<Rightarrow> kprop" where
  "unit_equality v = Eq (Int_Type byte) (Literal byte v) (Literal byte v)"

definition trusted_unit :: trusted_premise where
  "trusted_unit =
     \<lparr>tp_law = 0, tp_name = ''one'', tp_identity = [], tp_location = no_location, tp_proposition = unit_equality 1,
      tp_direct = True\<rparr>"

definition sample_obligation :: obligation where
  "sample_obligation =
     \<lparr>ob_id = [], ob_origin = LawProposition, ob_subject = ''one'', ob_law = Some 1, ob_proof = None, ob_trusted = False,
      ob_goal = unit_equality 1, ob_range = \<lparr>range_begin = no_location, range_span = \<lparr>span_offset = 0, span_length = 0\<rparr>\<rparr>,
      ob_evidence = None, ob_assumptions = [trusted_unit], ob_uses = [], ob_refusal = None, ob_explanation = []\<rparr>"

definition sample_acceptance :: acceptance where
  "sample_acceptance = Acceptance (Implies (unit_equality 1) (unit_equality 1))"

lemma sample_checked:
  "check [] (Implies (unit_equality 1) (unit_equality 1)) (ImplicationIntroduction (unit_equality 1) (Hypothesis 0)) small_limits =
     Inr sample_acceptance"
  by code_simp

lemma sample_proven: "is_proven (proven sample_acceptance sample_obligation [trusted_unit])"
  by code_simp

lemma unit_holds: "holds S E env (unit_equality v)"
  by (simp add: unit_equality_def)

lemma sample_premises_hold:
  "q \<in> set (vd_premises (proven sample_acceptance sample_obligation [trusted_unit])) \<Longrightarrow> holds S E env (tp_proposition q)"
  using proven_premises [OF sample_proven] by (simp add: trusted_unit_def unit_holds)

definition sample_hypotheses :: supposed where
  "sample_hypotheses = [(Implies (unit_equality 1) (unit_equality 2), 0), (unit_equality 1, 0)]"

lemma sample_hypotheses_hold: "\<forall>(p, b) \<in> set sample_hypotheses. holds S E env (shift_prop p (0 - b) 0)"
  by (simp add: sample_hypotheses_def shift_prop_def unit_holds)

lemma sample_available:
  "(unit_equality 2, ImplicationElimination (Implies (unit_equality 1) (unit_equality 2)) (Hypothesis 1) (Hypothesis 0))
     \<in> set (in_scope sample_hypotheses 0)"
proof -
  have "in_scope sample_hypotheses 0 =
      [(unit_equality 1, Hypothesis 0), (Implies (unit_equality 1) (unit_equality 2), Hypothesis 1),
       (unit_equality 2, ImplicationElimination (Implies (unit_equality 1) (unit_equality 2)) (Hypothesis 1) (Hypothesis 0))]"
    by (simp add: in_scope_def sample_hypotheses_def chain_def unit_equality_def shift_prop_def chain_from.simps)
  then show ?thesis by simp
qed

definition sample_goal :: kprop where
  "sample_goal = Eq (Int_Type byte) (Prim AddWrap byte [Var 2, Literal byte 1]) (Var 0)"

definition sample_motive :: kprop where
  "sample_motive = Eq (Int_Type byte) (Prim AddWrap byte [Var 0, Literal byte 1]) (Var 1)"

lemma sample_rewrite: "rewrite_context sample_goal (Var 2) = Some sample_motive"
  by (simp add: rewrite_context_def sample_goal_def sample_motive_def shift_prop_def shift_term_def abstract_term.simps
      met_in_term.simps)

text \<open>An occurrence below an element or a projection is not met.\<close>

lemma hidden_occurrence:
  "rewrite_context (Eq (Int_Type byte) (Element (Int_Type byte) [Var 0, Var 1]) (Literal byte 0)) (Var 0) = None"
  by (simp add: rewrite_context_def shift_prop_def shift_term_def met_in_term.simps)

end
