(* ===== verification/Further_Facts.thy ===== *)
theory Further_Facts
  imports Examples
begin

text \<open>Further theorems about the kernel, with the inputs they are tried on.\<close>

text \<open>The proposition a boolean term is read as holds exactly when the term has the value asked for.\<close>

theorem predicates_are_booleans:
  assumes "reads S \<Gamma> L env" and "has_type \<Gamma> L c (Int_Type kBoolean)"
  shows "holds S (functions_of S \<Gamma>) env (predicate c positive) \<longleftrightarrow> (value_at S \<Gamma> env c = IntV 1) = positive"
  using assms by (rule holds_predicate)

lemma predicates_are_booleans_witness:
  "\<not> holds one_object (functions_of one_object []) [IntV 12] (predicate (Prim Less byte [Var 0, Literal byte 10]) True)"
  using predicates_are_booleans [OF reads_byte, of 12 "Prim Less byte [Var 0, Literal byte 10]" True]
    has_type_binary [of Less "[]" "[Int_Type byte]" byte] byte_variable
  by (simp add: has_type_Literal_iff byte_supported byte_literal)

text \<open>Reading a term as a polynomial and rendering it keeps its type and its value.\<close>

theorem polynomials_round_trip:
  assumes "read_polynomial t type limits = Inr p" and "reads S \<Gamma> L env" and "has_type \<Gamma> L t (Int_Type type)"
  shows "has_type \<Gamma> L (render p) (Int_Type type) \<and> value_at S \<Gamma> env (render p) = value_at S \<Gamma> env t"
proof -
  have t: "typed_at S \<Gamma> L env t type" using assms(2,3) by (simp add: typed_at_def)
  note p = kernel_ring.read_polynomial_sound [OF assms(1) t]
  have s: "is_supported_int type" using has_type_supported_int [OF assms(3,2)] .
  have "typed_at S \<Gamma> L env (render p) type \<and> same_residue type (number_at S \<Gamma> env (render p)) (number_at S \<Gamma> env t)"
    using kernel_ring.denotes_residue [OF kernel_ring.render_sound] p s assms(2)
    unfolding kernel_ring.denotes_def by metis
  then have "typed_at S \<Gamma> L env (render p) type" "number_at S \<Gamma> env (render p) = number_at S \<Gamma> env t"
    using number_at_representable t representable_unique unfolding same_residue_def by blast+
  then show ?thesis using number_at_eq [OF assms(2) _ assms(3)] by (simp add: typed_at_def)
qed

lemma polynomials_round_trip_witness:
  "value_at one_object [] [IntV 9] (Prim MulWrap byte [Literal byte 2, Var 0]) =
   value_at one_object [] [IntV 9] (Prim AddWrap byte [Var 0, Var 0])"
proof -
  have "has_type [] [Int_Type byte] (Prim AddWrap byte [Var 0, Var 0]) (Int_Type byte)"
    using has_type_binary [of AddWrap "[]" "[Int_Type byte]" byte] byte_variable
    by (simp add: byte_supported result_type_def is_representability_def)
  moreover have "read_polynomial (Prim AddWrap byte [Var 0, Var 0]) byte small_limits =
      Inr \<lparr>poly_type = byte, monomials = [\<lparr>factors = [Var 0], coefficient = 2\<rparr>], poly_constant = 0\<rparr>"
    by code_simp
  moreover have "render \<lparr>poly_type = byte, monomials = [\<lparr>factors = [Var 0], coefficient = 2\<rparr>], poly_constant = 0\<rparr> =
      Prim MulWrap byte [Literal byte 2, Var 0]" by code_simp
  ultimately show ?thesis
    using polynomials_round_trip [of "Prim AddWrap byte [Var 0, Var 0]" byte small_limits _ one_object "[]" "[Int_Type byte]" "[IntV 9]"]
      reads_byte [of 9] by (simp add: byte_literal del: eval.simps)
qed

text \<open>Polynomials stay within the terms and the degree the limits allow.\<close>

theorem polynomials_are_bounded:
  assumes "read_polynomial t type limits = Inr p"
  shows "length (monomials p) \<le> max 1 (unat (max_polynomial_terms limits)) \<and>
    (\<forall>m \<in> set (monomials p). length (factors m) \<le> max 1 (unat (max_monomial_degree limits)))"
  using read_polynomial_within [OF assms] by blast

lemma polynomials_are_bounded_witness: "length [\<lparr>factors = [Var 0], coefficient = 2 :: u64\<rparr>] \<le> 8"
proof -
  have "read_polynomial (Prim AddWrap byte [Var 0, Var 0]) byte small_limits =
      Inr \<lparr>poly_type = byte, monomials = [\<lparr>factors = [Var 0], coefficient = 2\<rparr>], poly_constant = 0\<rparr>"
    by code_simp
  from polynomials_are_bounded [OF this] show ?thesis by (simp add: small_limits_def)
qed

text \<open>Accepted evidence nests no deeper than the limits allow.\<close>

theorem accepted_proofs_are_shallow:
  assumes "check \<Gamma> goal evidence limits = Inr acceptance"
  shows "proof_height evidence \<le> unat (max_term_depth limits)"
  using assms by (rule check_height)

lemma accepted_proofs_are_shallow_witness: "proof_height byte_proof \<le> 16"
  using accepted_proofs_are_shallow [OF byte_theorem_accepted] by (simp add: small_limits_def)

text \<open>The comparison of terms is a strict weak order.\<close>

theorem terms_are_ordered:
  "compare t t = Ord_Equal \<and> compare u t = reversed (compare t u) \<and>
   (compare t u = Ord_Less \<longrightarrow> compare u v = Ord_Less \<longrightarrow> compare t v = Ord_Less) \<and>
   (compare t u = Ord_Equal \<longrightarrow> compare t v = compare u v)"
  using term_order.cmp_refl term_order.cmp_sym term_order.cmp_less_trans term_order.cmp_equal_left by blast

lemma terms_are_ordered_witness: "compare (Var 0) (Prim NotOp kBoolean [Var 0]) = Ord_Less"
proof -
  have "compare (Var 0) (Var 1) = Ord_Less" "compare (Var 1) (Prim NotOp kBoolean [Var 0]) = Ord_Less"
    by code_simp+
  then show ?thesis using terms_are_ordered [of "Var 0" "Var 1" "Prim NotOp kBoolean [Var 0]"] by blast
qed

text \<open>Terms over supported domains that compare equal are the same term.\<close>

theorem equal_terms_are_identical:
  assumes "supported_domains t" and "supported_domains u"
  shows "compare t u = Ord_Equal \<longleftrightarrow> t = u"
  using assms compare_identity compare_self by blast

lemma equal_terms_are_identical_witness: "compare (Literal byte 3) (Var 3) \<noteq> Ord_Equal"
  using equal_terms_are_identical [of "Literal byte 3" "Var 3"] by simp

text \<open>A map keyed by typed terms finds what was put in it, and nothing else changes.\<close>

theorem typed_term_maps_store:
  assumes "sorted_wrt typed_term_less (map fst m)"
  shows "omap_find typed_term_less j (omap_put typed_term_less k v m) =
      (if typed_term_compare j k = Ord_Equal then Some v else omap_find typed_term_less j m) \<and>
    sorted_wrt typed_term_less (map fst (omap_put typed_term_less k v m))"
proof -
  have order: "typed_term_less = (\<lambda>x y. typed_term_compare x y = Ord_Less)"
    by (intro ext typed_term_less_compare)
  have m: "typed_term_order.ordered m" using assms by (simp add: typed_term_order.ordered_def order)
  show ?thesis
    using typed_term_order.find_put [OF m] typed_term_order.ordered_put [OF m]
    by (simp add: typed_term_order.ordered_def order)
qed

lemma typed_term_maps_store_witness:
  "omap_find typed_term_less (TypedTerm byte (Var 1)) (omap_put typed_term_less (TypedTerm byte (Var 0)) 1
     [(TypedTerm byte (Var 1), 2 :: nat)]) = Some 2"
  using typed_term_maps_store [of "[(TypedTerm byte (Var 1), 2 :: nat)]" "TypedTerm byte (Var 1)" "TypedTerm byte (Var 0)" 1]
  by (simp add: typed_term_compare_def typed_term_less_def compare_types_def)

text \<open>The interval computed for a linear sum contains its value whenever every variable is within its bounds.\<close>

theorem static_ranges_contain:
  assumes "static_range e s = Some (low, high)"
    and "\<forall>i \<in> fst ` set (expr_terms e). \<forall>l h. static_bounds s i = Some (l, h) \<longrightarrow> l \<le> \<sigma> i \<and> \<sigma> i \<le> h"
  shows "low \<le> expr_value \<sigma> e \<and> expr_value \<sigma> e \<le> high"
  using extremes_sound [of "static_bounds s" "expr_terms e" "expr_constant e" "expr_constant e" low high \<sigma> "expr_constant e"] assms
  by (simp add: static_range_def expr_value_def)

lemma static_ranges_contain_witness:
  "expr_value (\<lambda>_. 7) \<lparr>expr_terms = [(0, - 2)], expr_constant = 3\<rparr> \<le> 3"
proof -
  let ?s = "empty_builder\<lparr>system := byte_system\<rparr>"
  have b: "static_bounds ?s 0 = Some (0, 255)"
    by (simp add: static_bounds_def Let_def byte_system_def empty_builder_def lowest_of_def highest_of_def modulus_def
        minimum_value_eq maximum_value_eq byte_supported)
  then have "static_range \<lparr>expr_terms = [(0, - 2)], expr_constant = 3\<rparr> ?s = Some (- 507, 3)"
    by (simp add: static_range_def wide_mul_def wide_add_def in_wide_def)
  from static_ranges_contain [OF this, of "\<lambda>_. 7"] b show ?thesis by simp
qed

text \<open>floor_divide is division rounding toward minus infinity.\<close>

theorem floor_division:
  assumes "in_wide a" and "in_wide b" and "b \<noteq> 0" and "a \<noteq> - (2 ^ 127)"
  shows "floor_divide a b = a div b"
  using assms by (rule floor_divide_exact)

lemma floor_division_witness: "floor_divide (- 7) 2 = - 4"
  using floor_division [of "- 7" 2] by (simp add: in_wide_def)

text \<open>Taking the bits of a value and reading them back gives the value.\<close>

theorem bits_round_trip:
  assumes "is_representable type v"
  shows "value_of type (bits_of type v) = v"
  using assms value_of_bits_of [of type v] wrap_into_self by (simp add: is_representable_def)

lemma bits_round_trip_witness: "value_of (IntType 8 Signed) (bits_of (IntType 8 Signed) (- 5)) = - 5"
  using bits_round_trip [of "IntType 8 Signed" "- 5"]
  by (simp add: is_representable_def minimum_value_eq maximum_value_eq is_supported_int_iff)

text \<open>Reducing into a machine type gives a value of the type, congruent to the argument, and no other value of the type is.\<close>

theorem wrap_into_is_the_residue:
  assumes "is_supported_int type"
  shows "is_representable type r \<and> r mod 2 ^ width type = v mod 2 ^ width type \<longleftrightarrow> r = wrap_into type v"
  using assms wrap_into_representable [OF assms] wrap_into_mod [OF assms] wrap_into_unique [of type r v] by auto

lemma wrap_into_is_the_residue_witness: "wrap_into (IntType 8 Signed) 200 = - 56"
  using wrap_into_is_the_residue [of "IntType 8 Signed" "- 56" 200]
  by (simp add: is_supported_int_iff is_representable_def minimum_value_eq maximum_value_eq)

text \<open>Two admitted types with the same text are the same type.\<close>

theorem type_text_identifies:
  assumes "is_supported s" and "is_supported t" and "describe_type s = describe_type t"
  shows "s = t"
  using assms describe_type_inj by blast

lemma type_text_identifies_witness:
  "describe_type (Int_Type (IntType 8 Signed)) \<noteq> describe_type (Int_Type (IntType 8 Unsigned))"
  using type_text_identifies [of "Int_Type (IntType 8 Signed)" "Int_Type (IntType 8 Unsigned)"]
  by (auto simp: is_supported_Int is_supported_int_iff)

text \<open>Typing and normalization fail only with an error value of the code.\<close>

theorem core_errors_are_reported:
  assumes "type_of \<Gamma> L t limits = Inl e \<or> normalize \<Gamma> u limits = Inl e"
  shows "\<exists>kind detail. e = CoreError kind detail"
  using assms core_only_type_of core_only_normalize unfolding core_only_def by blast

lemma core_errors_are_reported_witness:
  "\<exists>e kind detail. type_of [] [] (Var 0) small_limits = Inl e \<and> e = CoreError kind detail"
proof (cases "type_of [] [] (Var 0) small_limits")
  case (Inl e)
  then show ?thesis using core_errors_are_reported [of "[]" "[]" "Var 0" small_limits e "Var 0"] by blast
next
  case (Inr \<tau>)
  then show ?thesis by (auto simp: type_of_iff elim: has_type_Var)
qed

text \<open>Reflexivity accepts a valid equality exactly when its sides have the same normal form.\<close>

theorem reflexivity_decides:
  assumes "validate_proposition \<Gamma> [] (Eq type lhs rhs) limits 0 = Inr ()"
  shows "check \<Gamma> (Eq type lhs rhs) Reflexivity limits = Inr (Acceptance (Eq type lhs rhs)) \<longleftrightarrow>
    (\<exists>u. normalize \<Gamma> lhs limits = Inr u \<and> normalize \<Gamma> rhs limits = Inr u)"
  using assms by (auto simp: check_def proof_depth_def reflexivity_rule_def or_reject_def simp del: validate_proposition.simps
      split: sum.split sum.split_asm)

lemma reflexivity_decides_witness:
  "check [increment] (Eq (Int_Type byte) (Call 0 [Literal byte 255]) (Literal byte 0)) Reflexivity small_limits =
     Inr (Acceptance (Eq (Int_Type byte) (Call 0 [Literal byte 255]) (Literal byte 0)))"
proof -
  have "normalize [increment] (Literal byte 0) small_limits = Inr (Literal byte 0)" by code_simp
  moreover have "validate_proposition [increment] [] (Eq (Int_Type byte) (Call 0 [Literal byte 255]) (Literal byte 0))
      small_limits 0 = Inr ()"
    by code_simp
  ultimately show ?thesis using reflexivity_decides increment_normalized by blast
qed

text \<open>Every valid implication from a proposition to itself is accepted with the two-step proof.\<close>

theorem implications_have_identity_proofs:
  assumes "validate_proposition \<Gamma> [] (Implies p p) limits 0 = Inr ()"
  shows "check \<Gamma> (Implies p p) (ImplicationIntroduction p (Hypothesis 0)) limits = Inr (Acceptance (Implies p p))"
proof -
  have "1 \<le> unat (max_term_depth limits)" using assms by (simp add: validate_proposition_iff)
  then show ?thesis
    using assms by (simp add: check_def proof_depth_def implication_introduction_def hypothesis_rule_def demand_def
        shift_prop_def Let_def del: validate_proposition.simps)
qed

lemma implications_have_identity_proofs_witness:
  "check [] (Implies byte_theorem byte_theorem) (ImplicationIntroduction byte_theorem (Hypothesis 0)) small_limits =
     Inr (Acceptance (Implies byte_theorem byte_theorem))"
proof -
  have "validate_proposition [] [] (Implies byte_theorem byte_theorem) small_limits 0 = Inr ()" by code_simp
  from implications_have_identity_proofs [OF this] show ?thesis .
qed

end
