(* ===== verification/Refute_Search.thy ===== *)
theory Refute_Search
  imports Kernel_Linear
begin

text \<open>
  The search for certificates (compiler/refutation/include/cppl/refutation/refute.hpp,
  compiler/refutation/src/refute.cpp): Fourier-Motzkin elimination over the rationals, the
  projection onto one variable, and the search that splits disjunctions, wrap multiples and
  quotients. It is untrusted: what it returns is a suggestion the kernel checks.

  A step the code takes without a check and that leaves 128 bits, or an index past the end of a
  vector, is \<open>UndefinedBehaviour\<close>; \<open>None\<close> is \<open>std::nullopt\<close>.
\<close>

section \<open>Division, evaluated on integers\<close>

lemma divide_code [code]:
  "divide a b =
     (if in_wide a \<and> in_wide b \<and> b \<noteq> 0 \<and> \<bar>a\<bar> < 170141183460469231731687303715884105728
      then a sdiv b
      else let quot = fst (divide_magnitudes (magnitude a) (magnitude b))
           in to_wide (if (a < 0) \<noteq> (b < 0) then NOT quot + 1 else quot))"
  using divide_exact [of a b] by (simp add: divide_def Let_def)

lemma remainder_code [code]:
  "remainder a b =
     (if in_wide a \<and> in_wide b \<and> b \<noteq> 0 then a smod b
      else let rest = snd (divide_magnitudes (magnitude a) (magnitude b))
           in to_wide (if a < 0 then NOT rest + 1 else rest))"
  using remainder_eq [of a b] by (simp add: remainder_def Let_def)

lemma in_wide_code [code]:
  "in_wide x \<longleftrightarrow> - 170141183460469231731687303715884105728 \<le> x \<and> x < 170141183460469231731687303715884105728"
  by (simp add: in_wide_def)

section \<open>Common divisors\<close>

definition kMaxRows :: nat where "kMaxRows = 4096"

definition kMaxSearchNodes :: nat where "kMaxSearchNodes = 512"

definition kMaxPinnedRange :: wide where "kMaxPinnedRange = 16"

definition kPinnedWindow :: wide where "kPinnedWindow = 1"

text \<open>The search's own \<open>magnitude\<close> leaves the least value as it is.\<close>

definition wide_magnitude :: "wide \<Rightarrow> wide" where
  "wide_magnitude v = (if v < 0 \<and> v \<noteq> - (2 ^ 127) then - v else v)"

lemma in_wide_to_wide: "in_wide (to_wide w)"
  using sint_range_size [of w] by (simp add: in_wide_def word_size)

lemma in_wide_remainder: "in_wide (remainder a b)"
  by (simp add: remainder_def Let_def in_wide_to_wide)

lemma remainder_less: "in_wide a \<Longrightarrow> in_wide b \<Longrightarrow> b \<noteq> 0 \<Longrightarrow> \<bar>remainder a b\<bar> < \<bar>b\<bar>"
  by (simp add: remainder_eq signed_modulo_int_def abs_mult sgn_if)

text \<open>The loop of \<open>gcd\<close>, which every 128-bit argument leaves.\<close>

function gcd_loop :: "wide \<Rightarrow> wide \<Rightarrow> wide" where
  "gcd_loop lhs rhs = (if rhs = 0 then lhs else gcd_loop rhs (remainder lhs rhs))"
  by pat_completeness auto
termination
  by (relation "measures [\<lambda>(a, b). (if in_wide a then 0 else 1) + (if in_wide b then 0 else 2), \<lambda>(a, b). nat \<bar>b\<bar>]")
    (auto simp: in_wide_remainder remainder_less)

declare gcd_loop.simps [simp del]

definition wide_gcd :: "wide \<Rightarrow> wide \<Rightarrow> wide" where
  "wide_gcd lhs rhs = gcd_loop (wide_magnitude lhs) (wide_magnitude rhs)"

section \<open>Rows\<close>

text \<open>\<open>-x\<close> where the code has no check.\<close>

definition unguarded :: "wide option \<Rightarrow> core_error + wide" where
  "unguarded r = (case r of Some v \<Rightarrow> Inr v | None \<Rightarrow> Inl UndefinedBehaviour)"

record row =
  row_coefs :: "wide list"
  row_constant :: wide
  row_origin :: "wide list"

definition vanishes :: "row \<Rightarrow> bool" where
  "vanishes r \<longleftrightarrow> list_all (\<lambda>v. v = 0) (row_coefs r)"

definition reduce :: "row \<Rightarrow> row" where
  "reduce r =
     (let divisor = foldl wide_gcd (foldl wide_gcd (row_constant r) (row_coefs r)) (row_origin r)
      in if divisor \<le> 1 then r
         else \<lparr>row_coefs = map (\<lambda>v. divide v divisor) (row_coefs r),
               row_constant = divide (row_constant r) divisor,
               row_origin = map (\<lambda>v. divide v divisor) (row_origin r)\<rparr>)"

text \<open>The assignments \<open>coefficients[variable] = coefficient\<close>: of two entries the last stays.\<close>

fun place_terms :: "(nat \<times> wide) list \<Rightarrow> wide list \<Rightarrow> core_error + wide list" where
  "place_terms [] xs = Inr xs"
| "place_terms ((i, c) # ts) xs =
     (if i < length xs then place_terms ts (xs[i := c]) else Inl UndefinedBehaviour)"

fun start_rows ::
  "nat \<Rightarrow> nat \<Rightarrow> nat \<Rightarrow> linear_constraint list \<Rightarrow> core_error + row list" where
  "start_rows count among index [] = Inr []"
| "start_rows count among index (c # active) =
     bind_ok (place_terms (lin_terms c) (replicate count 0)) (\<lambda>coefs.
     bind_ok (start_rows count among (Suc index) active) (\<lambda>rows.
       Inr (\<lparr>row_coefs = coefs, row_constant = lin_constant c,
             row_origin = (replicate among 0)[index := 1]\<rparr> # rows)))"

section \<open>Elimination\<close>

text \<open>
  The choice of the next variable: the one with the fewest pairs of opposite rows, the first of
  them where several have as few. A variable no row mentions is gone.
\<close>

fun pick_variable :: "row list \<Rightarrow> nat list \<Rightarrow> bool list \<Rightarrow> nat option \<Rightarrow> nat \<Rightarrow> bool list \<times> nat option" where
  "pick_variable rows [] gone chosen cheapest = (gone, chosen)"
| "pick_variable rows (v # vs) gone chosen cheapest =
     (if gone ! v then pick_variable rows vs gone chosen cheapest
      else
        let positive = length (filter (\<lambda>r. 0 < row_coefs r ! v) rows);
            negative = length (filter (\<lambda>r. row_coefs r ! v < 0) rows);
            cost = positive * negative
        in if positive + negative = 0 then pick_variable rows vs (gone[v := True]) chosen cheapest
           else if chosen = None \<or> cost < cheapest then pick_variable rows vs gone (Some v) cost
           else pick_variable rows vs gone chosen cheapest)"

text \<open>\<open>b * left + a * right\<close>, or \<open>None\<close> where a step overflows.\<close>

definition scaled_sum :: "wide \<Rightarrow> wide \<Rightarrow> wide \<Rightarrow> wide \<Rightarrow> wide option" where
  "scaled_sum b left a right =
     (case (wide_mul b left, wide_mul a right) of
        (Some l, Some r) \<Rightarrow> wide_add l r
      | _ \<Rightarrow> None)"

fun scaled_sums :: "wide \<Rightarrow> wide list \<Rightarrow> wide \<Rightarrow> wide list \<Rightarrow> wide list option" where
  "scaled_sums b (x # xs) a (y # ys) =
     (case scaled_sum b x a y of
        None \<Rightarrow> None
      | Some z \<Rightarrow> (case scaled_sums b xs a ys of None \<Rightarrow> None | Some zs \<Rightarrow> Some (z # zs)))"
| "scaled_sums b xs a ys = Some []"

text \<open>The combination of two rows that cancels a variable, before it is reduced.\<close>

definition cancel :: "nat \<Rightarrow> row \<Rightarrow> row \<Rightarrow> core_error + row option" where
  "cancel v upper lower =
     (let common = wide_gcd (row_coefs upper ! v) (row_coefs lower ! v);
          a = divide (row_coefs upper ! v) common
      in bind_ok (unguarded (wide_neg (row_coefs lower ! v))) (\<lambda>opposite.
         let b = divide opposite common
         in Inr (case scaled_sums b (row_coefs upper) a (row_coefs lower) of
              None \<Rightarrow> None
            | Some coefs \<Rightarrow>
                (case scaled_sums b (row_origin upper) a (row_origin lower) of
                   None \<Rightarrow> None
                 | Some origins \<Rightarrow>
                     (case scaled_sum b (row_constant upper) a (row_constant lower) of
                        None \<Rightarrow> None
                      | Some k \<Rightarrow>
                          Some \<lparr>row_coefs = coefs, row_constant = k, row_origin = origins\<rparr>)))))"

text \<open>The two nested loops over opposite rows; \<open>None\<close> where the search gives up.\<close>

fun cancel_all :: "nat \<Rightarrow> (row \<times> row) list \<Rightarrow> row list \<Rightarrow> core_error + row list option" where
  "cancel_all v [] rows = Inr (Some rows)"
| "cancel_all v ((upper, lower) # pairs) rows =
     bind_ok (cancel v upper lower) (\<lambda>combined.
       case combined of
         None \<Rightarrow> Inr None
       | Some combined \<Rightarrow>
           let combined = reduce combined
           in if vanishes combined \<and> row_constant combined \<le> 0 then cancel_all v pairs rows
              else if kMaxRows < Suc (length rows) then Inr None
              else cancel_all v pairs (rows @ [combined]))"

text \<open>
  Of rows with the same coefficients the one with the largest constant stays, at the place of
  the first. The code finds that place in a map from coefficients to places.
\<close>

fun insert_strongest :: "row \<Rightarrow> row list \<Rightarrow> row list" where
  "insert_strongest r [] = [r]"
| "insert_strongest r (s # rows) =
     (if row_coefs s = row_coefs r then (if row_constant s < row_constant r then r else s) # rows
      else s # insert_strongest r rows)"

definition strongest :: "row list \<Rightarrow> row list" where
  "strongest rows = foldl (\<lambda>kept r. insert_strongest r kept) [] rows"

lemma pick_variable_gone:
  "pick_variable rows vs gone chosen cheapest = (gone', chosen') \<Longrightarrow>
     length gone' = length gone \<and> (gone ! v \<longrightarrow> gone' ! v)"
proof (induction rows vs gone chosen cheapest rule: pick_variable.induct)
  case (2 rows u vs gone chosen cheapest)
  have "gone ! v \<longrightarrow> gone[u := True] ! v" by (cases "u = v"; cases "u < length gone") (simp_all add: list_update_beyond)
  with 2 show ?case by (auto simp: Let_def split: if_splits)
qed simp

lemma pick_variable_Some:
  "pick_variable rows vs gone chosen cheapest = (gone', Some v) \<Longrightarrow> distinct vs \<Longrightarrow>
     (\<And>u. chosen = Some u \<Longrightarrow> u < length gone \<and> \<not> gone ! u \<and> u \<notin> set vs) \<Longrightarrow>
     \<forall>u \<in> set vs. u < length gone \<Longrightarrow> v < length gone \<and> \<not> gone' ! v"
proof (induction rows vs gone chosen cheapest rule: pick_variable.induct)
  case (2 rows u vs gone chosen cheapest)
  let ?p = "length (filter (\<lambda>r. 0 < row_coefs r ! u) rows)" and ?q = "length (filter (\<lambda>r. row_coefs r ! u < 0) rows)"
  consider "gone ! u" | "\<not> gone ! u" "?p + ?q = 0" | "\<not> gone ! u" "?p + ?q \<noteq> 0" "chosen = None \<or> ?p * ?q < cheapest"
    | "\<not> gone ! u" "?p + ?q \<noteq> 0" "\<not> (chosen = None \<or> ?p * ?q < cheapest)" by blast
  then show ?case
  proof cases
    case 1
    then show ?thesis using 2 by auto
  next
    case 2
    have "w < length (gone[u := True]) \<and> \<not> gone[u := True] ! w \<and> w \<notin> set vs" if "chosen = Some w" for w
      using "2.prems"(3) [OF that] by auto
    then show ?thesis using 2 "2.IH"(2) [OF 2(1) refl refl refl 2(2)] "2.prems" by auto
  next
    case 3
    then show ?thesis using "2.IH"(3) [OF 3(1) refl refl refl 3(2,3)] "2.prems" by auto
  next
    case 4
    then show ?thesis using "2.IH"(4) [OF 4(1) refl refl refl 4(2,3)] "2.prems" by auto
  qed
qed auto

lemma count_gone_less:
  assumes "length gone' = length gone" and "\<forall>v < length gone. gone ! v \<longrightarrow> gone' ! v"
    and "v < length gone" and "\<not> gone' ! v"
  shows "card {u. u < length gone \<and> \<not> (gone'[v := True]) ! u} < card {u. u < length gone \<and> \<not> gone ! u}"
  using assms by (intro psubset_card_mono) (auto simp: nth_list_update)

text \<open>The loop of \<open>eliminate\<close>: every round settles one more variable.\<close>

function eliminate_loop :: "row list \<Rightarrow> bool list \<Rightarrow> core_error + wide list option" where
  "eliminate_loop rows gone =
     (case find (\<lambda>r. vanishes r \<and> 0 < row_constant r) rows of
        Some r \<Rightarrow> Inr (Some (row_origin r))
      | None \<Rightarrow>
          (case pick_variable rows [0..<length gone] gone None 0 of
             (gone', None) \<Rightarrow> Inr None
           | (gone', Some v) \<Rightarrow>
               bind_ok (cancel_all v
                   [(upper, lower). upper \<leftarrow> filter (\<lambda>r. 0 < row_coefs r ! v) rows,
                                    lower \<leftarrow> filter (\<lambda>r. row_coefs r ! v < 0) rows]
                   (filter (\<lambda>r. row_coefs r ! v = 0) rows)) (\<lambda>rest.
                 case rest of
                   None \<Rightarrow> Inr None
                 | Some rest \<Rightarrow> eliminate_loop (strongest rest) (gone'[v := True]))))"
  by pat_completeness auto
termination
proof (relation "measure (\<lambda>(rows, gone). card {u. u < length gone \<and> \<not> gone ! u})")
  fix rows gone v' gone' chosen v rest rows'
  assume "(gone', chosen) = pick_variable rows [0..<length gone] gone None 0"
    and "chosen = Some v"
  then have c: "pick_variable rows [0..<length gone] gone None 0 = (gone', Some v)" by simp
  show "((strongest rows', gone'[v := True]), rows, gone) \<in>
      measure (\<lambda>(rows, gone). card {u. u < length gone \<and> \<not> gone ! u})"
    using pick_variable_gone [OF c] pick_variable_Some [OF c] count_gone_less [of gone' gone v] by fastforce
qed simp

declare eliminate_loop.simps [simp del]

definition eliminate ::
  "linear_constraint list \<Rightarrow> nat \<Rightarrow> core_error + wide list option" where
  "eliminate active count =
     bind_ok (start_rows count (length active) 0 active) (\<lambda>rows.
       eliminate_loop rows (replicate count False))"

section \<open>Projection\<close>

record interval =
  interval_lowest :: "wide option"
  interval_highest :: "wide option"

type_synonym plain_row = "wide list \<times> wide"

fun plain_rows :: "nat \<Rightarrow> linear_constraint list \<Rightarrow> core_error + plain_row list" where
  "plain_rows count [] = Inr []"
| "plain_rows count (c # active) =
     bind_ok (place_terms (lin_terms c) (replicate count 0)) (\<lambda>coefs.
     bind_ok (plain_rows count active) (\<lambda>rows. Inr ((coefs, lin_constant c) # rows)))"

definition project_pair :: "nat \<Rightarrow> plain_row \<Rightarrow> plain_row \<Rightarrow> core_error + plain_row option" where
  "project_pair v up down =
     bind_ok (unguarded (wide_neg (fst down ! v))) (\<lambda>b.
       let a = fst up ! v
       in Inr (case scaled_sums b (fst up) a (fst down) of
            None \<Rightarrow> None
          | Some coefs \<Rightarrow>
              (case scaled_sum b (snd up) a (snd down) of None \<Rightarrow> None | Some k \<Rightarrow> Some (coefs, k))))"

fun project_pairs :: "nat \<Rightarrow> (plain_row \<times> plain_row) list \<Rightarrow> plain_row list \<Rightarrow> core_error + plain_row list option" where
  "project_pairs v [] rows = Inr (Some rows)"
| "project_pairs v ((up, down) # pairs) rows =
     bind_ok (project_pair v up down) (\<lambda>combined.
       case combined of
         None \<Rightarrow> Inr None
       | Some combined \<Rightarrow>
           if kMaxRows < Suc (length rows) then Inr None else project_pairs v pairs (rows @ [combined]))"

fun project_out :: "nat \<Rightarrow> nat list \<Rightarrow> plain_row list \<Rightarrow> core_error + plain_row list option" where
  "project_out keep [] rows = Inr (Some rows)"
| "project_out keep (v # vs) rows =
     (if v = keep then project_out keep vs rows
      else bind_ok (project_pairs v
          [(up, down). up \<leftarrow> filter (\<lambda>r. 0 < fst r ! v) rows, down \<leftarrow> filter (\<lambda>r. fst r ! v < 0) rows]
          (filter (\<lambda>r. fst r ! v = 0) rows)) (\<lambda>rest.
        case rest of None \<Rightarrow> Inr None | Some rows \<Rightarrow> project_out keep vs rows))"

text \<open>The loop that reads the bounds off the rows that are left.\<close>

fun interval_of :: "nat \<Rightarrow> plain_row list \<Rightarrow> interval \<Rightarrow> core_error + interval" where
  "interval_of keep [] known = Inr known"
| "interval_of keep ((coefs, k) # rows) known =
     (let c = coefs ! keep
      in if 0 < c
         then bind_ok (unguarded (wide_neg k)) (\<lambda>opposite.
              let b = floor_divide opposite c
              in interval_of keep rows (known\<lparr>interval_highest :=
                   Some (case interval_highest known of Some h \<Rightarrow> min h b | None \<Rightarrow> b)\<rparr>))
         else if c < 0
         then bind_ok (unguarded (wide_neg k)) (\<lambda>opposite.
              bind_ok (unguarded (wide_neg c)) (\<lambda>positive.
              bind_ok (unguarded (wide_neg (floor_divide opposite positive))) (\<lambda>b.
                interval_of keep rows (known\<lparr>interval_lowest :=
                   Some (case interval_lowest known of Some l \<Rightarrow> max l b | None \<Rightarrow> b)\<rparr>))))
         else interval_of keep rows known)"

definition project :: "linear_constraint list \<Rightarrow> nat \<Rightarrow> nat \<Rightarrow> core_error + interval option" where
  "project active count keep =
     bind_ok (plain_rows count active) (\<lambda>rows.
     bind_ok (project_out keep [0..<count] rows) (\<lambda>rest.
       case rest of
         None \<Rightarrow> Inr None
       | Some rows \<Rightarrow>
           bind_ok (interval_of keep rows \<lparr>interval_lowest = None, interval_highest = None\<rparr>)
             (\<lambda>known. Inr (Some known))))"

section \<open>Search\<close>

text \<open>
  \<open>Search\<close> keeps the standing constraints, the disjunctions split and the variables pinned on
  the way down, and restores them on the way up; they are arguments here. Its count of nodes is
  not restored, so it is passed in and returned.
\<close>

type_synonym found = "core_error + certificate option \<times> nat"

type_synonym attempt = "linear_constraint list \<Rightarrow> nat \<Rightarrow> found"

text \<open>\<open>static_cast<std::uint32_t>\<close> of a position.\<close>

definition position32 :: "nat \<Rightarrow> nat" where
  "position32 i = i mod 2 ^ 32"

lemma position32_code [code]: "position32 i = nat (int i mod 4294967296)"
  by (simp add: position32_def nat_mod_as_int)

fun farkas_terms :: "nat \<Rightarrow> wide list \<Rightarrow> (nat \<times> wide) list option" where
  "farkas_terms index [] = Some []"
| "farkas_terms index (m # ms) =
     (if m = 0 then farkas_terms (Suc index) ms
      else if m < 0 then None
      else case farkas_terms (Suc index) ms of None \<Rightarrow> None | Some ts \<Rightarrow> Some ((position32 index, m) # ts))"

definition farkas :: "wide list \<Rightarrow> certificate option" where
  "farkas multipliers =
     (case farkas_terms 0 multipliers of
        None \<Rightarrow> None
      | Some ts \<Rightarrow> if ts = [] then None else Some (FarkasSum ts))"

text \<open>\<open>split\<close>: the variable is at most the value, or at least the next one.\<close>

definition at_most :: "nat \<Rightarrow> wide \<Rightarrow> linear_constraint" where
  "at_most v x = \<lparr>lin_terms = [(v, 1)], lin_constant = - x\<rparr>"

definition at_least :: "nat \<Rightarrow> wide \<Rightarrow> linear_constraint" where
  "at_least v x = \<lparr>lin_terms = [(v, - 1)], lin_constant = x\<rparr>"

definition split_at :: "nat \<Rightarrow> wide \<Rightarrow> attempt \<Rightarrow> attempt \<Rightarrow> attempt" where
  "split_at v x low_case high_case active nodes =
     (if 2 ^ 63 - 1 - 1 < x \<or> x < - (2 ^ 63) + 1 then Inr (None, nodes)
      else bind_ok (low_case (active @ [at_most v x]) nodes) (\<lambda>(first, nodes).
        case first of
          None \<Rightarrow> Inr (None, nodes)
        | Some first \<Rightarrow>
            bind_ok (high_case (active @ [at_least v (x + 1)]) nodes) (\<lambda>(second, nodes).
              Inr (case second of
                     None \<Rightarrow> None
                   | Some second \<Rightarrow> Some (IntegerSplit [(v, 1)] (word_of_int (- x)) first second), nodes))))"

text \<open>\<open>pin_from\<close>, with the number of values left above this one.\<close>

primrec pin_steps :: "attempt \<Rightarrow> nat \<Rightarrow> nat \<Rightarrow> wide \<Rightarrow> attempt" where
  "pin_steps again v 0 x = split_at v x again again"
| "pin_steps again v (Suc left) x = split_at v x again (pin_steps again v left (x + 1))"

definition pin_from :: "attempt \<Rightarrow> nat \<Rightarrow> wide \<Rightarrow> wide \<Rightarrow> attempt" where
  "pin_from again v x last_value = pin_steps again v (nat (last_value - x)) x"

definition pin :: "attempt \<Rightarrow> nat \<Rightarrow> wide \<Rightarrow> wide \<Rightarrow> attempt" where
  "pin again v low high active nodes =
     bind_ok (unguarded (wide_sub low 1)) (\<lambda>below.
       split_at v below again (pin_from again v low high) active nodes)"

text \<open>The wrap multiple to walk: the first whose hint is narrow and that is not pinned yet.\<close>

fun narrow_wrap :: "arithmetic_variable list \<Rightarrow> bool list \<Rightarrow> nat \<Rightarrow> core_error + nat option" where
  "narrow_wrap [] pinned index = Inr None"
| "narrow_wrap (v # vs) pinned index =
     (if role v \<noteq> WrapRole \<or> pinned ! index \<or> var_highest v < var_lowest v
      then narrow_wrap vs pinned (Suc index)
      else bind_ok (unguarded (wide_sub (var_highest v) (var_lowest v))) (\<lambda>range.
        if kMaxPinnedRange \<le> range then narrow_wrap vs pinned (Suc index) else Inr (Some index)))"

definition window_around_zero :: "arithmetic_variable \<Rightarrow> (wide \<times> wide) option" where
  "window_around_zero v =
     (if role v \<noteq> WrapRole then None
      else if var_lowest v \<le> var_highest v
      then
        let low = max (- kPinnedWindow) (var_lowest v);
            high = min kPinnedWindow (var_highest v)
        in if high < low then Some (var_lowest v, var_lowest v) else Some (low, high)
      else Some (- kPinnedWindow, kPinnedWindow))"

definition window_of ::
  "arithmetic_system \<Rightarrow> linear_constraint list \<Rightarrow> nat \<Rightarrow> core_error + (wide \<times> wide) option" where
  "window_of sys active index =
     (let v = variables sys ! index
      in bind_ok (project active (length (variables sys)) index) (\<lambda>known.
        case known of
          None \<Rightarrow> Inr (window_around_zero v)
        | Some known \<Rightarrow>
            (case (interval_lowest known, interval_highest known) of
               (Some low, Some high) \<Rightarrow>
                 if high < low then Inr (Some (high, high))
                 else bind_ok (unguarded (wide_sub high low)) (\<lambda>range.
                   if range < kMaxPinnedRange then Inr (Some (low, high)) else Inr (window_around_zero v))
             | _ \<Rightarrow> Inr (window_around_zero v))))"

definition is_quotient :: "arithmetic_variable \<Rightarrow> bool" where
  "is_quotient v \<longleftrightarrow>
     role v = ValueRole \<and> (case var_term v of Prim op type ts \<Rightarrow> op = Quotient | _ \<Rightarrow> False)"

text \<open>The variable to examine over a window, and the window.\<close>

fun first_window ::
  "arithmetic_system \<Rightarrow> linear_constraint list \<Rightarrow> arithmetic_variable list \<Rightarrow> bool list \<Rightarrow> nat \<Rightarrow>
     core_error + (nat \<times> wide \<times> wide) option" where
  "first_window sys active [] pinned index = Inr None"
| "first_window sys active (v # vs) pinned index =
     (if (role v \<noteq> WrapRole \<and> \<not> is_quotient v) \<or> pinned ! index
      then first_window sys active vs pinned (Suc index)
      else bind_ok (window_of sys active index) (\<lambda>window.
        case window of
          None \<Rightarrow> first_window sys active vs pinned (Suc index)
        | Some (low, high) \<Rightarrow> Inr (Some (index, low, high))))"

text \<open>The first disjunction that is not split.\<close>

fun unsplit :: "bool list \<Rightarrow> nat \<Rightarrow> nat option" where
  "unsplit [] index = None"
| "unsplit (s # ss) index = (if s then unsplit ss (Suc index) else Some index)"

type_synonym solver = "bool list \<Rightarrow> bool list \<Rightarrow> attempt"

definition split_disjunction :: "arithmetic_system \<Rightarrow> nat \<Rightarrow> attempt \<Rightarrow> attempt" where
  "split_disjunction sys index again active nodes =
     (let (c, d) = disjunctions sys ! index
      in bind_ok (again (active @ [c]) nodes) (\<lambda>(first, nodes).
        case first of
          None \<Rightarrow> Inr (None, nodes)
        | Some first \<Rightarrow>
            bind_ok (again (active @ [d]) nodes) (\<lambda>(second, nodes).
              Inr (case second of
                     None \<Rightarrow> None
                   | Some second \<Rightarrow> Some (DisjunctionCases (position32 index) first second), nodes))))"

definition solve_body :: "arithmetic_system \<Rightarrow> solver \<Rightarrow> solver" where
  "solve_body sys again split pinned active nodes =
     (let nodes = Suc nodes
      in if kMaxSearchNodes < nodes then Inr (None, nodes)
         else bind_ok (eliminate active (length (variables sys))) (\<lambda>multipliers.
           case multipliers of
             Some ms \<Rightarrow> Inr (farkas ms, nodes)
           | None \<Rightarrow>
               (case unsplit split 0 of
                  Some i \<Rightarrow> split_disjunction sys i (again (split[i := True]) pinned) active nodes
                | None \<Rightarrow>
                    bind_ok (narrow_wrap (variables sys) pinned 0) (\<lambda>narrow.
                      case narrow of
                        Some i \<Rightarrow>
                          pin (again split (pinned[i := True])) (position32 i)
                            (var_lowest (variables sys ! i)) (var_highest (variables sys ! i)) active nodes
                      | None \<Rightarrow>
                          bind_ok (first_window sys active (variables sys) pinned 0) (\<lambda>window.
                            case window of
                              Some (i, low, high) \<Rightarrow>
                                pin (again split (pinned[i := True])) (position32 i) low high active nodes
                            | None \<Rightarrow> Inr (None, nodes))))))"

text \<open>
  \<open>solve\<close> calls itself at most once for every node it counts, so as many levels as nodes, and
  the one that refuses, are enough.
\<close>

fun solve :: "arithmetic_system \<Rightarrow> nat \<Rightarrow> solver" where
  "solve sys 0 split pinned active nodes = Inl OutOfFuel"
| "solve sys (Suc fuel) split pinned active nodes =
     solve_body sys (solve sys fuel) split pinned active nodes"

definition refute :: "arithmetic_system \<Rightarrow> core_error + certificate option" where
  "refute sys =
     bind_ok (solve sys (Suc kMaxSearchNodes) (replicate (length (disjunctions sys)) False)
         (replicate (length (variables sys)) False) (constraints sys) 0) (\<lambda>(c, nodes). Inr c)"

end
