(* ===== verification/Refute_Facts.thy ===== *)
theory Refute_Facts
  imports Refute_Search Linear_Facts Bound_Facts
begin

text \<open>
  The search and the checker it works for. A row stays a non-negative combination of the standing
  constraints, so what elimination returns is a contradiction; the certificate the search builds
  is accepted by the kernel, unless a sum overflows there; the search ends.
\<close>

section \<open>Common divisors\<close>

lemma gcd_loop_zero [simp]: "gcd_loop a 0 = a"
  by (simp add: gcd_loop.simps [of a 0])

lemma gcd_loop_wide:
  assumes "in_wide a" and "in_wide b"
  shows "in_wide (gcd_loop a b) \<and> gcd_loop a b dvd a \<and> gcd_loop a b dvd b \<and>
    (0 \<le> a \<longrightarrow> 0 \<le> b \<longrightarrow> 0 \<le> gcd_loop a b) \<and> (a \<noteq> 0 \<or> b \<noteq> 0 \<longrightarrow> gcd_loop a b \<noteq> 0)"
  using assms
proof (induction a b rule: gcd_loop.induct)
  case (1 a b)
  show ?case
  proof (cases "b = 0")
    case True
    then show ?thesis using 1 by simp
  next
    case False
    let ?r = "remainder a b"
    have r: "?r = a smod b" using "1.prems" False by (rule remainder_eq)
    have a: "a = b * (a sdiv b) + ?r" unfolding r using mult_sdiv_smod_eq [of b a] by (simp add: mult.commute)
    have step: "gcd_loop a b = gcd_loop b ?r" using False by (simp add: gcd_loop.simps [of a b])
    note IH = "1.IH" [OF False "1.prems"(2) in_wide_remainder]
    have "gcd_loop b ?r dvd a" using IH a by (metis dvd_add dvd_mult2)
    moreover have "0 \<le> a \<longrightarrow> 0 \<le> ?r" unfolding r using False by (simp add: signed_modulo_int_def sgn_if)
    ultimately show ?thesis unfolding step using IH False by auto
  qed
qed

lemma wide_magnitude_dvd [simp]: "d dvd wide_magnitude v \<longleftrightarrow> d dvd v"
  by (simp add: wide_magnitude_def)

lemma wide_magnitude_wide: "in_wide v \<Longrightarrow> in_wide (wide_magnitude v)"
  by (auto simp: wide_magnitude_def in_wide_def)

lemma wide_magnitude_sign: "in_wide v \<Longrightarrow> v \<noteq> - (2 ^ 127) \<Longrightarrow> 0 \<le> wide_magnitude v"
  by (simp add: wide_magnitude_def)

lemma wide_magnitude_zero [simp]: "wide_magnitude v = 0 \<longleftrightarrow> v = 0"
  by (simp add: wide_magnitude_def)

lemma wide_gcd:
  assumes "in_wide a" and "in_wide b"
  shows "in_wide (wide_gcd a b)" and "wide_gcd a b dvd a" and "wide_gcd a b dvd b"
    and "a \<noteq> - (2 ^ 127) \<Longrightarrow> b \<noteq> - (2 ^ 127) \<Longrightarrow> a \<noteq> 0 \<Longrightarrow> 0 < wide_gcd a b"
  using gcd_loop_wide [of "wide_magnitude a" "wide_magnitude b"] assms wide_magnitude_wide wide_magnitude_sign
  unfolding wide_gcd_def by (simp_all add: order_less_le)

lemma fold_gcd:
  "list_all in_wide xs \<Longrightarrow> in_wide d \<Longrightarrow>
     in_wide (foldl wide_gcd d xs) \<and> foldl wide_gcd d xs dvd d \<and> (\<forall>x \<in> set xs. foldl wide_gcd d xs dvd x)"
proof (induction xs arbitrary: d)
  case (Cons x xs)
  then show ?case using Cons.IH [of "wide_gcd d x"] wide_gcd [of d x] by (auto intro: dvd_trans)
qed simp

lemma divide_dvd:
  assumes "in_wide a" and "in_wide d" and "0 < d" and "d dvd a"
  shows "divide a d = a div d" and "in_wide (a div d)"
proof -
  obtain q where q: "a = d * q" using assms(4) by blast
  have "a sdiv d = q" using assms(3) by (auto simp: q signed_divide_int_def abs_mult sgn_if zero_less_mult_iff)
  moreover have "\<bar>q\<bar> \<le> \<bar>a\<bar>" "0 \<le> q \<longleftrightarrow> 0 \<le> a"
    using assms(3) mult_right_mono [of 1 d "\<bar>q\<bar>"] by (auto simp: q abs_mult zero_le_mult_iff)
  then have "in_wide q" using assms(1) by (auto simp: in_wide_def abs_le_iff)
  ultimately show "divide a d = a div d" "in_wide (a div d)"
    using divide_eq [OF assms(1,2)] assms(3) by (simp_all add: to_wide_of_int q)
qed

section \<open>Rows\<close>

text \<open>A constraint as the list of its coefficients.\<close>

definition dense :: "nat \<Rightarrow> linear_constraint \<Rightarrow> wide list" where
  "dense count c = map (\<lambda>v. terms_value (\<lambda>u. if u = v then 1 else 0) (lin_terms c)) [0..<count]"

text \<open>The constraints the builder writes: every variable once, within the system, within 128 bits.\<close>

definition tidy :: "nat \<Rightarrow> linear_constraint \<Rightarrow> bool" where
  "tidy count c \<longleftrightarrow>
     distinct (map fst (lin_terms c)) \<and> (\<forall>(i, x) \<in> set (lin_terms c). i < count \<and> in_wide x) \<and>
     in_wide (lin_constant c)"

text \<open>A row is what its origins combine.\<close>

definition combines :: "nat \<Rightarrow> linear_constraint list \<Rightarrow> row \<Rightarrow> bool" where
  "combines count active r \<longleftrightarrow>
     length (row_coefs r) = count \<and> length (row_origin r) = length active \<and>
     list_all in_wide (row_coefs r) \<and> list_all in_wide (row_origin r) \<and> in_wide (row_constant r) \<and>
     list_all (\<lambda>m. 0 \<le> m) (row_origin r) \<and>
     (\<forall>v < count. row_coefs r ! v = (\<Sum>i < length active. row_origin r ! i * dense count (active ! i) ! v)) \<and>
     row_constant r = (\<Sum>i < length active. row_origin r ! i * lin_constant (active ! i))"

lemma sum_div:
  fixes f :: "nat \<Rightarrow> int"
  assumes "\<forall>i < n. d dvd f i" and "d \<noteq> 0"
  shows "(\<Sum>i < n. f i * g i) div d = (\<Sum>i < n. f i div d * g i)"
proof -
  have "(\<Sum>i < n. f i * g i) = d * (\<Sum>i < n. f i div d * g i)"
    unfolding sum_distrib_left using assms(1) by (intro sum.cong) auto
  then show ?thesis using assms(2) by simp
qed

lemma map_divide:
  assumes "list_all in_wide xs" and "in_wide d" and "0 < d" and "\<forall>x \<in> set xs. d dvd x"
  shows "map (\<lambda>v. divide v d) xs = map (\<lambda>v. v div d) xs" and "list_all in_wide (map (\<lambda>v. v div d) xs)"
  using assms divide_dvd by (auto simp: list_all_iff)

lemma combines_divided:
  assumes r: "combines count active r" and d: "in_wide d" "0 < d"
    and dvd: "\<forall>x \<in> set (row_coefs r). d dvd x" "d dvd row_constant r" "\<forall>x \<in> set (row_origin r). d dvd x"
  shows "combines count active
    \<lparr>row_coefs = map (\<lambda>v. divide v d) (row_coefs r), row_constant = divide (row_constant r) d,
      row_origin = map (\<lambda>v. divide v d) (row_origin r)\<rparr>"
proof -
  have wide: "list_all in_wide (row_coefs r)" "list_all in_wide (row_origin r)" "in_wide (row_constant r)"
    and lengths: "length (row_coefs r) = count" "length (row_origin r) = length active"
    and nonneg: "list_all (\<lambda>m. 0 \<le> m) (row_origin r)"
    and coefs: "\<And>v. v < count \<Longrightarrow>
      row_coefs r ! v = (\<Sum>i < length active. row_origin r ! i * dense count (active ! i) ! v)"
    and const: "row_constant r = (\<Sum>i < length active. row_origin r ! i * lin_constant (active ! i))"
    using r by (auto simp: combines_def)
  have origin: "\<forall>i < length active. d dvd row_origin r ! i" using dvd(3) lengths by simp
  have "list_all (\<lambda>m. 0 \<le> m) (map (\<lambda>v. v div d) (row_origin r))"
    using nonneg d(2) by (auto simp: list_all_iff pos_imp_zdiv_nonneg_iff)
  moreover have "row_coefs r ! v div d = (\<Sum>i < length active. row_origin r ! i div d * dense count (active ! i) ! v)"
    if "v < count" for v
    unfolding coefs [OF that] using sum_div [OF origin] d(2) by simp
  moreover have "row_constant r div d = (\<Sum>i < length active. row_origin r ! i div d * lin_constant (active ! i))"
    unfolding const using sum_div [OF origin] d(2) by simp
  ultimately show ?thesis
    unfolding map_divide(1) [OF wide(1) d dvd(1)] map_divide(1) [OF wide(2) d dvd(3)] divide_dvd(1) [OF wide(3) d dvd(2)]
    using map_divide(2) [OF wide(1) d dvd(1)] map_divide(2) [OF wide(2) d dvd(3)] divide_dvd(2) [OF wide(3) d dvd(2)]
      lengths
    by (simp add: combines_def)
qed

lemma reduce_combines:
  assumes r: "combines count active r"
  shows "combines count active (reduce r)"
proof -
  let ?e = "foldl wide_gcd (row_constant r) (row_coefs r)"
  let ?d = "foldl wide_gcd ?e (row_origin r)"
  have wide: "list_all in_wide (row_coefs r)" "list_all in_wide (row_origin r)" "in_wide (row_constant r)"
    using r by (auto simp: combines_def)
  have e: "in_wide ?e \<and> ?e dvd row_constant r \<and> (\<forall>x \<in> set (row_coefs r). ?e dvd x)"
    using fold_gcd [OF wide(1,3)] .
  then have d: "in_wide ?d \<and> ?d dvd ?e \<and> (\<forall>x \<in> set (row_origin r). ?d dvd x)"
    using fold_gcd [OF wide(2)] by blast
  show ?thesis
  proof (cases "?d \<le> 1")
    case True
    then show ?thesis using r by (simp add: reduce_def)
  next
    case False
    then have "combines count active
        \<lparr>row_coefs = map (\<lambda>v. divide v ?d) (row_coefs r), row_constant = divide (row_constant r) ?d,
          row_origin = map (\<lambda>v. divide v ?d) (row_origin r)\<rparr>"
      using d e by (intro combines_divided [OF r]) (auto intro: dvd_trans)
    then show ?thesis using False by (simp add: reduce_def Let_def)
  qed
qed

section \<open>Elimination\<close>

lemma scaled_sum_Some: "scaled_sum b x a y = Some z \<Longrightarrow> z = b * x + a * y \<and> in_wide z"
  by (auto simp: scaled_sum_def split: option.splits)

lemma scaled_sums_Some:
  "scaled_sums b xs a ys = Some zs \<Longrightarrow> length xs = length ys \<Longrightarrow>
     length zs = length xs \<and> list_all in_wide zs \<and> (\<forall>i < length xs. zs ! i = b * xs ! i + a * ys ! i)"
proof (induction b xs a ys arbitrary: zs rule: scaled_sums.induct)
  case (1 b x xs a y ys)
  then obtain z zs' where "scaled_sum b x a y = Some z" "scaled_sums b xs a ys = Some zs'" "zs = z # zs'"
    by (auto split: option.splits)
  then show ?case using 1 scaled_sum_Some [of b x a y z] by (auto simp: nth_Cons split: nat.split)
qed auto

lemma unguarded_Inr [simp]: "unguarded r = Inr v \<longleftrightarrow> r = Some v"
  by (auto simp: unguarded_def split: option.split)

lemma combine_sums:
  fixes f :: "nat \<Rightarrow> int"
  shows "b * (\<Sum>i < n. x i * f i) + a * (\<Sum>i < n. y i * f i) = (\<Sum>i < n. (b * x i + a * y i) * f i)"
  by (simp add: sum_distrib_left distrib_right sum.distrib mult.assoc)

lemma combines_scaled:
  assumes upper: "combines count active upper" and lower: "combines count active lower"
    and signs: "0 \<le> a" "0 \<le> b"
    and coefs: "scaled_sums b (row_coefs upper) a (row_coefs lower) = Some (row_coefs r)"
    and origin: "scaled_sums b (row_origin upper) a (row_origin lower) = Some (row_origin r)"
    and const: "scaled_sum b (row_constant upper) a (row_constant lower) = Some (row_constant r)"
  shows "combines count active r"
proof -
  have lengths: "length (row_coefs upper) = length (row_coefs lower)" "length (row_coefs lower) = count"
    "length (row_origin upper) = length (row_origin lower)" "length (row_origin lower) = length active"
    using upper lower by (simp_all add: combines_def)
  note c = scaled_sums_Some [OF coefs lengths(1)] and o = scaled_sums_Some [OF origin lengths(3)]
    and k = scaled_sum_Some [OF const]
  have "0 \<le> b * row_origin upper ! i + a * row_origin lower ! i" if "i < length active" for i
    using signs upper lower that
    by (intro add_nonneg_nonneg mult_nonneg_nonneg) (simp_all add: combines_def list_all_length)
  then have "list_all (\<lambda>m. 0 \<le> m) (row_origin r)" using o lengths by (simp add: list_all_length)
  moreover have "row_coefs r ! v = (\<Sum>i < length active. row_origin r ! i * dense count (active ! i) ! v)"
    if "v < count" for v
    using c o lengths that upper lower by (simp add: combines_def combine_sums)
  moreover have "row_constant r = (\<Sum>i < length active. row_origin r ! i * lin_constant (active ! i))"
    using k o lengths upper lower by (simp add: combines_def combine_sums)
  moreover have "length (row_coefs r) = count" "length (row_origin r) = length active" "list_all in_wide (row_coefs r)"
    "list_all in_wide (row_origin r)"
    using c o lengths by simp_all
  moreover have "in_wide (row_constant r)" using k by blast
  ultimately show ?thesis unfolding combines_def by blast
qed

lemma cancel_combines:
  assumes run: "cancel v upper lower = Inr (Some r)" and v: "v < count"
    and upper: "combines count active upper" "0 < row_coefs upper ! v"
    and lower: "combines count active lower" "row_coefs lower ! v < 0"
  shows "combines count active r"
proof -
  let ?x = "row_coefs upper ! v" and ?y = "row_coefs lower ! v"
  let ?g = "wide_gcd ?x ?y"
  let ?a = "divide ?x ?g" and ?b = "divide (- ?y) ?g"
  from run have y: "in_wide (- ?y)"
    and coefs: "scaled_sums ?b (row_coefs upper) ?a (row_coefs lower) = Some (row_coefs r)"
    and origin: "scaled_sums ?b (row_origin upper) ?a (row_origin lower) = Some (row_origin r)"
    and const: "scaled_sum ?b (row_constant upper) ?a (row_constant lower) = Some (row_constant r)"
    by (auto simp: cancel_def Let_def split: option.splits)
  have wide: "in_wide ?x" "in_wide ?y"
    using upper(1) lower(1) v by (auto simp: combines_def list_all_length)
  have "0 < ?g" "in_wide ?g" "?g dvd ?x" "?g dvd ?y"
    using wide_gcd [OF wide] upper(2) y by (auto simp: in_wide_def)
  then have signs: "0 \<le> ?a" "0 \<le> ?b"
    using divide_dvd [OF wide(1), of ?g] divide_dvd [OF y, of ?g] upper(2) lower(2)
    by (simp_all add: pos_imp_zdiv_nonneg_iff)
  show ?thesis by (rule combines_scaled [OF upper(1) lower(1) signs coefs origin const])
qed

lemma cancel_all_combines:
  assumes "cancel_all v pairs rows = Inr (Some rows')" and "v < count"
    and "\<forall>(upper, lower) \<in> set pairs. combines count active upper \<and> 0 < row_coefs upper ! v \<and>
      combines count active lower \<and> row_coefs lower ! v < 0"
    and "list_all (combines count active) rows"
  shows "list_all (combines count active) rows'"
  using assms
proof (induction v pairs rows rule: cancel_all.induct)
  case (2 v upper lower pairs rows)
  from "2.prems"(1) obtain r where r: "cancel v upper lower = Inr (Some r)"
    by (auto split: option.splits)
  have c: "combines count active (reduce r)"
    using reduce_combines cancel_combines [OF r "2.prems"(2)] "2.prems"(3) by simp
  show ?case
  proof (cases "vanishes (reduce r) \<and> row_constant (reduce r) \<le> 0")
    case True
    then show ?thesis using 2 r by (auto simp: Let_def)
  next
    case False
    then show ?thesis using 2 r c by (auto simp: Let_def split: if_splits)
  qed
qed simp

lemma insert_strongest_set: "set (insert_strongest r rows) \<subseteq> insert r (set rows)"
  by (induction r rows rule: insert_strongest.induct) auto

lemma strongest_set: "set (strongest rows) \<subseteq> set rows"
proof -
  have "set (foldl (\<lambda>kept r. insert_strongest r kept) kept rows) \<subseteq> set kept \<union> set rows" for kept
  proof (induction rows arbitrary: kept)
    case (Cons r rows)
    then show ?case using Cons.IH [of "insert_strongest r kept"] insert_strongest_set [of r kept] by fastforce
  qed simp
  from this [of "[]"] show ?thesis by (simp add: strongest_def)
qed

text \<open>What elimination returns: multiples that make the coefficients vanish and the constant positive.\<close>

definition contradicts :: "nat \<Rightarrow> linear_constraint list \<Rightarrow> wide list \<Rightarrow> bool" where
  "contradicts count active ms \<longleftrightarrow>
     length ms = length active \<and> list_all (\<lambda>m. 0 \<le> m \<and> in_wide m) ms \<and>
     (\<forall>v < count. (\<Sum>i < length active. ms ! i * dense count (active ! i) ! v) = 0) \<and>
     0 < (\<Sum>i < length active. ms ! i * lin_constant (active ! i))"

lemma vanishing_contradicts:
  assumes "combines count active r" and "vanishes r" and "0 < row_constant r"
  shows "contradicts count active (row_origin r)"
proof -
  have "row_coefs r ! v = 0" if "v < count" for v
    using assms(1,2) that by (simp add: combines_def vanishes_def list_all_length)
  then show ?thesis using assms by (simp add: combines_def contradicts_def list_all_iff)
qed

lemma eliminate_loop_contradicts:
  assumes "eliminate_loop rows gone = Inr (Some ms)" and "list_all (combines count active) rows" and "length gone = count"
  shows "contradicts count active ms"
  using assms
proof (induction rows gone rule: eliminate_loop.induct)
  case (1 rows gone)
  show ?case
  proof (cases "find (\<lambda>r. vanishes r \<and> 0 < row_constant r) rows")
    case (Some r)
    then have "ms = row_origin r" using "1.prems"(1) by (simp add: eliminate_loop.simps [of rows gone])
    moreover have "r \<in> set rows" "vanishes r" "0 < row_constant r" using Some by (auto simp: find_Some_iff)
    ultimately show ?thesis using vanishing_contradicts "1.prems"(2) by (auto simp: list_all_iff)
  next
    case None
    let ?pairs = "\<lambda>v. [(upper, lower). upper \<leftarrow> filter (\<lambda>r. 0 < row_coefs r ! v) rows,
        lower \<leftarrow> filter (\<lambda>r. row_coefs r ! v < 0) rows]"
    obtain gone' v rows' where pick: "pick_variable rows [0..<length gone] gone None 0 = (gone', Some v)"
      and run: "cancel_all v (?pairs v) (filter (\<lambda>r. row_coefs r ! v = 0) rows) = Inr (Some rows')"
      and rest: "eliminate_loop (strongest rows') (gone'[v := True]) = Inr (Some ms)"
      using "1.prems"(1) None
      by (auto simp: eliminate_loop.simps [of rows gone] split: prod.splits option.splits)
    have v: "v < count" using pick_variable_Some [OF pick] "1.prems"(3) by simp
    have "list_all (combines count active) rows'"
      using "1.prems"(2) by (intro cancel_all_combines [OF run v]) (auto simp: list_all_iff)
    then have "list_all (combines count active) (strongest rows')"
      using strongest_set [of rows'] by (auto simp: list_all_iff)
    then show ?thesis
      using "1.IH" [OF None pick [symmetric] refl run refl rest] pick_variable_gone [OF pick] "1.prems"(3) by simp
  qed
qed

section \<open>The first rows\<close>

abbreviation unit_at :: "nat \<Rightarrow> nat \<Rightarrow> int" where
  "unit_at v \<equiv> (\<lambda>u. if u = v then 1 else 0)"

lemma unit_absent: "v \<notin> fst ` set ts \<Longrightarrow> terms_value (unit_at v) ts = 0"
  by (induction ts) auto

lemma unit_member: "distinct (map fst ts) \<Longrightarrow> (v, c) \<in> set ts \<Longrightarrow> terms_value (unit_at v) ts = c"
proof (induction ts)
  case (Cons t ts)
  then show ?case using unit_absent [of v ts] by (cases t) (force simp: image_iff)
qed simp

lemma place_terms_value:
  "place_terms ts xs = Inr ys \<Longrightarrow> distinct (map fst ts) \<Longrightarrow>
     length ys = length xs \<and>
     (\<forall>v < length xs. ys ! v = (if v \<in> fst ` set ts then terms_value (unit_at v) ts else xs ! v))"
proof (induction ts xs rule: place_terms.induct)
  case (2 i c ts xs)
  then have i: "i < length xs" and IH: "length ys = length (xs[i := c])"
    "\<forall>v < length (xs[i := c]). ys ! v = (if v \<in> fst ` set ts then terms_value (unit_at v) ts else xs[i := c] ! v)"
    by (auto split: if_splits)
  show ?case using i IH 2(3) by (auto simp: unit_absent nth_list_update)
qed simp

lemma place_terms_dense:
  assumes "place_terms (lin_terms c) (replicate count 0) = Inr ys" and "tidy count c"
  shows "ys = dense count c" and "list_all in_wide ys"
proof -
  note p = place_terms_value [OF assms(1)] assms(2) [unfolded tidy_def]
  show "ys = dense count c"
    using p by (intro nth_equalityI) (auto simp: dense_def unit_absent)
  moreover have "in_wide (dense count c ! v)" if "v < count" for v
  proof (cases "v \<in> fst ` set (lin_terms c)")
    case True
    then obtain x where "(v, x) \<in> set (lin_terms c)" by auto
    then show ?thesis using p(2) unit_member [of "lin_terms c" v x] that by (auto simp: dense_def)
  qed (use that in \<open>simp add: dense_def unit_absent in_wide_def\<close>)
  ultimately show "list_all in_wide ys" by (simp add: list_all_length dense_def)
qed

lemma sum_unit:
  fixes f :: "nat \<Rightarrow> int"
  assumes "k < n"
  shows "(\<Sum>i < n. (replicate n 0)[k := 1] ! i * f i) = f k"
proof -
  have "(\<Sum>i < n. (replicate n 0)[k := 1] ! i * f i) = (\<Sum>i < n. if i = k then f i else 0)"
    by (intro sum.cong) (auto simp: nth_list_update)
  then show ?thesis using assms by simp
qed

lemma start_rows_combine:
  "start_rows count (length everything) index active = Inr rows \<Longrightarrow> drop index everything = active \<Longrightarrow>
     list_all (tidy count) active \<Longrightarrow> list_all (combines count everything) rows"
proof (induction active arbitrary: index rows)
  case (Cons c active)
  then obtain coefs rest where coefs: "place_terms (lin_terms c) (replicate count 0) = Inr coefs"
    and rest: "start_rows count (length everything) (Suc index) active = Inr rest"
    and rows: "rows = \<lparr>row_coefs = coefs, row_constant = lin_constant c,
      row_origin = (replicate (length everything) 0)[index := 1]\<rparr> # rest"
    by auto
  have index: "index < length everything"
  proof (rule ccontr)
    assume "\<not> index < length everything"
    then show False using Cons.prems(2) by simp
  qed
  then have c: "everything ! index = c" and tail: "drop (Suc index) everything = active"
    using Cons.prems(2) by (simp add: nth_via_drop) (metis Cons.prems(2) drop_Suc list.sel(3) tl_drop)
  have "x = 0 \<or> x = 1" if "x \<in> set ((replicate (length everything) 0)[index := 1])" for x :: int
    using set_update_subset_insert [of "replicate (length everything) (0 :: int)" index 1] that by auto
  moreover have "in_wide 0" "in_wide 1" by (simp_all add: in_wide_def)
  ultimately have "list_all in_wide ((replicate (length everything) 0)[index := 1])"
    "list_all (\<lambda>m. 0 \<le> m) ((replicate (length everything) (0 :: int))[index := 1])"
    unfolding list_all_iff by (metis, metis order.refl zero_le_one)
  moreover have "tidy count c" using Cons.prems(3) by simp
  ultimately have "combines count everything (hd rows)"
    using place_terms_dense [OF coefs] index c by (simp add: rows combines_def sum_unit tidy_def) (simp add: dense_def)
  then show ?case using Cons.IH [OF rest tail] Cons.prems(3) by (simp add: rows)
qed simp

lemma eliminate_contradicts:
  assumes "eliminate active count = Inr (Some ms)" and "list_all (tidy count) active"
  shows "contradicts count active ms"
proof -
  obtain rows where rows: "start_rows count (length active) 0 active = Inr rows"
    and run: "eliminate_loop rows (replicate count False) = Inr (Some ms)"
    using assms(1) by (auto simp: eliminate_def)
  show ?thesis
    by (rule eliminate_loop_contradicts [OF run start_rows_combine [OF rows _ assms(2)]]) simp_all
qed

section \<open>The kernel accepts the sums\<close>

lemma sorted_put:
  "sorted_wrt (<) (map fst m) \<Longrightarrow> sorted_wrt (<) (map fst (omap_put (<) (k :: nat) v m))"
proof (induction "(<) :: nat \<Rightarrow> nat \<Rightarrow> bool" k v m rule: omap_put.induct)
  case (2 k v a b m)
  have "fst ` set (omap_put (<) k v m) \<subseteq> insert k (fst ` set m)" by (rule keys_omap_put)
  moreover have "\<forall>x \<in> insert k (fst ` set m). a < x" if "a < k" using that 2 by auto
  ultimately have "\<forall>x \<in> fst ` set (omap_put (<) k v m). a < x" if "a < k" using that by blast
  then show ?case using 2 by (auto intro: order.strict_trans)
qed simp

lemma sorted_emplace:
  "sorted_wrt (<) (map fst m) \<Longrightarrow> sorted_wrt (<) (map fst (omap_emplace (<) (k :: nat) v m))"
  by (simp add: omap_emplace_def sorted_put split: option.split)

lemma add_multiple_outcome:
  "sorted_wrt (<) (map fst acc) \<Longrightarrow>
     add_multiple m ts acc = Inl combination_overflow \<or>
     (\<exists>acc'. add_multiple m ts acc = Inr acc' \<and> sorted_wrt (<) (map fst acc'))"
proof (induction m ts acc rule: add_multiple.induct)
  case (2 m i c ts acc)
  show ?case
  proof (cases "wide_mul c m")
    case (Some multiple)
    let ?acc = "omap_emplace (<) i 0 acc"
    let ?entry = "case omap_find (<) i ?acc of Some v \<Rightarrow> v | None \<Rightarrow> 0"
    show ?thesis
    proof (cases "wide_add ?entry multiple")
      case sum: (Some entry)
      have "sorted_wrt (<) (map fst (omap_put (<) i entry ?acc))"
        using 2(2) by (simp add: sorted_put sorted_emplace)
      from "2.IH" [OF Some refl refl sum this] show ?thesis by (simp only: add_multiple.simps Some sum option.case Let_def)
    qed (simp only: add_multiple.simps Some option.case Let_def simp_thms)
  qed (simp only: add_multiple.simps option.case simp_thms)
qed simp

lemma combine_outcome:
  assumes "farkas_terms index ms = Some ts" and "index + length ms \<le> length active" and "length active \<le> 2 ^ 32"
    and "\<And>p. previous = Some p \<Longrightarrow> p < index" and "sorted_wrt (<) (map fst coefs)"
  shows "combine active ts previous coefs k = Inl combination_overflow \<or>
    (\<exists>coefs' k'. combine active ts previous coefs k = Inr (coefs', k') \<and> sorted_wrt (<) (map fst coefs') \<and>
       (\<forall>\<sigma>. terms_value \<sigma> coefs' =
          terms_value \<sigma> coefs + (\<Sum>j < length ms. ms ! j * terms_value \<sigma> (lin_terms (active ! (index + j))))) \<and>
       k' = k + (\<Sum>j < length ms. ms ! j * lin_constant (active ! (index + j))))"
  using assms
proof (induction ms arbitrary: index ts previous coefs k)
  case (Cons m ms)
  have shift: "(\<Sum>j < length (m # ms). (m # ms) ! j * f (active ! (index + j))) =
      m * f (active ! index) + (\<Sum>j < length ms. ms ! j * f (active ! (Suc index + j)))" for f :: "linear_constraint \<Rightarrow> int"
    by (simp add: sum.lessThan_Suc_shift del: sum.lessThan_Suc)
  show ?case
  proof (cases "m = 0")
    case True
    then have "farkas_terms (Suc index) ms = Some ts" using Cons.prems(1) by simp
    from Cons.IH [OF this, of previous coefs k] Cons.prems show ?thesis
      unfolding shift [of lin_constant] shift [of "\<lambda>c. terms_value \<sigma> (lin_terms c)" for \<sigma>] using True by (auto simp: less_Suc_eq)
  next
    case False
    then obtain ts' where m: "0 < m" and ts': "farkas_terms (Suc index) ms = Some ts'"
      and ts: "ts = (position32 index, m) # ts'"
      using Cons.prems(1) by (auto split: if_splits option.splits)
    have index: "position32 index = index" "index < length active"
      using Cons.prems(2,3) by (simp_all add: position32_def)
    have order: "\<not> (case previous of Some p \<Rightarrow> index \<le> p | None \<Rightarrow> False)"
      using Cons.prems(4) by (auto split: option.split)
    show ?thesis
    proof (cases "\<exists>acc. add_multiple m (lin_terms (active ! index)) coefs = Inr acc \<and>
        in_wide (lin_constant (active ! index) * m) \<and> in_wide (k + lin_constant (active ! index) * m)")
      case True
      then obtain acc where acc: "add_multiple m (lin_terms (active ! index)) coefs = Inr acc"
        and wide: "in_wide (lin_constant (active ! index) * m)" "in_wide (k + lin_constant (active ! index) * m)"
        by blast
      have "sorted_wrt (<) (map fst acc)"
        using add_multiple_outcome [OF Cons.prems(5), of m "lin_terms (active ! index)"] acc by simp
      from Cons.IH [OF ts' _ _ _ this, of "Some index" "k + lin_constant (active ! index) * m"] Cons.prems(2,3)
      show ?thesis
        unfolding shift [of lin_constant] shift [of "\<lambda>c. terms_value \<sigma> (lin_terms c)" for \<sigma>] using m acc wide index order add_multiple_value [OF acc]
        by (auto simp: ts wide_mul_def wide_add_def algebra_simps)
    next
      case False
      then show ?thesis
        using m index order add_multiple_outcome [OF Cons.prems(5), of m "lin_terms (active ! index)"]
        by (auto simp: ts wide_mul_def wide_add_def)
    qed
  qed
qed simp

lemma farkas_contradiction:
  assumes c: "contradicts count active ms" and ts: "farkas ms = Some (FarkasSum ts)"
    and tidy: "list_all (tidy count) active" and few: "length active \<le> 2 ^ 32"
  shows "contradiction active ts = Inr () \<or> contradiction active ts = Inl combination_overflow"
proof -
  have run: "farkas_terms 0 ms = Some ts" and some: "ts \<noteq> []"
    using ts by (auto simp: farkas_def split: option.splits if_splits)
  have len: "length ms = length active" using c by (simp add: contradicts_def)
  consider "combine active ts None [] 0 = Inl combination_overflow"
    | coefs k where "combine active ts None [] 0 = Inr (coefs, k)" "sorted_wrt (<) (map fst coefs)"
      "\<And>\<sigma>. terms_value \<sigma> coefs = (\<Sum>j < length active. ms ! j * terms_value \<sigma> (lin_terms (active ! j)))"
      "k = (\<Sum>j < length active. ms ! j * lin_constant (active ! j))"
    using combine_outcome [OF run, of active None "[]" 0] few len by auto
  then show ?thesis
  proof cases
    case 2
    have "x = 0" if "(v, x) \<in> set coefs" for v x
    proof -
      have "distinct (map fst coefs)" using 2(2) strict_sorted_iff by blast
      from unit_member [OF this that]
      have x: "x = (\<Sum>j < length active. ms ! j * terms_value (unit_at v) (lin_terms (active ! j)))"
        by (simp add: 2(3))
      show ?thesis
      proof (cases "v < count")
        case True
        then have "(\<Sum>j < length active. ms ! j * dense count (active ! j) ! v) = 0"
          using c by (simp add: contradicts_def)
        then show ?thesis using True by (simp add: x dense_def)
      next
        case False
        have "terms_value (unit_at v) (lin_terms (active ! j)) = 0" if "j < length active" for j
          using tidy that False by (intro unit_absent) (fastforce simp: list_all_length tidy_def)
        then show ?thesis by (simp add: x)
      qed
    qed
    then have "find (\<lambda>(i, c). c \<noteq> 0) coefs = None" by (auto simp: find_None_iff)
    moreover have "0 < k" using c 2(4) by (simp add: contradicts_def)
    ultimately show ?thesis using 2(1) some by (simp add: contradiction_def)
  qed (use some in \<open>simp add: contradiction_def\<close>)
qed

section \<open>Contradictions\<close>

text \<open>No solution of the system satisfies all the standing constraints.\<close>

definition refutable :: "arithmetic_system \<Rightarrow> linear_constraint list \<Rightarrow> bool" where
  "refutable sys active \<longleftrightarrow> (\<forall>\<sigma>. solves \<sigma> sys \<longrightarrow> (\<exists>c \<in> set active. \<not> satisfies \<sigma> c))"

lemma terms_value_dense:
  "\<forall>(i, x) \<in> set ts. i < count \<Longrightarrow>
     terms_value \<sigma> ts = (\<Sum>v < count. terms_value (unit_at v) ts * \<sigma> v)"
proof (induction ts)
  case (Cons t ts)
  obtain i x where t: "t = (i, x)" by (cases t)
  have "(\<Sum>v < count. (x * unit_at v i) * \<sigma> v) = (\<Sum>v < count. if v = i then x * \<sigma> v else 0)"
    by (intro sum.cong) auto
  then have "(\<Sum>v < count. (x * unit_at v i) * \<sigma> v) = x * \<sigma> i" using Cons.prems t by simp
  then show ?case using Cons by (simp add: t distrib_right sum.distrib)
qed simp

lemma contradicts_refutable:
  assumes c: "contradicts count active ms" and tidy: "list_all (tidy count) active"
  shows "refutable sys active"
  unfolding refutable_def
proof (intro allI impI, rule ccontr)
  fix \<sigma> assume "\<not> (\<exists>c \<in> set active. \<not> satisfies \<sigma> c)"
  then have sat: "constraint_value \<sigma> (active ! i) \<le> 0" if "i < length active" for i
    using that by (simp add: satisfies_def)
  have expand: "constraint_value \<sigma> (active ! i) =
      (\<Sum>v < count. dense count (active ! i) ! v * \<sigma> v) + lin_constant (active ! i)" if "i < length active" for i
    using terms_value_dense [of "lin_terms (active ! i)" count \<sigma>] tidy that
    by (fastforce simp: constraint_value_def dense_def list_all_length tidy_def)
  have "(\<Sum>i < length active. ms ! i * (\<Sum>v < count. dense count (active ! i) ! v * \<sigma> v)) =
      (\<Sum>v < count. (\<Sum>i < length active. ms ! i * dense count (active ! i) ! v) * \<sigma> v)"
    unfolding sum_distrib_left sum_distrib_right by (subst sum.swap) (simp add: mult.assoc)
  also have "\<dots> = 0" using c by (simp add: contradicts_def)
  finally have "(\<Sum>i < length active. ms ! i * constraint_value \<sigma> (active ! i)) =
      (\<Sum>i < length active. ms ! i * lin_constant (active ! i))"
    by (simp add: expand distrib_left sum.distrib)
  moreover have "(\<Sum>i < length active. ms ! i * constraint_value \<sigma> (active ! i)) \<le> 0"
    using c sat by (intro sum_nonpos mult_nonneg_nonpos) (auto simp: contradicts_def list_all_length)
  ultimately show False using c by (simp add: contradicts_def)
qed

lemma split_refutable:
  assumes "refutable sys (active @ [at_most v x])" and "refutable sys (active @ [at_least v (x + 1)])"
  shows "refutable sys active"
proof -
  have "satisfies \<sigma> (at_most v x) \<or> satisfies \<sigma> (at_least v (x + 1))" for \<sigma>
    by (auto simp: satisfies_def constraint_value_def at_most_def at_least_def)
  then show ?thesis using assms unfolding refutable_def by fastforce
qed

lemma cases_refutable:
  assumes i: "i < length (disjunctions sys)" "disjunctions sys ! i = (a, b)"
    and "refutable sys (active @ [a])" and "refutable sys (active @ [b])"
  shows "refutable sys active"
proof -
  have "satisfies \<sigma> a \<or> satisfies \<sigma> b" if "solves \<sigma> sys" for \<sigma>
    using that nth_mem [OF i(1)] i(2) by (auto simp: solves_def)
  then show ?thesis using assms(3,4) unfolding refutable_def by fastforce
qed

section \<open>The kernel accepts the certificates\<close>

fun certificate_leaves :: "certificate \<Rightarrow> nat" where
  "certificate_leaves (FarkasSum ms) = 1"
| "certificate_leaves (IntegerSplit ts k p q) = certificate_leaves p + certificate_leaves q"
| "certificate_leaves (DisjunctionCases d p q) = certificate_leaves p + certificate_leaves q"

fun certificate_height :: "certificate \<Rightarrow> nat" where
  "certificate_height (FarkasSum ms) = 0"
| "certificate_height (IntegerSplit ts k p q) = Suc (max (certificate_height p) (certificate_height q))"
| "certificate_height (DisjunctionCases d p q) = Suc (max (certificate_height p) (certificate_height q))"

lemma certificate_sizes:
  "Suc (certificate_nodes c) = 2 * certificate_leaves c" "certificate_height c < certificate_leaves c"
  by (induction c) auto

text \<open>
  Within the limits, the checker accepts the certificate under the constraints that stand there,
  or one of its sums overflows.
\<close>

definition accepted_under :: "arithmetic_system \<Rightarrow> linear_constraint list \<Rightarrow> certificate \<Rightarrow> bool" where
  "accepted_under sys active c \<longleftrightarrow>
     (\<forall>limits depth nodes.
        nodes + certificate_nodes c \<le> unat (max_certificate_nodes limits) \<longrightarrow>
        depth + certificate_height c \<le> unat (max_term_depth limits) \<longrightarrow>
        check_certificate sys limits active c depth nodes \<in>
          {Inr (nodes + certificate_nodes c), Inl combination_overflow})"

lemma certificate_limits_Inr:
  "Suc nodes \<le> unat (max_certificate_nodes limits) \<Longrightarrow> depth \<le> unat (max_term_depth limits) \<Longrightarrow>
     certificate_limits limits depth nodes = Inr (Suc nodes)"
  by (simp add: certificate_limits_def)

lemma accepted_underD:
  "accepted_under sys active c \<Longrightarrow> nodes + certificate_nodes c \<le> unat (max_certificate_nodes limits) \<Longrightarrow>
     depth + certificate_height c \<le> unat (max_term_depth limits) \<Longrightarrow>
     check_certificate sys limits active c depth nodes = Inr (nodes + certificate_nodes c) \<or>
     check_certificate sys limits active c depth nodes = Inl combination_overflow"
  unfolding accepted_under_def by blast

lemma accepted_farkas:
  assumes "contradicts count active ms" and "farkas ms = Some c" and "list_all (tidy count) active"
    and "length active \<le> 2 ^ 32"
  shows "accepted_under sys active c"
proof -
  obtain ts where c: "c = FarkasSum ts"
    using assms(2) by (auto simp: farkas_def split: option.splits if_splits)
  have "contradiction active ts = Inr () \<or> contradiction active ts = Inl combination_overflow"
    using farkas_contradiction [OF assms(1) _ assms(3,4)] assms(2) by (simp add: c)
  then show ?thesis by (auto simp: accepted_under_def c certificate_limits_Inr)
qed

lemma sint_small: "- (2 ^ 63) \<le> k \<Longrightarrow> k < 2 ^ 63 \<Longrightarrow> sint (word_of_int k :: u64) = k"
  by (simp add: signed_of_int signed_take_bit_int_eq_self_iff)

lemma accepted_split:
  assumes v: "v < length (variables sys)" and x: "- (2 ^ 63) + 1 \<le> x" "x \<le> 2 ^ 63 - 2"
    and p: "accepted_under sys (active @ [at_most v x]) p" and q: "accepted_under sys (active @ [at_least v (x + 1)]) q"
  shows "accepted_under sys active (IntegerSplit [(v, 1)] (word_of_int (- x)) p q)"
  unfolding accepted_under_def
proof (intro allI impI)
  fix limits :: core_limits and depth nodes
  let ?c = "IntegerSplit [(v, 1)] (word_of_int (- x)) p q"
  assume nodes: "nodes + certificate_nodes ?c \<le> unat (max_certificate_nodes limits)"
    and depth: "depth + certificate_height ?c \<le> unat (max_term_depth limits)"
  have k: "sint (word_of_int (- x) :: u64) = - x" by (rule sint_small) (use x in simp_all)
  then have k': "sint (- word_of_int x :: u64) = - x" by simp
  have w: "wide_add x 1 = Some (x + 1)" using x by (simp add: wide_add_def in_wide_def)
  have form: "split_form (length (variables sys)) [(v, 1)] None = Inr [(v, 1)]" using v by simp
  have "check_certificate sys limits (active @ [at_most v x]) p (Suc depth) (Suc nodes) \<in>
      {Inr (Suc nodes + certificate_nodes p), Inl combination_overflow}"
    using accepted_underD [OF p, of "Suc nodes" limits "Suc depth"] nodes depth by auto
  moreover have "check_certificate sys limits (active @ [at_least v (x + 1)]) q (Suc depth) (Suc nodes + certificate_nodes p) \<in>
      {Inr (Suc nodes + certificate_nodes p + certificate_nodes q), Inl combination_overflow}"
    using accepted_underD [OF q, of "Suc nodes + certificate_nodes p" limits "Suc depth"] nodes depth by auto
  moreover have "check_certificate sys limits active ?c depth nodes =
      bind_ok (check_certificate sys limits (active @ [at_most v x]) p (Suc depth) (Suc nodes))
        (check_certificate sys limits (active @ [at_least v (x + 1)]) q (Suc depth))"
    using certificate_limits_Inr [of nodes limits depth] nodes depth
    by (simp add: form k' w at_most_def at_least_def opposite_terms_def del: split_form.simps)
  ultimately show "check_certificate sys limits active ?c depth nodes \<in>
      {Inr (nodes + certificate_nodes ?c), Inl combination_overflow}"
    by auto
qed

lemma accepted_cases:
  assumes i: "i < length (disjunctions sys)" and d: "disjunctions sys ! i = (a, b)"
    and p: "accepted_under sys (active @ [a]) p" and q: "accepted_under sys (active @ [b]) q"
  shows "accepted_under sys active (DisjunctionCases i p q)"
  unfolding accepted_under_def
proof (intro allI impI)
  fix limits :: core_limits and depth nodes
  let ?c = "DisjunctionCases i p q"
  assume nodes: "nodes + certificate_nodes ?c \<le> unat (max_certificate_nodes limits)"
    and depth: "depth + certificate_height ?c \<le> unat (max_term_depth limits)"
  have "check_certificate sys limits (active @ [a]) p (Suc depth) (Suc nodes) \<in>
      {Inr (Suc nodes + certificate_nodes p), Inl combination_overflow}"
    using accepted_underD [OF p, of "Suc nodes" limits "Suc depth"] nodes depth by auto
  moreover have "check_certificate sys limits (active @ [b]) q (Suc depth) (Suc nodes + certificate_nodes p) \<in>
      {Inr (Suc nodes + certificate_nodes p + certificate_nodes q), Inl combination_overflow}"
    using accepted_underD [OF q, of "Suc nodes + certificate_nodes p" limits "Suc depth"] nodes depth by auto
  moreover have "check_certificate sys limits active ?c depth nodes =
      bind_ok (check_certificate sys limits (active @ [a]) p (Suc depth) (Suc nodes))
        (check_certificate sys limits (active @ [b]) q (Suc depth))"
    using certificate_limits_Inr [of nodes limits depth] nodes depth i d by simp
  ultimately show "check_certificate sys limits active ?c depth nodes \<in>
      {Inr (nodes + certificate_nodes ?c), Inl combination_overflow}"
    by auto
qed

section \<open>The search\<close>

definition certified :: "arithmetic_system \<Rightarrow> linear_constraint list \<Rightarrow> certificate \<Rightarrow> bool" where
  "certified sys active c \<longleftrightarrow> refutable sys active \<and> accepted_under sys active c"

text \<open>
  What every step of the search keeps: nodes are counted up, no more than allowed when a
  certificate comes out, at least one for each of its leaves; and the certificate is right.
\<close>

definition searches :: "arithmetic_system \<Rightarrow> attempt \<Rightarrow> bool" where
  "searches sys f \<longleftrightarrow>
     (\<forall>active nodes c nodes'. list_all (tidy (length (variables sys))) active \<longrightarrow> f active nodes = Inr (c, nodes') \<longrightarrow>
        nodes \<le> nodes' \<and>
        (\<forall>d. c = Some d \<longrightarrow>
           nodes + certificate_leaves d \<le> nodes' \<and> nodes' \<le> kMaxSearchNodes \<and>
           (length active + certificate_height d \<le> 2 ^ 32 \<longrightarrow> certified sys active d)))"

lemma searchesD:
  assumes "searches sys f" and "f active nodes = Inr (c, nodes')" and "list_all (tidy (length (variables sys))) active"
  shows "nodes \<le> nodes'"
    and "c = Some d \<Longrightarrow> nodes + certificate_leaves d \<le> nodes' \<and> nodes' \<le> kMaxSearchNodes"
    and "c = Some d \<Longrightarrow> length active + certificate_height d \<le> 2 ^ 32 \<Longrightarrow> certified sys active d"
  using assms unfolding searches_def by blast+

text \<open>Two cases, one after the other: the shape \<open>split\<close> and the split of a disjunction share.\<close>

lemma searches_two:
  assumes low: "searches sys low" and high: "searches sys high"
    and tidy: "\<And>active. guard \<Longrightarrow> tidy (length (variables sys)) a \<and> tidy (length (variables sys)) b"
    and accept: "\<And>active p q. guard \<Longrightarrow> certified sys (active @ [a]) p \<Longrightarrow> certified sys (active @ [b]) q \<Longrightarrow>
      certified sys active (node p q)"
    and node: "\<And>p q. certificate_leaves (node p q) = certificate_leaves p + certificate_leaves q"
      "\<And>p q. certificate_height (node p q) = Suc (max (certificate_height p) (certificate_height q))"
    and f: "\<And>active nodes. f active nodes =
      (if \<not> guard then Inr (None, nodes)
       else bind_ok (low (active @ [a]) nodes) (\<lambda>(first, nodes).
         case first of
           None \<Rightarrow> Inr (None, nodes)
         | Some first \<Rightarrow>
             bind_ok (high (active @ [b]) nodes) (\<lambda>(second, nodes).
               Inr (case second of None \<Rightarrow> None | Some second \<Rightarrow> Some (node first second), nodes))))"
  shows "searches sys f"
  unfolding searches_def
proof (intro allI impI)
  fix active nodes c nodes'
  assume active: "list_all (tidy (length (variables sys))) active" and run: "f active nodes = Inr (c, nodes')"
  show "nodes \<le> nodes' \<and>
        (\<forall>d. c = Some d \<longrightarrow>
           nodes + certificate_leaves d \<le> nodes' \<and> nodes' \<le> kMaxSearchNodes \<and>
           (length active + certificate_height d \<le> 2 ^ 32 \<longrightarrow> certified sys active d))"
  proof (cases guard)
    case True
    obtain first n where l: "low (active @ [a]) nodes = Inr (first, n)"
      using run True by (auto simp: f)
    have more: "list_all (tidy (length (variables sys))) (active @ [a])" "list_all (tidy (length (variables sys))) (active @ [b])"
      using active tidy [OF True] by simp_all
    note first = searchesD [OF low l more(1)]
    show ?thesis
    proof (cases first)
      case None
      then show ?thesis using run True l first(1) by (auto simp: f)
    next
      case (Some p)
      then obtain second where h: "high (active @ [b]) n = Inr (second, nodes')"
        and c: "c = (case second of None \<Rightarrow> None | Some q \<Rightarrow> Some (node p q))"
        using run True l by (auto simp: f)
      note second = searchesD [OF high h more(2)]
      show ?thesis
        using first(1) first(2) [OF Some] first(3) [OF Some] second(1) second(2,3) accept [OF True, of active p] node c
        by (auto split: option.splits)
    qed
  qed (use run in \<open>auto simp: f\<close>)
qed

lemma searches_split_at:
  assumes "searches sys low" and "searches sys high" and v: "v < length (variables sys)"
  shows "searches sys (split_at v x low high)"
proof (rule searches_two [OF assms(1,2), where guard = "\<not> (2 ^ 63 - 1 - 1 < x \<or> x < - (2 ^ 63) + 1)"
      and node = "IntegerSplit [(v, 1)] (word_of_int (- x))" and a = "at_most v x" and b = "at_least v (x + 1)"])
  show "tidy (length (variables sys)) (at_most v x) \<and> tidy (length (variables sys)) (at_least v (x + 1))"
    if "\<not> (2 ^ 63 - 1 - 1 < x \<or> x < - (2 ^ 63) + 1)"
    using that v by (simp add: tidy_def at_most_def at_least_def in_wide_def)
  show "certified sys active (IntegerSplit [(v, 1)] (word_of_int (- x)) p q)"
    if "\<not> (2 ^ 63 - 1 - 1 < x \<or> x < - (2 ^ 63) + 1)" "certified sys (active @ [at_most v x]) p"
      "certified sys (active @ [at_least v (x + 1)]) q" for active p q
    using that accepted_split [OF v, of x active p q] split_refutable [of sys active v x] by (simp add: certified_def)
qed (simp_all add: split_at_def)

lemma searches_pin_steps:
  "searches sys again \<Longrightarrow> v < length (variables sys) \<Longrightarrow> searches sys (pin_steps again v left x)"
  by (induction left arbitrary: x) (auto intro: searches_split_at)

lemma searches_pin:
  assumes "searches sys again" and "v < length (variables sys)"
  shows "searches sys (pin again v low high)"
  using searches_split_at [OF assms(1) searches_pin_steps [OF assms] assms(2)]
  unfolding searches_def pin_def pin_from_def by auto

lemma unsplit_Some: "unsplit ss index = Some i \<Longrightarrow> index \<le> i \<and> i < index + length ss"
  by (induction ss index rule: unsplit.induct) (auto split: if_splits)

lemma narrow_wrap_Some: "narrow_wrap vs pinned index = Inr (Some i) \<Longrightarrow> index \<le> i \<and> i < index + length vs"
  by (induction vs pinned index rule: narrow_wrap.induct) (fastforce split: if_splits)+

lemma first_window_Some:
  "first_window sys active vs pinned index = Inr (Some (i, low, high)) \<Longrightarrow> index \<le> i \<and> i < index + length vs"
  by (induction sys active vs pinned index rule: first_window.induct) (fastforce split: if_splits option.splits)+

text \<open>The systems the search is given: tidy constraints, and positions that fit 32 bits.\<close>

definition tidy_system :: "arithmetic_system \<Rightarrow> bool" where
  "tidy_system sys \<longleftrightarrow>
     list_all (tidy (length (variables sys))) (constraints sys) \<and>
     list_all (\<lambda>(c, d). tidy (length (variables sys)) c \<and> tidy (length (variables sys)) d) (disjunctions sys) \<and>
     length (variables sys) \<le> 2 ^ 32 \<and> length (disjunctions sys) \<le> 2 ^ 32"

lemma position32_small [simp]: "i < n \<Longrightarrow> n \<le> 2 ^ 32 \<Longrightarrow> position32 i = i"
  by (simp add: position32_def)

lemma searches_split_disjunction:
  assumes again: "searches sys again" and sys: "tidy_system sys" and i: "i < length (disjunctions sys)"
  shows "searches sys (split_disjunction sys i again)"
proof -
  obtain a b where d: "disjunctions sys ! i = (a, b)" by fastforce
  have tidy: "tidy (length (variables sys)) a \<and> tidy (length (variables sys)) b"
    using sys i d by (force simp: tidy_system_def list_all_length)
  have pos: "position32 i = i" using i sys by (simp add: tidy_system_def)
  show ?thesis
  proof (rule searches_two [OF again again, where guard = True and a = a and b = b and node = "DisjunctionCases i"])
    fix active nodes
    show "split_disjunction sys i again active nodes =
      (if \<not> True then Inr (None, nodes)
       else bind_ok (again (active @ [a]) nodes) (\<lambda>(first, nodes).
         case first of
           None \<Rightarrow> Inr (None, nodes)
         | Some first \<Rightarrow>
             bind_ok (again (active @ [b]) nodes) (\<lambda>(second, nodes).
               Inr (case second of None \<Rightarrow> None | Some second \<Rightarrow> Some (DisjunctionCases i first second), nodes))))"
      unfolding split_disjunction_def d pos Let_def prod.case by simp
  qed (use accepted_cases [OF i d] cases_refutable [OF i d] tidy in \<open>simp_all add: certified_def\<close>)
qed

lemma searches_solve:
  "tidy_system sys \<Longrightarrow> length split = length (disjunctions sys) \<Longrightarrow> searches sys (solve sys fuel split pinned)"
proof (induction fuel arbitrary: split pinned)
  case 0
  then show ?case by (simp add: searches_def)
next
  case (Suc fuel)
  have few: "length (variables sys) \<le> 2 ^ 32" using Suc.prems(1) by (simp add: tidy_system_def)
  show ?case unfolding searches_def
  proof (intro allI impI)
    fix active nodes c nodes'
    assume active: "list_all (tidy (length (variables sys))) active"
      and run: "solve sys (Suc fuel) split pinned active nodes = Inr (c, nodes')"
    let ?goal = "nodes \<le> nodes' \<and>
        (\<forall>d. c = Some d \<longrightarrow>
           nodes + certificate_leaves d \<le> nodes' \<and> nodes' \<le> kMaxSearchNodes \<and>
           (length active + certificate_height d \<le> 2 ^ 32 \<longrightarrow> certified sys active d))"
    have step: ?goal if "searches sys f" "f active (Suc nodes) = Inr (c, nodes')" for f
      using searchesD [OF that active] by fastforce
    show ?goal
    proof (cases "kMaxSearchNodes < Suc nodes")
      case True
      then show ?thesis using run by (simp add: solve_body_def)
    next
      case False
      then obtain multipliers where e: "eliminate active (length (variables sys)) = Inr multipliers"
        using run by (auto simp: solve_body_def Let_def)
      show ?thesis
      proof (cases multipliers)
        case (Some ms)
        then have c: "c = farkas ms" "nodes' = Suc nodes" using run False e by (auto simp: solve_body_def Let_def)
        have "certified sys active d" if "c = Some d" "length active + certificate_height d \<le> 2 ^ 32" for d
          using accepted_farkas [OF eliminate_contradicts [OF e [unfolded Some] active] _ active]
            contradicts_refutable [OF eliminate_contradicts [OF e [unfolded Some] active] active] that c(1)
          by (simp add: certified_def)
        moreover have "certificate_leaves d = 1" if "c = Some d" for d
          using that c(1) by (auto simp: farkas_def split: option.splits if_splits)
        ultimately show ?thesis using False c(2) by fastforce
      next
        case None
        show ?thesis
        proof (cases "unsplit split 0")
          case (Some i)
          have i: "i < length (disjunctions sys)" using unsplit_Some [OF Some] Suc.prems(2) by simp
          have "searches sys (split_disjunction sys i (solve sys fuel (split[i := True]) pinned))"
            using Suc.prems by (intro searches_split_disjunction i Suc.IH) simp_all
          from step [OF this] show ?thesis using run False e None Some by (auto simp: solve_body_def Let_def)
        next
          case unsplit: None
          obtain narrow where n: "narrow_wrap (variables sys) pinned 0 = Inr narrow"
            using run False e None unsplit by (auto simp: solve_body_def Let_def)
          show ?thesis
          proof (cases narrow)
            case (Some i)
            have i: "i < length (variables sys)" using narrow_wrap_Some [OF n [unfolded Some]] by simp
            have "searches sys (pin (solve sys fuel split (pinned[i := True])) i low high)" for low high
              using Suc.prems i by (intro searches_pin Suc.IH)
            from step [OF this] show ?thesis
              using run False e None unsplit n Some position32_small [OF i few]
              by (auto simp: solve_body_def Let_def)
          next
            case narrow: None
            obtain window where w: "first_window sys active (variables sys) pinned 0 = Inr window"
              using run False e None unsplit n narrow by (auto simp: solve_body_def Let_def)
            show ?thesis
            proof (cases window)
              case (Some t)
              obtain i low high where t: "t = (i, low, high)" by (cases t)
              have i: "i < length (variables sys)" using first_window_Some [OF w [unfolded Some t]] by simp
              have "searches sys (pin (solve sys fuel split (pinned[i := True])) i low high)"
                using Suc.prems i by (intro searches_pin Suc.IH)
              from step [OF this] show ?thesis
                using run False e None unsplit n narrow w Some t position32_small [OF i few]
                by (auto simp: solve_body_def Let_def)
            next
              case window: None
              then show ?thesis
                using run False e None unsplit n narrow w by (auto simp: solve_body_def Let_def)
            qed
          qed
        qed
      qed
    qed
  qed
qed

text \<open>
  The certificates of the search are within the default limits of the kernel, which accepts them
  unless a sum overflows.
\<close>

lemma refute_found:
  assumes "refute sys = Inr (Some c)" and sys: "tidy_system sys" and few: "length (constraints sys) + 512 \<le> 2 ^ 32"
  shows "certificate_leaves c \<le> kMaxSearchNodes" and "certified sys (constraints sys) c"
proof -
  obtain nodes where run: "solve sys (Suc kMaxSearchNodes) (replicate (length (disjunctions sys)) False)
      (replicate (length (variables sys)) False) (constraints sys) 0 = Inr (Some c, nodes)"
    using assms(1) by (auto simp: refute_def simp del: solve.simps)
  note found = searchesD [OF searches_solve [OF sys] run]
  have tidy: "list_all (tidy (length (variables sys))) (constraints sys)" using sys by (simp add: tidy_system_def)
  show leaves: "certificate_leaves c \<le> kMaxSearchNodes"
    using found(2) [OF _ tidy refl] by simp
  then show "certified sys (constraints sys) c"
    using found(3) [OF _ tidy refl] certificate_sizes(2) [of c] few by (simp add: kMaxSearchNodes_def)
qed

lemma refute_accepted:
  assumes "refute sys = Inr (Some c)" and "tidy_system sys" and "length (constraints sys) + 512 \<le> 2 ^ 32"
  shows "refutes sys c default_limits = Inr () \<or> refutes sys c default_limits = Inl combination_overflow"
proof -
  note found = refute_found [OF assms]
  have "certificate_nodes c \<le> unat (max_certificate_nodes default_limits)"
    "certificate_height c \<le> unat (max_term_depth default_limits)"
    using found(1) certificate_sizes [of c] by (simp_all add: kMaxSearchNodes_def default_limits_def)
  with accepted_underD [of sys "constraints sys" c 0 default_limits 0] found(2) show ?thesis by (auto simp: refutes_def certified_def)
qed

lemma refute_sound:
  assumes "refute sys = Inr (Some c)" and "tidy_system sys" and "length (constraints sys) + 512 \<le> 2 ^ 32"
  shows "\<not> solves \<sigma> sys"
  using refute_found(2) [OF assms] by (auto simp: certified_def refutable_def solves_def)

end
