(* ===== verification/Refute_Ends.thy ===== *)
theory Refute_Ends
  imports Refute_Search
begin

text \<open>
  The search ends: the count of visited nodes bounds how deep \<open>solve\<close> calls itself, so the
  levels the model allows are never used up, and what it returns is what it returns with more.
\<close>

section \<open>Steps that use no levels\<close>

definition runs :: "core_error + 'a \<Rightarrow> bool" where
  "runs m \<longleftrightarrow> (\<forall>e. m = Inl e \<longrightarrow> e = UndefinedBehaviour)"

named_theorems run_intros

lemma runs_Inr [run_intros]: "runs (Inr x)"
  by (simp add: runs_def)

lemma runs_UB [run_intros]: "runs (Inl UndefinedBehaviour)"
  by (simp add: runs_def)

lemma runs_bind [run_intros]: "runs m \<Longrightarrow> (\<And>x. m = Inr x \<Longrightarrow> runs (f x)) \<Longrightarrow> runs (bind_ok m f)"
  by (auto simp: runs_def bind_ok_eq_Inl)

lemma runs_if [run_intros]: "(b \<Longrightarrow> runs m) \<Longrightarrow> (\<not> b \<Longrightarrow> runs n) \<Longrightarrow> runs (if b then m else n)"
  by simp

lemma runs_option [run_intros]:
  "(x = None \<Longrightarrow> runs m) \<Longrightarrow> (\<And>v. x = Some v \<Longrightarrow> runs (f v)) \<Longrightarrow> runs (case x of None \<Rightarrow> m | Some v \<Rightarrow> f v)"
  by (cases x) simp_all

lemma runs_unguarded [run_intros]: "runs (unguarded r)"
  by (simp add: runs_def unguarded_def split: option.split)

lemma runs_place_terms [run_intros]: "runs (place_terms ts xs)"
  by (induction ts xs rule: place_terms.induct) (auto intro!: run_intros)

lemma runs_start_rows [run_intros]: "runs (start_rows count among index cs)"
  by (induction cs arbitrary: index) (auto intro!: run_intros)

lemma runs_cancel [run_intros]: "runs (cancel v up down)"
  unfolding cancel_def Let_def by (intro run_intros)

lemma runs_cancel_all [run_intros]: "runs (cancel_all v pairs rows)"
proof (induction pairs arbitrary: rows)
  case (Cons p pairs)
  then show ?case by (cases p) (auto simp: Let_def intro!: run_intros)
qed (auto intro!: run_intros)

lemma runs_eliminate_loop [run_intros]: "runs (eliminate_loop rows gone)"
proof (induction rows gone rule: eliminate_loop.induct)
  case (1 rows gone)
  show ?case
    by (subst eliminate_loop.simps, intro run_intros) (auto split: prod.split option.split intro!: run_intros 1)
qed

lemma runs_eliminate [run_intros]: "runs (eliminate active count)"
  unfolding eliminate_def by (intro run_intros)

lemma runs_plain_rows [run_intros]: "runs (plain_rows count cs)"
  by (induction cs) (auto intro!: run_intros)

lemma runs_project_pair [run_intros]: "runs (project_pair v up down)"
  unfolding project_pair_def Let_def by (intro run_intros)

lemma runs_project_pairs [run_intros]: "runs (project_pairs v pairs rows)"
  by (induction v pairs rows rule: project_pairs.induct) (auto intro!: run_intros)

lemma runs_project_out [run_intros]: "runs (project_out keep vs rows)"
  by (induction keep vs rows rule: project_out.induct) (auto intro!: run_intros)

lemma runs_interval_of [run_intros]: "runs (interval_of keep rows known)"
  by (induction keep rows known rule: interval_of.induct) (auto simp: Let_def intro!: run_intros)

lemma runs_project [run_intros]: "runs (project active count keep)"
  unfolding project_def by (intro run_intros)

lemma runs_narrow_wrap [run_intros]: "runs (narrow_wrap vs pinned index)"
  by (induction vs arbitrary: index) (auto intro!: run_intros)

lemma runs_window_of [run_intros]: "runs (window_of sys active index)"
  unfolding window_of_def Let_def by (intro run_intros) (auto split: option.split intro!: run_intros)

lemma runs_first_window [run_intros]: "runs (first_window sys active vs pinned index)"
  by (induction vs arbitrary: index) (auto intro!: run_intros split: prod.split)

section \<open>Enough levels\<close>

text \<open>A solver with \<open>n\<close> levels left, started where the nodes and the levels reach the bound.\<close>

definition steady :: "nat \<Rightarrow> attempt \<Rightarrow> bool" where
  "steady n f \<longleftrightarrow> (\<forall>active nodes. kMaxSearchNodes < nodes + n \<longrightarrow>
     runs (f active nodes) \<and> (\<forall>c nodes'. f active nodes = Inr (c, nodes') \<longrightarrow> nodes \<le> nodes'))"

lemma steadyD:
  assumes "steady n f" and "kMaxSearchNodes < nodes + n"
  shows "runs (f active nodes)" and "f active nodes = Inr (c, nodes') \<Longrightarrow> nodes \<le> nodes'"
  using assms unfolding steady_def by blast+

lemma steady_sequence:
  assumes "steady n f" and "\<And>x. steady n (g x)"
  shows "steady n (\<lambda>active nodes. bind_ok (f (at active) nodes) (\<lambda>(first, nodes).
     case first of None \<Rightarrow> Inr (None, nodes)
     | Some x \<Rightarrow> bind_ok (g x (at' active) nodes) (\<lambda>(second, nodes). Inr (k x second, nodes))))"
  unfolding steady_def
proof (intro allI impI)
  fix active nodes
  assume n: "kMaxSearchNodes < nodes + n"
  show "runs (bind_ok (f (at active) nodes) (\<lambda>(first, nodes).
     case first of None \<Rightarrow> Inr (None, nodes)
     | Some x \<Rightarrow> bind_ok (g x (at' active) nodes) (\<lambda>(second, nodes). Inr (k x second, nodes)))) \<and>
     (\<forall>c nodes'. bind_ok (f (at active) nodes) (\<lambda>(first, nodes).
     case first of None \<Rightarrow> Inr (None, nodes)
     | Some x \<Rightarrow> bind_ok (g x (at' active) nodes) (\<lambda>(second, nodes). Inr (k x second, nodes))) = Inr (c, nodes') \<longrightarrow>
       nodes \<le> nodes')"
  proof (cases "f (at active) nodes")
    case (Inl e)
    then show ?thesis using steadyD(1) [OF assms(1) n, of "at active"] by (simp add: runs_def)
  next
    case (Inr r)
    obtain first nodes1 where r: "r = (first, nodes1)" by (cases r)
    have le: "nodes \<le> nodes1" using steadyD(2) [OF assms(1) n] Inr r by blast
    then have n1: "kMaxSearchNodes < nodes1 + n" using n by simp
    have second: "runs (g x active nodes1)"
      "g x active nodes1 = Inr (c, nodes') \<Longrightarrow> nodes \<le> nodes'" for x active c nodes'
      using steadyD [OF assms(2) n1] le le_trans by blast+
    show ?thesis
      using Inr r le second by (cases first) (auto simp: runs_def bind_ok_eq_Inl split: prod.splits)
  qed
qed

lemma steady_split_at: "steady n low_case \<Longrightarrow> steady n high_case \<Longrightarrow> steady n (split_at v x low_case high_case)"
  using steady_sequence [of n low_case "\<lambda>_. high_case" "\<lambda>active. active @ [at_most v x]"
      "\<lambda>active. active @ [at_least v (x + 1)]"
      "\<lambda>first second. case second of None \<Rightarrow> None
         | Some second \<Rightarrow> Some (IntegerSplit [(v, 1)] (word_of_int (- x)) first second)"]
  unfolding steady_def split_at_def by (auto simp: runs_def)

lemma steady_split_disjunction: "steady n again \<Longrightarrow> steady n (split_disjunction sys index again)"
  using steady_sequence [of n again "\<lambda>_. again" "\<lambda>active. active @ [fst (disjunctions sys ! index)]"
      "\<lambda>active. active @ [snd (disjunctions sys ! index)]"
      "\<lambda>first second. case second of None \<Rightarrow> None
         | Some second \<Rightarrow> Some (DisjunctionCases (position32 index) first second)"]
  unfolding split_disjunction_def by (simp add: case_prod_beta)

lemma steady_pin_steps: "steady n again \<Longrightarrow> steady n (pin_steps again v left x)"
  by (induction left arbitrary: x) (simp_all add: steady_split_at)

lemma steady_pin: "steady n again \<Longrightarrow> steady n (pin again v low high)"
  using steady_split_at [OF _ steady_pin_steps, of n again again]
  unfolding steady_def pin_def pin_from_def by (auto simp: runs_def bind_ok_eq_Inl unguarded_def split: option.splits)

lemma steady_solve: "0 < n \<Longrightarrow> steady n (solve sys n split pinned)"
proof (induction n arbitrary: split pinned)
  case (Suc n)
  show ?case
    unfolding steady_def
  proof (intro allI impI)
    fix active nodes
    assume bound: "kMaxSearchNodes < nodes + Suc n"
    show "runs (solve sys (Suc n) split pinned active nodes) \<and>
      (\<forall>c nodes'. solve sys (Suc n) split pinned active nodes = Inr (c, nodes') \<longrightarrow> nodes \<le> nodes')"
    proof (cases "kMaxSearchNodes < Suc nodes")
      case True
      then show ?thesis by (simp add: solve_body_def runs_def)
    next
      case False
      then have "0 < n" and n: "kMaxSearchNodes < Suc nodes + n" using bound by simp_all
      then have s: "steady n (solve sys n split pinned)" for split pinned using Suc.IH by blast
      note deeper = steadyD(1) [OF steady_split_disjunction [OF s] n] steadyD(1) [OF steady_pin [OF s] n]
      note later = steadyD(2) [OF steady_split_disjunction [OF s] n] steadyD(2) [OF steady_pin [OF s] n]
      have "runs (solve sys (Suc n) split pinned active nodes)"
        using False unfolding solve.simps solve_body_def Let_def
        by (auto intro!: run_intros deeper split: prod.split)
      moreover have "nodes \<le> nodes'" if "solve sys (Suc n) split pinned active nodes = Inr (c, nodes')" for c nodes'
        using that False unfolding solve.simps solve_body_def Let_def
        by (auto split: option.splits prod.splits dest!: later)
      ultimately show ?thesis by blast
    qed
  qed
qed simp

lemma refute_runs: "runs (refute sys)"
proof -
  have "runs (solve sys (Suc kMaxSearchNodes) split pinned active 0)" for split pinned active
    by (rule steadyD(1) [OF steady_solve]) simp_all
  then show ?thesis unfolding refute_def runs_def by (auto simp: bind_ok_eq_Inl)
qed

section \<open>More levels\<close>

definition improves :: "core_error + 'a \<Rightarrow> core_error + 'a \<Rightarrow> bool" where
  "improves m n \<longleftrightarrow> (runs n \<longrightarrow> m = n)"

named_theorems extend_intros

lemma improves_refl [extend_intros]: "improves m m"
  by (simp add: improves_def)

lemma improves_bind [extend_intros]:
  "improves m n \<Longrightarrow> (\<And>x. n = Inr x \<Longrightarrow> improves (f x) (g x)) \<Longrightarrow> improves (bind_ok m f) (bind_ok n g)"
  by (cases n) (auto simp: improves_def runs_def)

lemma improves_if [extend_intros]:
  "(b \<Longrightarrow> improves m n) \<Longrightarrow> (\<not> b \<Longrightarrow> improves m' n') \<Longrightarrow> improves (if b then m else m') (if b then n else n')"
  by simp

lemma improves_option [extend_intros]:
  "improves m n \<Longrightarrow> (\<And>v. x = Some v \<Longrightarrow> improves (f v) (g v)) \<Longrightarrow>
     improves (case x of None \<Rightarrow> m | Some v \<Rightarrow> f v) (case x of None \<Rightarrow> n | Some v \<Rightarrow> g v)"
  by (cases x) simp_all

lemma improves_prod [extend_intros]:
  "(\<And>a b. x = (a, b) \<Longrightarrow> improves (f a b) (g a b)) \<Longrightarrow> improves (case x of (a, b) \<Rightarrow> f a b) (case x of (a, b) \<Rightarrow> g a b)"
  by (cases x) simp

lemma extends_split_at:
  assumes "\<And>active nodes. improves (l active nodes) (l' active nodes)"
    and "\<And>active nodes. improves (h active nodes) (h' active nodes)"
  shows "improves (split_at v x l h active nodes) (split_at v x l' h' active nodes)"
  unfolding split_at_def by (intro extend_intros assms)

lemma improves_pin:
  assumes "\<And>active nodes. improves (f active nodes) (g active nodes)"
  shows "improves (pin f v low high active nodes) (pin g v low high active nodes)"
proof -
  have "improves (pin_steps f v left x active nodes) (pin_steps g v left x active nodes)" for left x active nodes
    by (induction left arbitrary: x active nodes) (simp_all add: extends_split_at assms)
  then show ?thesis unfolding pin_def pin_from_def by (intro extend_intros extends_split_at assms)
qed

lemma extends_solve_body:
  assumes f: "\<And>split pinned active nodes. improves (f split pinned active nodes) (g split pinned active nodes)"
  shows "improves (solve_body sys f split pinned active nodes) (solve_body sys g split pinned active nodes)"
  unfolding solve_body_def Let_def split_disjunction_def by (intro extend_intros improves_pin f)

lemma improves_solve:
  "improves (solve sys (Suc fuel) split pinned active nodes) (solve sys fuel split pinned active nodes)"
proof (induction fuel arbitrary: split pinned active nodes)
  case 0
  show ?case by (simp add: improves_def runs_def)
next
  case (Suc fuel)
  then show ?case unfolding solve.simps(2) by (rule extends_solve_body)
qed

text \<open>A run that settles with few levels is the run \<open>refute\<close> makes.\<close>

lemma refute_few:
  assumes "solve sys few (replicate (length (disjunctions sys)) False)
      (replicate (length (variables sys)) False) (constraints sys) 0 = r"
    and "runs r" and "few \<le> Suc kMaxSearchNodes"
  shows "refute sys = bind_ok r (\<lambda>(c, nodes). Inr c)"
proof -
  have "solve sys (few + more) split pinned active nodes = solve sys few split pinned active nodes"
    if "runs (solve sys few split pinned active nodes)" for more split pinned active nodes
    using that by (induction more) (use improves_solve in \<open>force simp: improves_def\<close>)+
  from this [of _ _ _ _ "Suc kMaxSearchNodes - few"] show ?thesis
    using assms by (simp add: refute_def)
qed

end
