(* ===== verification/Refute_Examples.thy ===== *)
theory Refute_Examples
  imports Refute_Facts Refute_Ends Examples
begin

text \<open>Inputs of the search: a half, which only splits rule out, and the least coefficient.\<close>

definition half_system :: arithmetic_system where
  "half_system =
     \<lparr>variables = [\<lparr>role = WrapRole, var_type = byte, var_term = Var 0, var_lowest = 0, var_highest = 1\<rparr>],
      constraints = [\<lparr>lin_terms = [(0, 2)], lin_constant = - 1\<rparr>, \<lparr>lin_terms = [(0, - 2)], lin_constant = 1\<rparr>],
      disjunctions = []\<rparr>"

definition half_certificate :: certificate where
  "half_certificate =
     IntegerSplit [(0, 1)] 1 (FarkasSum [(1, 1), (2, 2)])
       (IntegerSplit [(0, 1)] 0 (FarkasSum [(1, 1), (3, 2)])
         (IntegerSplit [(0, 1)] (- 1) (FarkasSum [(0, 1), (3, 2)]) (FarkasSum [(0, 1), (4, 2)])))"

lemma half_refuted: "refute half_system = Inr (Some half_certificate)"
  by code_simp

lemma half_tidy: "tidy_system half_system" "length (constraints half_system) + 512 \<le> 2 ^ 32"
  by (simp_all add: tidy_system_def tidy_def half_system_def in_wide_def)

lemma byte_refuted: "refute byte_system = Inr (Some byte_certificate)"
  by code_simp

definition least_system :: arithmetic_system where
  "least_system =
     \<lparr>variables = [\<lparr>role = ValueRole, var_type = byte, var_term = Var 0, var_lowest = 0, var_highest = 0\<rparr>],
      constraints = [\<lparr>lin_terms = [(0, 1)], lin_constant = 0\<rparr>, \<lparr>lin_terms = [(0, - (2 ^ 127))], lin_constant = 1\<rparr>],
      disjunctions = []\<rparr>"

lemma least_tidy: "tidy_system least_system"
  by (simp add: tidy_system_def tidy_def least_system_def in_wide_def)

lemma least_negated: "refute least_system = Inl UndefinedBehaviour"
  by code_simp

end
