(* ===== verification/Lexer.thy ===== *)
theory Lexer
  imports Source_Text
begin

text \<open>
  The lexer of preprocessed text (compiler/frontend/include/cppl/frontend/token.hpp,
  compiler/frontend/src/lexer.cpp): tokens, comments and directive lines with the spans they
  take, and the presumed positions the line markers state. The character classes are those of
  the C locale.
\<close>

section \<open>Tokens\<close>

datatype token_kind = Identifier | Number | StringLiteral | CharLiteral | Punctuator | EndOfFile

record token =
  tok_kind :: token_kind
  tok_span :: byte_span
  tok_text :: string
  tok_file :: u32
  tok_line :: u32
  tok_column :: u32

definition is_identifier :: "string \<Rightarrow> token \<Rightarrow> bool" where
  "is_identifier name t \<longleftrightarrow> tok_kind t = Identifier \<and> tok_text t = name"

definition is_punctuator :: "string \<Rightarrow> token \<Rightarrow> bool" where
  "is_punctuator name t \<longleftrightarrow> tok_kind t = Punctuator \<and> tok_text t = name"

record directive =
  dir_span :: byte_span
  line_marker :: bool

record include_site =
  site_file :: u32
  site_line :: u32

record token_stream =
  stream_text :: string
  stream_tokens :: "token list"
  stream_files :: "string list"
  stream_system :: "bool list"
  stream_sites :: "include_site option list"
  stream_comments :: "byte_span list"
  stream_directives :: "directive list"

section \<open>Characters\<close>

abbreviation newline :: char where "newline \<equiv> CHR 0x0A"
abbreviation quote :: char where "quote \<equiv> CHR 0x22"
abbreviation apostrophe :: char where "apostrophe \<equiv> CHR 0x27"
abbreviation backslash :: char where "backslash \<equiv> CHR 0x5C"

definition kPunctuators :: "string list" where
  "kPunctuators =
     [''<<='', ''>>='', ''->*'', ''...'', ''<=>'', ''::'', ''->'', ''++'', ''--'', ''<<'', ''>>'', ''.*'',
      ''<='', ''>='', ''=='', ''!='', ''&&'', ''||'', ''+='', ''-='', ''*='', ''/='', ''%='', ''^='', ''&='',
      ''|='', ''##'', ''{'', ''}'', ''['', '']'', ''('', '')'', '';'', '':'', ''?'', ''.'', ''+'', ''-'',
      ''*'', ''/'', ''%'', ''^'', ''&'', ''|'', ''~'', ''!'', ''='', ''<'', ''>'']"

definition is_alpha :: "char \<Rightarrow> bool" where
  "is_alpha c \<longleftrightarrow> (let n = of_char c :: nat in (65 \<le> n \<and> n \<le> 90) \<or> (97 \<le> n \<and> n \<le> 122))"

definition is_identifier_start :: "char \<Rightarrow> bool" where
  "is_identifier_start c \<longleftrightarrow> is_alpha c \<or> c = CHR ''_'' \<or> (128 :: nat) \<le> of_char c"

definition is_identifier_continue :: "char \<Rightarrow> bool" where
  "is_identifier_continue c \<longleftrightarrow> is_alpha c \<or> is_digit c \<or> c = CHR ''_'' \<or> (128 :: nat) \<le> of_char c"

definition is_horizontal_space :: "char \<Rightarrow> bool" where
  "is_horizontal_space c \<longleftrightarrow> c \<in> {CHR '' '', CHR 0x09, CHR 0x0D, CHR 0x0C, CHR 0x0B}"

text \<open>\<open>while (i < text.size() && p(text[i])) ++i;\<close>\<close>

definition skip_while :: "(char \<Rightarrow> bool) \<Rightarrow> string \<Rightarrow> nat \<Rightarrow> nat" where
  "skip_while p xs i = i + length (takeWhile p (drop i xs))"

lemma skip_while_loop: "skip_while p xs i = (if i < length xs \<and> p (xs ! i) then skip_while p xs (Suc i) else i)"
proof (cases "i < length xs")
  case True
  then show ?thesis by (simp add: skip_while_def flip: Cons_nth_drop_Suc)
qed (simp add: skip_while_def)

lemma skip_while_ge: "i \<le> skip_while p xs i"
  by (simp add: skip_while_def)

lemma skip_while_le: "i \<le> length xs \<Longrightarrow> skip_while p xs i \<le> length xs"
  using length_takeWhile_le [of p "drop i xs"] by (simp add: skip_while_def)

lemma skip_while_holds: "i \<le> k \<Longrightarrow> k < skip_while p xs i \<Longrightarrow> p (xs ! k)"
  using nth_mem [of "k - i" "takeWhile p (drop i xs)"] set_takeWhileD [of _ p "drop i xs"]
    takeWhile_nth [of "k - i" p "drop i xs"] length_takeWhile_le [of p "drop i xs"]
  by (fastforce simp: skip_while_def)

lemma skip_while_stops: "skip_while p xs i < length xs \<Longrightarrow> \<not> p (xs ! skip_while p xs i)"
  using nth_length_takeWhile [of p "drop i xs"] by (simp add: skip_while_def less_diff_conv2)

text \<open>\<open>text.compare(i, w.size(), w) == 0\<close>\<close>

definition matches :: "string \<Rightarrow> nat \<Rightarrow> string \<Rightarrow> bool" where
  "matches xs i w \<longleftrightarrow> substr xs i (length w) = w"

lemma matches_length: "matches xs i w \<Longrightarrow> w \<noteq> [] \<Longrightarrow> i + length w \<le> length xs"
  using length_substr [of xs i "length w"] by (cases w) (auto simp: matches_def)

section \<open>Literal prefixes\<close>

record literal_prefix =
  prefix_length :: nat
  prefix_raw :: bool
  prefix_character :: bool

definition literal_at :: "string \<Rightarrow> nat \<Rightarrow> string \<Rightarrow> literal_prefix option" where
  "literal_at xs i encoding =
     (if \<not> matches xs i encoding then None
      else
        let after = i + length encoding;
            raw = (after < length xs \<and> xs ! after = CHR ''R'');
            cursor = (if raw then Suc after else after)
        in if length xs \<le> cursor then None
           else if xs ! cursor = quote
           then Some \<lparr>prefix_length = cursor + 1 - i, prefix_raw = raw, prefix_character = False\<rparr>
           else if xs ! cursor = apostrophe \<and> \<not> raw
           then Some \<lparr>prefix_length = cursor + 1 - i, prefix_raw = False, prefix_character = True\<rparr>
           else None)"

text \<open>The first encoding that fits; none is the empty one.\<close>

fun first_literal :: "string \<Rightarrow> nat \<Rightarrow> string list \<Rightarrow> literal_prefix option" where
  "first_literal xs i [] = None"
| "first_literal xs i (e # es) =
     (case literal_at xs i e of Some l \<Rightarrow> Some l | None \<Rightarrow> first_literal xs i es)"

definition match_literal_prefix :: "string \<Rightarrow> nat \<Rightarrow> literal_prefix option" where
  "match_literal_prefix xs i = first_literal xs i [''u8'', ''u'', ''U'', ''L'', '''']"

lemma literal_at_bounds:
  "literal_at xs i e = Some l \<Longrightarrow> 0 < prefix_length l \<and> i + prefix_length l \<le> length xs"
  by (auto simp: literal_at_def Let_def split: if_splits)

lemma first_literal_Some: "first_literal xs i es = Some l \<Longrightarrow> \<exists>e \<in> set es. literal_at xs i e = Some l"
  by (induction es) (auto split: option.splits)

lemma match_literal_prefix_bounds:
  "match_literal_prefix xs i = Some l \<Longrightarrow> 0 < prefix_length l \<and> i + prefix_length l \<le> length xs"
  using first_literal_Some literal_at_bounds unfolding match_literal_prefix_def by blast

section \<open>The state of the lexer\<close>

record lexer =
  lx_tokens :: "token list"
  lx_files :: "string list"
  lx_system :: "bool list"
  lx_sites :: "include_site option list"
  lx_comments :: "byte_span list"
  lx_directives :: "directive list"
  lx_offset :: nat
  lx_line_start :: nat
  lx_line :: u32
  lx_file :: u32
  lx_at_start :: bool

definition initial_lexer :: "string \<Rightarrow> lexer" where
  "initial_lexer file =
     \<lparr>lx_tokens = [], lx_files = [file], lx_system = [False], lx_sites = [None], lx_comments = [],
      lx_directives = [], lx_offset = 0, lx_line_start = 0, lx_line = 1, lx_file = 0, lx_at_start = True\<rparr>"

definition lx_column :: "lexer \<Rightarrow> u32" where
  "lx_column s = word_of_nat (lx_offset s - lx_line_start s + 1)"

definition advance_line :: "lexer \<Rightarrow> lexer" where
  "advance_line s =
     s\<lparr>lx_offset := Suc (lx_offset s), lx_line_start := Suc (lx_offset s), lx_line := lx_line s + 1,
       lx_at_start := True\<rparr>"

definition move_to :: "nat \<Rightarrow> lexer \<Rightarrow> lexer" where
  "move_to i s = s\<lparr>lx_offset := i\<rparr>"

definition push_token :: "token_kind \<Rightarrow> string \<Rightarrow> nat \<Rightarrow> u32 \<Rightarrow> lexer \<Rightarrow> lexer" where
  "push_token kind xs start start_column s =
     s\<lparr>lx_tokens := lx_tokens s @
       [\<lparr>tok_kind = kind, tok_span = span_from start (lx_offset s),
         tok_text = substr xs start (lx_offset s - start), tok_file = lx_file s, tok_line = lx_line s,
         tok_column = start_column\<rparr>]\<rparr>"

definition push_comment :: "nat \<Rightarrow> lexer \<Rightarrow> lexer" where
  "push_comment start s = s\<lparr>lx_comments := lx_comments s @ [span_from start (lx_offset s)]\<rparr>"

section \<open>Comments\<close>

lemma advance_line_offset [simp]: "lx_offset (advance_line s) = Suc (lx_offset s)"
  by (simp add: advance_line_def)

lemma move_to_offset [simp]: "lx_offset (move_to i s) = i"
  by (simp add: move_to_def)

text \<open>The loop through a block comment, up to and past its end.\<close>

function block_comment :: "string \<Rightarrow> lexer \<Rightarrow> lexer" where
  "block_comment xs s =
     (if length xs \<le> lx_offset s then s
      else if xs ! lx_offset s = newline then block_comment xs (advance_line s)
      else if xs ! lx_offset s = CHR ''*'' \<and> lx_offset s + 1 < length xs \<and> xs ! (lx_offset s + 1) = CHR ''/''
      then move_to (lx_offset s + 2) s
      else block_comment xs (move_to (Suc (lx_offset s)) s))"
  by pat_completeness auto
termination
  by (relation "measure (\<lambda>(xs, s). length xs - lx_offset s)") (auto simp: advance_line_def move_to_def)

declare block_comment.simps [simp del]

definition consume_comment :: "string \<Rightarrow> lexer \<Rightarrow> lexer option" where
  "consume_comment xs s =
     (let start = lx_offset s
      in if length xs \<le> start + 1 \<or> xs ! start \<noteq> CHR ''/'' then None
         else if xs ! (start + 1) = CHR ''/''
         then Some (push_comment start (move_to (skip_while (\<lambda>c. c \<noteq> newline) xs start) s))
         else if xs ! (start + 1) = CHR ''*''
         then Some (push_comment start (block_comment xs (move_to (start + 2) s)))
         else None)"

section \<open>Line markers\<close>

text \<open>The decimal number a run of digits spells, at 32 bits.\<close>

definition number32 :: "string \<Rightarrow> u32" where
  "number32 ds = foldl (\<lambda>n c. n * 10 + word_of_nat (of_char c - 48)) 0 ds"

definition digits_at :: "string \<Rightarrow> nat \<Rightarrow> string" where
  "digits_at xs i = takeWhile is_digit (drop i xs)"

text \<open>The file name up to its closing quote, and how many bytes it took.\<close>

fun stated_file :: "string \<Rightarrow> string \<times> nat" where
  "stated_file [] = ([], 0)"
| "stated_file [c] = (if c = quote \<or> c = newline then ([], 0) else ([c], 1))"
| "stated_file (c # d # cs) =
     (if c = quote \<or> c = newline then ([], 0)
      else if c = backslash then (let (file, n) = stated_file cs in (d # file, n + 2))
      else (let (file, n) = stated_file (d # cs) in (c # file, n + 1)))"

text \<open>The flags after it: whether the file is entered, and whether it is a system header.\<close>

function stated_flags :: "string \<Rightarrow> bool \<Rightarrow> bool \<Rightarrow> bool \<times> bool" where
  "stated_flags [] entering sys = (entering, sys)"
| "stated_flags (c # cs) entering sys =
     (if c = newline then (entering, sys)
      else if \<not> is_digit c then stated_flags cs entering sys
      else let flag = number32 (c # takeWhile is_digit cs)
           in stated_flags (dropWhile is_digit cs) (entering \<or> flag = 1) (sys \<or> flag = 3))"
  by pat_completeness auto
termination
  by (relation "measure (\<lambda>(cs, entering, sys). length cs)") (auto simp: le_imp_less_Suc length_dropWhile_le)

text \<open>\<open>intern\<close>: the index of the file, added where it is new.\<close>

fun find_file :: "string \<Rightarrow> string list \<Rightarrow> nat \<Rightarrow> nat option" where
  "find_file file [] index = None"
| "find_file file (f # fs) index = (if f = file then Some index else find_file file fs (Suc index))"

definition intern :: "string \<Rightarrow> lexer \<Rightarrow> u32 \<times> lexer" where
  "intern file s =
     (case find_file file (lx_files s) 0 of
        Some index \<Rightarrow> (word_of_nat index, s)
      | None \<Rightarrow>
          (word_of_nat (length (lx_files s)),
           s\<lparr>lx_files := lx_files s @ [file], lx_system := lx_system s @ [False],
             lx_sites := lx_sites s @ [None]\<rparr>))"

text \<open>The file a marker names becomes the current one.\<close>

definition enter_file :: "string \<Rightarrow> bool \<Rightarrow> bool \<Rightarrow> lexer \<Rightarrow> lexer" where
  "enter_file file entering sys s =
     (let (entered, s) = intern file s;
          i = unat entered;
          s = (if entering \<and> lx_sites s ! i = None
               then s\<lparr>lx_sites := (lx_sites s)[i := Some \<lparr>site_file = lx_file s, site_line = lx_line s\<rparr>]\<rparr>
               else s);
          s = s\<lparr>lx_file := entered\<rparr>
      in if sys then s\<lparr>lx_system := (lx_system s)[i := True]\<rparr> else s)"

text \<open>
  Where the reading of a directive line stands after the \<open>#\<close> and \<open>line\<close>, after the digits, and
  after the spaces that follow them.
\<close>

definition after_hash :: "string \<Rightarrow> nat \<Rightarrow> nat" where
  "after_hash xs hash =
     (let cursor = skip_while is_horizontal_space xs (Suc hash)
      in if matches xs cursor ''line'' then skip_while is_horizontal_space xs (cursor + 4) else cursor)"

text \<open>The name a marker states, if it states one, and where the reading goes on.\<close>

definition marker_file :: "string \<Rightarrow> nat \<Rightarrow> string option \<times> nat" where
  "marker_file xs cursor =
     (if cursor < length xs \<and> xs ! cursor = quote
      then let (file, n) = stated_file (drop (Suc cursor) xs);
               cursor = Suc cursor + n
           in (Some file, if cursor < length xs \<and> xs ! cursor = quote then Suc cursor else cursor)
      else (None, cursor))"

definition consume_line_marker :: "string \<Rightarrow> lexer \<Rightarrow> lexer option" where
  "consume_line_marker xs s =
     (let hash = skip_while is_horizontal_space xs (lx_offset s)
      in if length xs \<le> hash \<or> xs ! hash \<noteq> CHR ''#'' then None
         else
           let digits = after_hash xs hash;
               stated_line = number32 (digits_at xs digits);
               is_marker = (digits_at xs digits \<noteq> []);
               (file, flags) = marker_file xs (skip_while is_horizontal_space xs (skip_while is_digit xs digits));
               (entering, sys) = stated_flags (drop flags xs) False False;
               cursor = skip_while (\<lambda>c. c \<noteq> newline) xs flags;
               next_line = (if cursor < length xs then Suc cursor else cursor);
               s = s\<lparr>lx_directives := lx_directives s @
                       [\<lparr>dir_span = span_from (lx_offset s) cursor, line_marker = is_marker\<rparr>],
                     lx_offset := next_line, lx_line_start := next_line, lx_at_start := True\<rparr>
           in Some (if is_marker
                    then (case file of None \<Rightarrow> s | Some file \<Rightarrow> enter_file file entering sys s)\<lparr>lx_line := stated_line\<rparr>
                    else s\<lparr>lx_line := lx_line s + 1\<rparr>))"

section \<open>Tokens\<close>

text \<open>The loop of \<open>consume_number\<close>.\<close>

function number_end :: "string \<Rightarrow> nat \<Rightarrow> nat" where
  "number_end xs i =
     (if i < length xs \<and>
         (is_alpha (xs ! i) \<or> is_digit (xs ! i) \<or> xs ! i = CHR ''_'' \<or> xs ! i = CHR ''.'' \<or> xs ! i = apostrophe)
      then if xs ! i \<in> {CHR ''e'', CHR ''E'', CHR ''p'', CHR ''P''} \<and> Suc i < length xs \<and>
              (xs ! Suc i = CHR ''+'' \<or> xs ! Suc i = CHR ''-'')
           then number_end xs (i + 2) else number_end xs (Suc i)
      else i)"
  by pat_completeness auto
termination
  by (relation "measure (\<lambda>(xs, i). length xs - i)") auto

declare number_end.simps [simp del]

text \<open>The loop through a raw literal, up to and past its terminator.\<close>

function raw_literal :: "string \<Rightarrow> string \<Rightarrow> lexer \<Rightarrow> lexer" where
  "raw_literal xs terminator s =
     (if length xs \<le> lx_offset s then s
      else if matches xs (lx_offset s) terminator then move_to (lx_offset s + length terminator) s
      else if xs ! lx_offset s = newline then raw_literal xs terminator (advance_line s)
      else raw_literal xs terminator (move_to (Suc (lx_offset s)) s))"
  by pat_completeness auto
termination
  by (relation "measure (\<lambda>(xs, terminator, s). length xs - lx_offset s)") (auto simp: advance_line_def move_to_def)

declare raw_literal.simps [simp del]

text \<open>The end of a literal that is not raw; one that is not terminated ends with its line.\<close>

function literal_end :: "string \<Rightarrow> char \<Rightarrow> nat \<Rightarrow> nat" where
  "literal_end xs terminator i =
     (if length xs \<le> i then i
      else if xs ! i = backslash \<and> i + 1 < length xs then literal_end xs terminator (i + 2)
      else if xs ! i = terminator then Suc i
      else if xs ! i = newline then i
      else literal_end xs terminator (Suc i))"
  by pat_completeness auto
termination
  by (relation "measure (\<lambda>(xs, terminator, i). length xs - i)") auto

declare literal_end.simps [simp del]

definition consume_literal :: "string \<Rightarrow> literal_prefix \<Rightarrow> lexer \<Rightarrow> lexer" where
  "consume_literal xs l s =
     (let start = lx_offset s + prefix_length l
      in if prefix_raw l
         then let open_at = skip_while (\<lambda>c. c \<noteq> CHR ''('') xs start;
                  delimiter = substr xs start (open_at - start)
              in raw_literal xs ('')'' @ delimiter @ [quote])
                   (move_to (if open_at < length xs then Suc open_at else open_at) s)
         else move_to (literal_end xs (if prefix_character l then apostrophe else quote) start) s)"

definition punctuator_end :: "string \<Rightarrow> nat \<Rightarrow> nat" where
  "punctuator_end xs i =
     (case find (matches xs i) kPunctuators of Some p \<Rightarrow> i + length p | None \<Rightarrow> Suc i)"

definition lex_token :: "string \<Rightarrow> lexer \<Rightarrow> lexer" where
  "lex_token xs s =
     (let start = lx_offset s;
          start_column = lx_column s;
          c = xs ! start
      in case match_literal_prefix xs start of
           Some l \<Rightarrow>
             push_token (if prefix_character l then CharLiteral else StringLiteral) xs start start_column
               (consume_literal xs l s)
         | None \<Rightarrow>
             if is_identifier_start c
             then push_token Identifier xs start start_column
                    (move_to (skip_while is_identifier_continue xs start) s)
             else if is_digit c \<or> (c = CHR ''.'' \<and> start + 1 < length xs \<and> is_digit (xs ! (start + 1)))
             then push_token Number xs start start_column (move_to (number_end xs start) s)
             else push_token Punctuator xs start start_column (move_to (punctuator_end xs start) s))"

section \<open>The loop of the lexer\<close>

text \<open>One round of \<open>run\<close>.\<close>

definition lex_step :: "string \<Rightarrow> lexer \<Rightarrow> lexer" where
  "lex_step xs s =
     (case (if lx_at_start s then consume_line_marker xs s else None) of
        Some s \<Rightarrow> s
      | None \<Rightarrow>
          let c = xs ! lx_offset s
          in if c = newline then advance_line s
             else if is_horizontal_space c then move_to (Suc (lx_offset s)) s
             else case consume_comment xs s of
               Some s \<Rightarrow> s
             | None \<Rightarrow> lex_token xs (s\<lparr>lx_at_start := False\<rparr>))"

text \<open>Every round goes forward, within the text.\<close>

lemma block_comment_bounds:
  "lx_offset s \<le> lx_offset (block_comment xs s) \<and>
     (lx_offset s \<le> length xs \<longrightarrow> lx_offset (block_comment xs s) \<le> length xs)"
proof (induction xs s rule: block_comment.induct)
  case (1 xs s)
  then show ?case by (subst (1 2) block_comment.simps) (auto simp: Suc_le_eq)
qed

lemma raw_literal_bounds:
  "terminator \<noteq> [] \<Longrightarrow> lx_offset s \<le> lx_offset (raw_literal xs terminator s) \<and>
     (lx_offset s \<le> length xs \<longrightarrow> lx_offset (raw_literal xs terminator s) \<le> length xs)"
proof (induction xs terminator s rule: raw_literal.induct)
  case (1 xs terminator s)
  then show ?case
    using matches_length [of xs "lx_offset s" terminator] by (subst (1 2) raw_literal.simps) (auto simp: Suc_le_eq)
qed

lemma literal_end_bounds:
  "i \<le> literal_end xs terminator i \<and> (i \<le> length xs \<longrightarrow> literal_end xs terminator i \<le> length xs)"
proof (induction xs terminator i rule: literal_end.induct)
  case (1 xs terminator i)
  then show ?case by (subst (1 2) literal_end.simps) auto
qed

lemma number_end_bounds: "i \<le> number_end xs i \<and> (i \<le> length xs \<longrightarrow> number_end xs i \<le> length xs)"
proof (induction xs i rule: number_end.induct)
  case (1 xs i)
  then show ?case by (subst (1 2) number_end.simps) auto
qed

lemma number_end_progress:
  assumes "i < length xs" and "is_digit (xs ! i) \<or> xs ! i = CHR ''.''"
  shows "i < number_end xs i"
proof -
  have "Suc i \<le> number_end xs (Suc i)" "i + 2 \<le> number_end xs (i + 2)" by (simp_all add: number_end_bounds)
  with assms show ?thesis by (subst number_end.simps) auto
qed

lemma punctuator_end_bounds:
  assumes "i < length xs"
  shows "i < punctuator_end xs i \<and> punctuator_end xs i \<le> length xs"
proof (cases "find (matches xs i) kPunctuators")
  case None
  then show ?thesis using assms by (simp add: punctuator_end_def)
next
  case (Some p)
  then have "p \<in> set kPunctuators" and m: "matches xs i p" by (auto simp: find_Some_iff)
  then have "p \<noteq> []" by (auto simp: kPunctuators_def)
  with Some show ?thesis using matches_length [OF m] by (simp add: punctuator_end_def)
qed

lemma consume_literal_bounds:
  assumes "match_literal_prefix xs (lx_offset s) = Some l"
  shows "lx_offset s < lx_offset (consume_literal xs l s) \<and> lx_offset (consume_literal xs l s) \<le> length xs"
proof -
  note l = match_literal_prefix_bounds [OF assms]
  let ?start = "lx_offset s + prefix_length l"
  let ?open = "skip_while (\<lambda>c. c \<noteq> CHR ''('') xs ?start"
  let ?m = "if ?open < length xs then Suc ?open else ?open"
  let ?t = "'')'' @ substr xs ?start (?open - ?start) @ [quote]"
  have "?start \<le> ?open" "?open \<le> length xs" using l by (auto intro: skip_while_ge skip_while_le)
  then have m: "lx_offset s < ?m" "?m \<le> length xs" using l by auto
  show ?thesis
  proof (cases "prefix_raw l")
    case True
    then have "consume_literal xs l s = raw_literal xs ?t (move_to ?m s)" by (simp add: consume_literal_def Let_def)
    then show ?thesis using raw_literal_bounds [of ?t "move_to ?m s" xs] m by simp
  next
    case False
    then show ?thesis
      using l literal_end_bounds [of ?start xs "if prefix_character l then apostrophe else quote"]
      by (auto simp: consume_literal_def)
  qed
qed

lemma push_token_offset [simp]: "lx_offset (push_token kind xs start col s) = lx_offset s"
  by (simp add: push_token_def)

lemma lex_token_bounds:
  assumes "lx_offset s < length xs"
  shows "lx_offset s < lx_offset (lex_token xs s) \<and> lx_offset (lex_token xs s) \<le> length xs"
proof -
  have id: "lx_offset s < skip_while is_identifier_continue xs (lx_offset s)" if "is_identifier_start (xs ! lx_offset s)"
  proof -
    have "is_identifier_continue (xs ! lx_offset s)"
      using that by (auto simp: is_identifier_start_def is_identifier_continue_def)
    then show ?thesis
      using assms skip_while_loop [of is_identifier_continue xs "lx_offset s"]
        skip_while_ge [of "Suc (lx_offset s)" is_identifier_continue xs] by simp
  qed
  show ?thesis
    using assms id skip_while_le [of "lx_offset s" xs is_identifier_continue] number_end_bounds [of "lx_offset s" xs]
      number_end_progress [of "lx_offset s" xs] punctuator_end_bounds [OF assms] consume_literal_bounds [of xs s]
    by (auto simp: lex_token_def Let_def split: option.split)
qed

lemma consume_comment_bounds:
  assumes "consume_comment xs s = Some s'"
  shows "lx_offset s < lx_offset s' \<and> lx_offset s' \<le> length xs"
proof -
  have c: "lx_offset s + 1 < length xs" "xs ! lx_offset s = CHR ''/''"
    using assms by (auto simp: consume_comment_def Let_def split: if_splits)
  then have "Suc (lx_offset s) \<le> skip_while (\<lambda>c. c \<noteq> newline) xs (lx_offset s)"
    using skip_while_loop [of "\<lambda>c. c \<noteq> newline" xs "lx_offset s"] skip_while_ge [of "Suc (lx_offset s)" "\<lambda>c. c \<noteq> newline" xs]
    by simp
  then show ?thesis
    using assms c skip_while_le [of "lx_offset s" xs "\<lambda>c. c \<noteq> newline"] block_comment_bounds [of "move_to (lx_offset s + 2) s" xs]
    by (auto simp: consume_comment_def Let_def push_comment_def split: if_splits)
qed

lemma enter_file_offset [simp]: "lx_offset (enter_file file entering sys s) = lx_offset s"
  by (auto simp: enter_file_def intern_def Let_def split: option.split)

lemma stated_file_length: "snd (stated_file cs) \<le> length cs"
  by (induction cs rule: stated_file.induct) (auto split: prod.splits)

lemma marker_file_bounds:
  "cursor \<le> length xs \<Longrightarrow> cursor \<le> snd (marker_file xs cursor) \<and> snd (marker_file xs cursor) \<le> length xs"
  using stated_file_length [of "drop (Suc cursor) xs"] by (auto simp: marker_file_def Let_def split: prod.split)

lemma after_hash_bounds:
  assumes "hash < length xs"
  shows "hash < after_hash xs hash \<and> after_hash xs hash \<le> length xs"
proof -
  let ?c = "skip_while is_horizontal_space xs (Suc hash)"
  have c: "Suc hash \<le> ?c" "?c \<le> length xs" using assms by (auto intro: skip_while_ge skip_while_le)
  have "?c + 4 \<le> length xs" if "matches xs ?c ''line''" using matches_length [OF that] by simp
  then show ?thesis
    using c skip_while_ge [of "?c + 4" is_horizontal_space xs] skip_while_le [of "?c + 4" xs is_horizontal_space]
    by (auto simp: after_hash_def Let_def)
qed

text \<open>Where the \<open>#\<close> of a directive line stands, and where its line ends.\<close>

definition hash_at :: "string \<Rightarrow> nat \<Rightarrow> nat" where
  "hash_at xs i = skip_while is_horizontal_space xs i"

definition directive_end :: "string \<Rightarrow> nat \<Rightarrow> nat" where
  "directive_end xs i =
     skip_while (\<lambda>c. c \<noteq> newline) xs (snd (marker_file xs
       (skip_while is_horizontal_space xs (skip_while is_digit xs (after_hash xs (hash_at xs i))))))"

lemma directive_end_bounds:
  assumes "hash_at xs i < length xs"
  shows "hash_at xs i < directive_end xs i \<and> directive_end xs i \<le> length xs"
proof -
  note h = after_hash_bounds [OF assms]
  let ?d = "skip_while is_digit xs (after_hash xs (hash_at xs i))"
  let ?c = "skip_while is_horizontal_space xs ?d"
  have "after_hash xs (hash_at xs i) \<le> ?d" "?d \<le> length xs" using h by (auto intro: skip_while_ge skip_while_le)
  then have c: "hash_at xs i < ?c" "?c \<le> length xs"
    using h skip_while_ge [of ?d is_horizontal_space xs] by (auto intro: skip_while_le)
  then show ?thesis
    using marker_file_bounds [OF c(2)] skip_while_ge [of "snd (marker_file xs ?c)" "\<lambda>c. c \<noteq> newline" xs]
      skip_while_le [of "snd (marker_file xs ?c)" xs "\<lambda>c. c \<noteq> newline"]
    by (simp add: directive_end_def)
qed

lemma consume_line_marker_Some:
  assumes "consume_line_marker xs s = Some s'"
  shows "hash_at xs (lx_offset s) < length xs" and "xs ! hash_at xs (lx_offset s) = CHR ''#''"
    and "lx_offset s' = (if directive_end xs (lx_offset s) < length xs then Suc (directive_end xs (lx_offset s))
                         else directive_end xs (lx_offset s))"
  using assms by (auto simp: consume_line_marker_def directive_end_def hash_at_def Let_def split: if_splits prod.splits option.splits)

lemma consume_line_marker_bounds:
  assumes "consume_line_marker xs s = Some s'"
  shows "lx_offset s < lx_offset s' \<and> lx_offset s' \<le> length xs"
  using directive_end_bounds [OF consume_line_marker_Some(1) [OF assms]] consume_line_marker_Some(3) [OF assms]
    skip_while_ge [of "lx_offset s" is_horizontal_space xs]
  by (auto simp: hash_at_def)

lemma lex_step_bounds:
  assumes "lx_offset s < length xs"
  shows "lx_offset s < lx_offset (lex_step xs s) \<and> lx_offset (lex_step xs s) \<le> length xs"
  using assms consume_line_marker_bounds [of xs s] consume_comment_bounds [of xs s]
    lex_token_bounds [of "s\<lparr>lx_at_start := False\<rparr>" xs]
  by (auto simp: lex_step_def Let_def split: option.split)

function run_lexer :: "string \<Rightarrow> lexer \<Rightarrow> lexer" where
  "run_lexer xs s = (if lx_offset s < length xs then run_lexer xs (lex_step xs s) else s)"
  by pat_completeness auto
termination
  by (relation "measure (\<lambda>(xs, s). length xs - lx_offset s)") (auto dest: lex_step_bounds)

declare run_lexer.simps [simp del]

definition end_token :: "lexer \<Rightarrow> token" where
  "end_token s =
     \<lparr>tok_kind = EndOfFile, tok_span = \<lparr>span_offset = lx_offset s, span_length = 0\<rparr>, tok_text = [],
      tok_file = lx_file s, tok_line = lx_line s, tok_column = lx_column s\<rparr>"

definition lex :: "string \<Rightarrow> string \<Rightarrow> token_stream" where
  "lex xs file =
     (let s = run_lexer xs (initial_lexer file)
      in \<lparr>stream_text = xs, stream_tokens = lx_tokens s @ [end_token s], stream_files = lx_files s,
          stream_system = lx_system s, stream_sites = lx_sites s, stream_comments = lx_comments s,
          stream_directives = lx_directives s\<rparr>)"

section \<open>Questions to a stream\<close>

definition is_system :: "token_stream \<Rightarrow> nat \<Rightarrow> bool" where
  "is_system st file \<longleftrightarrow> file < length (stream_system st) \<and> stream_system st ! file"

definition location_of :: "token_stream \<Rightarrow> token \<Rightarrow> source_location" where
  "location_of st t =
     \<lparr>loc_file = (if unat (tok_file t) < length (stream_files st) then stream_files st ! unat (tok_file t) else []),
      loc_line = tok_line t, loc_column = tok_column t\<rparr>"

fun included_among ::
  "string list \<Rightarrow> string \<Rightarrow> (string \<times> include_site option) list \<Rightarrow> source_location option" where
  "included_among files file [] = None"
| "included_among files file ((name, site) # entries) =
     (case (if name \<noteq> file then None else site) of
        None \<Rightarrow> included_among files file entries
      | Some site \<Rightarrow>
          Some \<lparr>loc_file = files ! unat (site_file site), loc_line = site_line site, loc_column = 1\<rparr>)"

definition included_at :: "token_stream \<Rightarrow> string \<Rightarrow> source_location option" where
  "included_at st file = included_among (stream_files st) file (zip (stream_files st) (stream_sites st))"

section \<open>Written columns\<close>

text \<open>The tokens of a written file, by line: \<open>std::map\<close> as the entries in the order of the lines.\<close>

type_synonym written_token = "string \<times> u32"
type_synonym written_lines = "(u32, written_token list) omap"

fun lines_of_tokens :: "token list \<Rightarrow> written_lines \<Rightarrow> written_lines" where
  "lines_of_tokens [] ls = ls"
| "lines_of_tokens (t # ts) ls =
     (if tok_kind t \<noteq> EndOfFile \<and> tok_file t = 0
      then let written = (case omap_find (<) (tok_line t) ls of Some w \<Rightarrow> w | None \<Rightarrow> [])
           in lines_of_tokens ts (omap_put (<) (tok_line t) (written @ [(tok_text t, tok_column t)]) ls)
      else lines_of_tokens ts ls)"

definition written_lines_of :: "string \<Rightarrow> string \<Rightarrow> written_lines" where
  "written_lines_of xs file = lines_of_tokens (stream_tokens (lex xs file)) []"

text \<open>
  The words of a line, from the front as far as they agree, and then from the back; the two runs
  never meet.
\<close>

fun adopt_front :: "token list \<Rightarrow> written_token list \<Rightarrow> token list \<times> token list \<times> written_token list" where
  "adopt_front (t # ts) ((w, c) # ws) =
     (if tok_text t = w
      then let (adopted, rest) = adopt_front ts ws in (t\<lparr>tok_column := c\<rparr> # adopted, rest)
      else ([], t # ts, (w, c) # ws))"
| "adopt_front ts ws = ([], ts, ws)"

definition adopt_written_columns :: "token list \<Rightarrow> written_token list \<Rightarrow> token list" where
  "adopt_written_columns ts ws =
     (let (front, ts, ws) = adopt_front ts ws;
          (back, ts, ws) = adopt_front (rev ts) (rev ws)
      in front @ rev (back @ ts))"

text \<open>
  The tokens of one line of one file, and the tokens after them. The code reads and lexes each
  file once and keeps what it found; the written text of a file is a function of its name.
\<close>

definition same_line :: "token \<Rightarrow> token \<Rightarrow> bool" where
  "same_line t u \<longleftrightarrow> tok_kind u \<noteq> EndOfFile \<and> tok_file u = tok_file t \<and> tok_line u = tok_line t"

definition adopt_line :: "(string \<Rightarrow> string option) \<Rightarrow> token_stream \<Rightarrow> token \<Rightarrow> token list \<Rightarrow> token list" where
  "adopt_line written st t ts =
     (let file = unat (tok_file t)
      in if file < length (stream_files st) \<and> \<not> is_system st file
         then case written (stream_files st ! file) of
                None \<Rightarrow> ts
              | Some xs \<Rightarrow>
                  (case omap_find (<) (tok_line t) (written_lines_of xs (stream_files st ! file)) of
                     None \<Rightarrow> ts
                   | Some ws \<Rightarrow> adopt_written_columns ts ws)
         else ts)"

function adopt_lines :: "(string \<Rightarrow> string option) \<Rightarrow> token_stream \<Rightarrow> token list \<Rightarrow> token list" where
  "adopt_lines written st [] = []"
| "adopt_lines written st (t # ts) =
     (if tok_kind t = EndOfFile then t # adopt_lines written st ts
      else adopt_line written st t (t # takeWhile (same_line t) ts) @
           adopt_lines written st (dropWhile (same_line t) ts))"
  by pat_completeness auto
termination
  by (relation "measure (\<lambda>(written, st, ts). length ts)") (auto simp: le_imp_less_Suc length_dropWhile_le)

definition use_written_columns :: "(string \<Rightarrow> string option) \<Rightarrow> token_stream \<Rightarrow> token_stream" where
  "use_written_columns written st =
     st\<lparr>stream_tokens := adopt_lines written st (stream_tokens st)\<rparr>"

end
