(* ===== verification/Lexer_Facts.thy ===== *)
theory Lexer_Facts
  imports Lexer
begin

text \<open>
  What the lexer does to its text: tokens, comments and directive lines tile it, with nothing but
  white space between them; every token has the position the line markers presume; adopting
  written columns changes nothing else.
\<close>

section \<open>Tiles\<close>

definition is_blank :: "char \<Rightarrow> bool" where
  "is_blank c \<longleftrightarrow> c = newline \<or> is_horizontal_space c"

definition covers :: "byte_span list \<Rightarrow> nat \<Rightarrow> nat" where
  "covers ps i = length (filter (\<lambda>p. holds_byte p i) ps)"

definition apart :: "byte_span list \<Rightarrow> bool" where
  "apart ps \<longleftrightarrow> sorted_wrt (\<lambda>p q. span_end p \<le> span_offset q) ps"

definition pieces :: "lexer \<Rightarrow> byte_span list" where
  "pieces s = map tok_span (lx_tokens s) @ lx_comments s @ map dir_span (lx_directives s)"

definition tiled :: "string \<Rightarrow> lexer \<Rightarrow> bool" where
  "tiled xs s \<longleftrightarrow>
     lx_offset s \<le> length xs \<and>
     (\<forall>p \<in> set (pieces s). 0 < span_length p \<and> span_end p \<le> lx_offset s) \<and>
     (\<forall>i < lx_offset s. covers (pieces s) i = 1 \<or> covers (pieces s) i = 0 \<and> is_blank (xs ! i)) \<and>
     apart (map tok_span (lx_tokens s)) \<and> apart (lx_comments s) \<and> apart (map dir_span (lx_directives s)) \<and>
     (\<forall>t \<in> set (lx_tokens s). tok_text t = spelling xs (tok_span t) \<and> tok_kind t \<noteq> EndOfFile)"

lemma apart_snoc: "apart (ps @ [p]) \<longleftrightarrow> apart ps \<and> (\<forall>q \<in> set ps. span_end q \<le> span_offset p)"
  by (auto simp: apart_def sorted_wrt_append)

lemma covers_append [simp]: "covers (ps @ qs) i = covers ps i + covers qs i"
  by (simp add: covers_def)

lemma covers_Cons [simp]: "covers (p # ps) i = (if holds_byte p i then 1 else 0) + covers ps i"
  by (simp add: covers_def)

lemma covers_Nil [simp]: "covers [] i = 0"
  by (simp add: covers_def)

lemma covers_beyond: "\<forall>p \<in> set ps. span_end p \<le> k \<Longrightarrow> k \<le> i \<Longrightarrow> covers ps i = 0"
  by (induction ps) (auto simp: holds_byte_def)

text \<open>A step over white space, and a step that adds one piece at the offset.\<close>

lemma tiled_gap:
  assumes "tiled xs s" and "pieces s' = pieces s" and "lx_tokens s' = lx_tokens s" and "lx_comments s' = lx_comments s"
    and "lx_directives s' = lx_directives s" and "lx_offset s \<le> lx_offset s'" and "lx_offset s' \<le> length xs"
    and "\<forall>i. lx_offset s \<le> i \<longrightarrow> i < lx_offset s' \<longrightarrow> is_blank (xs ! i)"
  shows "tiled xs s'"
proof -
  have "covers (pieces s) i = 1 \<or> covers (pieces s) i = 0 \<and> is_blank (xs ! i)" if "i < lx_offset s'" for i
    using assms that covers_beyond [of "pieces s" "lx_offset s" i] by (cases "i < lx_offset s") (auto simp: tiled_def)
  then show ?thesis using assms by (auto simp: tiled_def)
qed

lemma covers_piece:
  assumes old: "tiled xs s" and i: "i < lx_offset s'"
    and new: "covers (pieces s') i = covers (pieces s) i + (if lx_offset s \<le> i \<and> i < b then 1 else 0)"
    and gap: "\<forall>i. b \<le> i \<longrightarrow> i < lx_offset s' \<longrightarrow> is_blank (xs ! i)"
  shows "covers (pieces s') i = 1 \<or> covers (pieces s') i = 0 \<and> is_blank (xs ! i)"
  using assms covers_beyond [of "pieces s" "lx_offset s" i] by (cases "i < lx_offset s") (auto simp: tiled_def)

lemma tiled_pieces: "tiled xs s \<Longrightarrow> \<forall>p \<in> set (pieces s). span_end p \<le> lx_offset s"
  by (simp add: tiled_def)

lemma tiled_piece:
  assumes old: "tiled xs s" and b: "lx_offset s < b" "b \<le> lx_offset s'" "lx_offset s' \<le> length xs"
    and gap: "\<forall>i. b \<le> i \<longrightarrow> i < lx_offset s' \<longrightarrow> is_blank (xs ! i)"
    and added: "(lx_tokens s', lx_comments s', lx_directives s') =
        (lx_tokens s @ ts, lx_comments s @ cs, lx_directives s @ ds)"
      "map tok_span ts @ cs @ map dir_span ds = [span_from (lx_offset s) b]"
      "\<forall>t \<in> set ts. tok_text t = spelling xs (tok_span t) \<and> tok_kind t \<noteq> EndOfFile"
  shows "tiled xs s'"
proof -
  have "covers (map tok_span ts @ cs @ map dir_span ds) i = (if lx_offset s \<le> i \<and> i < b then 1 else 0)" for i
    unfolding added(2) by simp
  then have c: "covers (pieces s') i = covers (pieces s) i + (if lx_offset s \<le> i \<and> i < b then 1 else 0)" for i
    using added(1) by (simp add: pieces_def)
  have new: "set (pieces s') = insert (span_from (lx_offset s) b) (set (pieces s))"
    using added(1) arg_cong [OF added(2), of set] by (auto simp: pieces_def)
  have "covers (pieces s') i = 1 \<or> covers (pieces s') i = 0 \<and> is_blank (xs ! i)" if "i < lx_offset s'" for i
    using covers_piece [OF old that c gap] .
  moreover have "apart (map tok_span (lx_tokens s'))" "apart (lx_comments s')" "apart (map dir_span (lx_directives s'))"
    using old added(1,2) tiled_pieces [OF old]
    by (auto simp: tiled_def pieces_def append_eq_Cons_conv apart_snoc map_eq_Cons_conv)
  ultimately show ?thesis using old b added(1,3) new unfolding tiled_def by (auto simp: Ball_def)
qed

lemma block_comment_pieces:
  "lx_tokens (block_comment xs s) = lx_tokens s \<and> lx_comments (block_comment xs s) = lx_comments s \<and>
     lx_directives (block_comment xs s) = lx_directives s"
proof (induction xs s rule: block_comment.induct)
  case (1 xs s)
  then show ?case by (subst (1 2 3) block_comment.simps) (simp add: advance_line_def move_to_def)
qed

lemma raw_literal_pieces:
  "lx_tokens (raw_literal xs t s) = lx_tokens s \<and> lx_comments (raw_literal xs t s) = lx_comments s \<and>
     lx_directives (raw_literal xs t s) = lx_directives s"
proof (induction xs t s rule: raw_literal.induct)
  case (1 xs t s)
  then show ?case by (subst (1 2 3) raw_literal.simps) (simp add: advance_line_def move_to_def)
qed

lemma consume_literal_pieces:
  "lx_tokens (consume_literal xs l s) = lx_tokens s \<and> lx_comments (consume_literal xs l s) = lx_comments s \<and>
     lx_directives (consume_literal xs l s) = lx_directives s"
  by (simp add: consume_literal_def Let_def raw_literal_pieces move_to_def)

lemma tiled_comment:
  assumes "tiled xs s" and "consume_comment xs s = Some s'"
  shows "tiled xs s'"
proof -
  note b = consume_comment_bounds [OF assms(2)]
  have "(lx_tokens s', lx_comments s', lx_directives s') =
      (lx_tokens s @ [], lx_comments s @ [span_from (lx_offset s) (lx_offset s')], lx_directives s @ [])"
    using assms(2) by (auto simp: consume_comment_def Let_def push_comment_def block_comment_pieces move_to_def split: if_splits)
  from tiled_piece [OF assms(1) _ _ _ _ this, of "lx_offset s'"] b show ?thesis by simp
qed

text \<open>What \<open>lex_token\<close> adds: one token, from the offset to where it stops.\<close>

lemma lex_token_added:
  obtains kind after where "lex_token xs s = push_token kind xs (lx_offset s) (lx_column s) after"
    and "kind \<noteq> EndOfFile"
    and "lx_tokens after = lx_tokens s" and "lx_comments after = lx_comments s"
    and "lx_directives after = lx_directives s"
proof (cases "match_literal_prefix xs (lx_offset s)")
  case (Some l)
  then show ?thesis
    using that [of "if prefix_character l then CharLiteral else StringLiteral" "consume_literal xs l s"]
      consume_literal_pieces [of xs l s] by (simp add: lex_token_def Let_def split: if_splits)
next
  case None
  then have "lex_token xs s = push_token Identifier xs (lx_offset s) (lx_column s)
        (move_to (skip_while is_identifier_continue xs (lx_offset s)) s) \<or>
      lex_token xs s = push_token Number xs (lx_offset s) (lx_column s) (move_to (number_end xs (lx_offset s)) s) \<or>
      lex_token xs s = push_token Punctuator xs (lx_offset s) (lx_column s)
        (move_to (punctuator_end xs (lx_offset s)) s)"
    by (simp add: lex_token_def Let_def)
  then show ?thesis
  proof (elim disjE, goal_cases)
    case 1
    then show ?thesis by (rule that) (simp_all add: move_to_def)
  next
    case 2
    then show ?thesis by (rule that) (simp_all add: move_to_def)
  next
    case 3
    then show ?thesis by (rule that) (simp_all add: move_to_def)
  qed
qed

lemma tiled_token:
  assumes "tiled xs s" and "lx_offset s < length xs"
  shows "tiled xs (lex_token xs s)"
proof -
  obtain kind after where t: "lex_token xs s = push_token kind xs (lx_offset s) (lx_column s) after"
    and after: "kind \<noteq> EndOfFile" "lx_tokens after = lx_tokens s" "lx_comments after = lx_comments s"
      "lx_directives after = lx_directives s"
    using lex_token_added by blast
  note b = lex_token_bounds [OF assms(2)]
  let ?t = "\<lparr>tok_kind = kind, tok_span = span_from (lx_offset s) (lx_offset after),
    tok_text = substr xs (lx_offset s) (lx_offset after - lx_offset s), tok_file = lx_file after,
    tok_line = lx_line after, tok_column = lx_column s\<rparr>"
  have added: "(lx_tokens (lex_token xs s), lx_comments (lex_token xs s), lx_directives (lex_token xs s)) =
      (lx_tokens s @ [?t], lx_comments s @ [], lx_directives s @ [])"
    by (simp add: t after push_token_def)
  show ?thesis
    using b after(1) t
    by (intro tiled_piece [OF assms(1) _ _ _ _ added, of "lx_offset after"]) (simp_all add: spelling_def)
qed

lemma enter_file_pieces [simp]:
  "lx_tokens (enter_file file entering sys s) = lx_tokens s"
  "lx_comments (enter_file file entering sys s) = lx_comments s"
  "lx_directives (enter_file file entering sys s) = lx_directives s"
  by (auto simp: enter_file_def intern_def Let_def split: option.split)

lemma consume_line_marker_pieces:
  assumes "consume_line_marker xs s = Some s'"
  shows "lx_tokens s' = lx_tokens s" and "lx_comments s' = lx_comments s"
    and "\<exists>marker. lx_directives s' = lx_directives s @
        [\<lparr>dir_span = span_from (lx_offset s) (directive_end xs (lx_offset s)), line_marker = marker\<rparr>]"
  using assms
  by (auto simp: consume_line_marker_def directive_end_def hash_at_def Let_def split: if_splits prod.splits option.splits)

lemma directive_end_newline:
  "directive_end xs i < length xs \<Longrightarrow> xs ! directive_end xs i = newline"
  using skip_while_stops [of "\<lambda>c. c \<noteq> newline" xs] unfolding directive_end_def by simp

lemma tiled_marker:
  assumes "tiled xs s" and "consume_line_marker xs s = Some s'"
  shows "tiled xs s'"
proof -
  note m = consume_line_marker_Some [OF assms(2)]
  note p = consume_line_marker_pieces [OF assms(2)]
  have "lx_offset s \<le> hash_at xs (lx_offset s)" by (simp add: hash_at_def skip_while_ge)
  then have b: "lx_offset s < directive_end xs (lx_offset s)" "directive_end xs (lx_offset s) \<le> length xs"
    using directive_end_bounds [OF m(1)] by simp_all
  obtain marker where "lx_directives s' = lx_directives s @
      [\<lparr>dir_span = span_from (lx_offset s) (directive_end xs (lx_offset s)), line_marker = marker\<rparr>]"
    using p(3) by blast
  then have added: "(lx_tokens s', lx_comments s', lx_directives s') = (lx_tokens s @ [], lx_comments s @ [],
      lx_directives s @ [\<lparr>dir_span = span_from (lx_offset s) (directive_end xs (lx_offset s)), line_marker = marker\<rparr>])"
    using p(1,2) by simp
  have "is_blank (xs ! i)" if "directive_end xs (lx_offset s) \<le> i" "i < lx_offset s'" for i
    using that m(3) directive_end_newline [of xs "lx_offset s"] by (auto simp: is_blank_def less_Suc_eq split: if_splits)
  then show ?thesis
    using b m(3) by (intro tiled_piece [OF assms(1) b(1) _ _ _ added]) auto
qed

lemma tiled_step:
  assumes "tiled xs s" and "lx_offset s < length xs"
  shows "tiled xs (lex_step xs s)"
proof (cases "if lx_at_start s then consume_line_marker xs s else None")
  case (Some s')
  then show ?thesis using tiled_marker [OF assms(1)] by (auto simp: lex_step_def split: if_splits)
next
  case None
  have gap: "tiled xs s'" if "lx_tokens s' = lx_tokens s" "lx_comments s' = lx_comments s"
    "lx_directives s' = lx_directives s" "lx_offset s' = Suc (lx_offset s)" "is_blank (xs ! lx_offset s)" for s'
    using that assms by (intro tiled_gap [OF assms(1)]) (auto simp: pieces_def less_Suc_eq)
  have started: "tiled xs (s\<lparr>lx_at_start := False\<rparr>)" using assms(1) by (simp add: tiled_def pieces_def)
  show ?thesis
    using None tiled_comment [OF assms(1)] tiled_token [OF started] assms(2)
    by (auto simp: lex_step_def Let_def advance_line_def move_to_def is_blank_def intro!: gap split: option.split)
qed

lemma tiled_run: "tiled xs s \<Longrightarrow> tiled xs (run_lexer xs s) \<and> lx_offset (run_lexer xs s) = length xs"
proof (induction xs s rule: run_lexer.induct)
  case (1 xs s)
  show ?case
  proof (cases "lx_offset s < length xs")
    case True
    then show ?thesis using 1 tiled_step by (subst (1 2) run_lexer.simps) simp
  next
    case False
    then have "run_lexer xs s = s" by (simp add: run_lexer.simps)
    moreover have "lx_offset s = length xs" using 1(2) False by (simp add: tiled_def)
    ultimately show ?thesis using 1(2) by simp
  qed
qed

lemma tiled_initial: "tiled xs (initial_lexer file)"
  by (simp add: tiled_def initial_lexer_def pieces_def apart_def)

definition stream_pieces :: "token_stream \<Rightarrow> byte_span list" where
  "stream_pieces st = map tok_span (stream_tokens st) @ stream_comments st @ map dir_span (stream_directives st)"

lemma lex_tiles:
  assumes st_def: "st = lex xs file"
  shows "i < length xs \<Longrightarrow> covers (stream_pieces st) i = 1 \<or> covers (stream_pieces st) i = 0 \<and> is_blank (xs ! i)"
    and "p \<in> set (stream_pieces st) \<Longrightarrow> span_end p \<le> length xs"
    and "apart (map tok_span (stream_tokens st))" and "apart (stream_comments st)"
    and "apart (map dir_span (stream_directives st))"
    and "t \<in> set (stream_tokens st) \<Longrightarrow> tok_text t = spelling xs (tok_span t)"
    and "t \<in> set (butlast (stream_tokens st)) \<Longrightarrow> tok_kind t \<noteq> EndOfFile \<and> 0 < span_length (tok_span t)"
    and "tok_kind (last (stream_tokens st)) = EndOfFile"
    and "d \<in> set (stream_directives st) \<Longrightarrow> 0 < span_length (dir_span d)"
proof -
  let ?s = "run_lexer xs (initial_lexer file)"
  have t: "tiled xs ?s" and e: "lx_offset ?s = length xs" using tiled_run [OF tiled_initial] by blast+
  have c: "covers (stream_pieces st) i = covers (pieces ?s) i" for i
    by (simp add: st_def lex_def stream_pieces_def pieces_def Let_def end_token_def holds_byte_def)
  show "covers (stream_pieces st) i = 1 \<or> covers (stream_pieces st) i = 0 \<and> is_blank (xs ! i)" if "i < length xs"
    using t e that unfolding c by (simp add: tiled_def)
  show "span_end p \<le> length xs" if "p \<in> set (stream_pieces st)"
    using that t e
    by (auto simp: st_def lex_def stream_pieces_def tiled_def pieces_def Let_def end_token_def)
  show "apart (map tok_span (stream_tokens st))" "apart (stream_comments st)" "apart (map dir_span (stream_directives st))"
    using t e by (auto simp: st_def lex_def tiled_def pieces_def Let_def end_token_def apart_snoc)
  show "tok_text t = spelling xs (tok_span t)" if "t \<in> set (stream_tokens st)"
    using that t by (auto simp: st_def lex_def tiled_def Let_def end_token_def spelling_def substr_def)
  show "tok_kind t \<noteq> EndOfFile \<and> 0 < span_length (tok_span t)" if "t \<in> set (butlast (stream_tokens st))"
    using that t by (auto simp: st_def lex_def tiled_def Let_def pieces_def)
  show "tok_kind (last (stream_tokens st)) = EndOfFile"
    by (simp add: st_def lex_def Let_def end_token_def)
  show "0 < span_length (dir_span d)" if "d \<in> set (stream_directives st)"
    using that t by (auto simp: st_def lex_def tiled_def Let_def pieces_def)
qed

end
