(* ===== verification/Lexer_Positions.thy ===== *)
theory Lexer_Positions
  imports Lexer_Facts
begin

text \<open>
  The positions tokens have: the line and the file the last line marker before them presumes,
  counted on from the line of the marker, and the column of their first byte. The line is that
  of the token's last byte, which is another one for a raw literal of several lines.
\<close>

section \<open>What the directive lines say\<close>

text \<open>The line a marker states, where the lines after it are counted from, and the file.\<close>

type_synonym presumption = "u32 \<times> nat \<times> string"

definition marker_line :: "string \<Rightarrow> directive \<Rightarrow> u32" where
  "marker_line xs d = number32 (digits_at xs (after_hash xs (hash_at xs (span_offset (dir_span d)))))"

definition marker_name :: "string \<Rightarrow> directive \<Rightarrow> string option" where
  "marker_name xs d =
     fst (marker_file xs (skip_while is_horizontal_space xs
       (skip_while is_digit xs (after_hash xs (hash_at xs (span_offset (dir_span d)))))))"

fun adopt_directive :: "string \<Rightarrow> presumption \<Rightarrow> directive \<Rightarrow> presumption" where
  "adopt_directive xs (base, origin, name) d =
     (if line_marker d
      then (marker_line xs d, Suc (span_end (dir_span d)),
            case marker_name xs d of None \<Rightarrow> name | Some f \<Rightarrow> f)
      else (base, origin, name))"

definition presumption :: "string \<Rightarrow> string \<Rightarrow> directive list \<Rightarrow> presumption" where
  "presumption xs file ds = foldl (adopt_directive xs) (1, 0, file) ds"

definition line_at :: "string \<Rightarrow> presumption \<Rightarrow> nat \<Rightarrow> u32" where
  "line_at xs p i = fst p + word_of_nat (newlines_between xs (fst (snd p)) i)"

definition in_effect :: "token \<Rightarrow> directive list \<Rightarrow> directive list" where
  "in_effect t ds = filter (\<lambda>d. span_end (dir_span d) \<le> span_offset (tok_span t)) ds"

definition presumed :: "string \<Rightarrow> string \<Rightarrow> directive list \<Rightarrow> string list \<Rightarrow> token \<Rightarrow> bool" where
  "presumed xs file ds files t \<longleftrightarrow>
     (let p = presumption xs file (in_effect t ds)
      in tok_line t = line_at xs p (span_end (tok_span t)) \<and>
         tok_column t = word_of_nat (column_of xs (span_offset (tok_span t)) + 1) \<and>
         unat (tok_file t) < length files \<and> files ! unat (tok_file t) = snd (snd p))"

text \<open>
  The lexer counts newlines where C++ has them: not inside a literal that is not raw, in the
  delimiter of a raw one, or inside a directive line.
\<close>

definition counted_token :: "string \<Rightarrow> token \<Rightarrow> bool" where
  "counted_token xs t \<longleftrightarrow>
     (case match_literal_prefix xs (span_offset (tok_span t)) of
        None \<Rightarrow> True
      | Some l \<Rightarrow>
          newline \<notin> set (if prefix_raw l
            then takeWhile (\<lambda>c. c \<noteq> CHR ''('') (drop (span_offset (tok_span t) + prefix_length l) xs)
            else tok_text t))"

definition counted_text :: "string \<Rightarrow> token list \<Rightarrow> directive list \<Rightarrow> bool" where
  "counted_text xs ts ds \<longleftrightarrow>
     (\<forall>t \<in> set ts. counted_token xs t) \<and> (\<forall>d \<in> set ds. newline \<notin> set (spelling xs (dir_span d)))"

section \<open>The invariant\<close>

text \<open>The line and its start fit the offset, given what is presumed.\<close>

definition on_line :: "string \<Rightarrow> presumption \<Rightarrow> lexer \<Rightarrow> bool" where
  "on_line xs p s \<longleftrightarrow>
     fst (snd p) \<le> lx_offset s \<and> lx_line s = line_at xs p (lx_offset s) \<and>
     lx_line_start s + column_of xs (lx_offset s) = lx_offset s"

lemma on_line_column: "on_line xs p s \<Longrightarrow> lx_column s = word_of_nat (column_of xs (lx_offset s) + 1)"
  unfolding on_line_def lx_column_def by (metis diff_add_inverse)

lemma on_line_advance:
  "on_line xs p s \<Longrightarrow> lx_offset s < length xs \<Longrightarrow> xs ! lx_offset s = newline \<Longrightarrow> on_line xs p (advance_line s)"
  by (simp add: on_line_def advance_line_def line_at_def newlines_between_Suc column_of_Suc algebra_simps)

lemma on_line_move:
  assumes "on_line xs p s" and "lx_offset s \<le> j" and "j \<le> length xs"
    and "\<forall>k. lx_offset s \<le> k \<longrightarrow> k < j \<longrightarrow> xs ! k \<noteq> newline"
  shows "on_line xs p (move_to j s)"
  using assms no_newline_steps [OF assms(2-4)] by (auto simp: on_line_def move_to_def line_at_def)

lemma on_line_block_comment:
  "on_line xs p s \<Longrightarrow> lx_offset s \<le> length xs \<Longrightarrow> on_line xs p (block_comment xs s)"
proof (induction xs s rule: block_comment.induct)
  case (1 xs s)
  consider "length xs \<le> lx_offset s" | "lx_offset s < length xs" "xs ! lx_offset s = newline"
    | "lx_offset s < length xs" "xs ! lx_offset s \<noteq> newline"
      "xs ! lx_offset s = CHR ''*'' \<and> lx_offset s + 1 < length xs \<and> xs ! (lx_offset s + 1) = CHR ''/''"
    | "lx_offset s < length xs" "xs ! lx_offset s \<noteq> newline"
      "\<not> (xs ! lx_offset s = CHR ''*'' \<and> lx_offset s + 1 < length xs \<and> xs ! (lx_offset s + 1) = CHR ''/'')"
    by linarith
  then show ?case
  proof cases
    case 1
    then show ?thesis using "1.prems" by (simp add: block_comment.simps)
  next
    case 2
    then show ?thesis using "1.IH"(1) "1.prems" on_line_advance by (subst block_comment.simps) simp
  next
    case 3
    then have "on_line xs p (move_to (lx_offset s + 2) s)"
      using "1.prems"(1) by (intro on_line_move) (auto simp: less_Suc_eq numeral_2_eq_2 dest: le_neq_implies_less)
    with 3 show ?thesis by (subst block_comment.simps) simp
  next
    case 4
    then have "on_line xs p (move_to (Suc (lx_offset s)) s)"
      using "1.prems"(1) by (intro on_line_move) (auto simp: less_Suc_eq)
    with 4 show ?thesis using "1.IH"(2) by (subst block_comment.simps) auto
  qed
qed

lemma matches_nth: "matches xs i w \<Longrightarrow> k < length w \<Longrightarrow> i + k < length xs \<Longrightarrow> xs ! (i + k) = w ! k"
  using nth_substr [of k "length w" i xs] by (simp add: matches_def)

lemma on_line_raw_literal:
  "on_line xs p s \<Longrightarrow> lx_offset s \<le> length xs \<Longrightarrow> newline \<notin> set terminator \<Longrightarrow> terminator \<noteq> [] \<Longrightarrow>
     on_line xs p (raw_literal xs terminator s)"
proof (induction xs terminator s rule: raw_literal.induct)
  case (1 xs terminator s)
  consider "length xs \<le> lx_offset s" | "lx_offset s < length xs" "matches xs (lx_offset s) terminator"
    | "lx_offset s < length xs" "\<not> matches xs (lx_offset s) terminator" "xs ! lx_offset s = newline"
    | "lx_offset s < length xs" "\<not> matches xs (lx_offset s) terminator" "xs ! lx_offset s \<noteq> newline"
    by linarith
  then show ?case
  proof cases
    case 1
    then show ?thesis using "1.prems" by (simp add: raw_literal.simps)
  next
    case 2
    note m = matches_length [OF 2(2) "1.prems"(4)]
    have "xs ! k \<noteq> newline" if k: "lx_offset s \<le> k" "k < lx_offset s + length terminator" for k
    proof -
      have "xs ! k = terminator ! (k - lx_offset s)" "k - lx_offset s < length terminator"
        using matches_nth [OF 2(2), of "k - lx_offset s"] k m by auto
      then show ?thesis using "1.prems"(3) nth_mem by metis
    qed
    then have "on_line xs p (move_to (lx_offset s + length terminator) s)"
      using "1.prems"(1) m by (intro on_line_move) auto
    with 2 show ?thesis by (subst raw_literal.simps) simp
  next
    case 3
    then show ?thesis using "1.IH"(1) "1.prems" on_line_advance by (subst raw_literal.simps) simp
  next
    case 4
    then have "on_line xs p (move_to (Suc (lx_offset s)) s)"
      using "1.prems"(1) by (intro on_line_move) (auto simp: less_Suc_eq)
    with 4 show ?thesis using "1.IH"(2) "1.prems" by (subst raw_literal.simps) simp
  qed
qed

section \<open>Tokens\<close>

lemma number_end_no_newline: "i \<le> k \<Longrightarrow> k < number_end xs i \<Longrightarrow> xs ! k \<noteq> newline"
proof (induction xs i rule: number_end.induct)
  case (1 xs i)
  let ?cont = "i < length xs \<and>
    (is_alpha (xs ! i) \<or> is_digit (xs ! i) \<or> xs ! i = CHR ''_'' \<or> xs ! i = CHR ''.'' \<or> xs ! i = apostrophe)"
  let ?signed = "xs ! i \<in> {CHR ''e'', CHR ''E'', CHR ''p'', CHR ''P''} \<and> Suc i < length xs \<and>
    (xs ! Suc i = CHR ''+'' \<or> xs ! Suc i = CHR ''-'')"
  have cont: ?cont using "1.prems" by (subst (asm) number_end.simps) (auto split: if_splits)
  have here: "xs ! i \<noteq> newline" using cont by (auto simp: is_alpha_def is_digit_def)
  show ?case
  proof (cases ?signed)
    case True
    then have "k < number_end xs (i + 2)" using "1.prems"(2) cont by (subst (asm) number_end.simps) (simp split: if_splits)
    then show ?thesis using "1.IH"(1) [OF cont True] here True "1.prems"(1) by (cases "k = i"; cases "k = Suc i") auto
  next
    case False
    then have "k < number_end xs (Suc i)" using "1.prems"(2) cont by (subst (asm) number_end.simps) (simp only: if_True if_False simp_thms)
    then show ?thesis using "1.IH"(2) [OF cont False] here "1.prems"(1) by (cases "k = i") auto
  qed
qed

lemma punctuators_no_newline: "p \<in> set kPunctuators \<Longrightarrow> newline \<notin> set p"
  by (auto simp: kPunctuators_def)

lemma punctuator_end_no_newline:
  assumes "i < length xs" and "xs ! i \<noteq> newline" and "i \<le> k" and "k < punctuator_end xs i"
  shows "xs ! k \<noteq> newline"
proof (cases "find (matches xs i) kPunctuators")
  case None
  then show ?thesis using assms by (auto simp: punctuator_end_def less_Suc_eq)
next
  case (Some p)
  then have p: "p \<in> set kPunctuators" and m: "matches xs i p" by (auto simp: find_Some_iff)
  have k: "k - i < length p" "k < length xs" using Some assms punctuator_end_bounds [OF assms(1)] by (auto simp: punctuator_end_def)
  then have "xs ! k = p ! (k - i)" using matches_nth [OF m k(1)] assms(3) by simp
  then show ?thesis using punctuators_no_newline [OF p] nth_mem [OF k(1)] by metis
qed

lemma identifier_no_newline:
  assumes "i \<le> k" and "k < skip_while is_identifier_continue xs i"
  shows "xs ! k \<noteq> newline"
  using skip_while_holds [OF assms] by (auto simp: is_identifier_continue_def is_alpha_def is_digit_def)

lemma literal_at_no_newline:
  assumes "literal_at xs i e = Some l" and "newline \<notin> set e" and "i \<le> k" and "k < i + prefix_length l"
  shows "xs ! k \<noteq> newline"
proof -
  have m: "matches xs i e" using assms(1) by (auto simp: literal_at_def split: if_splits)
  have start: "xs ! k \<noteq> newline" if "k < i + length e"
  proof -
    have k: "k - i < length e" "k < length xs"
      using that assms(3,4) literal_at_bounds [OF assms(1)] by auto
    then have "xs ! k = e ! (k - i)" using matches_nth [OF m k(1)] assms(3) by simp
    then show ?thesis using assms(2) nth_mem [OF k(1)] by metis
  qed
  have "xs ! k \<noteq> newline" if "i + length e \<le> k"
    using that assms(1,4) by (auto simp: literal_at_def Let_def less_Suc_eq le_less split: if_splits)
  with start show ?thesis by linarith
qed

lemma match_literal_prefix_no_newline:
  assumes "match_literal_prefix xs i = Some l" and "i \<le> k" and "k < i + prefix_length l"
  shows "xs ! k \<noteq> newline"
proof -
  obtain e where e: "e \<in> set [''u8'', ''u'', ''U'', ''L'', '''']" and l: "literal_at xs i e = Some l"
    using first_literal_Some assms(1) unfolding match_literal_prefix_def by blast
  have "newline \<notin> set e" using e by auto
  with literal_at_no_newline [OF l _ assms(2,3)] show ?thesis by blast
qed

text \<open>A literal keeps the line count where its text is counted.\<close>

lemma on_line_literal:
  assumes s: "on_line xs p s" and l: "match_literal_prefix xs (lx_offset s) = Some l"
    and ok: "newline \<notin> set (if prefix_raw l
        then takeWhile (\<lambda>c. c \<noteq> CHR ''('') (drop (lx_offset s + prefix_length l) xs)
        else substr xs (lx_offset s) (lx_offset (consume_literal xs l s) - lx_offset s))"
  shows "on_line xs p (consume_literal xs l s)"
proof (cases "prefix_raw l")
  case False
  note b = consume_literal_bounds [OF l]
  let ?t = "substr xs (lx_offset s) (lx_offset (consume_literal xs l s) - lx_offset s)"
  have "xs ! k \<noteq> newline" if k: "lx_offset s \<le> k" "k < lx_offset (consume_literal xs l s)" for k
  proof -
    have "k - lx_offset s < length ?t" "xs ! k = ?t ! (k - lx_offset s)"
      using k b nth_substr [of "k - lx_offset s" "lx_offset (consume_literal xs l s) - lx_offset s" "lx_offset s" xs] by auto
    moreover have "newline \<notin> set ?t" using ok False by simp
    ultimately show ?thesis using nth_mem by metis
  qed
  then have "on_line xs p (move_to (lx_offset (consume_literal xs l s)) s)" using b by (intro on_line_move [OF s]) auto
  with False show ?thesis by (simp add: consume_literal_def Let_def)
next
  case True
  let ?start = "lx_offset s + prefix_length l"
  let ?open = "skip_while (\<lambda>c. c \<noteq> CHR ''('') xs ?start"
  let ?m = "if ?open < length xs then Suc ?open else ?open"
  have b: "?start \<le> length xs" "?start \<le> ?open" "?open \<le> length xs"
    using match_literal_prefix_bounds [OF l] by (auto intro: skip_while_ge skip_while_le)
  have delim: "newline \<notin> set (substr xs ?start (?open - ?start))"
    using ok True by (simp add: substr_def skip_while_def flip: takeWhile_eq_take)
  have "xs ! k \<noteq> newline" if k: "lx_offset s \<le> k" "k < ?m" for k
  proof -
    consider "k < ?start" | "?start \<le> k" "k < ?open" | "k = ?open" "?open < length xs"
      using k(2) by (cases "k < ?start"; cases "k < ?open") (auto simp: less_Suc_eq split: if_splits)
    then show ?thesis
    proof cases
      case 1
      then show ?thesis using match_literal_prefix_no_newline [OF l k(1)] by simp
    next
      case 2
      then have "xs ! k = substr xs ?start (?open - ?start) ! (k - ?start)" "k - ?start < length (substr xs ?start (?open - ?start))"
        using nth_substr [of "k - ?start" "?open - ?start" ?start xs] b by auto
      then show ?thesis using delim nth_mem by metis
    next
      case 3
      then show ?thesis using skip_while_stops [of "\<lambda>c. c \<noteq> CHR ''(''" xs ?start] by auto
    qed
  qed
  then have "on_line xs p (move_to ?m s)" using b by (intro on_line_move [OF s]) auto
  then have "on_line xs p (raw_literal xs ('')'' @ substr xs ?start (?open - ?start) @ [quote]) (move_to ?m s))"
    using delim b by (intro on_line_raw_literal) auto
  with True show ?thesis by (simp add: consume_literal_def Let_def)
qed

lemma on_line_start [simp]: "on_line xs p (s\<lparr>lx_at_start := b\<rparr>) \<longleftrightarrow> on_line xs p s"
  by (simp add: on_line_def)

lemma on_line_push [simp]: "on_line xs p (push_token kind xs a c s) \<longleftrightarrow> on_line xs p s"
  by (simp add: on_line_def push_token_def)

lemma on_line_token:
  assumes s: "on_line xs p s" and o: "lx_offset s < length xs" "xs ! lx_offset s \<noteq> newline"
    and t: "lx_tokens (lex_token xs s) = lx_tokens s @ [t]" "counted_token xs t" "span_offset (tok_span t) = lx_offset s"
      "tok_text t = substr xs (lx_offset s) (lx_offset (lex_token xs s) - lx_offset s)"
  shows "on_line xs p (lex_token xs s)"
proof (cases "match_literal_prefix xs (lx_offset s)")
  case (Some l)
  then have e: "lex_token xs s = push_token (if prefix_character l then CharLiteral else StringLiteral) xs (lx_offset s)
      (lx_column s) (consume_literal xs l s)"
    by (simp add: lex_token_def Let_def)
  have "on_line xs p (consume_literal xs l s)"
    using t(2-4) Some unfolding e counted_token_def
    by (intro on_line_literal [OF s Some]) (cases "prefix_raw l"; simp)
  then show ?thesis unfolding e by simp
next
  case None
  have "on_line xs p (move_to (skip_while is_identifier_continue xs (lx_offset s)) s)"
    "on_line xs p (move_to (number_end xs (lx_offset s)) s)"
    "on_line xs p (move_to (punctuator_end xs (lx_offset s)) s)"
    using o skip_while_ge skip_while_le [of "lx_offset s" xs is_identifier_continue] number_end_bounds [of "lx_offset s" xs]
      punctuator_end_bounds [OF o(1)] identifier_no_newline number_end_no_newline punctuator_end_no_newline [OF o]
    by (intro on_line_move [OF s]; simp add: less_imp_le)+
  then show ?thesis using None by (simp add: lex_token_def Let_def)
qed

section \<open>Files\<close>

lemma find_file_Some:
  "find_file f fs k = Some i \<Longrightarrow> k \<le> i \<and> i < k + length fs \<and> fs ! (i - k) = f"
proof (induction fs arbitrary: k)
  case (Cons g fs)
  show ?case
  proof (cases "g = f")
    case True
    then show ?thesis using Cons.prems by auto
  next
    case False
    then have "Suc k \<le> i \<and> i < Suc k + length fs \<and> fs ! (i - Suc k) = f"
      using Cons.IH [of "Suc k"] Cons.prems by simp
    then show ?thesis by (auto simp: nth_Cons' Suc_le_eq)
  qed
qed simp

lemma unat_small: "i < 2 ^ 32 \<Longrightarrow> unat (word_of_nat i :: u32) = i"
  by (simp add: unsigned_of_nat take_bit_nat_eq_self)

lemma intern_file:
  assumes "intern f s = (i, s')" and "length (lx_files s) < 2 ^ 32"
  shows "unat i < length (lx_files s') \<and> lx_files s' ! unat i = f \<and>
     (\<exists>more. lx_files s' = lx_files s @ more \<and> length more \<le> 1)"
proof (cases "find_file f (lx_files s) 0")
  case None
  then show ?thesis using assms unat_small by (auto simp: intern_def)
next
  case (Some k)
  then have "k < length (lx_files s)" "lx_files s ! k = f" using find_file_Some [OF Some] by simp_all
  then show ?thesis using Some assms unat_small [of k] by (auto simp: intern_def)
qed

lemma enter_file_files:
  assumes "length (lx_files s) < 2 ^ 32"
    and s'_def: "s' = enter_file f entering sys s"
  shows "unat (lx_file s') < length (lx_files s') \<and> lx_files s' ! unat (lx_file s') = f \<and>
     (\<exists>more. lx_files s' = lx_files s @ more \<and> length more \<le> 1)"
proof -
  obtain i s1 where "intern f s = (i, s1)" by (cases "intern f s")
  with intern_file [OF this assms(1)] show ?thesis by (auto simp: s'_def enter_file_def Let_def)
qed

text \<open>What a directive line does, in the terms of \<open>adopt_directive\<close>.\<close>

lemma consume_line_marker_effect:
  assumes "consume_line_marker xs s = Some s'" and "length (lx_files s) < 2 ^ 32"
  obtains d where "lx_directives s' = lx_directives s @ [d]"
    and "dir_span d = span_from (lx_offset s) (directive_end xs (lx_offset s))"
    and "lx_line s' = (if line_marker d then marker_line xs d else lx_line s + 1)"
    and "case (if line_marker d then marker_name xs d else None) of
        None \<Rightarrow> lx_files s' = lx_files s \<and> lx_file s' = lx_file s
      | Some f \<Rightarrow> unat (lx_file s') < length (lx_files s') \<and> lx_files s' ! unat (lx_file s') = f \<and>
          (\<exists>more. lx_files s' = lx_files s @ more \<and> length more \<le> 1)"
    and "lx_line_start s' = lx_offset s'"
proof -
  let ?h = "hash_at xs (lx_offset s)"
  let ?digits = "after_hash xs ?h"
  let ?marker = "digits_at xs ?digits \<noteq> []"
  let ?d = "\<lparr>dir_span = span_from (lx_offset s) (directive_end xs (lx_offset s)), line_marker = ?marker\<rparr>"
  let ?m = "marker_file xs (skip_while is_horizontal_space xs (skip_while is_digit xs ?digits))"
  let ?next = "if directive_end xs (lx_offset s) < length xs then Suc (directive_end xs (lx_offset s))
    else directive_end xs (lx_offset s)"
  let ?s = "s\<lparr>lx_directives := lx_directives s @ [?d], lx_offset := ?next, lx_line_start := ?next, lx_at_start := True\<rparr>"
  let ?entering = "fst (stated_flags (drop (snd ?m) xs) False False)"
  let ?sys = "snd (stated_flags (drop (snd ?m) xs) False False)"
  have s': "s' = (if ?marker
      then (case fst ?m of None \<Rightarrow> ?s | Some file \<Rightarrow> enter_file file ?entering ?sys ?s)\<lparr>lx_line := number32 (digits_at xs ?digits)\<rparr>
      else ?s\<lparr>lx_line := lx_line s + 1\<rparr>)"
    using assms(1) unfolding consume_line_marker_def hash_at_def directive_end_def Let_def case_prod_beta
    by (auto split: if_splits)
  have name: "marker_name xs \<lparr>dir_span = span_from (lx_offset s) e, line_marker = b\<rparr> = fst ?m"
    and line: "marker_line xs \<lparr>dir_span = span_from (lx_offset s) e, line_marker = b\<rparr> = number32 (digits_at xs ?digits)"
    for e b
    by (simp_all add: marker_name_def marker_line_def)
  have f: "length (lx_files ?s) < 2 ^ 32" using assms(2) by simp
  have kept: "lx_line_start (enter_file g ?entering ?sys ?s) = ?next" for g
    by (auto simp: enter_file_def intern_def Let_def split: option.split)
  show thesis
  proof (rule that [of ?d])
    show "lx_directives s' = lx_directives s @ [?d]" "lx_line_start s' = lx_offset s'"
      "lx_line s' = (if line_marker ?d then marker_line xs ?d else lx_line s + 1)"
      using kept by (auto simp: s' line split: option.split)
    show "case (if line_marker ?d then marker_name xs ?d else None) of
        None \<Rightarrow> lx_files s' = lx_files s \<and> lx_file s' = lx_file s
      | Some f \<Rightarrow> unat (lx_file s') < length (lx_files s') \<and> lx_files s' ! unat (lx_file s') = f \<and>
          (\<exists>more. lx_files s' = lx_files s @ more \<and> length more \<le> 1)"
      using enter_file_files [OF f refl, of _ ?entering ?sys] by (auto simp: s' name split: option.split)
  qed simp
qed

section \<open>The invariant of the run\<close>

definition positioned :: "string \<Rightarrow> string \<Rightarrow> lexer \<Rightarrow> bool" where
  "positioned xs file s \<longleftrightarrow>
     (\<forall>t \<in> set (lx_tokens s). presumed xs file (lx_directives s) (lx_files s) t) \<and>
     length (lx_files s) \<le> Suc (lx_offset s) \<and> unat (lx_file s) < length (lx_files s) \<and>
     (lx_offset s < length xs \<longrightarrow>
        on_line xs (presumption xs file (lx_directives s)) s \<and>
        lx_files s ! unat (lx_file s) = snd (snd (presumption xs file (lx_directives s))))"

lemma presumption_snoc: "presumption xs file (ds @ [d]) = adopt_directive xs (presumption xs file ds) d"
  by (simp add: presumption_def)

lemma in_effect_all: "\<forall>d \<in> set ds. span_end (dir_span d) \<le> span_offset (tok_span t) \<Longrightarrow> in_effect t ds = ds"
  by (simp add: in_effect_def filter_id_conv)

lemma in_effect_later:
  "span_offset (tok_span t) < span_end (dir_span d) \<Longrightarrow> in_effect t (ds @ [d]) = in_effect t ds"
  by (simp add: in_effect_def)

text \<open>A step that changes no token, no directive and no file.\<close>

lemma positioned_quiet:
  assumes "positioned xs file s" and "lx_offset s < length xs"
    and "lx_tokens s' = lx_tokens s" "lx_directives s' = lx_directives s" "lx_files s' = lx_files s" "lx_file s' = lx_file s"
    and "lx_offset s \<le> lx_offset s'" and "\<And>p. on_line xs p s \<Longrightarrow> on_line xs p s'"
  shows "positioned xs file s'"
  using assms by (auto simp: positioned_def)

lemma block_comment_kept:
  "lx_files (block_comment xs s) = lx_files s \<and> lx_file (block_comment xs s) = lx_file s"
proof (induction xs s rule: block_comment.induct)
  case (1 xs s)
  then show ?case by (subst (1 2) block_comment.simps) (simp add: advance_line_def move_to_def)
qed

lemma raw_literal_kept:
  "lx_files (raw_literal xs t s) = lx_files s \<and> lx_file (raw_literal xs t s) = lx_file s"
proof (induction xs t s rule: raw_literal.induct)
  case (1 xs t s)
  then show ?case by (subst (1 2) raw_literal.simps) (simp add: advance_line_def move_to_def)
qed

lemma lex_token_kept:
  "lx_files (lex_token xs s) = lx_files s \<and> lx_file (lex_token xs s) = lx_file s"
  by (simp add: lex_token_def Let_def push_token_def consume_literal_def raw_literal_kept move_to_def split: option.split)

lemma positioned_comment:
  assumes s: "positioned xs file s" and o: "lx_offset s < length xs" and c: "consume_comment xs s = Some s'"
  shows "positioned xs file s'"
proof (rule positioned_quiet [OF s o])
  show "lx_tokens s' = lx_tokens s" "lx_directives s' = lx_directives s" "lx_files s' = lx_files s" "lx_file s' = lx_file s"
    using c by (auto simp: consume_comment_def Let_def push_comment_def block_comment_pieces block_comment_kept move_to_def
        split: if_splits)
  show "lx_offset s \<le> lx_offset s'" using consume_comment_bounds [OF c] by simp
  show "on_line xs p s'" if p: "on_line xs p s" for p
  proof -
    have pushed: "on_line xs p (push_comment a u) \<longleftrightarrow> on_line xs p u" for a u
      by (simp add: on_line_def push_comment_def)
    have line: "on_line xs p (move_to (skip_while (\<lambda>c. c \<noteq> newline) xs (lx_offset s)) s)"
      using o skip_while_holds [of "lx_offset s" _ "\<lambda>c. c \<noteq> newline" xs]
      by (intro on_line_move [OF p]) (auto simp: skip_while_ge skip_while_le)
    have block: "on_line xs p (block_comment xs (move_to (lx_offset s + 2) s))"
      if "lx_offset s + 1 < length xs" "xs ! lx_offset s = CHR ''/''" "xs ! (lx_offset s + 1) = CHR ''*''"
    proof -
      have "xs ! k \<noteq> newline" if "lx_offset s \<le> k" "k < lx_offset s + 2" for k
        using that \<open>xs ! lx_offset s = CHR ''/''\<close> \<open>xs ! (lx_offset s + 1) = CHR ''*''\<close>
          less_2_cases [of "k - lx_offset s"] by (auto simp: le_Suc_eq less_Suc_eq)
      then have "on_line xs p (move_to (lx_offset s + 2) s)" using that by (intro on_line_move [OF p]) auto
      then show ?thesis using that by (intro on_line_block_comment) simp_all
    qed
    show ?thesis using c line block by (auto simp: consume_comment_def Let_def pushed split: if_splits)
  qed
qed

lemma positioned_token:
  assumes s: "positioned xs file s" and o: "lx_offset s < length xs" "xs ! lx_offset s \<noteq> newline"
    and t: "tiled xs s" and ok: "counted_text xs (lx_tokens (lex_token xs s)) ds"
  shows "positioned xs file (lex_token xs s)"
proof -
  let ?p = "presumption xs file (lx_directives s)"
  obtain kind after where e: "lex_token xs s = push_token kind xs (lx_offset s) (lx_column s) after"
    and after: "lx_tokens after = lx_tokens s" "lx_directives after = lx_directives s"
    using lex_token_added by blast
  let ?t = "\<lparr>tok_kind = kind, tok_span = span_from (lx_offset s) (lx_offset after),
    tok_text = substr xs (lx_offset s) (lx_offset after - lx_offset s), tok_file = lx_file after,
    tok_line = lx_line after, tok_column = lx_column s\<rparr>"
  have added: "lx_tokens (lex_token xs s) = lx_tokens s @ [?t]" "lx_directives (lex_token xs s) = lx_directives s"
    by (simp_all add: e after push_token_def)
  have kept: "lx_files (lex_token xs s) = lx_files s" "lx_file (lex_token xs s) = lx_file s" "lx_file after = lx_file s"
    using lex_token_kept [of xs s] unfolding e by (simp_all add: push_token_def)
  have off: "lx_offset (lex_token xs s) = lx_offset after" "lx_offset s < lx_offset after"
    using lex_token_bounds [OF o(1)] unfolding e by simp_all
  have before: "on_line xs ?p s" "lx_files s ! unat (lx_file s) = snd (snd ?p)" "unat (lx_file s) < length (lx_files s)"
    using s o by (simp_all add: positioned_def)
  have "counted_token xs ?t" using ok added(1) by (simp add: counted_text_def)
  then have line: "on_line xs ?p (lex_token xs s)"
    using on_line_token [OF before(1) o added(1)] off(1) by simp
  have "\<forall>d \<in> set (lx_directives s). span_end (dir_span d) \<le> lx_offset s"
    using t by (auto simp: tiled_def pieces_def)
  then have "in_effect ?t (lx_directives s) = lx_directives s" by (intro in_effect_all) simp
  moreover have "lx_line after = line_at xs ?p (lx_offset after)"
    using line unfolding e by (simp add: on_line_def push_token_def)
  ultimately have "presumed xs file (lx_directives s) (lx_files s) ?t"
    using before on_line_column [OF before(1)] off(2) kept(3) by (simp add: presumed_def Let_def)
  then show ?thesis
    using s line before added kept off by (auto simp: positioned_def)
qed

lemma presumed_later:
  assumes "presumed xs file ds files t" and "span_offset (tok_span t) < span_end (dir_span d)"
  shows "presumed xs file (ds @ [d]) (files @ extra) t"
  using assms by (simp add: presumed_def Let_def in_effect_later nth_append)

lemma positioned_marker:
  assumes s: "positioned xs file s" and o: "lx_offset s < length xs" and t: "tiled xs s"
    and few: "length xs < 2 ^ 32 - 1" and m: "consume_line_marker xs s = Some s'"
    and ok: "counted_text xs ts (lx_directives s')"
  shows "positioned xs file s'"
proof -
  let ?e = "directive_end xs (lx_offset s)"
  have files: "length (lx_files s) \<le> Suc (lx_offset s)" "unat (lx_file s) < length (lx_files s)"
    and before: "on_line xs (presumption xs file (lx_directives s)) s"
      "lx_files s ! unat (lx_file s) = snd (snd (presumption xs file (lx_directives s)))"
    using s o by (simp_all add: positioned_def)
  have small: "length (lx_files s) < 2 ^ 32" using files(1) o few by simp
  obtain d where d: "lx_directives s' = lx_directives s @ [d]" "dir_span d = span_from (lx_offset s) ?e"
    and line: "lx_line s' = (if line_marker d then marker_line xs d else lx_line s + 1)"
    and named: "case (if line_marker d then marker_name xs d else None) of
        None \<Rightarrow> lx_files s' = lx_files s \<and> lx_file s' = lx_file s
      | Some f \<Rightarrow> unat (lx_file s') < length (lx_files s') \<and> lx_files s' ! unat (lx_file s') = f \<and>
          (\<exists>extra. lx_files s' = lx_files s @ extra \<and> length extra \<le> 1)"
    and start: "lx_line_start s' = lx_offset s'"
    by (rule consume_line_marker_effect [OF m small])
  note off = consume_line_marker_Some [OF m]
  have "lx_offset s \<le> hash_at xs (lx_offset s)" by (simp add: hash_at_def skip_while_ge)
  then have e: "lx_offset s < ?e" "?e \<le> length xs" using directive_end_bounds [OF off(1)] by simp_all
  obtain extra where extra: "lx_files s' = lx_files s @ extra" "length extra \<le> 1"
    using named by (auto split: option.splits if_splits)
  have toks: "lx_tokens s' = lx_tokens s" using consume_line_marker_pieces(1) [OF m] .
  have old: "presumed xs file (lx_directives s') (lx_files s') t" if "t \<in> set (lx_tokens s')" for t
  proof -
    have "span_end (tok_span t) \<le> lx_offset s" using that \<open>tiled xs s\<close> by (auto simp: toks tiled_def pieces_def)
    then have "span_offset (tok_span t) < span_end (dir_span d)" using e by (simp add: d(2) span_end_def)
    then show ?thesis using s that unfolding d(1) extra(1) toks by (intro presumed_later) (simp_all add: positioned_def)
  qed
  have inside: "xs ! k \<noteq> newline" if k: "lx_offset s \<le> k" "k < ?e" for k
  proof -
    have "newline \<notin> set (spelling xs (dir_span d))" using ok d(1) by (simp add: counted_text_def)
    moreover have "xs ! k = spelling xs (dir_span d) ! (k - lx_offset s)" "k - lx_offset s < length (spelling xs (dir_span d))"
      using k e nth_substr [of "k - lx_offset s" "?e - lx_offset s" "lx_offset s" xs] by (auto simp: d(2) spelling_def)
    ultimately show ?thesis using nth_mem by metis
  qed
  have "on_line xs (presumption xs file (lx_directives s')) s' \<and>
      lx_files s' ! unat (lx_file s') = snd (snd (presumption xs file (lx_directives s')))"
    if "lx_offset s' < length xs"
  proof -
    have e': "?e < length xs" "lx_offset s' = Suc ?e" "xs ! ?e = newline"
      using that off(3) e directive_end_newline [of xs "lx_offset s"] by (auto split: if_splits)
    have col: "column_of xs (Suc ?e) = 0" using e' by (simp add: column_of_Suc)
    obtain base origin name where p: "presumption xs file (lx_directives s) = (base, origin, name)"
      by (cases "presumption xs file (lx_directives s)")
    have p': "presumption xs file (lx_directives s') = adopt_directive xs (base, origin, name) d"
      by (simp add: d(1) presumption_snoc p)
    have "newlines_between xs origin (Suc ?e) = Suc (newlines_between xs origin (lx_offset s))"
      using no_newline_steps(2) [of "lx_offset s" ?e xs origin] inside e e' before(1)
      by (simp add: on_line_def p newlines_between_Suc)
    moreover have "origin \<le> lx_offset s" "lx_line s = base + word_of_nat (newlines_between xs origin (lx_offset s))"
      "lx_files s ! unat (lx_file s) = name"
      using before by (simp_all add: on_line_def p line_at_def)
    moreover have "span_end (dir_span d) = ?e" using e(1) by (simp add: d(2))
    ultimately show ?thesis
      using e' e(1) col start line named
      by (cases "line_marker d"; cases "marker_name xs d") (auto simp: on_line_def p' line_at_def)
  qed
  then show ?thesis
    using old files extra consume_line_marker_bounds [OF m] named
    by (auto simp: positioned_def split: option.splits if_splits)
qed

lemma counted_text_mono:
  "counted_text xs ts ds \<Longrightarrow> set ts' \<subseteq> set ts \<Longrightarrow> set ds' \<subseteq> set ds \<Longrightarrow> counted_text xs ts' ds'"
  by (auto simp: counted_text_def)

lemma positioned_step:
  assumes s: "positioned xs file s" and o: "lx_offset s < length xs" and t: "tiled xs s" and few: "length xs < 2 ^ 32 - 1"
    and ok: "counted_text xs (lx_tokens (lex_step xs s)) (lx_directives (lex_step xs s))"
  shows "positioned xs file (lex_step xs s)"
proof (cases "if lx_at_start s then consume_line_marker xs s else None")
  case (Some s')
  then show ?thesis using positioned_marker [OF s o t few] ok by (auto simp: lex_step_def split: if_splits)
next
  case None
  consider "xs ! lx_offset s = newline" | "xs ! lx_offset s \<noteq> newline" "is_horizontal_space (xs ! lx_offset s)"
    | "xs ! lx_offset s \<noteq> newline" "\<not> is_horizontal_space (xs ! lx_offset s)" by blast
  then show ?thesis
  proof cases
    case 1
    then have "lex_step xs s = advance_line s" using None by (simp add: lex_step_def)
    then show ?thesis
      using on_line_advance [OF _ o 1] by (intro positioned_quiet [OF s o]) (simp_all add: advance_line_def)
  next
    case 2
    then have "lex_step xs s = move_to (Suc (lx_offset s)) s" using None by (simp add: lex_step_def Let_def)
    moreover have "on_line xs p (move_to (Suc (lx_offset s)) s)" if "on_line xs p s" for p
      using 2(1) o by (intro on_line_move [OF that]) (auto simp: less_Suc_eq)
    ultimately show ?thesis by (intro positioned_quiet [OF s o]) (simp_all add: move_to_def)
  next
    case 3
    show ?thesis
    proof (cases "consume_comment xs s")
      case (Some s')
      then show ?thesis using positioned_comment [OF s o Some] None 3 by (simp add: lex_step_def Let_def)
    next
      case no_comment: None
      let ?s = "s\<lparr>lx_at_start := False\<rparr>"
      have e: "lex_step xs s = lex_token xs ?s" using None no_comment 3 by (simp add: lex_step_def Let_def)
      have "positioned xs file ?s" by (rule positioned_quiet [OF s o]) simp_all
      moreover have "tiled xs ?s" using t by (simp add: tiled_def pieces_def)
      ultimately show ?thesis
        using positioned_token [of xs "file" ?s "lx_directives (lex_step xs s)"] ok o 3(1) unfolding e by simp
    qed
  qed
qed

lemma lex_step_grows:
  "set (lx_tokens s) \<subseteq> set (lx_tokens (lex_step xs s)) \<and> set (lx_directives s) \<subseteq> set (lx_directives (lex_step xs s))"
proof (cases "if lx_at_start s then consume_line_marker xs s else None")
  case (Some s')
  then show ?thesis using consume_line_marker_pieces [of xs s s'] by (auto simp: lex_step_def split: if_splits)
next
  case None
  let ?s = "s\<lparr>lx_at_start := False\<rparr>"
  obtain kind after where e: "lex_token xs ?s = push_token kind xs (lx_offset ?s) (lx_column ?s) after"
    and "lx_tokens after = lx_tokens ?s" "lx_directives after = lx_directives ?s"
    using lex_token_added [of xs ?s] by blast
  then have "set (lx_tokens s) \<subseteq> set (lx_tokens (lex_token xs (s\<lparr>lx_at_start := False\<rparr>))) \<and>
      set (lx_directives s) \<subseteq> set (lx_directives (lex_token xs (s\<lparr>lx_at_start := False\<rparr>)))"
    by (auto simp: e push_token_def)
  moreover have "set (lx_tokens s) \<subseteq> set (lx_tokens s') \<and> set (lx_directives s) \<subseteq> set (lx_directives s')"
    if "consume_comment xs s = Some s'" for s'
    using that by (auto simp: consume_comment_def Let_def push_comment_def block_comment_pieces move_to_def split: if_splits)
  ultimately show ?thesis
    unfolding lex_step_def None
    by (cases "consume_comment xs s") (simp_all add: Let_def advance_line_def move_to_def)
qed

lemma run_grows:
  "set (lx_tokens s) \<subseteq> set (lx_tokens (run_lexer xs s)) \<and> set (lx_directives s) \<subseteq> set (lx_directives (run_lexer xs s))"
proof (induction xs s rule: run_lexer.induct)
  case (1 xs s)
  show ?case
  proof (cases "lx_offset s < length xs")
    case True
    then have "run_lexer xs s = run_lexer xs (lex_step xs s)" by (simp add: run_lexer.simps)
    then show ?thesis using "1.IH" [OF True] lex_step_grows [of s xs] by auto
  qed (simp add: run_lexer.simps)
qed

lemma positioned_run:
  assumes "positioned xs file s" and "tiled xs s" and "length xs < 2 ^ 32 - 1"
    and "counted_text xs (lx_tokens (run_lexer xs s)) (lx_directives (run_lexer xs s))"
  shows "positioned xs file (run_lexer xs s)"
  using assms
proof (induction xs s rule: run_lexer.induct)
  case (1 xs s)
  show ?case
  proof (cases "lx_offset s < length xs")
    case True
    then have e: "run_lexer xs s = run_lexer xs (lex_step xs s)" by (simp add: run_lexer.simps)
    have "counted_text xs (lx_tokens (lex_step xs s)) (lx_directives (lex_step xs s))"
      using counted_text_mono "1.prems"(4) run_grows [of "lex_step xs s" xs] unfolding e by blast
    then have "positioned xs file (lex_step xs s)" using positioned_step True "1.prems" by blast
    then show ?thesis using "1.IH" [OF True] tiled_step "1.prems" True unfolding e by blast
  next
    case False
    then show ?thesis using "1.prems" by (simp add: run_lexer.simps)
  qed
qed

lemma positioned_initial: "positioned xs file (initial_lexer file)"
  by (simp add: positioned_def initial_lexer_def on_line_def presumption_def line_at_def)

lemma lex_positions:
  assumes st: "st = lex xs file" and few: "length xs < 2 ^ 32 - 1"
    and ok: "counted_text xs (butlast (stream_tokens st)) (stream_directives st)"
    and t: "t \<in> set (butlast (stream_tokens st))"
  shows "presumed xs file (stream_directives st) (stream_files st) t"
proof -
  let ?s = "run_lexer xs (initial_lexer file)"
  have e: "butlast (stream_tokens st) = lx_tokens ?s" "stream_directives st = lx_directives ?s" "stream_files st = lx_files ?s"
    by (simp_all add: st lex_def Let_def)
  have "positioned xs file ?s"
    using positioned_run [OF positioned_initial tiled_initial few] ok unfolding e by blast
  then show ?thesis using t unfolding e by (simp add: positioned_def)
qed

section \<open>Written columns\<close>

text \<open>Adopting columns changes no token but in its column.\<close>

definition same_but_column :: "token \<Rightarrow> token \<Rightarrow> bool" where
  "same_but_column t u \<longleftrightarrow> u = t\<lparr>tok_column := tok_column u\<rparr>"

lemma adopt_front_tokens:
  "adopt_front ts ws = (front, ts', ws') \<Longrightarrow>
     \<exists>taken. ts = taken @ ts' \<and> list_all2 same_but_column taken front"
proof (induction ts ws arbitrary: front ts' ws' rule: adopt_front.induct)
  case (1 t ts w c ws)
  have same_column: "same_but_column t (t\<lparr>tok_column := c\<rparr>)" by (simp add: same_but_column_def)
  show ?case
  proof (cases "tok_text t = w")
    case True
    obtain f ts1 ws1 where r: "adopt_front ts ws = (f, ts1, ws1)" by (cases "adopt_front ts ws")
    then obtain taken where "ts = taken @ ts1" "list_all2 same_but_column taken f" using "1.IH" [OF True] by blast
    then show ?thesis
      using True r "1.prems" same_column by (intro exI [of _ "t # taken"]) auto
  next
    case False
    then show ?thesis using "1.prems" by (intro exI [of _ "[]"]) auto
  qed
qed auto

lemma adopt_written_columns_tokens: "list_all2 same_but_column ts (adopt_written_columns ts ws)"
proof -
  have refl: "list_all2 same_but_column us us" for us by (simp add: list_all2_refl same_but_column_def)
  obtain front ts1 ws1 where a: "adopt_front ts ws = (front, ts1, ws1)" by (cases "adopt_front ts ws")
  obtain behind ts2 ws2 where b: "adopt_front (rev ts1) (rev ws1) = (behind, ts2, ws2)" by (cases "adopt_front (rev ts1) (rev ws1)")
  obtain taken where t: "ts = taken @ ts1" "list_all2 same_but_column taken front" using adopt_front_tokens [OF a] by blast
  obtain last_taken where l: "rev ts1 = last_taken @ ts2" "list_all2 same_but_column last_taken behind"
    using adopt_front_tokens [OF b] by blast
  have "list_all2 same_but_column (rev (rev ts1)) (rev (behind @ ts2))"
    unfolding l(1) list_all2_rev using l(2) refl by (rule list_all2_appendI)
  then have "list_all2 same_but_column (taken @ ts1) (front @ rev (behind @ ts2))"
    using t(2) by (simp only: rev_rev_ident list_all2_appendI)
  then show ?thesis by (simp add: adopt_written_columns_def a b flip: t(1))
qed

lemma adopt_line_tokens: "list_all2 same_but_column ts (adopt_line written st t ts)"
proof -
  have refl: "list_all2 same_but_column us us" for us by (simp add: list_all2_refl same_but_column_def)
  show ?thesis
    using refl adopt_written_columns_tokens by (auto simp: adopt_line_def Let_def split: option.split)
qed

lemma use_written_columns_tokens:
  "list_all2 same_but_column (stream_tokens st) (stream_tokens (use_written_columns written st))"
proof -
  have "list_all2 same_but_column ts (adopt_lines written st ts)" for ts
  proof (induction ts rule: length_induct)
    case (1 ts)
    show ?case
    proof (cases ts)
      case (Cons t us)
      show ?thesis
      proof (cases "tok_kind t = EndOfFile")
        case True
        then show ?thesis using 1 Cons by (simp add: same_but_column_def)
      next
        case False
        have "length (dropWhile (same_line t) us) < length ts"
          using length_dropWhile_le [of "same_line t" us] by (simp add: Cons)
        then have rest: "list_all2 same_but_column (dropWhile (same_line t) us) (adopt_lines written st (dropWhile (same_line t) us))"
          using 1 by blast
        have "list_all2 same_but_column ((t # takeWhile (same_line t) us) @ dropWhile (same_line t) us) (adopt_lines written st ts)"
          unfolding Cons adopt_lines.simps if_not_P [OF False]
          by (rule list_all2_appendI [OF adopt_line_tokens rest])
        then show ?thesis by (simp add: Cons)
      qed
    qed simp
  qed
  then show ?thesis by (simp add: use_written_columns_def)
qed

end
