(* ===== verification/Syntax_Tree.thy ===== *)
theory Syntax_Tree
  imports Lexer
begin

text \<open>
  What the recognizer finds in a token stream
  (compiler/frontend/include/cppl/frontend/syntax.hpp): where each construct of C++L is written.
  The records have the spans and the names the later passes read; the presumed positions kept
  for diagnostics are left out.
\<close>

section \<open>Clauses and proof statements\<close>

datatype clause_kind = EnsuresClause | ExpectsClause | InvariantClause | ProvesClause | DecreasesClause

record clause =
  clause_kind :: clause_kind
  clause_keyword :: byte_span
  clause_expression :: byte_span

datatype proof_statement_kind =
    ReflexivityStatement | ExactStatement | ApplyStatement | AssumeStatement | RewriteStatement
  | ContradictionStatement | CasesStatement | DecomposeStatement | InductionStatement | UnreadStatement

text \<open>
  A statement has its kind, the name it refers to, its arguments and its proposition, its whole
  span, its arms and the span that encloses them. An arm has its label, its statements, its whole
  span and its body.
\<close>

datatype proof_statement =
  ProofStatement (stmt_kind: proof_statement_kind) (stmt_reference: string) (stmt_arguments: "byte_span list")
    (stmt_proposition: byte_span) (stmt_span: byte_span) (stmt_arms: "proof_arm list") (stmt_arms_span: byte_span)
and proof_arm =
  ProofArm (arm_label: byte_span) (arm_statements: "proof_statement list") (arm_span: byte_span) (arm_body: byte_span)

section \<open>Declarations\<close>

record law_declaration =
  law_name_span :: byte_span
  law_range :: byte_span
  law_parameters :: byte_span
  law_clauses :: "clause list"

record proof_declaration =
  inline_law :: "nat option"
  proof_name_span :: byte_span
  proof_range :: byte_span
  proof_body :: byte_span
  proof_parameters :: byte_span
  proves_keyword :: byte_span
  proof_proposition :: byte_span
  proof_statements :: "proof_statement list"

record verified_function =
  verified_keyword :: byte_span
  verified_clauses :: "clause list"
  verified_region :: byte_span

record loop_specification =
  loop_invariants :: "clause list"
  loop_decreases :: "clause option"
  loop_region :: byte_span

record path_contradiction =
  claim_statement :: proof_statement
  claim_span :: byte_span
  claim_erased :: byte_span
  claim_split :: "nat option"

record path_case_split =
  split_statement :: proof_statement
  split_span :: byte_span

record refinement_type =
  refinement_name :: string
  refinement_name_span :: byte_span
  refinement_range :: byte_span
  refinement_indices :: byte_span
  refinement_indexed :: bool
  refinement_base :: byte_span
  refinement_predicate :: byte_span
  refinement_validator :: string

record validation_expression =
  validation_refinement :: nat
  validation_callee :: byte_span

text \<open>
  Of a pure marker, an unsafe function and an unsafe block only the keyword is read, of a ghost
  declaration the span that is erased.
\<close>

record cppl_syntax =
  laws :: "law_declaration list"
  proofs :: "proof_declaration list"
  pure_markers :: "byte_span list"
  verified_functions :: "verified_function list"
  loops :: "loop_specification list"
  path_contradictions :: "path_contradiction list"
  path_splits :: "path_case_split list"
  refinement_types :: "refinement_type list"
  unsafe_blocks :: "byte_span list"
  unsafe_functions :: "byte_span list"
  ghost_declarations :: "byte_span list"
  validations :: "validation_expression list"
  unchecked_clauses :: "verified_function list"

definition empty_syntax :: cppl_syntax where
  "empty_syntax =
     \<lparr>laws = [], proofs = [], pure_markers = [], verified_functions = [], loops = [],
      path_contradictions = [], path_splits = [], refinement_types = [], unsafe_blocks = [],
      unsafe_functions = [], ghost_declarations = [], validations = [], unchecked_clauses = []\<rparr>"

end
