(* ===== verification/Projection_Text.thy ===== *)
theory Projection_Text
  imports Syntax_Tree
begin

text \<open>
  The runtime text the projector makes of a token stream
  (compiler/frontend/src/projection.cpp, projector.hpp): proof-only spans blanked, and every
  runtime-bearing construct replaced by the C++ it means. The analysis text, which is for Clang
  alone, is not modelled.
\<close>

section \<open>Directive lines and blanking\<close>

text \<open>The directives stand in order, so \<open>std::ranges::upper_bound\<close> is where the longest run ends.\<close>

definition directive_at :: "directive list \<Rightarrow> nat \<Rightarrow> directive option" where
  "directive_at ds i =
     (let before = takeWhile (\<lambda>d. span_offset (dir_span d) \<le> i) ds
      in if before = [] then None
         else if i < span_end (dir_span (last before)) then Some (last before) else None)"

lemma directive_at_Some: "directive_at ds i = Some d \<Longrightarrow> d \<in> set ds \<and> holds_byte (dir_span d) i"
proof -
  let ?before = "takeWhile (\<lambda>d. span_offset (dir_span d) \<le> i) ds"
  assume "directive_at ds i = Some d"
  then have d: "?before \<noteq> []" "d = last ?before" "i < span_end (dir_span d)"
    by (auto simp: directive_at_def Let_def split: if_splits)
  then have "d \<in> set ?before" using last_in_set by blast
  from set_takeWhileD [OF this] d(3) show ?thesis by (simp add: holds_byte_def)
qed

text \<open>The loop of \<open>blank\<close>; a directive line is passed over whole.\<close>

function blank_from :: "directive list \<Rightarrow> nat \<Rightarrow> nat \<Rightarrow> nat \<Rightarrow> string \<Rightarrow> string" where
  "blank_from ds base stop i buffer =
     (if stop \<le> i then buffer
      else if buffer ! i = newline then blank_from ds base stop (Suc i) buffer
      else case directive_at ds (base + i) of
        Some d \<Rightarrow> blank_from ds base stop (min (span_end (dir_span d) - base) stop) buffer
      | None \<Rightarrow> blank_from ds base stop (Suc i) (buffer[i := CHR '' '']))"
  by pat_completeness auto
termination
  by (relation "measure (\<lambda>(ds, base, stop, i, buffer). stop - i)") (auto dest!: directive_at_Some simp: holds_byte_def)

declare blank_from.simps [simp del]

definition blank :: "directive list \<Rightarrow> nat \<Rightarrow> byte_span \<Rightarrow> string \<Rightarrow> string" where
  "blank ds base s buffer =
     blank_from ds base (min (span_end s) (length buffer)) (span_offset s) buffer"

section \<open>Tokens on one line\<close>

fun spelled_in :: "byte_span \<Rightarrow> token list \<Rightarrow> string \<Rightarrow> nat \<Rightarrow> string" where
  "spelled_in s [] spelled previous_end = spelled"
| "spelled_in s (t # ts) spelled previous_end =
     (if span_offset (tok_span t) < span_offset s \<or> span_end s < span_end (tok_span t)
      then spelled_in s ts spelled previous_end
      else if tok_kind t = EndOfFile then spelled
      else spelled_in s ts
             (spelled @ (if spelled \<noteq> [] \<and> span_offset (tok_span t) \<noteq> previous_end then '' '' else []) @ tok_text t)
             (span_end (tok_span t)))"

definition spelled_tokens :: "token_stream \<Rightarrow> byte_span \<Rightarrow> string" where
  "spelled_tokens st s = spelled_in s (stream_tokens st) [] 0"

definition spelled_indices :: "token_stream \<Rightarrow> refinement_type \<Rightarrow> string" where
  "spelled_indices st r = spelled_tokens st (refinement_indices r)"

section \<open>Lowerings\<close>

text \<open>The directive that is the whole line at an offset, if it ends within the span.\<close>

definition line_directive_text :: "token_stream \<Rightarrow> byte_span \<Rightarrow> nat \<Rightarrow> string" where
  "line_directive_text st s line =
     (case directive_at (stream_directives st) line of
        Some d \<Rightarrow>
          if span_offset (dir_span d) = line \<and> span_end (dir_span d) \<le> span_end s
          then spelling (stream_text st) (dir_span d) else []
      | None \<Rightarrow> [])"

text \<open>The loop of \<open>in_place_of\<close>: the text so far, and where the last line of the span starts.\<close>

fun in_place_lines :: "token_stream \<Rightarrow> byte_span \<Rightarrow> nat \<Rightarrow> string \<Rightarrow> string \<times> nat \<Rightarrow> string \<times> nat" where
  "in_place_lines st s i [] r = r"
| "in_place_lines st s i (c # cs) (lowered, last_line) =
     (if c \<noteq> newline then in_place_lines st s (Suc i) cs (lowered, last_line)
      else in_place_lines st s (Suc i) cs
             (lowered @ newline # line_directive_text st s (span_offset s + i + 1), i + 1))"

definition in_place_of :: "token_stream \<Rightarrow> byte_span \<Rightarrow> string \<Rightarrow> string" where
  "in_place_of st s lowered =
     (let written = spelling (stream_text st) s;
          (replaced, last_line) = in_place_lines st s 0 written (lowered, 0);
          written_last = length written - last_line;
          lowered_last = (if last_line = 0 then length replaced else column_of replaced (length replaced))
      in replaced @ replicate (written_last - lowered_last) CHR '' '')"

definition last_line_length :: "string \<Rightarrow> nat" where
  "last_line_length xs = column_of xs (length xs)"

text \<open>Whether nothing but spaces follows a byte on its line (\<open>find_first_not_of(" \t\r")\<close>).\<close>

definition line_rest :: "string \<Rightarrow> nat \<Rightarrow> string" where
  "line_rest xs i = takeWhile (\<lambda>c. c \<noteq> newline) (drop i xs)"

definition is_padding :: "char \<Rightarrow> bool" where
  "is_padding c \<longleftrightarrow> c \<in> {CHR '' '', CHR 0x09, CHR 0x0D}"

definition lowering_moves_columns :: "token_stream \<Rightarrow> byte_span \<Rightarrow> string \<Rightarrow> bool" where
  "lowering_moves_columns st s lowered \<longleftrightarrow>
     last_line_length (spelling (stream_text st) s) < last_line_length lowered \<and>
     \<not> list_all is_padding (line_rest (stream_text st) (span_end s))"

definition canonical_lowering :: "token_stream \<Rightarrow> refinement_type \<Rightarrow> string" where
  "canonical_lowering st r =
     in_place_of st (refinement_range r)
       ((if refinement_indexed r then ''template <'' @ spelled_indices st r @ ''> '' else []) @
        ''using '' @ refinement_name r @ '' = '' @ spelled_tokens st (refinement_base r) @ '';'' @
        (if refinement_validator r = [] then []
         else '' [[maybe_unused]] static inline bool '' @ refinement_validator r @ ''('' @
              spelled_tokens st (refinement_base r) @ '' self) { return static_cast<bool>('' @
              spelled_tokens st (refinement_predicate r) @ ''); }''))"

definition lowered_validation :: "token_stream \<Rightarrow> cppl_syntax \<Rightarrow> validation_expression \<Rightarrow> string" where
  "lowered_validation st syn v =
     in_place_of st (validation_callee v)
       (refinement_validator (refinement_types syn ! validation_refinement v))"

definition erased_split :: "token_stream \<Rightarrow> path_case_split \<Rightarrow> string" where
  "erased_split st p =
     (let written = spelling (stream_text st) (split_span p);
          blanked = blank (stream_directives st) (span_offset (split_span p))
                      \<lparr>span_offset = 0, span_length = length written\<rparr> written
      in if blanked = [] then [] else butlast blanked @ '';'')"

section \<open>The runtime text\<close>

record lowering =
  low_span :: byte_span
  low_text :: string

text \<open>The spans the passes of the projector blank, in the order of the passes.\<close>

definition blanked_spans :: "cppl_syntax \<Rightarrow> byte_span list" where
  "blanked_spans syn =
     pure_markers syn @ unsafe_functions syn @ unsafe_blocks syn @ ghost_declarations syn @
     map law_range (laws syn) @ map proof_range (proofs syn) @
     concat (map (\<lambda>v. [verified_keyword v, verified_region v]) (verified_functions syn)) @
     map loop_region (loops syn) @
     map claim_erased (filter (\<lambda>c. claim_split c = None) (path_contradictions syn))"

definition within_span :: "byte_span \<Rightarrow> byte_span \<Rightarrow> bool" where
  "within_span inner outer \<longleftrightarrow> span_offset outer \<le> span_offset inner \<and> span_end inner \<le> span_end outer"

text \<open>A validation inside proof-only syntax is refused with a diagnostic and lowers to nothing.\<close>

definition refused_validation :: "cppl_syntax \<Rightarrow> validation_expression \<Rightarrow> bool" where
  "refused_validation syn v \<longleftrightarrow>
     list_ex (within_span (validation_callee v)) (ghost_declarations syn) \<or>
     list_ex (\<lambda>c. within_span (validation_callee v) (claim_span c)) (path_contradictions syn) \<or>
     list_ex (\<lambda>p. within_span (validation_callee v) (split_span p)) (path_splits syn)"

definition runtime_lowerings :: "token_stream \<Rightarrow> cppl_syntax \<Rightarrow> lowering list" where
  "runtime_lowerings st syn =
     map (\<lambda>r. \<lparr>low_span = refinement_range r, low_text = canonical_lowering st r\<rparr>) (refinement_types syn) @
     map (\<lambda>v. \<lparr>low_span = validation_callee v, low_text = lowered_validation st syn v\<rparr>)
       (filter (\<lambda>v. \<not> refused_validation syn v) (validations syn)) @
     map (\<lambda>p. \<lparr>low_span = split_span p, low_text = erased_split st p\<rparr>) (path_splits syn)"

text \<open>\<open>buffer.replace(span.offset, span.length, text)\<close>, where the span is within the buffer.\<close>

definition replace_span :: "lowering \<Rightarrow> string \<Rightarrow> string" where
  "replace_span l buffer =
     (if length buffer < span_end (low_span l) then buffer
      else take (span_offset (low_span l)) buffer @ low_text l @ drop (span_end (low_span l)) buffer)"

text \<open>
  The lowerings are applied from the back. Of lowerings at one offset, which the recognizer never
  makes, the order is the list's, where the code leaves it open.
\<close>

definition runtime_text :: "token_stream \<Rightarrow> cppl_syntax \<Rightarrow> string" where
  "runtime_text st syn =
     foldr replace_span (sort_key (\<lambda>l. span_offset (low_span l)) (runtime_lowerings st syn))
       (foldl (\<lambda>buffer s. blank (stream_directives st) 0 s buffer) (stream_text st) (blanked_spans syn))"

end
