(* ===== verification/Erasure.thy ===== *)
theory Erasure
  imports Projection_Text
begin

text \<open>
  The check of the runtime program (compiler/erasure/include/cppl/erasure/erase.hpp,
  compiler/erasure/src/erase.cpp): a walk over the scanned text and the runtime text together,
  which recomputes what every runtime-bearing declaration must have become.
\<close>

section \<open>Spans\<close>

text \<open>\<open>merged.back()\<close> is the head here: the merged spans are built in reverse.\<close>

fun merge_spans :: "byte_span list \<Rightarrow> byte_span list \<Rightarrow> byte_span list" where
  "merge_spans [] merged = rev merged"
| "merge_spans (s # ss) merged =
     (if span_length s = 0 then merge_spans ss merged
      else case merged of
        [] \<Rightarrow> merge_spans ss [s]
      | m # ms \<Rightarrow>
          if span_offset s \<le> span_end m
          then merge_spans ss (m\<lparr>span_length := max (span_end m) (span_end s) - span_offset m\<rparr> # ms)
          else merge_spans ss (s # m # ms))"

definition disjoint_spans :: "byte_span list \<Rightarrow> byte_span list" where
  "disjoint_spans ss = merge_spans (sort_key span_offset ss) []"

definition blanked :: "char \<Rightarrow> char" where
  "blanked c = (if c = newline then newline else CHR '' '')"

definition rest_of_line_blank :: "string \<Rightarrow> nat \<Rightarrow> bool" where
  "rest_of_line_blank xs i \<longleftrightarrow> list_all is_padding (line_rest xs i)"

definition erased_spans_of :: "cppl_syntax \<Rightarrow> byte_span list" where
  "erased_spans_of syn =
     map law_range (laws syn) @ map proof_range (proofs syn) @ pure_markers syn @
     unsafe_functions syn @ unsafe_blocks syn @ ghost_declarations syn @
     concat (map (\<lambda>v. [verified_keyword v, verified_region v]) (verified_functions syn)) @
     map loop_region (loops syn) @
     map claim_erased (filter (\<lambda>c. claim_split c = None) (path_contradictions syn))"

definition expected_lowerings :: "token_stream \<Rightarrow> cppl_syntax \<Rightarrow> lowering list" where
  "expected_lowerings st syn =
     sort_key (\<lambda>l. span_offset (low_span l))
       (map (\<lambda>r. \<lparr>low_span = refinement_range r, low_text = canonical_lowering st r\<rparr>) (refinement_types syn) @
        map (\<lambda>v. \<lparr>low_span = validation_callee v, low_text = lowered_validation st syn v\<rparr>) (validations syn) @
        map (\<lambda>p. \<lparr>low_span = split_span p, low_text = erased_split st p\<rparr>) (path_splits syn))"

section \<open>The walk\<close>

text \<open>
  The state of the walk. \<open>pending_erased\<close> and \<open>pending_directives\<close> are the spans from the
  indices \<open>next_erased\<close> and \<open>next_directive\<close> on.
\<close>

record walk =
  source_offset :: nat
  runtime_offset :: nat
  pending_erased :: "byte_span list"
  pending_directives :: "byte_span list"
  only_deletions :: bool
  spans_erased :: bool
  directives_kept :: bool
  columns_preserved :: bool
  lowerings_canonical :: bool
  erased_bytes :: nat
  lowered_bytes :: nat

definition head_starts :: "nat \<Rightarrow> byte_span list \<Rightarrow> bool" where
  "head_starts i ss \<longleftrightarrow> (case ss of [] \<Rightarrow> False | s # _ \<Rightarrow> span_offset s \<le> i)"

text \<open>The lambdas \<open>erased_at\<close> and \<open>directive_at\<close>.\<close>

definition pass_erased :: "nat \<Rightarrow> walk \<Rightarrow> walk" where
  "pass_erased i w = w\<lparr>pending_erased := dropWhile (\<lambda>s. span_end s \<le> i) (pending_erased w)\<rparr>"

definition pass_directives :: "nat \<Rightarrow> walk \<Rightarrow> walk" where
  "pass_directives i w = w\<lparr>pending_directives := dropWhile (\<lambda>s. span_end s \<le> i) (pending_directives w)\<rparr>"

definition erased_at :: "nat \<Rightarrow> walk \<Rightarrow> bool \<times> walk" where
  "erased_at i w = (let w = pass_erased i w in (head_starts i (pending_erased w), w))"

definition directive_here :: "nat \<Rightarrow> walk \<Rightarrow> bool \<times> walk" where
  "directive_here i w = (let w = pass_directives i w in (head_starts i (pending_directives w), w))"

text \<open>One byte of \<open>compare_until\<close>; the first component says whether the loop goes on.\<close>

definition compare_byte :: "char \<Rightarrow> char \<Rightarrow> walk \<Rightarrow> bool \<times> walk" where
  "compare_byte kept written w =
     (let (erased, w) = erased_at (source_offset w) w
      in if erased
         then let (in_directive, w) = directive_here (source_offset w) w
              in if in_directive
                 then (if kept \<noteq> written then (False, w\<lparr>directives_kept := False\<rparr>) else (True, w))
                 else if kept = blanked written
                 then (True, if kept \<noteq> written then w\<lparr>erased_bytes := Suc (erased_bytes w)\<rparr> else w)
                 else if kept = written then (True, w\<lparr>spans_erased := False\<rparr>)
                 else (False, w\<lparr>only_deletions := False\<rparr>)
         else if kept \<noteq> written then (False, w\<lparr>only_deletions := False\<rparr>)
         else (True, w))"

definition next_byte :: "walk \<Rightarrow> walk" where
  "next_byte w = w\<lparr>source_offset := Suc (source_offset w), runtime_offset := Suc (runtime_offset w)\<rparr>"

lemma compare_byte_offsets [simp]:
  "source_offset (snd (compare_byte kept written w)) = source_offset w"
  "runtime_offset (snd (compare_byte kept written w)) = runtime_offset w"
  by (simp_all add: compare_byte_def erased_at_def directive_here_def pass_erased_def pass_directives_def Let_def)

function compare_until :: "string \<Rightarrow> string \<Rightarrow> nat \<Rightarrow> walk \<Rightarrow> walk" where
  "compare_until original runtime stop w =
     (if stop \<le> source_offset w then w
      else if length runtime \<le> runtime_offset w then w\<lparr>only_deletions := False\<rparr>
      else
        let (goes_on, w) = compare_byte (runtime ! runtime_offset w) (original ! source_offset w) w
        in if goes_on then compare_until original runtime stop (next_byte w) else w)"
  by pat_completeness auto
termination
proof (relation "measure (\<lambda>(original, runtime, stop, w). stop - source_offset w)")
  fix original runtime stop w r goes_on w'
  assume "\<not> stop \<le> source_offset w"
    and r: "r = compare_byte (runtime ! runtime_offset w) (original ! source_offset w) w" "(goes_on, w') = r"
  have "source_offset w' = source_offset w" using r compare_byte_offsets(1) by (metis snd_conv)
  with \<open>\<not> stop \<le> source_offset w\<close> show "((original, runtime, stop, next_byte w'), original, runtime, stop, w)
      \<in> measure (\<lambda>(original, runtime, stop, w). stop - source_offset w)"
    by (simp add: next_byte_def)
qed simp

declare compare_until.simps [simp del]

text \<open>The loop over the lowerings.\<close>

fun walk_lowerings :: "string \<Rightarrow> string \<Rightarrow> lowering list \<Rightarrow> walk \<Rightarrow> walk" where
  "walk_lowerings original runtime [] w = w"
| "walk_lowerings original runtime (l # ls) w =
     (let at = span_offset (low_span l); past = span_end (low_span l)
      in if at < source_offset w \<or> length original < past then w\<lparr>lowerings_canonical := False\<rparr>
         else
           let w = compare_until original runtime at w
           in if \<not> only_deletions w \<or> \<not> directives_kept w then w
              else
                let (erased, w) = erased_at at w
                in if erased \<or> (pending_erased w \<noteq> [] \<and> span_offset (hd (pending_erased w)) < past)
                   then w\<lparr>lowerings_canonical := False\<rparr>
                   else if substr runtime (runtime_offset w) (length (low_text l)) \<noteq> low_text l
                   then w\<lparr>lowerings_canonical := False\<rparr>
                   else
                     let w = w\<lparr>lowered_bytes := lowered_bytes w + length (low_text l),
                               runtime_offset := runtime_offset w + length (low_text l), source_offset := past\<rparr>
                     in walk_lowerings original runtime ls
                          (if column_of runtime (runtime_offset w) \<noteq> column_of original past \<and>
                              \<not> rest_of_line_blank original past
                           then w\<lparr>columns_preserved := False\<rparr> else w))"

section \<open>The report\<close>

record erasure_report =
  rep_erased_spans :: nat
  rep_erased_bytes :: nat
  rep_lowered_spans :: nat
  rep_lowered_bytes :: nat
  rep_only_deletions :: bool
  rep_spans_erased :: bool
  rep_directives_kept :: bool
  rep_lines_preserved :: bool
  rep_columns_preserved :: bool
  rep_lowerings_canonical :: bool

definition preserved :: "erasure_report \<Rightarrow> bool" where
  "preserved r \<longleftrightarrow>
     rep_only_deletions r \<and> rep_spans_erased r \<and> rep_directives_kept r \<and> rep_lines_preserved r \<and>
     rep_columns_preserved r \<and> rep_lowerings_canonical r"

definition count_lines :: "string \<Rightarrow> nat" where
  "count_lines xs = length (filter (\<lambda>c. c = newline) xs)"

definition start_walk :: "string \<Rightarrow> byte_span list \<Rightarrow> directive list \<Rightarrow> walk" where
  "start_walk original erased ds =
     \<lparr>source_offset = 0, runtime_offset = 0, pending_erased = erased, pending_directives = map dir_span ds,
      only_deletions = True, spans_erased = list_all (\<lambda>s. span_end s \<le> length original) erased,
      directives_kept = True, columns_preserved = True, lowerings_canonical = True,
      erased_bytes = 0, lowered_bytes = 0\<rparr>"

text \<open>The walk to the end of the text, after the lowerings.\<close>

definition finish_walk :: "string \<Rightarrow> string \<Rightarrow> walk \<Rightarrow> walk" where
  "finish_walk original runtime w =
     (if only_deletions w \<and> directives_kept w \<and> lowerings_canonical w
      then let w = compare_until original runtime (length original) w
           in if runtime_offset w \<noteq> length runtime then w\<lparr>only_deletions := False\<rparr> else w
      else w)"

definition walk_texts ::
  "string \<Rightarrow> string \<Rightarrow> byte_span list \<Rightarrow> directive list \<Rightarrow> lowering list \<Rightarrow> walk" where
  "walk_texts original runtime spans ds ls =
     finish_walk original runtime
       (walk_lowerings original runtime ls (start_walk original (disjoint_spans spans) ds))"

definition erasure_diagnostic :: diagnostic where
  "erasure_diagnostic =
     \<lparr>diag_severity = ErrorSeverity, diag_category = Internal,
      diag_message = ''erasure did not preserve the runtime program'', diag_location = no_location,
      diag_notes = [\<lparr>note_message =
        ''the runtime program must be the analysed program with proof-only spans removed, each '' @
        ''runtime-bearing declaration replaced by the canonical C++ it means, and nothing else changed'',
        note_location = no_location\<rparr>]\<rparr>"

definition erase_report :: "string \<Rightarrow> string \<Rightarrow> byte_span list \<Rightarrow> directive list \<Rightarrow> lowering list \<Rightarrow> erasure_report" where
  "erase_report original runtime spans ds ls =
     (let w = walk_texts original runtime spans ds ls
      in \<lparr>rep_erased_spans = length spans, rep_erased_bytes = erased_bytes w, rep_lowered_spans = length ls,
          rep_lowered_bytes = lowered_bytes w, rep_only_deletions = only_deletions w,
          rep_spans_erased = spans_erased w, rep_directives_kept = directives_kept w,
          rep_lines_preserved = (count_lines original = count_lines runtime),
          rep_columns_preserved = columns_preserved w, rep_lowerings_canonical = lowerings_canonical w\<rparr>)"

definition erase :: "token_stream \<Rightarrow> cppl_syntax \<Rightarrow> string \<Rightarrow> engine \<Rightarrow> (string \<times> erasure_report) \<times> engine" where
  "erase st syn runtime e =
     (let r = erase_report (stream_text st) runtime (erased_spans_of syn) (stream_directives st)
                (expected_lowerings st syn)
      in ((runtime, r), if preserved r then e else report erasure_diagnostic e))"

end
