(* ===== verification/Erasure_Facts.thy ===== *)
theory Erasure_Facts
  imports Erasure Lexer_Facts
begin

text \<open>
  What the erasure check accepts, against a reference written without the walk: outside a
  lowering every byte is kept, or blank where a proof-only span holds it and no directive line
  does; a lowering is the C++ its declaration means.
\<close>

section \<open>The reference\<close>

definition held :: "byte_span list \<Rightarrow> nat \<Rightarrow> bool" where
  "held ss i \<longleftrightarrow> (\<exists>s \<in> set ss. holds_byte s i)"

definition kept_byte :: "byte_span list \<Rightarrow> directive list \<Rightarrow> string \<Rightarrow> nat \<Rightarrow> char" where
  "kept_byte ss ds xs i =
     (if held ss i \<and> \<not> held (map dir_span ds) i then blanked (xs ! i) else xs ! i)"

definition kept_bytes :: "byte_span list \<Rightarrow> directive list \<Rightarrow> string \<Rightarrow> nat \<Rightarrow> nat \<Rightarrow> string" where
  "kept_bytes ss ds xs i j = map (kept_byte ss ds xs) [i..<j]"

fun reference_from :: "byte_span list \<Rightarrow> directive list \<Rightarrow> string \<Rightarrow> lowering list \<Rightarrow> nat \<Rightarrow> string" where
  "reference_from ss ds xs [] i = kept_bytes ss ds xs i (length xs)"
| "reference_from ss ds xs (l # ls) i =
     kept_bytes ss ds xs i (span_offset (low_span l)) @ low_text l @
     reference_from ss ds xs ls (span_end (low_span l))"

text \<open>Where lowerings may stand: in order, apart, in the text, and clear of proof-only spans.\<close>

definition clear_of :: "byte_span \<Rightarrow> byte_span \<Rightarrow> bool" where
  "clear_of l s \<longleftrightarrow> span_length s = 0 \<or> span_end s \<le> span_offset l \<or>
     (span_offset l < span_offset s \<and> span_end l \<le> span_offset s)"

fun placed_from :: "byte_span list \<Rightarrow> string \<Rightarrow> lowering list \<Rightarrow> nat \<Rightarrow> bool" where
  "placed_from ss xs [] i \<longleftrightarrow> True"
| "placed_from ss xs (l # ls) i \<longleftrightarrow>
     i \<le> span_offset (low_span l) \<and> span_end (low_span l) \<le> length xs \<and>
     (\<forall>s \<in> set ss. clear_of (low_span l) s) \<and> placed_from ss xs ls (span_end (low_span l))"

text \<open>What follows a lowering on its line keeps its column, or there is nothing.\<close>

fun columns_from :: "byte_span list \<Rightarrow> directive list \<Rightarrow> string \<Rightarrow> string \<Rightarrow> lowering list \<Rightarrow> nat \<Rightarrow> nat \<Rightarrow> bool" where
  "columns_from ss ds xs ys [] i j \<longleftrightarrow> True"
| "columns_from ss ds xs ys (l # ls) i j \<longleftrightarrow>
     (let past = span_end (low_span l); there = j + (span_offset (low_span l) - i) + length (low_text l)
      in (column_of ys there = column_of xs past \<or> rest_of_line_blank xs past) \<and>
         columns_from ss ds xs ys ls past there)"

definition within_text :: "byte_span list \<Rightarrow> string \<Rightarrow> bool" where
  "within_text ss xs \<longleftrightarrow> (\<forall>s \<in> set ss. 0 < span_length s \<longrightarrow> span_end s \<le> length xs)"

definition erases_to :: "byte_span list \<Rightarrow> directive list \<Rightarrow> string \<Rightarrow> lowering list \<Rightarrow> string \<Rightarrow> bool" where
  "erases_to ss ds xs ls ys \<longleftrightarrow>
     within_text ss xs \<and> placed_from ss xs ls 0 \<and> ys = reference_from ss ds xs ls 0 \<and>
     columns_from ss ds xs ys ls 0 0 \<and> count_lines xs = count_lines ys"

section \<open>Merged spans\<close>

definition spread :: "byte_span list \<Rightarrow> bool" where
  "spread ss \<longleftrightarrow> sorted_wrt (\<lambda>s t. span_end s \<le> span_offset t) ss \<and> (\<forall>s \<in> set ss. 0 < span_length s)"

lemma held_simps [simp]:
  "\<not> held [] i"
  "held (s # ss) i \<longleftrightarrow> holds_byte s i \<or> held ss i"
  "held (ss @ ts) i \<longleftrightarrow> held ss i \<or> held ts i"
  "held (rev ss) i \<longleftrightarrow> held ss i"
  by (auto simp: held_def)

lemma held_set: "set ss = set ts \<Longrightarrow> held ss i \<longleftrightarrow> held ts i"
  by (simp add: held_def)

text \<open>The merged spans, the last one first: apart, not empty, and starting before what is to come.\<close>

lemma merge_spans_facts:
  assumes "sorted (map span_offset ss)" and "spread (rev merged)"
    and "\<forall>m \<in> set merged. \<forall>s \<in> set ss. span_offset m \<le> span_offset s"
  shows "spread (merge_spans ss merged) \<and> (\<forall>i. held (merge_spans ss merged) i \<longleftrightarrow> held merged i \<or> held ss i) \<and>
     (\<forall>k. (\<forall>s \<in> set (merge_spans ss merged). span_end s \<le> k) \<longleftrightarrow>
        (\<forall>s \<in> set merged. span_end s \<le> k) \<and> (\<forall>s \<in> set ss. 0 < span_length s \<longrightarrow> span_end s \<le> k))"
  using assms
proof (induction ss merged rule: merge_spans.induct)
  case (1 merged)
  then show ?case by (auto simp: held_def)
next
  case (2 s ss merged)
  show ?case
  proof (cases "span_length s = 0")
    case True
    then have "\<not> holds_byte s i" for i by (simp add: holds_byte_def span_end_def)
    then show ?thesis using "2.IH"(1) [OF True] "2.prems" True by simp
  next
    case len: False
    show ?thesis
    proof (cases merged)
      case Nil
      have "spread (rev [s])" using len by (simp add: spread_def)
      then show ?thesis using "2.IH"(2) [OF len Nil] "2.prems" len by (auto simp: Nil)
    next
      case (Cons m ms)
      have m: "0 < span_length m" "span_offset m \<le> span_offset s" using "2.prems"(2,3) by (simp_all add: Cons spread_def)
      show ?thesis
      proof (cases "span_offset s \<le> span_end m")
        case True
        let ?m = "m\<lparr>span_length := max (span_end m) (span_end s) - span_offset m\<rparr>"
        have e: "span_end ?m = max (span_end m) (span_end s)" "span_offset ?m = span_offset m"
          using m by (auto simp: span_end_def)
        have h: "holds_byte ?m i \<longleftrightarrow> holds_byte m i \<or> holds_byte s i" for i
          using True m(2) by (auto simp: holds_byte_def e)
        have "spread (rev (?m # ms))"
          using "2.prems"(2) m by (auto simp: Cons spread_def sorted_wrt_append span_end_def)
        then show ?thesis using "2.IH"(3) [OF len Cons True] "2.prems"(1,3) len True by (auto simp: Cons h e)
      next
        case False
        have before: "span_end t \<le> span_end m" if "t \<in> set ms" for t
          using "2.prems"(2) that by (fastforce simp: Cons spread_def sorted_wrt_append span_end_def)
        have "span_end t \<le> span_offset s" if "t \<in> set (m # ms)" for t
          using that before False by fastforce
        then have "spread (rev (s # m # ms))"
          using "2.prems"(2) len by (simp add: Cons spread_def sorted_wrt_append)
        moreover have "\<forall>m' \<in> set (s # m # ms). \<forall>t \<in> set ss. span_offset m' \<le> span_offset t"
          using "2.prems"(1,3) by (auto simp: Cons)
        ultimately show ?thesis using "2.IH"(4) [OF len Cons False] "2.prems"(1,2) len False by (auto simp: Cons)
      qed
    qed
  qed
qed

lemma disjoint_spans_facts:
  "spread (disjoint_spans ss)" "held (disjoint_spans ss) i \<longleftrightarrow> held ss i"
  "(\<forall>s \<in> set (disjoint_spans ss). span_end s \<le> k) \<longleftrightarrow> (\<forall>s \<in> set ss. 0 < span_length s \<longrightarrow> span_end s \<le> k)"
  using merge_spans_facts [of "sort_key span_offset ss" "[]"] held_set [of "sort_key span_offset ss" ss]
  by (simp_all add: disjoint_spans_def spread_def)

section \<open>The walk\<close>

definition fine :: "walk \<Rightarrow> bool" where
  "fine w \<longleftrightarrow> only_deletions w \<and> spans_erased w \<and> directives_kept w"

definition ready :: "byte_span list \<Rightarrow> directive list \<Rightarrow> walk \<Rightarrow> bool" where
  "ready ss ds w \<longleftrightarrow>
     spread (pending_erased w) \<and> apart (pending_directives w) \<and>
     (\<forall>i \<ge> source_offset w. held (pending_erased w) i \<longleftrightarrow> held ss i) \<and>
     (\<forall>i \<ge> source_offset w. held (pending_directives w) i \<longleftrightarrow> held (map dir_span ds) i)"

lemma spread_apart: "spread ss \<Longrightarrow> apart ss"
  by (simp add: spread_def apart_def)

lemma apart_dropWhile: "apart ss \<Longrightarrow> apart (dropWhile P ss)"
  by (induction ss) (auto simp: apart_def)

lemma spread_dropWhile: "spread ss \<Longrightarrow> spread (dropWhile P ss)"
  by (induction ss) (auto simp: spread_def)

lemma held_dropWhile: "i \<le> k \<Longrightarrow> held (dropWhile (\<lambda>s. span_end s \<le> i) ss) k \<longleftrightarrow> held ss k"
  by (induction ss) (auto simp: holds_byte_def)

lemma head_starts_held: "apart ss \<Longrightarrow> head_starts i (dropWhile (\<lambda>s. span_end s \<le> i) ss) \<longleftrightarrow> held ss i"
proof (induction ss)
  case (Cons s ss)
  show ?case
  proof (cases "span_end s \<le> i")
    case True
    then show ?thesis using Cons by (simp add: apart_def holds_byte_def)
  next
    case False
    have "\<not> held ss i" if "i < span_offset s"
      using that False Cons.prems by (fastforce simp: apart_def held_def holds_byte_def)
    then show ?thesis using False by (cases "span_offset s \<le> i") (auto simp: head_starts_def holds_byte_def held_def)
  qed
qed (simp add: head_starts_def)

definition byte_at :: "byte_span list \<Rightarrow> directive list \<Rightarrow> char \<Rightarrow> nat \<Rightarrow> char" where
  "byte_at ss ds written i =
     (if held ss i \<and> \<not> held (map dir_span ds) i then blanked written else written)"

lemma compare_byte_facts:
  assumes r: "ready ss ds w" and c: "compare_byte kept written w = (goes_on, w')"
  shows "ready ss ds w'" "source_offset w' = source_offset w" "runtime_offset w' = runtime_offset w"
    "columns_preserved w' = columns_preserved w" "lowerings_canonical w' = lowerings_canonical w"
    "fine w' \<longleftrightarrow> fine w \<and> kept = byte_at ss ds written (source_offset w)"
    "kept = byte_at ss ds written (source_offset w) \<Longrightarrow> goes_on"
    "spans_erased w' \<Longrightarrow> spans_erased w"
proof -
  let ?i = "source_offset w"
  have e: "head_starts ?i (dropWhile (\<lambda>s. span_end s \<le> ?i) (pending_erased w)) \<longleftrightarrow> held ss ?i"
    and d: "head_starts ?i (dropWhile (\<lambda>s. span_end s \<le> ?i) (pending_directives w)) \<longleftrightarrow> held (map dir_span ds) ?i"
    using r head_starts_held spread_apart by (auto simp: ready_def)
  show "ready ss ds w'"
    using r c by (auto simp: ready_def compare_byte_def erased_at_def directive_here_def pass_erased_def pass_directives_def
        Let_def held_dropWhile spread_dropWhile apart_dropWhile split: if_splits)
  show "source_offset w' = source_offset w" "runtime_offset w' = runtime_offset w"
    "columns_preserved w' = columns_preserved w" "lowerings_canonical w' = lowerings_canonical w"
    "spans_erased w' \<Longrightarrow> spans_erased w"
    using c by (auto simp: compare_byte_def erased_at_def directive_here_def pass_erased_def pass_directives_def
        Let_def split: if_splits)
  show "fine w' \<longleftrightarrow> fine w \<and> kept = byte_at ss ds written (source_offset w)"
    using c by (auto simp: compare_byte_def erased_at_def directive_here_def pass_erased_def pass_directives_def
        Let_def e d fine_def byte_at_def split: if_splits)
  show "kept = byte_at ss ds written (source_offset w) \<Longrightarrow> goes_on"
    using c by (auto simp: compare_byte_def erased_at_def directive_here_def pass_erased_def pass_directives_def
        Let_def e d byte_at_def split: if_splits)
qed

lemma fine_moved [simp]: "fine (next_byte w) = fine w"
  by (simp add: fine_def next_byte_def)

lemma substr_Cons: "i < length xs \<Longrightarrow> substr xs i (Suc n) = xs ! i # substr xs (Suc i) n"
  by (simp add: substr_def flip: Cons_nth_drop_Suc)

lemma kept_bytes_Cons:
  "i < j \<Longrightarrow> kept_bytes ss ds xs i j = byte_at ss ds (xs ! i) i # kept_bytes ss ds xs (Suc i) j"
  by (simp add: kept_bytes_def kept_byte_def byte_at_def upt_conv_Cons)

lemma length_kept_bytes [simp]: "length (kept_bytes ss ds xs i j) = j - i"
  by (simp add: kept_bytes_def)

text \<open>The part of the runtime text a stretch of the walk compares.\<close>

definition keeps :: "byte_span list \<Rightarrow> directive list \<Rightarrow> string \<Rightarrow> string \<Rightarrow> nat \<Rightarrow> nat \<Rightarrow> nat \<Rightarrow> bool" where
  "keeps ss ds xs ys i j k \<longleftrightarrow> k + (j - i) \<le> length ys \<and> substr ys k (j - i) = kept_bytes ss ds xs i j"

lemma compare_until_facts:
  assumes "ready ss ds w" and "source_offset w \<le> stop" and "runtime_offset w \<le> length ys"
    and w': "w' = compare_until xs ys stop w"
  shows "ready ss ds w' \<and> columns_preserved w' = columns_preserved w \<and> lowerings_canonical w' = lowerings_canonical w \<and>
     (spans_erased w' \<longrightarrow> spans_erased w) \<and>
     (fine w' \<longleftrightarrow> fine w \<and> keeps ss ds xs ys (source_offset w) stop (runtime_offset w)) \<and>
     (fine w' \<longrightarrow> source_offset w' = stop \<and> runtime_offset w' = runtime_offset w + (stop - source_offset w))"
  using assms(1-3) unfolding w'
proof (induction xs ys stop w rule: compare_until.induct)
  case (1 xs ys stop w)
  let ?i = "source_offset w" and ?k = "runtime_offset w"
  consider "stop \<le> ?i" | "?i < stop" "length ys \<le> ?k" | "?i < stop" "?k < length ys" by linarith
  then show ?case
  proof cases
    case 1
    then have "compare_until xs ys stop w = w" by (simp add: compare_until.simps)
    then show ?thesis using 1 "1.prems" by (simp add: keeps_def kept_bytes_def substr_def)
  next
    case 2
    then have "compare_until xs ys stop w = w\<lparr>only_deletions := False\<rparr>" by (simp add: compare_until.simps)
    moreover have "\<not> keeps ss ds xs ys ?i stop ?k" unfolding keeps_def using 2 by linarith
    ultimately show ?thesis using "1.prems" by (simp add: fine_def ready_def)
  next
    case 3
    obtain g w1 where c: "compare_byte (ys ! ?k) (xs ! ?i) w = (g, w1)" by (cases "compare_byte (ys ! ?k) (xs ! ?i) w")
    note b = compare_byte_facts [OF "1.prems"(1) c]
    have e: "compare_until xs ys stop w = (if g then compare_until xs ys stop (next_byte w1) else w1)"
      using 3 c by (subst compare_until.simps) simp
    have n: "stop - ?i = Suc (stop - Suc ?i)" using 3 by simp
    have keeps: "keeps ss ds xs ys ?i stop ?k \<longleftrightarrow>
        ys ! ?k = byte_at ss ds (xs ! ?i) ?i \<and> keeps ss ds xs ys (Suc ?i) stop (Suc ?k)"
      using 3 by (auto simp: keeps_def n substr_Cons kept_bytes_Cons)
    show ?thesis
    proof (cases g)
      case True
      have "ready ss ds (next_byte w1)" using b(1) by (simp add: ready_def next_byte_def)
      moreover have "source_offset (next_byte w1) = Suc ?i" "runtime_offset (next_byte w1) = Suc ?k"
        using b(2,3) by (simp_all add: next_byte_def)
      ultimately show ?thesis
        using "1.IH" [OF _ _ c [symmetric] refl, of] True 3 b keeps n unfolding e
        by (auto simp: next_byte_def fine_def)
    next
      case False
      then have "ys ! ?k \<noteq> byte_at ss ds (xs ! ?i) ?i" using b(7) by blast
      then show ?thesis using False b keeps unfolding e by auto
    qed
  qed
qed

section \<open>The lowerings\<close>

lemma clear_of_held:
  "(\<forall>s \<in> set ss. clear_of l s) \<longleftrightarrow>
     \<not> held ss (span_offset l) \<and> (\<forall>i. span_offset l \<le> i \<longrightarrow> i < span_end l \<longrightarrow> \<not> held ss i)"
proof
  assume clear: "\<forall>s \<in> set ss. clear_of l s"
  show "\<not> held ss (span_offset l) \<and> (\<forall>i. span_offset l \<le> i \<longrightarrow> i < span_end l \<longrightarrow> \<not> held ss i)"
    using clear by (fastforce simp: held_def holds_byte_def clear_of_def span_end_def)
next
  assume free: "\<not> held ss (span_offset l) \<and> (\<forall>i. span_offset l \<le> i \<longrightarrow> i < span_end l \<longrightarrow> \<not> held ss i)"
  have "clear_of l s" if s: "s \<in> set ss" for s
  proof (rule ccontr)
    assume "\<not> clear_of l s"
    then have n: "0 < span_length s" "span_offset l < span_end s" "span_offset s \<le> span_offset l \<or> span_offset s < span_end l"
      by (auto simp: clear_of_def)
    have "holds_byte s (max (span_offset l) (span_offset s))" using n by (auto simp: holds_byte_def span_end_def)
    then have "held ss (max (span_offset l) (span_offset s))" using s by (auto simp: held_def)
    moreover have "max (span_offset l) (span_offset s) = span_offset l \<or> max (span_offset l) (span_offset s) < span_end l"
      using n(3) by (auto simp: max_def)
    ultimately show False using free by auto
  qed
  then show "\<forall>s \<in> set ss. clear_of l s" by blast
qed

text \<open>The test of the code, on the first pending span alone.\<close>

lemma pending_clear:
  assumes r: "ready ss ds w" and at: "source_offset w \<le> span_offset l"
    and e: "erased_at (span_offset l) w = (erased, w')"
  shows "erased \<or> (pending_erased w' \<noteq> [] \<and> span_offset (hd (pending_erased w')) < span_end l) \<longleftrightarrow>
     \<not> (\<forall>s \<in> set ss. clear_of l s)"
proof -
  let ?i = "span_offset l" and ?p = "dropWhile (\<lambda>s. span_end s \<le> span_offset l) (pending_erased w)"
  have p: "pending_erased w' = ?p" and erased: "erased = head_starts ?i ?p"
    using e by (auto simp: erased_at_def pass_erased_def Let_def)
  have apart: "apart (pending_erased w)" and spread: "spread ?p" using r spread_apart spread_dropWhile by (auto simp: ready_def)
  have held: "held ?p k \<longleftrightarrow> held ss k" if "?i \<le> k" for k
    using that r at held_dropWhile [OF that, of "pending_erased w"] by (simp add: ready_def)
  have e1: "erased \<longleftrightarrow> held ss ?i" using erased head_starts_held [OF apart] r at by (simp add: ready_def)
  have e2: "(\<exists>k. ?i \<le> k \<and> k < span_end l \<and> held ss k)" if "?p \<noteq> []" "span_offset (hd ?p) < span_end l" "\<not> erased"
  proof -
    from that(1) obtain s ss' where s: "?p = s # ss'" unfolding neq_Nil_conv by blast
    have "?i < span_end s" using s by (metis dropWhile_eq_Cons_conv not_le)
    moreover have "?i < span_offset s" using that(3) by (simp add: erased s head_starts_def)
    moreover have "0 < span_length s" using spread s by (simp add: spread_def)
    ultimately have "holds_byte s (span_offset s)" by (simp add: holds_byte_def span_end_def)
    then have "held ?p (span_offset s)" unfolding s by simp
    then show ?thesis using held [of "span_offset s"] \<open>?i < span_offset s\<close> that(2) s by (intro exI [of _ "span_offset s"]) simp
  qed
  have e3: "?p \<noteq> [] \<and> span_offset (hd ?p) < span_end l" if "?i \<le> k" "k < span_end l" "held ss k" for k
  proof -
    have "held ?p k" using held that by blast
    then obtain s where s: "s \<in> set ?p" "span_offset s \<le> k" by (auto simp: held_def holds_byte_def)
    then obtain t ts where t: "?p = t # ts" by (cases ?p) auto
    have "span_offset t \<le> span_offset s"
      using spread s(1) unfolding t by (auto simp: spread_def span_end_def)
    then show ?thesis using s that unfolding t by auto
  qed
  show ?thesis unfolding clear_of_held p using e1 e2 e3 by blast
qed

definition passing :: "walk \<Rightarrow> bool" where
  "passing w \<longleftrightarrow> fine w \<and> columns_preserved w \<and> lowerings_canonical w"

lemma drop_eq_append:
  assumes "k \<le> length ys"
  shows "drop k ys = us @ zs \<longleftrightarrow>
     k + length us \<le> length ys \<and> take (length us) (drop k ys) = us \<and> drop (k + length us) ys = zs"
proof
  assume e: "drop k ys = us @ zs"
  have "length ys - k = length us + length zs" using arg_cong [OF e, of length] by simp
  moreover have "drop (k + length us) ys = drop (length us) (drop k ys)" by (simp add: add.commute)
  ultimately show "k + length us \<le> length ys \<and> take (length us) (drop k ys) = us \<and> drop (k + length us) ys = zs"
    using assms by (simp add: e)
next
  assume e: "k + length us \<le> length ys \<and> take (length us) (drop k ys) = us \<and> drop (k + length us) ys = zs"
  have "drop k ys = take (length us) (drop k ys) @ drop (k + length us) ys"
    by (metis append_take_drop_id drop_drop add.commute)
  then show "drop k ys = us @ zs" using e by simp
qed

lemma keeps_drop:
  "k \<le> length ys \<Longrightarrow> drop k ys = kept_bytes ss ds xs i j @ zs \<longleftrightarrow>
     keeps ss ds xs ys i j k \<and> drop (k + (j - i)) ys = zs"
  by (simp add: drop_eq_append keeps_def substr_def)

text \<open>What is lost stays lost.\<close>

definition lost :: "walk \<Rightarrow> bool" where
  "lost w \<longleftrightarrow> \<not> only_deletions w \<or> \<not> spans_erased w \<or> \<not> directives_kept w \<or> \<not> columns_preserved w \<or> \<not> lowerings_canonical w"

lemma lost_iff: "lost w \<longleftrightarrow> \<not> passing w"
  by (auto simp: lost_def passing_def fine_def)

lemma compare_byte_lost: "compare_byte kept written w = (goes_on, w') \<Longrightarrow> lost w \<Longrightarrow> lost w'"
  by (auto simp: lost_def compare_byte_def erased_at_def directive_here_def pass_erased_def pass_directives_def Let_def
      split: if_splits)

lemma compare_until_lost: "lost w \<Longrightarrow> lost (compare_until xs ys stop w)"
proof (induction xs ys stop w rule: compare_until.induct)
  case (1 xs ys stop w)
  obtain g w1 where c: "compare_byte (ys ! runtime_offset w) (xs ! source_offset w) w = (g, w1)"
    by (cases "compare_byte (ys ! runtime_offset w) (xs ! source_offset w) w")
  have "lost w1" using compare_byte_lost [OF c "1.prems"] .
  moreover have "lost (next_byte w1)" using \<open>lost w1\<close> by (simp add: lost_def next_byte_def)
  ultimately show ?case
    using "1.IH" [OF _ _ c [symmetric] refl] "1.prems" c by (subst compare_until.simps) (auto simp: lost_def)
qed

lemma walk_lowerings_lost: "lost w \<Longrightarrow> lost (walk_lowerings xs ys ls w)"
proof (induction ls arbitrary: w)
  case (Cons l ls)
  let ?w1 = "compare_until xs ys (span_offset (low_span l)) w"
  obtain erased w2 where e: "erased_at (span_offset (low_span l)) ?w1 = (erased, w2)"
    by (cases "erased_at (span_offset (low_span l)) ?w1")
  have w1: "lost ?w1" using compare_until_lost [OF Cons.prems] .
  then have w2: "lost w2" using e by (auto simp: lost_def erased_at_def pass_erased_def Let_def)
  let ?w3 = "w2\<lparr>lowered_bytes := lowered_bytes w2 + length (low_text l),
    runtime_offset := runtime_offset w2 + length (low_text l), source_offset := span_end (low_span l)\<rparr>"
  have w3: "lost ?w3" "lost (?w3\<lparr>columns_preserved := False\<rparr>)" using w2 by (simp_all add: lost_def)
  have canonical: "lost (u\<lparr>lowerings_canonical := False\<rparr>)" for u by (simp add: lost_def)
  show ?case
    using w1 canonical Cons.IH [OF w3(1)] Cons.IH [OF w3(2)] by (simp add: Let_def e)
qed simp

lemma finish_walk_lost: "lost w \<Longrightarrow> lost (finish_walk xs ys w)"
  using compare_until_lost [of w xs ys "length xs"] by (auto simp: finish_walk_def Let_def) (simp add: lost_def)

lemma good_lowering:
  assumes r: "ready ss ds w" and i: "source_offset w \<le> span_offset l" "runtime_offset w \<le> length ys"
    and w1: "w1 = compare_until xs ys (span_offset l) w" and e: "erased_at (span_offset l) w1 = (erased, w2)"
  shows "columns_preserved w2 = columns_preserved w" "lowerings_canonical w2 = lowerings_canonical w"
    and "fine w2 \<longleftrightarrow> fine w \<and> keeps ss ds xs ys (source_offset w) (span_offset l) (runtime_offset w)"
    and "fine w2 \<Longrightarrow> ready ss ds w2 \<and> source_offset w2 = span_offset l \<and>
        runtime_offset w2 = runtime_offset w + (span_offset l - source_offset w) \<and> runtime_offset w2 \<le> length ys \<and>
        (erased \<or> (pending_erased w2 \<noteq> [] \<and> span_offset (hd (pending_erased w2)) < span_end l) \<longleftrightarrow>
           \<not> (\<forall>s \<in> set ss. clear_of l s))"
proof -
  note f = compare_until_facts [OF r i w1]
  have p: "w2 = w1\<lparr>pending_erased := dropWhile (\<lambda>s. span_end s \<le> span_offset l) (pending_erased w1)\<rparr>"
    using e by (auto simp: erased_at_def pass_erased_def Let_def)
  have same: "fine w2 = fine w1" by (simp add: p fine_def)
  show "columns_preserved w2 = columns_preserved w" "lowerings_canonical w2 = lowerings_canonical w"
    using f by (simp_all add: p)
  show "fine w2 \<longleftrightarrow> fine w \<and> keeps ss ds xs ys (source_offset w) (span_offset l) (runtime_offset w)"
    using f same by simp
  assume fine: "fine w2"
  then have off: "source_offset w1 = span_offset l" "runtime_offset w1 = runtime_offset w + (span_offset l - source_offset w)"
    and keeps: "keeps ss ds xs ys (source_offset w) (span_offset l) (runtime_offset w)" and ready: "ready ss ds w1"
    using f same by auto
  have "ready ss ds w2"
    using ready off(1) by (simp add: p ready_def held_dropWhile spread_dropWhile)
  moreover have "erased \<or> (pending_erased w2 \<noteq> [] \<and> span_offset (hd (pending_erased w2)) < span_end l) \<longleftrightarrow>
      \<not> (\<forall>s \<in> set ss. clear_of l s)"
    using pending_clear [OF ready _ e] off(1) by simp
  ultimately show "ready ss ds w2 \<and> source_offset w2 = span_offset l \<and>
      runtime_offset w2 = runtime_offset w + (span_offset l - source_offset w) \<and> runtime_offset w2 \<le> length ys \<and>
      (erased \<or> (pending_erased w2 \<noteq> [] \<and> span_offset (hd (pending_erased w2)) < span_end l) \<longleftrightarrow>
         \<not> (\<forall>s \<in> set ss. clear_of l s))"
    using off keeps by (simp add: p keeps_def)
qed

lemma good_finish:
  assumes r: "ready ss ds w" and i: "source_offset w \<le> length xs" "runtime_offset w \<le> length ys"
  shows "passing (finish_walk xs ys w) \<longleftrightarrow> passing w \<and> drop (runtime_offset w) ys = kept_bytes ss ds xs (source_offset w) (length xs)"
proof (cases "only_deletions w \<and> directives_kept w \<and> lowerings_canonical w")
  case False
  then show ?thesis by (auto simp: finish_walk_def passing_def fine_def)
next
  case True
  let ?w1 = "compare_until xs ys (length xs) w"
  note f = compare_until_facts [OF r i refl, of xs]
  have d: "drop (runtime_offset w) ys = kept_bytes ss ds xs (source_offset w) (length xs) \<longleftrightarrow>
      keeps ss ds xs ys (source_offset w) (length xs) (runtime_offset w) \<and>
      drop (runtime_offset w + (length xs - source_offset w)) ys = []"
    using keeps_drop [OF i(2), of ss ds xs "source_offset w" "length xs" "[]"] by simp
  have "passing (finish_walk xs ys w) \<longleftrightarrow> passing ?w1 \<and> runtime_offset ?w1 = length ys"
    using True by (auto simp: finish_walk_def passing_def fine_def Let_def)
  also have "\<dots> \<longleftrightarrow> passing w \<and> drop (runtime_offset w) ys = kept_bytes ss ds xs (source_offset w) (length xs)"
    unfolding d using f by (auto simp: passing_def keeps_def)
  finally show ?thesis .
qed

lemma good_walk:
  "ready ss ds w \<Longrightarrow> source_offset w \<le> length xs \<Longrightarrow> runtime_offset w \<le> length ys \<Longrightarrow>
     passing (finish_walk xs ys (walk_lowerings xs ys ls w)) \<longleftrightarrow>
     passing w \<and> placed_from ss xs ls (source_offset w) \<and>
     drop (runtime_offset w) ys = reference_from ss ds xs ls (source_offset w) \<and>
     columns_from ss ds xs ys ls (source_offset w) (runtime_offset w)"
proof (induction ls arbitrary: w)
  case Nil
  then show ?case by (simp add: good_finish)
next
  case (Cons l ls)
  let ?l = "low_span l" and ?n = "length (low_text l)"
  let ?w1 = "compare_until xs ys (span_offset ?l) w"
  obtain erased w2 where e: "erased_at (span_offset ?l) ?w1 = (erased, w2)" by (cases "erased_at (span_offset ?l) ?w1")
  have bad: "\<not> passing (finish_walk xs ys u)" if "lost u" for u
    using finish_walk_lost [OF that] by (simp add: lost_iff)
  consider "\<not> (source_offset w \<le> span_offset ?l \<and> span_end ?l \<le> length xs)"
    | "source_offset w \<le> span_offset ?l" "span_end ?l \<le> length xs" by blast
  then show ?case
  proof cases
    case 1
    then have "walk_lowerings xs ys (l # ls) w = w\<lparr>lowerings_canonical := False\<rparr>" by (auto simp: Let_def)
    then show ?thesis using 1 bad by (auto simp: lost_def)
  next
    case 2
    note g = good_lowering [OF Cons.prems(1) 2(1) Cons.prems(3) refl e]
    show ?thesis
    proof (cases "passing w \<and> fine w2")
      case False
      have "\<not> passing (finish_walk xs ys (walk_lowerings xs ys (l # ls) w))"
      proof (cases "passing w")
        case True
        then have "lost ?w1" using False g e by (auto simp: lost_def fine_def erased_at_def pass_erased_def Let_def)
        then have "lost w2" using e by (auto simp: lost_def erased_at_def pass_erased_def Let_def)
        then have "lost (w2\<lparr>lowered_bytes := a, runtime_offset := b, source_offset := c\<rparr>)"
          "lost (w2\<lparr>lowered_bytes := a, runtime_offset := b, source_offset := c, columns_preserved := False\<rparr>)" for a b c
          by (simp_all add: lost_def)
        then have "lost (walk_lowerings xs ys (l # ls) w)"
          using \<open>lost ?w1\<close> walk_lowerings_lost [of _ xs ys ls] by (simp add: Let_def e) (simp add: lost_def)
        then show ?thesis by (rule bad)
      next
        case False
        then show ?thesis using bad walk_lowerings_lost [of w xs ys "l # ls"] lost_iff by blast
      qed
      moreover have "\<not> (passing w \<and> drop (runtime_offset w) ys = reference_from ss ds xs (l # ls) (source_offset w))"
        using False g(3) keeps_drop [OF Cons.prems(3)] by (auto simp: passing_def)
      ultimately show ?thesis by blast
    next
      case True
      then have w2: "ready ss ds w2" "source_offset w2 = span_offset ?l"
        "runtime_offset w2 = runtime_offset w + (span_offset ?l - source_offset w)" "runtime_offset w2 \<le> length ys"
        "erased \<or> (pending_erased w2 \<noteq> [] \<and> span_offset (hd (pending_erased w2)) < span_end ?l) \<longleftrightarrow>
           \<not> (\<forall>s \<in> set ss. clear_of ?l s)"
        and keeps: "keeps ss ds xs ys (source_offset w) (span_offset ?l) (runtime_offset w)"
        and flags: "passing w2" "only_deletions ?w1" "directives_kept ?w1"
        using g e by (auto simp: passing_def fine_def erased_at_def pass_erased_def Let_def)
      let ?w3 = "w2\<lparr>lowered_bytes := lowered_bytes w2 + ?n, runtime_offset := runtime_offset w2 + ?n, source_offset := span_end ?l\<rparr>"
      let ?ok = "column_of ys (runtime_offset w2 + ?n) = column_of xs (span_end ?l) \<or> rest_of_line_blank xs (span_end ?l)"
      let ?w4 = "if ?ok then ?w3 else ?w3\<lparr>columns_preserved := False\<rparr>"
      have walk: "walk_lowerings xs ys (l # ls) w =
          (if (\<exists>s \<in> set ss. \<not> clear_of ?l s) \<or> substr ys (runtime_offset w2) ?n \<noteq> low_text l
           then w2\<lparr>lowerings_canonical := False\<rparr> else walk_lowerings xs ys ls ?w4)"
        using 2 w2(5) flags(2,3) e by (auto simp: Let_def)
      have d: "drop (runtime_offset w) ys = reference_from ss ds xs (l # ls) (source_offset w) \<longleftrightarrow>
          drop (runtime_offset w2) ys = low_text l @ reference_from ss ds xs ls (span_end ?l)"
        using keeps keeps_drop [OF Cons.prems(3)] w2(3) by simp
      show ?thesis
      proof (cases "(\<forall>s \<in> set ss. clear_of ?l s) \<and> substr ys (runtime_offset w2) ?n = low_text l")
        case False
        then have "walk_lowerings xs ys (l # ls) w = w2\<lparr>lowerings_canonical := False\<rparr>" unfolding walk by auto
        moreover have "\<not> ((\<forall>s \<in> set ss. clear_of ?l s) \<and>
            drop (runtime_offset w) ys = reference_from ss ds xs (l # ls) (source_offset w))"
          using False unfolding d drop_eq_append [OF w2(4)] by (auto simp: substr_def)
        ultimately show ?thesis using bad [of "w2\<lparr>lowerings_canonical := False\<rparr>"] by (auto simp: lost_def)
      next
        case here: True
        then have n: "runtime_offset w2 + ?n \<le> length ys" using w2(4) length_substr [of ys "runtime_offset w2" ?n] by simp
        have w4: "ready ss ds ?w4" "source_offset ?w4 = span_end ?l" "runtime_offset ?w4 = runtime_offset w2 + ?n"
          "passing ?w4 \<longleftrightarrow> ?ok"
          using w2(1,2) flags(1) by (auto simp: ready_def passing_def fine_def span_end_def)
        have "drop (runtime_offset w2) ys = low_text l @ reference_from ss ds xs ls (span_end ?l) \<longleftrightarrow>
            drop (runtime_offset w2 + ?n) ys = reference_from ss ds xs ls (span_end ?l)"
          using here n unfolding drop_eq_append [OF w2(4)] by (simp add: substr_def)
        moreover have "walk_lowerings xs ys (l # ls) w = walk_lowerings xs ys ls ?w4" using here walk by auto
        ultimately show ?thesis
          using Cons.IH [OF w4(1)] 2 n here True w2(3) unfolding d w4(2-4) by (auto simp: Let_def add.assoc)
      qed
    qed
  qed
qed

text \<open>The check accepts exactly the reference.\<close>

lemma preserved_iff:
  assumes "apart (map dir_span ds)"
  shows "preserved (erase_report xs ys ss ds ls) \<longleftrightarrow> erases_to ss ds xs ls ys"
proof -
  let ?w = "start_walk xs (disjoint_spans ss) ds"
  have r: "ready ss ds ?w" using assms by (simp add: ready_def start_walk_def disjoint_spans_facts)
  have "passing ?w \<longleftrightarrow> within_text ss xs"
    by (simp add: passing_def fine_def start_walk_def list_all_iff within_text_def disjoint_spans_facts(3))
  moreover have "passing (walk_texts xs ys ss ds ls) \<longleftrightarrow>
      passing ?w \<and> placed_from ss xs ls 0 \<and> ys = reference_from ss ds xs ls 0 \<and> columns_from ss ds xs ys ls 0 0"
    using good_walk [OF r, of xs ys ls] by (simp add: walk_texts_def start_walk_def)
  ultimately show ?thesis
    by (auto simp: preserved_def erase_report_def Let_def passing_def fine_def erases_to_def)
qed

end
