(* ===== verification/Projection_Facts.thy ===== *)
theory Projection_Facts
  imports Erasure_Facts
begin

text \<open>
  The runtime text the projector makes is the reference of the erasure check, and the check
  accepts it where the lowerings stand apart and fit the lines they replace.
\<close>

section \<open>Blanking\<close>

lemma apart_holds_unique:
  "apart ss \<Longrightarrow> s \<in> set ss \<Longrightarrow> t \<in> set ss \<Longrightarrow> holds_byte s i \<Longrightarrow> holds_byte t i \<Longrightarrow> s = t"
  by (induction ss) (fastforce simp: apart_def holds_byte_def)+

lemma apart_not_held_after:
  assumes "apart (s # ss)" and "i < span_end s"
  shows "\<not> held ss i"
  using assms by (fastforce simp: apart_def held_def holds_byte_def)

text \<open>The directive found at an offset is the one that holds it, if any does.\<close>

lemma directive_at_None:
  assumes "apart (map dir_span ds)"
  shows "directive_at ds i = None \<longleftrightarrow> \<not> held (map dir_span ds) i"
proof -
  have "held (map dir_span ds) i" if "directive_at ds i = Some d" for d
    using directive_at_Some [OF that] by (auto simp: held_def)
  moreover have "directive_at ds i \<noteq> None" if "held (map dir_span ds) i"
    using that assms
  proof (induction ds)
    case (Cons d ds)
    show ?case
    proof (cases "takeWhile (\<lambda>d. span_offset (dir_span d) \<le> i) ds = []")
      case True
      have "\<not> held (map dir_span ds) i"
      proof
        assume "held (map dir_span ds) i"
        then obtain e where e: "e \<in> set ds" "holds_byte (dir_span e) i" by (auto simp: held_def)
        then obtain f fs where f: "ds = f # fs" by (cases ds) auto
        then have "i < span_offset (dir_span f)" using True by (auto split: if_splits)
        then have "i < span_offset (dir_span e)" using Cons.prems(2) e(1) f by (auto simp: apart_def span_end_def)
        then show False using e(2) by (simp add: holds_byte_def)
      qed
      then have "holds_byte (dir_span d) i" using Cons.prems(1) by simp
      then show ?thesis using True by (simp add: directive_at_def holds_byte_def)
    next
      case False
      then have "span_offset (dir_span d) \<le> i"
      proof -
        from False obtain f fs where f: "ds = f # fs" "span_offset (dir_span f) \<le> i"
          by (cases ds) (auto split: if_splits)
        then show ?thesis using Cons.prems(2) by (auto simp: apart_def span_end_def)
      qed
      moreover have "directive_at ds i \<noteq> None"
      proof -
        have "\<not> holds_byte (dir_span d) i"
        proof -
          from False obtain f fs where f: "ds = f # fs" "span_offset (dir_span f) \<le> i"
            by (cases ds) (auto split: if_splits)
          then show ?thesis using Cons.prems(2) by (auto simp: apart_def holds_byte_def)
        qed
        then show ?thesis using Cons by (auto simp: apart_def)
      qed
      ultimately show ?thesis using False by (auto simp: directive_at_def Let_def split: if_splits)
    qed
  qed simp
  ultimately show ?thesis by (cases "directive_at ds i") auto
qed

text \<open>The byte a pass of the projector leaves at an offset.\<close>

definition blank_byte :: "directive list \<Rightarrow> char \<Rightarrow> nat \<Rightarrow> char" where
  "blank_byte ds c i = (if c = newline \<or> held (map dir_span ds) i then c else CHR '' '')"

lemma blank_byte_idem [simp]: "blank_byte ds (blank_byte ds c i) i = blank_byte ds c i"
  by (simp add: blank_byte_def)

lemma length_blank_from [simp]: "length (blank_from ds base stop i buffer) = length buffer"
proof (induction ds base stop i buffer rule: blank_from.induct)
  case (1 ds base stop i buffer)
  show ?case using 1 by (subst blank_from.simps) (auto split: option.splits)
qed

lemma nth_blank_from:
  assumes "apart (map dir_span ds)" and "stop \<le> length buffer" and "k < length buffer"
  shows "blank_from ds base stop i buffer ! k =
     (if i \<le> k \<and> k < stop then blank_byte ds (buffer ! k) (base + k) else buffer ! k)"
  using assms
proof (induction ds base stop i buffer rule: blank_from.induct)
  case (1 ds base stop i buffer)
  note apart = "1.prems"(1) and b = "1.prems"(2,3)
  show ?case
  proof -
    consider "stop \<le> i" | "i < stop" "buffer ! i = newline"
      | d where "i < stop" "buffer ! i \<noteq> newline" "directive_at ds (base + i) = Some d"
      | "i < stop" "buffer ! i \<noteq> newline" "directive_at ds (base + i) = None" by fastforce
    then show "blank_from ds base stop i buffer ! k =
        (if i \<le> k \<and> k < stop then blank_byte ds (buffer ! k) (base + k) else buffer ! k)"
    proof cases
      case 1
      then show ?thesis by (subst blank_from.simps) auto
    next
      case 2
      then have "blank_from ds base stop (Suc i) buffer ! k =
          (if Suc i \<le> k \<and> k < stop then blank_byte ds (buffer ! k) (base + k) else buffer ! k)"
        using "1.IH"(1) apart b by simp
      then show ?thesis using 2 by (subst blank_from.simps) (auto simp: blank_byte_def le_Suc_eq Suc_le_eq nat_less_le)
    next
      case (3 d)
      let ?j = "min (span_end (dir_span d) - base) stop"
      have d: "dir_span d \<in> set (map dir_span ds)" "holds_byte (dir_span d) (base + i)" using directive_at_Some [OF 3(3)] by auto
      have "held (map dir_span ds) (base + k)" if "i \<le> k" "k < ?j"
      proof -
        have "holds_byte (dir_span d) (base + k)" using d(2) that by (auto simp: holds_byte_def)
        then show ?thesis using d(1) unfolding held_def by blast
      qed
      moreover have "i \<le> ?j" using 3(1) d(2) by (auto simp: holds_byte_def)
      moreover have "blank_from ds base stop ?j buffer ! k =
          (if ?j \<le> k \<and> k < stop then blank_byte ds (buffer ! k) (base + k) else buffer ! k)"
        using "1.IH"(3) 3 apart b by simp
      moreover have "blank_from ds base stop i buffer = blank_from ds base stop ?j buffer"
        using 3 by (subst blank_from.simps) simp
      ultimately show ?thesis by (cases "?j \<le> k") (simp_all add: blank_byte_def)
    next
      case 4
      then have "\<not> held (map dir_span ds) (base + i)" using directive_at_None [OF apart] by blast
      moreover have "blank_from ds base stop (Suc i) (buffer[i := CHR '' '']) ! k =
          (if Suc i \<le> k \<and> k < stop then blank_byte ds (buffer[i := CHR '' ''] ! k) (base + k) else buffer[i := CHR '' ''] ! k)"
        using "1.IH"(2) 4 apart b by simp
      ultimately show ?thesis using 4 b
        by (subst blank_from.simps) (auto simp: blank_byte_def nth_list_update)
    qed
  qed
qed

lemma nth_blank:
  assumes "apart (map dir_span ds)" and "k < length buffer"
  shows "blank ds base s buffer ! k = (if holds_byte s k then blank_byte ds (buffer ! k) (base + k) else buffer ! k)"
  using assms nth_blank_from [of ds "min (span_end s) (length buffer)" buffer k base "span_offset s"]
  by (auto simp: blank_def holds_byte_def)

lemma length_blank [simp]: "length (blank ds base s buffer) = length buffer"
  by (simp add: blank_def)

lemma blank_passes:
  assumes "apart (map dir_span ds)"
  shows "length (foldl (\<lambda>b s. blank ds 0 s b) buffer ss) = length buffer \<and>
     (\<forall>k < length buffer. foldl (\<lambda>b s. blank ds 0 s b) buffer ss ! k =
        (if held ss k then blank_byte ds (buffer ! k) k else buffer ! k))"
  by (induction ss arbitrary: buffer) (auto simp: nth_blank [OF assms])

lemma blanked_text:
  assumes "apart (map dir_span ds)"
  shows "foldl (\<lambda>b s. blank ds 0 s b) xs ss = kept_bytes ss ds xs 0 (length xs)"
  using blank_passes [OF assms, of xs ss]
  by (auto intro!: nth_equalityI simp: kept_bytes_def kept_byte_def blank_byte_def blanked_def)

section \<open>Replacing from the back\<close>

lemma kept_bytes_split: "i \<le> j \<Longrightarrow> j \<le> k \<Longrightarrow> kept_bytes ss ds xs i k = kept_bytes ss ds xs i j @ kept_bytes ss ds xs j k"
  using upt_add_eq_append [of i j "k - j"] by (simp add: kept_bytes_def)

lemma take_kept_bytes: "j \<le> n \<Longrightarrow> take j (kept_bytes ss ds xs 0 n) = kept_bytes ss ds xs 0 j"
  by (simp add: kept_bytes_def take_map)

lemma drop_kept_bytes: "drop j (kept_bytes ss ds xs 0 n) = kept_bytes ss ds xs j n"
  by (simp add: kept_bytes_def drop_map)

lemma replace_from_the_back:
  "placed_from ss xs ls i \<Longrightarrow> i \<le> length xs \<Longrightarrow>
     foldr replace_span ls (kept_bytes ss ds xs 0 (length xs)) = kept_bytes ss ds xs 0 i @ reference_from ss ds xs ls i"
proof (induction ls arbitrary: i)
  case Nil
  then show ?case using kept_bytes_split [of 0 i "length xs"] by simp
next
  case (Cons l ls)
  let ?a = "span_offset (low_span l)" and ?b = "span_end (low_span l)"
  have at: "i \<le> ?a" "?a \<le> ?b" "?b \<le> length xs" using Cons.prems by (auto simp: span_end_def)
  have ih: "foldr replace_span ls (kept_bytes ss ds xs 0 (length xs)) = kept_bytes ss ds xs 0 ?b @ reference_from ss ds xs ls ?b"
    using Cons.IH [of ?b] Cons.prems at by simp
  have "take ?a (kept_bytes ss ds xs 0 ?b) = kept_bytes ss ds xs 0 i @ kept_bytes ss ds xs i ?a"
    using at by (simp add: take_kept_bytes kept_bytes_split [of 0 i ?a])
  then have "replace_span l (kept_bytes ss ds xs 0 ?b @ zs) = kept_bytes ss ds xs 0 i @ kept_bytes ss ds xs i ?a @ low_text l @ zs" for zs
    using at by (simp add: replace_span_def)
  then show ?case by (simp add: ih)
qed

lemma kept_bytes_cong: "set ss = set ts \<Longrightarrow> kept_bytes ss ds xs i j = kept_bytes ts ds xs i j"
  using held_set [of ss ts] by (simp add: kept_bytes_def kept_byte_def)

lemma reference_from_cong: "set ss = set ts \<Longrightarrow> reference_from ss ds xs ls i = reference_from ts ds xs ls i"
  by (induction ls arbitrary: i) (simp_all add: kept_bytes_cong [of ss ts])

lemma blanked_are_erased: "set (blanked_spans syn) = set (erased_spans_of syn)"
  by (auto simp: blanked_spans_def erased_spans_of_def)

text \<open>A construct of every kind becomes the same C++ for the projector and for the check.\<close>

lemma lowerings_agree:
  assumes "\<forall>v \<in> set (validations syn). \<not> refused_validation syn v"
  shows "sort_key (\<lambda>l. span_offset (low_span l)) (runtime_lowerings st syn) = expected_lowerings st syn"
  using assms by (simp add: runtime_lowerings_def expected_lowerings_def filter_True)

lemma runtime_text_is_reference:
  assumes "apart (map dir_span (stream_directives st))" and "\<forall>v \<in> set (validations syn). \<not> refused_validation syn v"
    and p: "placed_from (erased_spans_of syn) (stream_text st) (expected_lowerings st syn) 0"
  shows "runtime_text st syn =
     reference_from (erased_spans_of syn) (stream_directives st) (stream_text st) (expected_lowerings st syn) 0"
proof -
  let ?ss = "erased_spans_of syn" and ?xs = "stream_text st" and ?ds = "stream_directives st"
  have "runtime_text st syn = foldr replace_span (expected_lowerings st syn) (kept_bytes ?ss ?ds ?xs 0 (length ?xs))"
    unfolding runtime_text_def lowerings_agree [OF assms(2)] blanked_text [OF assms(1)]
    using kept_bytes_cong [OF blanked_are_erased] by simp
  then show ?thesis using replace_from_the_back [OF p] by (simp add: kept_bytes_def)
qed

section \<open>Lines and columns\<close>

text \<open>A text that stands for a span: as many lines, and a last line that moves nothing after it.\<close>

definition fits :: "string \<Rightarrow> lowering \<Rightarrow> bool" where
  "fits xs l \<longleftrightarrow>
     (let written = spelling xs (low_span l)
      in count_lines (low_text l) = count_lines written \<and>
         (last_line_length (low_text l) = last_line_length written \<or>
          rest_of_line_blank xs (span_end (low_span l))))"

lemma count_lines_append [simp]: "count_lines (us @ vs) = count_lines us + count_lines vs"
  by (simp add: count_lines_def)

lemma kept_byte_newline [simp]: "kept_byte ss ds xs i = newline \<longleftrightarrow> xs ! i = newline"
  by (auto simp: kept_byte_def blanked_def)

lemma count_kept_bytes: "i \<le> j \<Longrightarrow> j \<le> length xs \<Longrightarrow> count_lines (kept_bytes ss ds xs i j) = count_lines (substr xs i (j - i))"
proof (induction j rule: dec_induct)
  case (step n)
  have "substr xs i (Suc n - i) = substr xs i (n - i) @ [xs ! n]"
    using step by (simp add: substr_def Suc_diff_le take_Suc_conv_app_nth)
  moreover have "kept_bytes ss ds xs i (Suc n) = kept_bytes ss ds xs i n @ [kept_byte ss ds xs n]"
    using step by (simp add: kept_bytes_def)
  ultimately show ?case using step by (simp add: count_lines_def)
qed (simp add: kept_bytes_def substr_def)

lemma drop_substr: "i \<le> j \<Longrightarrow> drop i xs = substr xs i (j - i) @ drop j xs"
  unfolding substr_def by (metis append_take_drop_id drop_drop le_add_diff_inverse2)

lemma reference_lines:
  "placed_from ss xs ls i \<Longrightarrow> i \<le> length xs \<Longrightarrow> \<forall>l \<in> set ls. fits xs l \<Longrightarrow>
     count_lines (reference_from ss ds xs ls i) = count_lines (drop i xs)"
proof (induction ls arbitrary: i)
  case Nil
  then show ?case by (simp add: count_kept_bytes substr_def)
next
  case (Cons l ls)
  let ?a = "span_offset (low_span l)" and ?b = "span_end (low_span l)"
  have at: "i \<le> ?a" "?a \<le> ?b" "?b \<le> length xs" using Cons.prems by (auto simp: span_end_def)
  have "drop i xs = substr xs i (?a - i) @ spelling xs (low_span l) @ drop ?b xs"
    using drop_substr [OF at(1), of xs] drop_substr [OF at(2), of xs] by (simp add: spelling_def span_end_def)
  then show ?case using Cons at by (simp add: count_kept_bytes fits_def Let_def)
qed

lemma last_line_length_append:
  "last_line_length (us @ vs) = (if newline \<in> set vs then last_line_length vs else last_line_length us + length vs)"
proof (cases "newline \<in> set vs")
  case True
  then have "takeWhile (\<lambda>c. c \<noteq> newline) (rev vs @ rev us) = takeWhile (\<lambda>c. c \<noteq> newline) (rev vs)"
    by (metis (mono_tags, lifting) set_rev takeWhile_append1)
  then show ?thesis using True by (simp add: last_line_length_def column_of_def)
next
  case False
  then have "takeWhile (\<lambda>c. c \<noteq> newline) (rev vs @ rev us) = rev vs @ takeWhile (\<lambda>c. c \<noteq> newline) (rev us)"
    by (intro takeWhile_append2) auto
  then show ?thesis using False by (simp add: last_line_length_def column_of_def)
qed

lemma last_line_length_Nil [simp]: "last_line_length [] = 0"
  by (simp add: last_line_length_def)

lemma last_line_length_plain: "newline \<notin> set vs \<Longrightarrow> last_line_length vs = length vs"
  using last_line_length_append [of "[]" vs] by simp

lemma last_line_length_Cons:
  "last_line_length (c # cs) = (if newline \<in> set cs then last_line_length cs
     else if c = newline then length cs else Suc (length cs))"
  using last_line_length_append [of "[c]" cs] by (simp add: last_line_length_def column_of_def)

lemma column_of_prefix: "column_of (us @ vs) (length us) = last_line_length us"
  by (simp add: last_line_length_def column_of_def)

lemma same_lines:
  assumes "list_all2 (\<lambda>c d. c = newline \<longleftrightarrow> d = newline) us vs"
  shows "last_line_length us = last_line_length vs \<and> (newline \<in> set us \<longleftrightarrow> newline \<in> set vs)"
  using assms
proof (induction us arbitrary: vs)
  case (Cons c us)
  then obtain d ws where "vs = d # ws" by (cases vs) auto
  then have ih: "c = newline \<longleftrightarrow> d = newline" "last_line_length us = last_line_length ws"
    "newline \<in> set us \<longleftrightarrow> newline \<in> set ws" "length us = length ws"
    using Cons list_all2_lengthD [of _ us ws] by auto
  show ?case using ih by (auto simp: \<open>vs = d # ws\<close> last_line_length_Cons)
qed simp

lemma kept_lines:
  assumes "i \<le> j" and "j \<le> length xs"
  shows "last_line_length (kept_bytes ss ds xs i j) = last_line_length (substr xs i (j - i)) \<and>
     (newline \<in> set (kept_bytes ss ds xs i j) \<longleftrightarrow> newline \<in> set (substr xs i (j - i)))"
  by (rule same_lines) (use assms in \<open>simp add: list_all2_conv_all_nth kept_bytes_def substr_def\<close>)

lemma count_lines_0: "count_lines xs = 0 \<longleftrightarrow> newline \<notin> set xs"
  by (auto simp: count_lines_def filter_empty_conv)

text \<open>A prefix of the runtime text is level with an offset of the source.\<close>

definition level :: "string \<Rightarrow> nat \<Rightarrow> string \<Rightarrow> bool" where
  "level xs i us \<longleftrightarrow> last_line_length us = last_line_length (take i xs) \<or> rest_of_line_blank xs i"

lemma line_rest_plain:
  "newline \<notin> set (substr xs i n) \<Longrightarrow> line_rest xs i = substr xs i n @ line_rest xs (i + n)"
  unfolding line_rest_def
  by (subst drop_substr [of i "i + n" xs]) (auto intro!: takeWhile_append2)

lemma level_append:
  assumes l: "level xs i us" and n: "i + n \<le> length xs"
    and nl: "newline \<in> set vs \<longleftrightarrow> newline \<in> set (substr xs i n)"
    and e: "last_line_length vs = last_line_length (substr xs i n) \<or> rest_of_line_blank xs (i + n)"
  shows "level xs (i + n) (us @ vs)"
proof -
  have t: "take (i + n) xs = take i xs @ substr xs i n" by (simp add: substr_def take_add)
  show ?thesis
  proof (cases "newline \<in> set vs")
    case True
    then show ?thesis using nl e by (auto simp: level_def t last_line_length_append)
  next
    case False
    then have "length vs = length (substr xs i n) \<or> rest_of_line_blank xs (i + n)"
      using nl e by (auto simp: last_line_length_plain)
    moreover have "rest_of_line_blank xs i \<Longrightarrow> rest_of_line_blank xs (i + n)"
      using line_rest_plain [of xs i n] False nl by (simp add: rest_of_line_blank_def)
    ultimately show ?thesis using l False nl by (auto simp: level_def t last_line_length_append)
  qed
qed

lemma reference_columns:
  "placed_from ss xs ls i \<Longrightarrow> i \<le> length xs \<Longrightarrow> \<forall>l \<in> set ls. fits xs l \<Longrightarrow> level xs i us \<Longrightarrow>
     columns_from ss ds xs (us @ reference_from ss ds xs ls i) ls i (length us)"
proof (induction ls arbitrary: i us)
  case (Cons l ls)
  let ?a = "span_offset (low_span l)" and ?b = "span_end (low_span l)"
  let ?us = "us @ kept_bytes ss ds xs i ?a @ low_text l"
  have at: "i \<le> ?a" "?a \<le> ?b" "?b \<le> length xs" using Cons.prems by (auto simp: span_end_def)
  have "level xs (i + (?a - i)) (us @ kept_bytes ss ds xs i ?a)"
    using level_append [OF Cons.prems(4), of "?a - i"] kept_lines [of i ?a xs ss ds] at by simp
  then have mid: "level xs ?a (us @ kept_bytes ss ds xs i ?a)" using at by simp
  have f: "fits xs l" using Cons.prems(3) by simp
  have "count_lines (low_text l) = count_lines (substr xs ?a (span_length (low_span l)))"
    using f by (simp add: fits_def Let_def spelling_def)
  then have "newline \<in> set (low_text l) \<longleftrightarrow> newline \<in> set (substr xs ?a (span_length (low_span l)))"
    using count_lines_0 by metis
  then have past: "level xs ?b ?us"
    using level_append [OF mid, of "span_length (low_span l)" "low_text l"] f at
    by (simp add: fits_def Let_def spelling_def span_end_def)
  then have "column_of (?us @ reference_from ss ds xs ls ?b) (length ?us) = column_of xs ?b \<or> rest_of_line_blank xs ?b"
    using column_of_prefix [of ?us] column_of_prefix [of "take ?b xs" "drop ?b xs"] at by (simp add: level_def)
  moreover have "columns_from ss ds xs (?us @ reference_from ss ds xs ls ?b) ls ?b (length ?us)"
    using Cons.IH [OF _ at(3) _ past] Cons.prems by simp
  ultimately show ?case by (simp add: Let_def add.assoc)
qed simp

text \<open>What the projector leaves is accepted where the lowerings are placed and fit.\<close>

lemma projection_erases:
  assumes ds: "apart (map dir_span (stream_directives st))"
    and v: "\<forall>v \<in> set (validations syn). \<not> refused_validation syn v"
    and within: "within_text (erased_spans_of syn) (stream_text st)"
    and placed: "placed_from (erased_spans_of syn) (stream_text st) (expected_lowerings st syn) 0"
    and fit: "\<forall>l \<in> set (expected_lowerings st syn). fits (stream_text st) l"
  shows "erases_to (erased_spans_of syn) (stream_directives st) (stream_text st) (expected_lowerings st syn)
     (runtime_text st syn)"
  using reference_lines [OF placed _ fit] reference_columns [OF placed _ fit, of "[]"]
    runtime_text_is_reference [OF ds v placed] within placed
  by (simp add: erases_to_def level_def)

section \<open>Lowerings fit\<close>

lemma in_place_lines_plain:
  assumes "\<forall>i < length cs. line_directive_text st s (span_offset s + (k + i) + 1) = []"
  shows "in_place_lines st s k cs (lowered, last_line) =
     (lowered @ replicate (count_lines cs) newline,
      if newline \<in> set cs then k + length cs - last_line_length cs else last_line)"
  using assms
proof (induction cs arbitrary: k lowered last_line)
  case (Cons c cs)
  have n: "\<forall>i < length cs. line_directive_text st s (span_offset s + (Suc k + i) + 1) = []"
    using Cons.prems by (auto dest: spec [of _ "Suc i" for i])
  have "line_directive_text st s (span_offset s + k + 1) = []" using Cons.prems by auto
  then show ?case
    using Cons.IH [OF n] by (auto simp: count_lines_def last_line_length_Cons last_line_length_plain)
qed (simp add: count_lines_def)

lemma last_line_length_newlines: "last_line_length (replicate n newline) = 0"
  by (induction n) (simp_all add: last_line_length_Cons)

lemma in_place_fits:
  assumes plain: "newline \<notin> set text"
    and no_directive: "\<forall>i. span_offset s < i \<longrightarrow> i \<le> span_end s \<longrightarrow> line_directive_text st s i = []"
    and within: "span_end s \<le> length (stream_text st)"
    and still: "\<not> lowering_moves_columns st s (in_place_of st s text)"
  shows "fits (stream_text st) \<lparr>low_span = s, low_text = in_place_of st s text\<rparr>"
proof -
  let ?w = "spelling (stream_text st) s"
  have len: "length ?w = span_length s" using within by (simp add: spelling_def substr_def span_end_def)
  let ?n = "count_lines ?w"
  have r: "in_place_lines st s 0 ?w (text, 0) =
      (text @ replicate ?n newline, if newline \<in> set ?w then length ?w - last_line_length ?w else 0)"
    using in_place_lines_plain [of ?w st s 0 "text" 0] no_directive len by (simp add: span_end_def)
  have le: "last_line_length ?w \<le> length ?w" using column_of_le by (simp add: last_line_length_def)
  have less: "last_line_length ?w < length ?w" if "newline \<in> set ?w"
  proof -
    from split_list [OF that] obtain us vs where w: "?w = us @ newline # vs" by blast
    have "last_line_length (newline # vs) \<le> length vs"
      using column_of_le [of vs "length vs"] unfolding last_line_length_Cons by (simp add: last_line_length_def)
    then show ?thesis using last_line_length_append [of us "newline # vs"] w by simp
  qed
  show ?thesis
  proof (cases "newline \<in> set ?w")
    case True
    have n: "0 < ?n" using True count_lines_0 [of ?w] by auto
    have zero: "last_line_length (text @ replicate ?n newline) = 0"
      using n by (simp add: last_line_length_append last_line_length_newlines)
    have "in_place_of st s text = text @ replicate ?n newline @ replicate (last_line_length ?w) CHR '' ''"
      using True r le less zero by (simp add: in_place_of_def Let_def last_line_length_def)
    moreover have "last_line_length (text @ replicate ?n newline @ replicate (last_line_length ?w) CHR '' '') = last_line_length ?w"
      using zero last_line_length_append [of "text @ replicate ?n newline" "replicate (last_line_length ?w) CHR '' ''"]
      by simp
    ultimately show ?thesis using plain count_lines_0 [of "text"] by (simp add: fits_def count_lines_def)
  next
    case False
    then have n: "?n = 0" using count_lines_0 [of ?w] by simp
    then have p: "in_place_of st s text = text @ replicate (length ?w - length text) CHR '' ''"
      using False r by (simp add: in_place_of_def)
    then have "newline \<notin> set (in_place_of st s text)" using plain by auto
    then have e: "last_line_length (in_place_of st s text) = max (length ?w) (length text)" "count_lines (in_place_of st s text) = 0"
      using p count_lines_0 [of "in_place_of st s text"] by (auto simp: last_line_length_plain)
    have "last_line_length ?w = length ?w" using False by (rule last_line_length_plain)
    then show ?thesis using still e n by (auto simp: fits_def lowering_moves_columns_def rest_of_line_blank_def)
  qed
qed

section \<open>The diagnostic\<close>

lemma erase_outcome:
  assumes "apart (map dir_span (stream_directives st))"
    and "erase st syn runtime e = ((text, r), e')"
  shows "text = runtime" and "preserved r \<longleftrightarrow> erases_to (erased_spans_of syn) (stream_directives st) (stream_text st)
       (expected_lowerings st syn) runtime"
    and "e' = (if preserved r then e else report erasure_diagnostic e)"
  using assms(2) preserved_iff [OF assms(1)] by (auto simp: erase_def Let_def)

end
