(* ===== verification/Structure_Spans.thy ===== *)
theory Structure_Spans
  imports Syntax_Tree
begin

text \<open>
  The structure of a file as an editor shows it (compiler/frontend/src/structure.cpp): the blocks
  it folds and the spans that enclose a position, from the innermost out.
\<close>

section \<open>The spans of the syntax\<close>

text \<open>Where the code subtracts offsets, the end is never before the beginning.\<close>

definition through :: "nat \<Rightarrow> nat \<Rightarrow> byte_span" where
  "through a b = span_from a b"

definition whole :: "clause \<Rightarrow> byte_span" where
  "whole c = through (span_offset (clause_keyword c)) (span_end (clause_expression c) + 1)"

definition clause_spans :: "clause \<Rightarrow> byte_span list" where
  "clause_spans c = [clause_expression c, whole c]"

text \<open>The spans of a statement, in the order \<open>Holding::add\<close> meets them.\<close>

fun statement_spans :: "proof_statement \<Rightarrow> byte_span list" and arm_spans :: "proof_arm \<Rightarrow> byte_span list" where
  "statement_spans (ProofStatement k r arguments p s arms arms_span) =
     [s, p] @ arguments @ [arms_span] @ concat (map arm_spans arms)"
| "arm_spans (ProofArm label inner s body) = [label, s, body] @ concat (map statement_spans inner)"

text \<open>The body a law is proved by where it is declared, when it has one.\<close>

definition inline_proof :: "cppl_syntax \<Rightarrow> nat \<Rightarrow> proof_declaration option" where
  "inline_proof syn law = find (\<lambda>p. inline_law p = Some law \<and> span_length (proof_body p) \<noteq> 0) (proofs syn)"

section \<open>Blocks\<close>

datatype block_kind = DeclarationBlock | BracesBlock

type_synonym block = "block_kind \<times> byte_span"

definition braces :: "byte_span \<Rightarrow> block list" where
  "braces s = (if span_length s \<noteq> 0 then [(BracesBlock, s)] else [])"

fun fold_arms :: "proof_statement \<Rightarrow> block list" and fold_arm :: "proof_arm \<Rightarrow> block list" where
  "fold_arms (ProofStatement k r arguments p s arms arms_span) = braces arms_span @ concat (map fold_arm arms)"
| "fold_arm (ProofArm label inner s body) = braces body @ concat (map fold_arms inner)"

definition blocks :: "cppl_syntax \<Rightarrow> block list" where
  "blocks syn =
     concat (map (\<lambda>(i, l). if inline_proof syn i = None then [(DeclarationBlock, law_range l)] else [])
       (enumerate 0 (laws syn))) @
     concat (map (\<lambda>p. braces (proof_body p) @ concat (map fold_arms (proof_statements p))) (proofs syn)) @
     concat (map (\<lambda>p. fold_arms (split_statement p)) (path_splits syn)) @
     map (\<lambda>r. (DeclarationBlock, refinement_range r)) (refinement_types syn)"

section \<open>Enclosing spans\<close>

definition law_spans :: "cppl_syntax \<Rightarrow> nat \<times> law_declaration \<Rightarrow> byte_span list" where
  "law_spans syn = (\<lambda>(i, l).
     [law_name_span l, law_parameters l] @ concat (map clause_spans (law_clauses l)) @
     [case inline_proof syn i of
        Some p \<Rightarrow> through (span_offset (law_range l)) (span_end (proof_body p))
      | None \<Rightarrow> law_range l])"

definition proof_spans :: "proof_declaration \<Rightarrow> byte_span list" where
  "proof_spans p =
     (if inline_law p = None
      then [proof_name_span p, proof_parameters p] @
           (if span_length (proves_keyword p) \<noteq> 0
            then [proof_proposition p,
                  through (span_offset (proves_keyword p)) (span_end (proof_proposition p) + 1)]
            else []) @ [proof_range p]
      else []) @
     [proof_body p] @ concat (map statement_spans (proof_statements p))"

definition function_spans :: "verified_function \<Rightarrow> byte_span list" where
  "function_spans v = concat (map clause_spans (verified_clauses v)) @ [verified_region v]"

definition loop_spans :: "loop_specification \<Rightarrow> byte_span list" where
  "loop_spans l =
     concat (map clause_spans (loop_invariants l)) @
     (case loop_decreases l of Some c \<Rightarrow> clause_spans c | None \<Rightarrow> []) @ [loop_region l]"

definition refinement_spans :: "refinement_type \<Rightarrow> byte_span list" where
  "refinement_spans r =
     [refinement_name_span r, refinement_indices r, refinement_base r, refinement_predicate r, refinement_range r]"

definition spans_met :: "cppl_syntax \<Rightarrow> byte_span list" where
  "spans_met syn =
     concat (map (law_spans syn) (enumerate 0 (laws syn))) @
     concat (map proof_spans (proofs syn)) @
     concat (map function_spans (verified_functions syn @ unchecked_clauses syn)) @
     concat (map loop_spans (loops syn)) @
     concat (map (\<lambda>c. statement_spans (claim_statement c) @ [claim_span c]) (path_contradictions syn)) @
     concat (map (\<lambda>p. statement_spans (split_statement p) @ [split_span p]) (path_splits syn)) @
     concat (map refinement_spans (refinement_types syn))"

text \<open>A span holds the offset after its last byte too.\<close>

definition holds_position :: "nat \<Rightarrow> byte_span \<Rightarrow> bool" where
  "holds_position i s \<longleftrightarrow> span_length s \<noteq> 0 \<and> span_offset s \<le> i \<and> i \<le> span_end s"

definition innermost_first :: "byte_span list \<Rightarrow> byte_span list" where
  "innermost_first ss = remdups_adj (sort_key span_length ss)"

definition enclosing :: "cppl_syntax \<Rightarrow> nat \<Rightarrow> byte_span list" where
  "enclosing syn i = innermost_first (filter (holds_position i) (spans_met syn))"

section \<open>What encloses a position\<close>

lemma set_enclosing: "s \<in> set (enclosing syn i) \<longleftrightarrow> s \<in> set (spans_met syn) \<and> holds_position i s"
  by (auto simp: enclosing_def innermost_first_def)

lemma sorted_remdups_adj: "sorted (map f xs) \<Longrightarrow> sorted (map f (remdups_adj xs))"
  by (induction xs rule: remdups_adj.induct) auto

lemma enclosing_sorted: "sorted (map span_length (enclosing syn i))"
  by (simp add: enclosing_def innermost_first_def sorted_remdups_adj)

text \<open>Where the spans at a position nest, each is inside the next.\<close>

definition inside :: "byte_span \<Rightarrow> byte_span \<Rightarrow> bool" where
  "inside s t \<longleftrightarrow> span_offset t \<le> span_offset s \<and> span_end s \<le> span_end t"

lemma shorter_inside: "inside t s \<Longrightarrow> span_length s \<le> span_length t \<Longrightarrow> s = t"
  by (cases s; cases t) (simp add: inside_def span_end_def)

lemma enclosing_chain:
  assumes "\<forall>s \<in> set (enclosing syn i). \<forall>t \<in> set (enclosing syn i). inside s t \<or> inside t s"
  shows "sorted_wrt inside (enclosing syn i)"
proof -
  have "sorted_wrt (\<lambda>s t. span_length s \<le> span_length t) (enclosing syn i)"
    using enclosing_sorted [of syn i] unfolding sorted_wrt_map .
  then show ?thesis
  proof (rule sorted_wrt_mono_rel [rotated])
    fix s t assume st: "s \<in> set (enclosing syn i)" "t \<in> set (enclosing syn i)" "span_length s \<le> span_length t"
    show "inside s t"
    proof (cases "inside s t")
      case False
      then have "inside t s" using assms st by blast
      with shorter_inside st(3) have "s = t" by blast
      then show ?thesis by (simp add: inside_def)
    qed
  qed
qed

text \<open>Where nothing of one length lies apart, no span comes twice.\<close>

lemma distinct_sorted_adj:
  assumes "sorted (map span_length ss)" and "\<forall>s \<in> set ss. \<forall>t \<in> set ss. span_length s = span_length t \<longrightarrow> s = t"
  shows "distinct (remdups_adj ss)"
  using assms
proof (induction ss rule: remdups_adj.induct)
  case (3 s t ss)
  have rest: "sorted (map span_length (t # ss))"
    "\<forall>u \<in> set (t # ss). \<forall>v \<in> set (t # ss). span_length u = span_length v \<longrightarrow> u = v"
    using "3.prems" by simp_all
  show ?case
  proof (cases "s = t")
    case True
    then show ?thesis using "3.IH"(1) rest by simp
  next
    case False
    have "s \<notin> set (t # ss)"
    proof
      assume s: "s \<in> set (t # ss)"
      have "span_length t \<le> span_length s" using s rest(1) by auto
      moreover have "span_length s \<le> span_length t" using "3.prems"(1) by simp
      ultimately show False using "3.prems"(2) False by (meson list.set_intros order_antisym)
    qed
    moreover have "distinct (remdups_adj (t # ss))" using "3.IH"(2) False rest by blast
    ultimately show ?thesis using False remdups_adj_set [of "t # ss"] by simp
  qed
qed simp_all

lemma enclosing_distinct:
  assumes "\<forall>s \<in> set (enclosing syn i). \<forall>t \<in> set (enclosing syn i). inside s t \<or> inside t s"
  shows "distinct (enclosing syn i)"
proof -
  let ?ss = "sort_key span_length (filter (holds_position i) (spans_met syn))"
  have "s = t" if "s \<in> set ?ss" "t \<in> set ?ss" "span_length s = span_length t" for s t
  proof -
    have "s \<in> set (enclosing syn i)" "t \<in> set (enclosing syn i)" using that by (simp_all add: set_enclosing)
    then show ?thesis using assms shorter_inside that(3) by (metis order_refl)
  qed
  then show ?thesis unfolding enclosing_def innermost_first_def by (intro distinct_sorted_adj) auto
qed

section \<open>Blocks enclose\<close>

lemma fold_arms_met: "b \<in> set (fold_arms s) \<Longrightarrow> snd b \<in> set (statement_spans s)"
  and fold_arm_met: "b \<in> set (fold_arm a) \<Longrightarrow> snd b \<in> set (arm_spans a)"
  by (induction s and a rule: fold_arms_fold_arm.induct) (auto simp: braces_def split: if_splits)

lemma blocks_met: "b \<in> set (blocks syn) \<Longrightarrow> snd b \<in> set (spans_met syn)"
proof -
  assume "b \<in> set (blocks syn)"
  then consider i l where "(i, l) \<in> set (enumerate 0 (laws syn))" "inline_proof syn i = None" "snd b = law_range l"
    | p where "p \<in> set (proofs syn)" "snd b = proof_body p"
    | p s where "p \<in> set (proofs syn)" "s \<in> set (proof_statements p)" "b \<in> set (fold_arms s)"
    | p where "p \<in> set (path_splits syn)" "b \<in> set (fold_arms (split_statement p))"
    | r where "r \<in> set (refinement_types syn)" "snd b = refinement_range r"
    by (auto simp: blocks_def braces_def split: if_splits)
  then show ?thesis
  proof cases
    case (1 i l)
    then have "snd b \<in> set (law_spans syn (i, l))" by (simp add: law_spans_def)
    with 1(1) have "snd b \<in> set (concat (map (law_spans syn) (enumerate 0 (laws syn))))"
      unfolding set_concat set_map by (rule UN_I [OF imageI])
    then show ?thesis unfolding spans_met_def set_append by (rule UnI1)
  next
    case (2 p)
    then have "snd b \<in> set (proof_spans p)" by (simp add: proof_spans_def)
    then show ?thesis using 2(1) unfolding spans_met_def by auto
  next
    case (3 p s)
    have "snd b \<in> set (statement_spans s)" using 3(3) by (rule fold_arms_met)
    then have "snd b \<in> set (proof_spans p)" using 3(2) by (auto simp: proof_spans_def)
    then show ?thesis using 3(1) unfolding spans_met_def by auto
  next
    case (4 p)
    have "snd b \<in> set (statement_spans (split_statement p))" using 4(2) by (rule fold_arms_met)
    then show ?thesis using 4(1) unfolding spans_met_def by auto
  next
    case (5 r)
    then have "snd b \<in> set (refinement_spans r)" by (simp add: refinement_spans_def)
    then show ?thesis using 5(1) unfolding spans_met_def by auto
  qed
qed

lemma blocks_enclosing:
  "b \<in> set (blocks syn) \<Longrightarrow> holds_position i (snd b) \<Longrightarrow> snd b \<in> set (enclosing syn i)"
  by (simp add: set_enclosing blocks_met)

end
