(* ===== verification/Source_Examples.thy ===== *)
theory Source_Examples
  imports Lexer_Positions Projection_Facts Structure_Spans
begin

text \<open>
  Texts the source passes are tried on: a preprocessed line, and a unit with a pure function and
  a refinement type, with the runtime text it becomes.
\<close>

definition marked_text :: string where
  "marked_text = ''# 7 '' @ [quote] @ ''b'' @ [quote] @ '' 1'' @ [newline] @ ''int x; // y'' @ [newline]"

definition unit_text :: string where
  "unit_text = ''pure int f();'' @ [newline] @ ''type P = int where self > 0; // P'' @ [newline]"

definition unit_stream :: token_stream where
  "unit_stream = lex unit_text ''u''"

definition unit_refinement :: refinement_type where
  "unit_refinement =
     \<lparr>refinement_name = ''P'', refinement_name_span = \<lparr>span_offset = 19, span_length = 1\<rparr>,
      refinement_range = \<lparr>span_offset = 14, span_length = 28\<rparr>,
      refinement_indices = \<lparr>span_offset = 0, span_length = 0\<rparr>, refinement_indexed = False,
      refinement_base = \<lparr>span_offset = 23, span_length = 3\<rparr>,
      refinement_predicate = \<lparr>span_offset = 33, span_length = 8\<rparr>, refinement_validator = ''''\<rparr>"

definition unit_syntax :: cppl_syntax where
  "unit_syntax = empty_syntax\<lparr>pure_markers := [\<lparr>span_offset = 0, span_length = 4\<rparr>],
     refinement_types := [unit_refinement]\<rparr>"

definition unit_runtime :: string where
  "unit_runtime = ''     int f();'' @ [newline] @ ''using P = int;               // P'' @ [newline]"

lemma marked_tokens:
  "map tok_text (stream_tokens (lex marked_text ''a'')) = [''int'', ''x'', '';'', '''']"
  "map (unat \<circ> tok_line) (stream_tokens (lex marked_text ''a'')) = [7, 7, 7, 8]"
  by code_simp+

lemma unit_tokens:
  "map tok_text (stream_tokens unit_stream) =
     [''pure'', ''int'', ''f'', ''('', '')'', '';'', ''type'', ''P'', ''='', ''int'', ''where'', ''self'', ''>'', ''0'', '';'', '''']"
  by code_simp

lemma unit_becomes: "runtime_text unit_stream unit_syntax = unit_runtime"
  by code_simp

lemma unit_encloses:
  "enclosing unit_syntax 34 = [\<lparr>span_offset = 33, span_length = 8\<rparr>, \<lparr>span_offset = 14, span_length = 28\<rparr>]"
  by code_simp

text \<open>A newline escaped in a literal is not counted, and a directive may start after a comment.\<close>

lemma escaped_newline:
  "map (unat \<circ> tok_line)
     (stream_tokens (lex ([quote, CHR ''a'', backslash, newline, CHR ''b'', quote] @ '' c'') ''f'')) = [1, 1, 1]"
  by code_simp

lemma commented_directive:
  "map dir_span (stream_directives (lex (''/* */ #pragma x'' @ [newline]) ''f'')) = [\<lparr>span_offset = 5, span_length = 10\<rparr>]"
  by code_simp

end
