(* ===== verification/Spec2Isabelle.thy ===== *)
theory Spec2Isabelle
  imports Representation Interface_Examples Evidence_Examples Further_Facts Refute_Examples Source_Examples
begin

text \<open>
  C++L, a compiler that proves contracts of C++ programs. This development models two parts of its
  trusted base in full, the proof kernel and the erasure of proof syntax from the program that
  runs, and parts around them: the search for arithmetic certificates, the lexer, the projection of
  the runtime text, the interfaces that carry what one unit proved to another, obligations and the
  verdicts on them.

  The proof kernel (src/kernel) checks every proof the compiler produces. A client fills a \<open>Context\<close> with definitions, states a proposition and hands the kernel
  a proof term; \<open>check\<close> answers with an \<open>Acceptance\<close> or a rejection. All the rest of the compiler
  is untrusted by design: what it gets wrong, the kernel refuses.

  The parts, in the order the code has them, and the theories that model them:

  \<^item> Prelude: \<open>std::expected\<close> as a sum with \<open>bind_ok\<close>, orderings, \<open>std::map\<close> as a sorted list
    (locale \<open>comparison\<close>, interpreted at every order the code uses for a map), 128-bit integers.
  \<^item> Kernel_Types (types.hpp, types.cpp): machine integer types, their range and wrap-around, the
    long division of 128-bit integers, the structural bounds on types and their text.
  \<^item> Kernel_Terms (term.hpp, term.cpp, the data of context.hpp): terms, primitives, errors, limits,
    definitions. Kernel_Props (proposition.*, substitution.*): propositions, de Bruijn shifting and
    instantiation. Kernel_Proofs (proof.*): proof terms, certificates, the premises of induction.
  \<^item> Kernel_Order and Kernel_Arith (arithmetic.*): the order on terms, polynomial normal forms, the
    normal form of every primitive.
  \<^item> Kernel_Context (context.*): typing, \<open>Context::define\<close>, unfolding, normalization with its
    budgets of depth and steps.
  \<^item> Kernel_Linear (linear.*): the builder that states facts and the negated goal as integer
    constraints, with its tables of variables, values, divisions and ranges, and the checker of
    certificates.
  \<^item> Kernel_Check (check.*): one definition per rule, the dispatch, \<open>check\<close>.
  \<^item> Refute_Search (src/compiler/refutation): the untrusted search that proposes certificates.
  \<^item> Source_Text (source/location.hpp, diagnostics): byte spans, locations, diagnostics and the
    engine that collects them.
  \<^item> Lexer (frontend/token.hpp, lexer.cpp): preprocessed text to a stream of tokens, comments and
    directive lines, line markers adopted, and the columns of the written files.
  \<^item> Syntax_Tree (frontend/syntax.hpp): where the constructs of C++L stand; Structure_Spans
    (structure.cpp): the blocks an editor folds and the spans around a position.
  \<^item> Projection_Text (projection.cpp, projector.hpp): the runtime text, which has proof-only spans
    blanked and every runtime-bearing construct lowered to C++. Erasure (erasure/erase.cpp): the
    check of that text, from the syntax alone, before it is compiled.
  \<^item> Digest (source/digest.*): the SHA-256 hasher every identity is made with. Representation
    (source/representation.hpp, storage.hpp, projection.hpp): how C++ declarations are represented.
  \<^item> Interface_Fields, Interface (artifact/interface.*): verification interfaces. \<open>serialize\<close> writes
    what a unit proved as canonical text under a checksum, \<open>parse\<close> reads it back strictly in another
    unit, \<open>identify\<close> names an entry by what it means.
  \<^item> Obligation (obligations/obligation.hpp, contracts.hpp, status.*): what the kernel is asked about
    a unit, the evidence written for it and its outcomes. A \<open>Verdict\<close> is proven only by an
    \<open>Acceptance\<close> of the obligation's own goal under the trusted premises the verdict keeps.
    Evidence_Shape (status.cpp, generate_evidence.cpp): the motive of a rewrite, what supposed
    premises make available, and the evidence shaped after a goal.

  How the code is read. Classes and structs are records, variants datatypes, \<open>std::expected\<close> a sum
  whose left side is the error. Loops are structural recursion; tests of depth and budget stand
  where the code has them. A 128-bit \<open>Wide\<close> is an \<open>int\<close>, every operation on it guarded by the
  code's own overflow test; an operation the code does not guard is the outcome \<open>UndefinedBehaviour\<close>
  when it leaves 128 bits. Words of 64 and 32 bits are words. Shared, mutable state (the builder)
  is a record that is passed on.

  What is proved, by theory:

  \<^item> Semantics is the specification: values, structures that interpret abstract types in any way
    their signatures allow, the meaning of definitions, terms and propositions, typing as an
    inductive relation.
  \<^item> Typing_Facts, Bound_Facts: the code's typing and validation are exactly the specification's, up
    to the depth allowed; typed terms denote values of their types; the limits bound polynomials
    and certificates. Context_Facts: contexts stay well formed, later definitions are conservative,
    accepted evidence is shallow.
  \<^item> Subst_Facts: shifting and instantiation mean weakening and substitution while fewer than
    \<open>2 ^ 32\<close> binders stand, which the depth limit guarantees for all the checker builds.
  \<^item> Poly_Facts (locale \<open>ring_reading\<close>), Canonical_Facts, Norm_Facts: polynomials stand for the ring
    of residues, are canonical, and normalization keeps type and value.
  \<^item> Linear_Facts, Build_Facts, System_Facts (locale \<open>arithmetic_reading\<close>, which extends
    \<open>ring_reading\<close>; both interpreted at the kernel's terms): certificates refute, and every
    counterexample to a goal solves the system built from it.
  \<^item> Soundness: each rule keeps soundness, so what \<open>check\<close> accepts is true in every structure, and
    nothing proves \<open>False\<close>.
  \<^item> Fuel_Facts (locale \<open>ring_closed\<close>): termination. Only the readers of the builder recurse on
    terms they normalize again, so the model gives them fuel. \<open>read_value\<close> takes \<open>3 * n + 2\<close> for
    \<open>n\<close> the nesting of conversions and divisions in the normal form of the term, and this is always
    enough: normal forms contain no call, normalizing one nests no deeper, and each level costs at
    most three calls. All other recursion is structural or bounded by the code's depth limit.
  \<^item> Refute_Facts: rows of the elimination are non-negative combinations of the constraints they
    come from, so what the search finds refutes the system and passes the kernel's checker.
    Refute_Ends: \<open>solve\<close> is given 513 levels, one for each of the \<open>kMaxSearchNodes\<close> nodes it may
    visit and one for the call that refuses; these are enough, and more change nothing.
  \<^item> Lexer_Facts: every byte is in one token, comment or directive, or is blank between them.
    Lexer_Positions: the position of a token is the one the line markers before it presume.
  \<^item> Erasure_Facts: the walk of the check accepts exactly one reference text, given byte by byte.
    Projection_Facts: the projector writes that text.
  \<^item> Digest_Facts: hashing in pieces is SHA-256 of the whole (\<open>sha256\<close>, written from the standard).
    Interface_Facts, Interface_Trip (locales \<open>item_kind\<close> and \<open>keyed_loop\<close>, interpreted at the five
    kinds of items and at flags, sources and entries): what each loop of the reader accepts.
    Interface_Round (locale \<open>written_kind\<close>, which extends \<open>item_kind\<close>): the reader accepts exactly
    what the writer makes. Interface_Identity: what an identity determines.
  \<^item> Evidence_Shape: collecting premises and shaping evidence end; an implication is used once, a
    disjunction split once, and a rewrite uses an equality further out than the last. Evidence_Facts:
    proven verdicts are true under their premises, what is available follows from what was
    supposed, a motive filled with its target is the goal.
  \<^item> Examples, Refute_Examples, Source_Examples, Interface_Examples, Evidence_Examples: the concrete inputs of the witnesses.
    Further_Facts: more theorems about the kernel.

  What a check may do other than answer: \<open>Builder::negated\<close> can overflow 128 bits (C10 gives the
  input), and the position of a variable can leave 32 bits after \<open>2 ^ 32\<close> variables. Both are
  outcomes of the model, and C9 shows there is no other.

  Not modelled: the text of messages is modelled only where it is computed; ownership (\<open>Box\<close>,
  moves) has no counterpart in values; exhaustion of memory is not represented. Byte offsets
  (\<open>size_t\<close>) are natural numbers, lines and columns words of 32 bits; the character classes are
  those of the C locale; of an unstable sort the order of equal keys is that of the list. Of the
  frontend, the recognizer and the text made for Clang alone are not modelled. The rest of the
  compiler is listed, part by part, in the manifest.
\<close>

text \<open>C1. The checker is sound: an acceptance is of the goal itself, and the goal is true in every structure.\<close>

theorem accepted_propositions_hold:
  assumes "check \<Gamma> goal evidence limits = Inr acceptance" and "built \<Gamma>" and "wf_model S"
  shows "accepted acceptance = goal \<and> holds S (functions_of S \<Gamma>) [] goal"
  using check_sound [OF assms] check_accepts [OF assms(1)] by simp

lemma accepted_propositions_hold_witness:
  "accepted (Acceptance byte_theorem) = byte_theorem \<and> holds one_object (functions_of one_object []) [] byte_theorem"
  by (rule accepted_propositions_hold [OF byte_theorem_accepted built_empty wf_one_object])

text \<open>C2. The kernel is consistent: nothing proves \<open>False\<close>.\<close>

theorem kernel_is_consistent:
  assumes "built \<Gamma>"
  shows "check \<Gamma> Falsity evidence limits \<noteq> Inr acceptance"
  using check_sound [of \<Gamma> Falsity evidence limits acceptance empty_model] check_accepts [of \<Gamma> Falsity evidence limits acceptance]
    assms wf_empty_model by auto

lemma kernel_is_consistent_witness:
  "check [increment] Falsity (FalsityElimination (Hypothesis 0)) small_limits \<noteq> Inr (Acceptance Falsity)"
  by (rule kernel_is_consistent [OF increment_built])

text \<open>C3. An arithmetic step is sound: true facts and a certificate that refutes their system make the goal true.\<close>

theorem arithmetic_steps_hold:
  assumes "reads S \<Gamma> L env" and "arithmetic_system_of \<Gamma> facts goal limits L = Inr sys"
    and "refutes sys certificate limits' = Inr ()"
    and "\<forall>p \<in> set facts. wf_prop \<Gamma> L p \<and> holds S (functions_of S \<Gamma>) env p" and "wf_prop \<Gamma> L goal"
  shows "holds S (functions_of S \<Gamma>) env goal"
  using assms by (rule linear_arithmetic_sound)

lemma arithmetic_steps_hold_witness: "holds one_object (functions_of one_object []) [IntV 5] byte_claim"
  by (rule arithmetic_steps_hold [OF reads_byte byte_system_built byte_system_refuted])
    (simp_all add: byte_props_wf byte_props_hold byte_literal)

text \<open>C4. The system the builder writes abstracts the propositions: every counterexample to the goal under the facts is a solution of it.\<close>

theorem counterexamples_solve_the_system:
  assumes "reads S \<Gamma> L env" and "arithmetic_system_of \<Gamma> facts goal limits L = Inr sys"
    and "\<forall>p \<in> set facts. wf_prop \<Gamma> L p \<and> holds S (functions_of S \<Gamma>) env p" and "wf_prop \<Gamma> L goal"
    and "\<not> holds S (functions_of S \<Gamma>) env goal"
  shows "\<exists>\<sigma>. solves \<sigma> sys"
  using assms by (rule linear_arithmetic_solved)

lemma counterexamples_solve_the_system_witness: "\<exists>\<sigma>. solves \<sigma> byte_open_system"
  by (rule counterexamples_solve_the_system [OF reads_byte byte_open_system_built, of 30])
    (simp_all add: byte_literal byte_props_wf byte_props_hold)

text \<open>C5. A certificate that is accepted proves the system has no solution in the integers.\<close>

theorem certificates_refute:
  assumes "refutes sys certificate limits = Inr ()"
  shows "\<not> solves \<sigma> sys"
  using assms by (rule refutes_sound)

lemma certificates_refute_witness: "\<not> solves (\<lambda>_. 15) byte_system"
  by (rule certificates_refute [OF byte_system_refuted])

text \<open>C6. A normal form has the type and the value of the term, in every structure and environment.\<close>

theorem normal_forms_keep_type_and_value:
  assumes "normalize \<Gamma> t limits = Inr u" and "reads S \<Gamma> L env" and "has_type \<Gamma> L t \<tau>"
  shows "has_type \<Gamma> L u \<tau> \<and> value_at S \<Gamma> env u = value_at S \<Gamma> env t"
  using normalize_sound [OF assms] by (simp add: means_def)

lemma normal_forms_keep_type_and_value_witness:
  "value_at one_object [increment] [] (Literal byte 0) = value_at one_object [increment] [] (Call 0 [Literal byte 255])"
  using normal_forms_keep_type_and_value [OF increment_normalized _ increment_call_typed, of one_object "[]"]
  by (simp add: reads_def increment_built wf_one_object)

text \<open>C7. A normal form contains no call.\<close>

theorem normal_forms_call_nothing:
  assumes "normalize \<Gamma> t limits = Inr u"
  shows "call_free u"
  using assms by (rule normalize_call_free)

lemma normal_forms_call_nothing_witness: "call_free (Literal byte 0)"
  by (rule normal_forms_call_nothing [OF increment_normalized])

text \<open>C8. Building a system ends: the fuel of the mutually recursive readers is never exhausted.\<close>

theorem building_a_system_terminates: "arithmetic_system_of \<Gamma> facts goal limits L \<noteq> Inl OutOfFuel"
  using arithmetic_system_fuelled by (simp add: fuelled_def)

text \<open>C9. Every check ends with an acceptance of the goal or a rejection, or leaves the defined behaviour of the code in one of two named ways.\<close>

theorem every_check_reaches_a_verdict:
  "check \<Gamma> goal evidence limits = Inr (Acceptance goal) \<or>
   (\<exists>kind detail. check \<Gamma> goal evidence limits = Inl (Rejection kind detail)) \<or>
   check \<Gamma> goal evidence limits = Inl (NoOutcome UndefinedBehaviour) \<or>
   check \<Gamma> goal evidence limits = Inl (NoOutcome IndexOverflow)"
proof (cases "check \<Gamma> goal evidence limits")
  case (Inl e)
  then show ?thesis using check_settled [of \<Gamma> goal evidence limits] by (cases e) (auto simp: settled_def)
next
  case (Inr a)
  then show ?thesis by (auto simp: check_def)
qed


text \<open>C11. A verdict that is proven speaks of its obligation: the goal of the obligation is true wherever the trusted premises the verdict names are, whatever evidence the kernel accepted.\<close>

theorem proven_verdicts_hold:
  assumes "check \<Gamma> p evidence limits = Inr acceptance" and "built \<Gamma>" and "wf_model S"
    and "is_proven (Obligation.proven acceptance ob premises)"
    and "\<forall>q \<in> set (vd_premises (Obligation.proven acceptance ob premises)).
           holds S (functions_of S \<Gamma>) [] (tp_proposition q)"
  shows "holds S (functions_of S \<Gamma>) [] (ob_goal ob)"
  using assms by (rule proven_holds)

lemma proven_verdicts_hold_witness:
  "holds one_object (functions_of one_object []) [] (ob_goal sample_obligation)"
  by (rule proven_verdicts_hold [OF sample_checked built_empty wf_one_object sample_proven]) (simp add: sample_premises_hold)

text \<open>C12. What the code types is exactly what the typing rules type, up to the depth allowed.\<close>

theorem typing_is_exact:
  "type_of \<Gamma> L t limits = Inr \<tau> \<longleftrightarrow> has_type \<Gamma> L t \<tau> \<and> height t \<le> unat (max_term_depth limits)"
  by (rule type_of_iff)

text \<open>C13. What the code validates is exactly the well-formed propositions within the depth allowed.\<close>

theorem validation_is_exact:
  "validate_proposition \<Gamma> L p limits depth = Inr () \<longleftrightarrow>
     wf_prop \<Gamma> L p \<and> depth + prop_height p \<le> unat (max_term_depth limits) \<and>
     terms_height p \<le> unat (max_term_depth limits)"
  by (rule validate_proposition_iff)

text \<open>C14. What \<open>type_of\<close> accepts denotes a value of the type it reports, in every admitted context, every structure and every environment.\<close>

theorem definition_values:
  assumes "built \<Gamma>" and "wf_model S" and "env_ok S L env" and "type_of \<Gamma> L t limits = Inr \<tau>"
  shows "in_type S \<tau> (eval S (functions_of S \<Gamma>) env t)"
  using assms by (intro reads_in_type) (auto simp: reads_def intro: type_of_sound)

lemma definition_values_witness:
  "in_type (\<lparr>carrier = (\<lambda>_. {}), observation = (\<lambda>_ _ _. IntV 0), component = (\<lambda>_ _ _. IntV 0)\<rparr> :: nat kmodel)
     (Int_Type (IntType 8 Unsigned))
     (eval (\<lparr>carrier = (\<lambda>_. {}), observation = (\<lambda>_ _ _. IntV 0), component = (\<lambda>_ _ _. IntV 0)\<rparr>)
        (functions_of (\<lparr>carrier = (\<lambda>_. {}), observation = (\<lambda>_ _ _. IntV 0), component = (\<lambda>_ _ _. IntV 0)\<rparr>) [])
        [] (Literal (IntType 8 Unsigned) 5))"
  by (rule definition_values [of "[]" _ "[]" _ _ default_limits])
    (simp_all add: built_empty wf_model_def type_of_def depth_ok_def validate_type_def is_supported_Int
      is_supported_int_iff is_representable_def minimum_value_eq maximum_value_eq default_limits_def)

text \<open>C15. Instantiating a quantified body at a term is its body at the value of the term.\<close>

theorem instantiation_substitutes:
  assumes "wf_prop \<Gamma> (L @ [\<sigma>]) p" and "has_type \<Gamma> L a \<sigma>" and "length env = length L"
    and "length L + binder_depth p \<le> max_binders"
  shows "wf_prop \<Gamma> L (instantiate_prop p a 0) \<and>
    (holds S E env (instantiate_prop p a 0) \<longleftrightarrow> holds S E (env @ [eval S E env a]) p)"
  using assms wf_prop_instantiate_0 holds_instantiate_0 by blast

lemma instantiation_substitutes_witness:
  "holds one_object (\<lambda>_ _. IntV 0) [] (instantiate_prop byte_claim (Literal byte 3) 0)"
  using instantiation_substitutes [of "[]" "[]" "Int_Type byte" byte_claim "Literal byte 3" "[]" one_object "\<lambda>_ _. IntV 0"]
    byte_props_wf(2) [of "[]"] byte_props_hold(2) [of one_object "\<lambda>_ _. IntV 0" 3]
  by (simp add: has_type_Literal_iff byte_literal byte_claim_def below_def)

text \<open>C16. A shifted proposition, under the inserted binders, is the original.\<close>

theorem shifting_weakens:
  assumes "wf_prop \<Gamma> (L1 @ L2) p" and "length e1 = length L1" and "length e2 = length L2"
    and "length e1 + length m + length e2 + binder_depth p \<le> max_binders"
  shows "holds S E (e1 @ m @ e2) (shift_prop p (length m) (length e2)) \<longleftrightarrow> holds S E (e1 @ e2) p"
  using assms by (rule holds_shift)

lemma shifting_weakens_witness:
  "holds one_object (\<lambda>_ _. IntV 0) [IntV 7, IntV 200] (shift_prop byte_claim 1 0)"
  using shifting_weakens [of "[]" "[Int_Type byte]" "[]" byte_claim "[IntV 7]" "[]" "[IntV 200]" one_object "\<lambda>_ _. IntV 0"]
    byte_props_wf(2) [of "[]"] byte_props_hold(2) [of one_object "\<lambda>_ _. IntV 0" 7]
  by (simp add: byte_claim_def below_def)

text \<open>C17. The two premises of unsigned induction suffice: the property holds of every value of the type.\<close>

theorem unsigned_induction:
  assumes "reads S \<Gamma> L env" and "wf_prop \<Gamma> (L @ [Int_Type type]) p"
    and "is_supported_int type" and "signedness type = Unsigned"
    and "length L + binder_depth p + 2 \<le> max_binders"
    and "holds S (functions_of S \<Gamma>) env (induction_base type p)"
    and "holds S (functions_of S \<Gamma>) env (induction_step type p)"
  shows "holds S (functions_of S \<Gamma>) env (Forall (Int_Type type) p)"
proof -
  have "holds S (functions_of S \<Gamma>) (env @ [IntV 0]) p"
    using holds_instantiate_0 [OF assms(2) _ reads_length [OF assms(1)], of "Literal type 0"] assms(3,5,6)
    by (simp add: induction_base_def has_type_Literal_iff representable_zero)
  then have "holds S (functions_of S \<Gamma>) (env @ [IntV n]) p" if "is_representable type n" for n
    using unsigned_induct [OF assms(3,4), of "\<lambda>n. holds S (functions_of S \<Gamma>) (env @ [IntV n]) p"] that
      induction_step_holds(2) [OF assms(1-5) assms(7)] by blast
  then show ?thesis by (auto simp: in_type_int)
qed

lemma unsigned_induction_witness:
  "holds one_object (functions_of one_object []) [] (Forall (Int_Type byte) (Eq (Int_Type byte) (Var 0) (Var 0)))"
proof (rule unsigned_induction [where L = "[]"])
  let ?p = "Eq (Int_Type byte) (Var 0) (Var 0)"
  show wf: "wf_prop [] ([] @ [Int_Type byte]) ?p" by (simp add: byte_variable)
  show r: "reads one_object [] [] []" by (simp add: reads_def built_empty wf_one_object)
  show "holds one_object (functions_of one_object []) [] (induction_step byte ?p)"
    by (simp add: induction_step_def Let_def shift_prop_def instantiate_prop.simps)
  show "holds one_object (functions_of one_object []) [] (induction_base byte ?p)"
    by (simp add: induction_base_def)
qed (simp_all add: byte_supported)

text \<open>C18. Polynomials are canonical: sorted monomials, no two of the same factors, no zero coefficient.\<close>

theorem polynomials_are_canonical:
  assumes "read_polynomial t type limits = Inr p"
  shows "sorted_wrt factor_less (map factors (monomials p)) \<and> distinct (map factors (monomials p)) \<and>
    (\<forall>m \<in> set (monomials p). coefficient m \<noteq> 0 \<and> coefficient m AND residue_mask (poly_type p) = coefficient m)"
  using read_polynomial_canonical [OF assms] by (simp add: canonical_polynomial_def residue_def)

lemma polynomials_are_canonical_witness:
  "sorted_wrt factor_less [[Var 0], [Var 0, Var 1]]"
proof -
  have "read_polynomial (Prim AddWrap byte [Prim MulWrap byte [Var 1, Var 0], Var 0]) byte small_limits =
      Inr \<lparr>poly_type = byte, monomials = [\<lparr>factors = [Var 0], coefficient = 1\<rparr>,
        \<lparr>factors = [Var 0, Var 1], coefficient = 1\<rparr>], poly_constant = 0\<rparr>"
    by code_simp
  from polynomials_are_canonical [OF this] show ?thesis by simp
qed



text \<open>C20. Every context a client can build has distinct identities and well-typed definitions, each found under its identity.\<close>

theorem contexts_stay_well_formed:
  assumes "built \<Gamma>"
  shows "distinct (map def_id \<Gamma>) \<and>
    (\<forall>d \<in> set \<Gamma>. lookup \<Gamma> (def_id d) = Some d \<and> has_type \<Gamma> (parameters d) (body d) (result d) \<and>
       is_supported (result d) \<and> (\<forall>\<tau> \<in> set (parameters d). is_supported \<tau>))"
  using assms built_distinct built_lookup built_typed by blast

lemma contexts_stay_well_formed_witness:
  "has_type [increment] [Int_Type byte] (Prim AddWrap byte [Var 0, Literal byte 1]) (Int_Type byte)"
  using contexts_stay_well_formed [OF increment_built] by (simp add: increment_def)

text \<open>C21. What \<open>Context::define\<close> admits, and the context it returns.\<close>

theorem define_admits:
  "define_in \<Gamma> d = Inr \<Gamma>' \<longleftrightarrow>
     \<Gamma>' = \<Gamma> @ [d] \<and> lookup \<Gamma> (def_id d) = None \<and>
     (\<forall>\<tau> \<in> set (parameters d). is_supported \<tau>) \<and> is_supported (result d) \<and>
     has_type \<Gamma> (parameters d) (body d) (result d) \<and>
     height (body d) \<le> unat (max_term_depth default_limits)"
  by (rule define_in_iff)

lemma define_admits_witness: "lookup [] (def_id increment) = None \<and> height (body increment) \<le> 512"
  using define_admits [of "[]" increment "[increment]"] increment_defined by (simp add: default_limits_def increment_def)

text \<open>C22. Later definitions are conservative: a proposition stated before them keeps its meaning.\<close>

theorem definitions_are_conservative:
  assumes "extends \<Gamma> \<Delta>" and "wf_prop \<Gamma> L p"
  shows "wf_prop \<Delta> L p \<and> (holds S (functions_of S \<Delta>) env p \<longleftrightarrow> holds S (functions_of S \<Gamma>) env p)"
  using extends_wf_prop [OF assms] extends_holds [OF assms] by blast

lemma definitions_are_conservative_witness:
  "holds one_object (functions_of one_object [increment]) [] byte_theorem"
proof -
  have "extends [] [increment]" using extends_define [OF extends_refl increment_defined] .
  moreover have "wf_prop [] [] byte_theorem" using check_accepts [OF byte_theorem_accepted] by simp
  ultimately show ?thesis
    using definitions_are_conservative [of "[]" "[increment]" "[]" byte_theorem one_object "[]"]
      check_sound [OF byte_theorem_accepted built_empty wf_one_object] by simp
qed



text \<open>C24. What the search finds, the kernel accepts: positions in order, multipliers positive, sums cancelled, splits and cases in place, within the default limits. The one way out is an overflow of the sums the kernel forms anew.\<close>

theorem found_certificates_pass:
  assumes "refute sys = Inr (Some c)" and "tidy_system sys" and "length (constraints sys) + 512 \<le> 2 ^ 32"
  shows "refutes sys c default_limits = Inr () \<or> refutes sys c default_limits = Inl combination_overflow"
  using assms by (rule refute_accepted)

lemma found_certificates_pass_witness:
  "refutes half_system half_certificate default_limits = Inr () \<or>
     refutes half_system half_certificate default_limits = Inl combination_overflow"
  using found_certificates_pass [OF half_refuted half_tidy] .

text \<open>C25. When the search returns a certificate, the system has no solution in the integers.\<close>

theorem found_certificates_refute:
  assumes "refute sys = Inr (Some c)" and "tidy_system sys" and "length (constraints sys) + 512 \<le> 2 ^ 32"
  shows "\<not> solves \<sigma> sys"
  using assms by (rule refute_sound)

lemma found_certificates_refute_witness: "\<not> solves (\<lambda>i. 0) half_system \<and> \<not> solves (\<lambda>i. 1) half_system"
  using found_certificates_refute [OF half_refuted half_tidy] by blast


text \<open>C27. Lexing loses nothing: each byte is in exactly one token, comment or directive, or is blank between them; every token has the text its span spells, and only the last is the end of the file.\<close>

theorem lexing_tiles:
  assumes "st = lex xs name"
  shows "(\<forall>i < length xs. covers (stream_pieces st) i = 1 \<or> (covers (stream_pieces st) i = 0 \<and> is_blank (xs ! i))) \<and>
     (\<forall>p \<in> set (stream_pieces st). span_end p \<le> length xs) \<and>
     apart (map tok_span (stream_tokens st)) \<and>
     (\<forall>t \<in> set (stream_tokens st). tok_text t = spelling xs (tok_span t)) \<and>
     (\<forall>t \<in> set (butlast (stream_tokens st)). tok_kind t \<noteq> EndOfFile \<and> 0 < span_length (tok_span t)) \<and>
     tok_kind (last (stream_tokens st)) = EndOfFile"
  using lex_tiles [OF assms] by blast

lemma lexing_tiles_witness:
  "tok_text (hd (stream_tokens unit_stream)) = spelling unit_text (tok_span (hd (stream_tokens unit_stream))) \<and>
     covers (stream_pieces unit_stream) 0 = 1"
proof -
  have t: "hd (stream_tokens unit_stream) \<in> set (stream_tokens unit_stream)" by code_simp
  have b: "0 < length unit_text" "\<not> is_blank (unit_text ! 0)" by code_simp+
  show ?thesis using lexing_tiles [OF unit_stream_def] t b by blast
qed



text \<open>C29. What erasure accepts is exactly the reference text, of which every byte is given on its own; anything else is reported.\<close>

theorem erasure_accepts_exactly_the_reference:
  assumes "st = lex xs name" and "erase st syn runtime e = ((kept, r), e')"
  shows "(preserved r \<longleftrightarrow>
       erases_to (erased_spans_of syn) (stream_directives st) (stream_text st) (expected_lowerings st syn) runtime) \<and>
     kept = runtime \<and> e' = (if preserved r then e else report erasure_diagnostic e)"
  using erase_outcome [OF lex_tiles(5) [OF assms(1)] assms(2)] by blast

lemma erasure_accepts_exactly_the_reference_witness:
  "\<not> erases_to (erased_spans_of unit_syntax) (stream_directives unit_stream) (stream_text unit_stream)
     (expected_lowerings unit_stream unit_syntax) unit_text"
proof -
  obtain r where r: "erase unit_stream unit_syntax unit_text empty_engine = ((unit_text, r), report erasure_diagnostic empty_engine)"
    "\<not> preserved r"
  proof
    show "erase unit_stream unit_syntax unit_text empty_engine =
        ((unit_text, snd (fst (erase unit_stream unit_syntax unit_text empty_engine))), report erasure_diagnostic empty_engine)"
      by code_simp
    show "\<not> preserved (snd (fst (erase unit_stream unit_syntax unit_text empty_engine)))" by code_simp
  qed
  show ?thesis using erasure_accepts_exactly_the_reference [OF unit_stream_def r(1)] r(2) by blast
qed

text \<open>C30. What the projector writes, the erasure check accepts: the two, each with its own algorithm, agree on the runtime program.\<close>

theorem projected_programs_are_accepted:
  assumes "st = lex xs name" and "\<forall>v \<in> set (validations syn). \<not> refused_validation syn v"
    and "within_text (erased_spans_of syn) (stream_text st)"
    and "placed_from (erased_spans_of syn) (stream_text st) (expected_lowerings st syn) 0"
    and "\<forall>l \<in> set (expected_lowerings st syn). fits (stream_text st) l"
    and "erase st syn (runtime_text st syn) e = ((kept, r), e')"
  shows "preserved r \<and> e' = e \<and> kept = runtime_text st syn"
proof -
  note ds = lex_tiles(5) [OF assms(1)]
  show ?thesis
    using erase_outcome [OF ds assms(6)] projection_erases [OF ds assms(2-5)] by auto
qed

lemma projected_programs_are_accepted_witness:
  "snd (erase unit_stream unit_syntax (runtime_text unit_stream unit_syntax) empty_engine) = empty_engine"
proof -
  let ?o = "erase unit_stream unit_syntax (runtime_text unit_stream unit_syntax) empty_engine"
  have o: "?o = ((fst (fst ?o), snd (fst ?o)), snd ?o)" by simp
  have v: "\<forall>v \<in> set (validations unit_syntax). \<not> refused_validation unit_syntax v" by code_simp
  have w: "within_text (erased_spans_of unit_syntax) (stream_text unit_stream)" by code_simp
  have p: "placed_from (erased_spans_of unit_syntax) (stream_text unit_stream) (expected_lowerings unit_stream unit_syntax) 0"
    by code_simp
  have f: "\<forall>l \<in> set (expected_lowerings unit_stream unit_syntax). fits (stream_text unit_stream) l" by code_simp
  show ?thesis using projected_programs_are_accepted [OF unit_stream_def v w p f o] by blast
qed




text \<open>C33. The spans that enclose a position, from the innermost out: those of the syntax that hold it, each inside the next and none twice, and each block that holds it is one of them.\<close>

theorem positions_are_enclosed_outward:
  assumes "\<forall>s \<in> set (enclosing syn i). \<forall>t \<in> set (enclosing syn i). inside s t \<or> inside t s"
  shows "sorted_wrt inside (enclosing syn i) \<and> distinct (enclosing syn i) \<and>
     (s \<in> set (enclosing syn i) \<longleftrightarrow> s \<in> set (spans_met syn) \<and> holds_position i s) \<and>
     (b \<in> set (blocks syn) \<longrightarrow> holds_position i (snd b) \<longrightarrow> snd b \<in> set (enclosing syn i))"
  using enclosing_chain [OF assms] enclosing_distinct [OF assms] set_enclosing blocks_enclosing by blast

lemma positions_are_enclosed_outward_witness: "sorted_wrt inside (enclosing unit_syntax 34)"
proof -
  have n: "\<forall>s \<in> set (enclosing unit_syntax 34). \<forall>t \<in> set (enclosing unit_syntax 34). inside s t \<or> inside t s"
    unfolding unit_encloses by code_simp
  show ?thesis using positions_are_enclosed_outward [OF n] by blast
qed

text \<open>C34. What is written is read back: sorted, each item once, and every entry with the identity it had.\<close>

theorem interfaces_round_trip:
  assumes "serialize r = Inr xs" and "digests_sized r"
  shows "parse xs = Inr (canonical_form r) \<and>
    map identify (if_entries (canonical_form r)) = map identify (sorted_entries r)"
  using serialized_is_read [OF assms] by (simp add: canonical_form_def identify_canonical)

lemma interfaces_round_trip_witness:
  "parse (interface_text written_interface) = Inr written_interface"
  using interfaces_round_trip [OF collected_written collected_sized] unfolding collected_canonical by (rule conjunct1)

text \<open>C35. Reading is strict: an accepted text is the one the writer makes of what was read.\<close>

theorem read_interfaces_are_canonical:
  assumes "parse xs = Inr r"
  shows "serialize r = Inr xs"
  using assms by (rule read_is_serialized)

lemma read_interfaces_are_canonical_witness:
  "serialize written_interface = Inr (interface_text written_interface)"
  by (rule read_interfaces_are_canonical [OF written_read])

text \<open>C36. The reader against its reference: it accepts the checksummed texts of complete, sorted, bounded interfaces and no others.\<close>

theorem accepted_interface_texts:
  "parse xs = Inr r \<longleftrightarrow>
     canonical_iface r \<and> list_all line_ok (body_fields r) \<and> xs = interface_text r \<and> length xs \<le> kMaxBytes"
  by (rule parse_iff)




text \<open>C39. What stands in scope follows from what was supposed: where every supposed premise, shifted past the binders since, is true, everything offered is.\<close>

theorem premises_entail_what_is_available:
  assumes "\<forall>(p, b) \<in> set hyps. holds S E env (shift_prop p (levels - b) 0)" and "(q, e) \<in> set (in_scope hyps levels)"
  shows "holds S E env q"
  using assms by (rule in_scope_holds)

lemma premises_entail_what_is_available_witness:
  "holds one_object (functions_of one_object []) [] (unit_equality 2)"
  by (rule premises_entail_what_is_available [OF sample_hypotheses_hold sample_available])

text \<open>C40. A motive filled with what it abstracts is the goal again, while indices stay within 32 bits.\<close>

theorem motives_are_filled:
  assumes "rewrite_context goal target = Some motive" and "scoped_prop n goal" and "scoped n target"
    and "n + connectives goal + 1 \<le> 2 ^ 32"
  shows "instantiate_prop motive target 0 = goal"
  using assms by (rule rewrite_context_filled)

lemma motives_are_filled_witness: "instantiate_prop sample_motive (Var 2) 0 = sample_goal"
  by (rule motives_are_filled [OF sample_rewrite, of 3]) (simp_all add: sample_goal_def)

end
